(* ===== verification/Prelude.thy ===== *)
theory Prelude
  imports Main "HOL-Library.Word" "HOL-Library.Signed_Division" "HOL-Library.Sublist"
begin

text \<open>
  What the component theories share: Go's byte strings and the parts of the packages
  \<open>strings\<close>, \<open>bytes\<close> and \<open>encoding/hex\<close> the sources call, results that carry an
  error, Go's 64-bit \<open>int\<close>, and the fact collections.

  A Go \<open>string\<close> is a sequence of bytes, which is what \<open>string\<close> (a list of 8-bit
  characters) is here; a \<open>[]byte\<close> is a list of 8-bit words. \<open>strings.ToLower\<close>,
  \<open>ToUpper\<close> and \<open>TrimSpace\<close> are modelled on ASCII: a byte above 127 is left alone.
\<close>

named_theorems go_string \<open>facts on Go's string functions\<close>
named_theorems go_result \<open>unfolding of the result combinators\<close>

section \<open>Results: a value or an error\<close>

type_synonym ('e, 'a) result = "'e + 'a"

definition and_then :: "('e, 'a) result \<Rightarrow> ('a \<Rightarrow> ('e, 'b) result) \<Rightarrow> ('e, 'b) result" where
  "and_then r f = (case r of Inl e \<Rightarrow> Inl e | Inr x \<Rightarrow> f x)"

definition guard_err :: "bool \<Rightarrow> 'e \<Rightarrow> ('e, 'b) result \<Rightarrow> ('e, 'b) result" where
  "guard_err b e k = (if b then Inl e else k)"

definition is_ok :: "('e, 'a) result \<Rightarrow> bool" where
  "is_ok r = (case r of Inl _ \<Rightarrow> False | Inr _ \<Rightarrow> True)"

lemma and_then_simps [simp, go_result]:
  "and_then (Inl e) f = Inl e" "and_then (Inr x) f = f x"
  by (simp_all add: and_then_def)

lemma and_then_Inr_iff [go_result]:
  "and_then r f = Inr y \<longleftrightarrow> (\<exists>x. r = Inr x \<and> f x = Inr y)"
  by (cases r) auto

lemma guard_err_simps [simp, go_result]:
  "guard_err True e k = Inl e" "guard_err False e k = k"
  by (simp_all add: guard_err_def)

lemma guard_err_Inr_iff [go_result]: "guard_err b e k = Inr y \<longleftrightarrow> \<not> b \<and> k = Inr y"
  by (simp add: guard_err_def)

lemma is_ok_simps [simp]: "\<not> is_ok (Inl e)" "is_ok (Inr x)"
  by (simp_all add: is_ok_def)

section \<open>Go integers\<close>

text \<open>Go's \<open>int\<close> and \<open>int64\<close> on a 64-bit platform wrap around; division truncates
  (\<open>sdiv\<close>, \<open>smod\<close> of the library).\<close>

definition wrap64 :: "int \<Rightarrow> int" where
  "wrap64 x = (x + 2 ^ 63) mod 2 ^ 64 - 2 ^ 63"

lemma wrap64_id: "- (2 ^ 63) \<le> x \<Longrightarrow> x < 2 ^ 63 \<Longrightarrow> wrap64 x = x"
  by (simp add: wrap64_def)

lemma wrap64_range: "- (2 ^ 63) \<le> wrap64 x \<and> wrap64 x < 2 ^ 63"
  by (simp add: wrap64_def)

section \<open>Bytes and characters\<close>

type_synonym byte = "8 word"
type_synonym bytes = "byte list"

definition byte_of :: "char \<Rightarrow> byte" where
  "byte_of c = word_of_nat (of_char c)"

definition char_of_byte :: "byte \<Rightarrow> char" where
  "char_of_byte b = char_of (unat b)"

text \<open>The conversions \<open>[]byte(s)\<close> and \<open>string(b)\<close>.\<close>

definition str_bytes :: "string \<Rightarrow> bytes" where
  "str_bytes s = map byte_of s"

definition bytes_str :: "bytes \<Rightarrow> string" where
  "bytes_str b = map char_of_byte b"

lemma char_of_byte_of [simp]: "char_of_byte (byte_of c) = c"
proof -
  have "(of_char c :: nat) < 256" by simp
  then have "unat (word_of_nat (of_char c) :: byte) = (of_char c :: nat)"
    by (simp add: unat_of_nat)
  then show ?thesis by (simp add: char_of_byte_def byte_of_def)
qed

lemma byte_of_char_of [simp]: "byte_of (char_of_byte b) = b"
proof -
  have "unat b < 2 ^ 8" using unsigned_less [of b] by simp
  then show ?thesis by (simp add: char_of_byte_def byte_of_def)
qed

lemma bytes_str_bytes [simp]: "bytes_str (str_bytes s) = s"
  by (simp add: bytes_str_def str_bytes_def comp_def)

lemma str_bytes_str [simp]: "str_bytes (bytes_str b) = b"
  by (simp add: bytes_str_def str_bytes_def comp_def)

lemma length_str_bytes [simp]: "length (str_bytes s) = length s"
  by (simp add: str_bytes_def)

lemma length_bytes_str [simp]: "length (bytes_str b) = length b"
  by (simp add: bytes_str_def)

lemma unat_byte_less: "unat (b :: byte) < 256"
  using unsigned_less [of b] by simp

lemma unat_byte_of_nat: "n < 256 \<Longrightarrow> unat (word_of_nat n :: byte) = n"
  by (simp add: unat_of_nat)

section \<open>ASCII classes and case\<close>

definition is_upper :: "char \<Rightarrow> bool" where
  "is_upper c \<longleftrightarrow> 65 \<le> (of_char c :: nat) \<and> (of_char c :: nat) \<le> 90"

definition is_lower :: "char \<Rightarrow> bool" where
  "is_lower c \<longleftrightarrow> 97 \<le> (of_char c :: nat) \<and> (of_char c :: nat) \<le> 122"

definition is_digit :: "char \<Rightarrow> bool" where
  "is_digit c \<longleftrightarrow> 48 \<le> (of_char c :: nat) \<and> (of_char c :: nat) \<le> 57"

definition is_space :: "char \<Rightarrow> bool" where
  "is_space c \<longleftrightarrow> (of_char c :: nat) = 32 \<or> (9 \<le> (of_char c :: nat) \<and> (of_char c :: nat) \<le> 13)"

definition char_lower :: "char \<Rightarrow> char" where
  "char_lower c = (if is_upper c then char_of ((of_char c :: nat) + 32) else c)"

definition char_upper :: "char \<Rightarrow> char" where
  "char_upper c = (if is_lower c then char_of ((of_char c :: nat) - 32) else c)"

definition strings_ToLower :: "string \<Rightarrow> string" where
  "strings_ToLower s = map char_lower s"

definition strings_ToUpper :: "string \<Rightarrow> string" where
  "strings_ToUpper s = map char_upper s"

definition strings_TrimSpace :: "string \<Rightarrow> string" where
  "strings_TrimSpace s = rev (dropWhile is_space (rev (dropWhile is_space s)))"

lemma of_char_char_of_small: "n < 256 \<Longrightarrow> (of_char (char_of n :: char) :: nat) = n"
  by simp

lemma char_lower_not_upper [simp]: "\<not> is_upper (char_lower c)"
  by (auto simp: char_lower_def is_upper_def of_char_char_of_small)

lemma char_upper_not_lower [simp]: "\<not> is_lower (char_upper c)"
  by (auto simp: char_upper_def is_lower_def of_char_char_of_small)

lemma char_lower_id: "\<not> is_upper c \<Longrightarrow> char_lower c = c"
  by (simp add: char_lower_def)

lemma ToLower_idem [simp, go_string]: "strings_ToLower (strings_ToLower s) = strings_ToLower s"
  by (simp add: strings_ToLower_def char_lower_id)

lemma length_ToLower [simp]: "length (strings_ToLower s) = length s"
  by (simp add: strings_ToLower_def)

lemma length_ToUpper [simp]: "length (strings_ToUpper s) = length s"
  by (simp add: strings_ToUpper_def)

definition bytes_ToLower :: "bytes \<Rightarrow> bytes" where
  "bytes_ToLower b = str_bytes (strings_ToLower (bytes_str b))"

definition bytes_ToUpper :: "bytes \<Rightarrow> bytes" where
  "bytes_ToUpper b = str_bytes (strings_ToUpper (bytes_str b))"

lemma length_bytes_ToLower [simp]: "length (bytes_ToLower b) = length b"
  by (simp add: bytes_ToLower_def)

lemma length_bytes_ToUpper [simp]: "length (bytes_ToUpper b) = length b"
  by (simp add: bytes_ToUpper_def)

lemma bytes_case_Nil [simp]: "bytes_ToUpper b = [] \<longleftrightarrow> b = []" "bytes_ToLower b = [] \<longleftrightarrow> b = []"
  by (metis length_0_conv length_bytes_ToUpper, metis length_0_conv length_bytes_ToLower)

section \<open>Searching and splitting\<close>

definition strings_HasPrefix :: "string \<Rightarrow> string \<Rightarrow> bool" where
  "strings_HasPrefix s p \<longleftrightarrow> length p \<le> length s \<and> take (length p) s = p"

definition strings_HasSuffix :: "string \<Rightarrow> string \<Rightarrow> bool" where
  "strings_HasSuffix s p \<longleftrightarrow> length p \<le> length s \<and> drop (length s - length p) s = p"

fun strings_Index :: "string \<Rightarrow> string \<Rightarrow> nat option" where
  "strings_Index [] sub = (if sub = [] then Some 0 else None)"
| "strings_Index (c # s) sub =
     (if strings_HasPrefix (c # s) sub then Some 0 else map_option Suc (strings_Index s sub))"

definition strings_Contains :: "string \<Rightarrow> string \<Rightarrow> bool" where
  "strings_Contains s sub \<longleftrightarrow> strings_Index s sub \<noteq> None"

lemma HasPrefix_iff [go_string]: "strings_HasPrefix s p \<longleftrightarrow> (\<exists>t. s = p @ t)"
  unfolding strings_HasPrefix_def
  by (metis append_eq_conv_conj append_take_drop_id length_append le_add1)

lemma HasPrefix_append [simp]: "strings_HasPrefix (p @ t) p"
  by (simp add: strings_HasPrefix_def)

lemma HasPrefix_refl [simp]: "strings_HasPrefix p p"
  by (simp add: strings_HasPrefix_def)

lemma HasSuffix_append [simp]: "strings_HasSuffix (t @ p) p"
  by (simp add: strings_HasSuffix_def)

lemma HasSuffix_iff [go_string]: "strings_HasSuffix s p \<longleftrightarrow> (\<exists>t. s = t @ p)"
proof
  assume "strings_HasSuffix s p"
  then have "s = take (length s - length p) s @ p"
    by (metis append_take_drop_id strings_HasSuffix_def)
  then show "\<exists>t. s = t @ p" ..
qed (auto simp: strings_HasSuffix_def)

lemma Index_Some [go_string]:
  "strings_Index s sub = Some i \<Longrightarrow> s = take i s @ sub @ drop (i + length sub) s"
proof (induction s arbitrary: i)
  case Nil
  then show ?case by (simp split: if_splits)
next
  case (Cons c s)
  show ?case
  proof (cases "strings_HasPrefix (c # s) sub")
    case True
    with Cons.prems have "i = 0" by simp
    moreover from True obtain t where "c # s = sub @ t" by (auto simp: HasPrefix_iff)
    ultimately show ?thesis by simp
  next
    case False
    with Cons.prems obtain j where j: "strings_Index s sub = Some j" "i = Suc j" by auto
    from Cons.IH [OF j(1)] j(2) show ?thesis by simp
  qed
qed

lemma Index_bound: "strings_Index s sub = Some i \<Longrightarrow> i + length sub \<le> length s"
  by (induction s arbitrary: i)
    (auto simp: strings_HasPrefix_def split: if_splits)

lemma Index_None_append:
  "strings_Index (a @ sub @ b) sub \<noteq> None"
proof (induction a)
  case Nil
  have "strings_HasPrefix (sub @ b) sub" by simp
  then show ?case by (cases "sub @ b") auto
next
  case (Cons c a)
  then show ?case by simp
qed

lemma Contains_iff [go_string]: "strings_Contains s sub \<longleftrightarrow> (\<exists>a b. s = a @ sub @ b)"
  unfolding strings_Contains_def using Index_Some Index_None_append by blast

text \<open>\<open>strings.Split(s, sep)\<close>; an empty separator explodes the string.\<close>

function split_on :: "string \<Rightarrow> string \<Rightarrow> string list" where
  "split_on s sep =
     (if sep = [] then map (\<lambda>c. [c]) s
      else case strings_Index s sep of
        None \<Rightarrow> [s]
      | Some i \<Rightarrow> take i s # split_on (drop (i + length sep) s) sep)"
  by pat_completeness auto
termination
proof (relation "measure (\<lambda>(s, sep). length s)", goal_cases)
  case (2 s sep i)
  then show ?case using Index_bound [of s sep i] by (cases sep) auto
qed simp

declare split_on.simps [simp del]

definition strings_Split :: "string \<Rightarrow> string \<Rightarrow> string list" where
  "strings_Split s sep = split_on s sep"

text \<open>\<open>strings.SplitN(s, sep, 2)\<close> for a non-empty separator.\<close>

definition strings_SplitN2 :: "string \<Rightarrow> string \<Rightarrow> string list" where
  "strings_SplitN2 s sep = (case strings_Index s sep of
     None \<Rightarrow> [s] | Some i \<Rightarrow> [take i s, drop (i + length sep) s])"

fun strings_Join :: "string list \<Rightarrow> string \<Rightarrow> string" where
  "strings_Join [] sep = []"
| "strings_Join [x] sep = x"
| "strings_Join (x # y # xs) sep = x @ sep @ strings_Join (y # xs) sep"

text \<open>\<open>strings.Replace(s, old, new, -1)\<close> and \<open>strings.Replace(s, old, new, 1)\<close> for a
  non-empty \<open>old\<close>.\<close>

definition strings_ReplaceAll :: "string \<Rightarrow> string \<Rightarrow> string \<Rightarrow> string" where
  "strings_ReplaceAll s old new = strings_Join (split_on s old) new"

definition strings_Replace1 :: "string \<Rightarrow> string \<Rightarrow> string \<Rightarrow> string" where
  "strings_Replace1 s old new = (case strings_Index s old of
     None \<Rightarrow> s | Some i \<Rightarrow> take i s @ new @ drop (i + length old) s)"

lemma split_on_nonempty [simp]: "sep \<noteq> [] \<Longrightarrow> split_on s sep \<noteq> []"
  by (subst split_on.simps) (simp split: option.split)

lemma Join_Cons: "xs \<noteq> [] \<Longrightarrow> strings_Join (x # xs) sep = x @ sep @ strings_Join xs sep"
  by (cases xs) auto

lemma Join_split_on [go_string]: "sep \<noteq> [] \<Longrightarrow> strings_Join (split_on s sep) sep = s"
proof (induction s sep rule: split_on.induct)
  case (1 s sep)
  show ?case
  proof (cases "strings_Index s sep")
    case None
    with 1 show ?thesis by (simp add: split_on.simps [of s])
  next
    case (Some i)
    with 1 show ?thesis
      by (simp add: split_on.simps [of s] Join_Cons Index_Some [OF Some, symmetric])
  qed
qed

lemma split_on_pieces: "sep \<noteq> [] \<Longrightarrow> last (split_on s sep) = p \<Longrightarrow> \<not> strings_Contains p sep"
proof (induction s sep rule: split_on.induct)
  case (1 s sep)
  then show ?case
    by (cases "strings_Index s sep")
      (auto simp: split_on.simps [of s] strings_Contains_def)
qed

lemma split_on_absent: "sep \<noteq> [] \<Longrightarrow> \<not> strings_Contains s sep \<Longrightarrow> split_on s sep = [s]"
  by (simp add: split_on.simps [of s] strings_Contains_def)

lemma Join_snoc: "xs \<noteq> [] \<Longrightarrow> strings_Join (xs @ [x]) sep = strings_Join xs sep @ sep @ x"
  by (induction xs sep rule: strings_Join.induct) auto

lemma SplitN2_Join: "strings_Join (strings_SplitN2 s sep) sep = s"
  by (auto simp: strings_SplitN2_def Index_Some [symmetric] split: option.split)

end
