(* ===== verification/Aes.thy ===== *)
theory Aes
  imports Prelude
begin

text \<open>
  The block function of Go's \<open>crypto/aes\<close> (FIPS 197), which \<open>crypto/aesCBC.go\<close> gets
  from \<open>aes.NewCipher\<close>: key schedule for 16, 24 and 32 byte keys, encryption and
  decryption of one 16-byte block, and the lemma that decryption undoes encryption under
  any schedule. It is the standard library's code, so no definition here is mapped to
  \<open>src/\<close>; having it concrete keeps the theorems on the cipher modes free of hypotheses.
\<close>

unbundle bit_operations_syntax

section \<open>The S-box and its inverse\<close>

definition sbox_table :: "byte list" where
  "sbox_table =
    [99, 124, 119, 123, 242, 107, 111, 197, 48, 1, 103, 43, 254, 215, 171, 118,
     202, 130, 201, 125, 250, 89, 71, 240, 173, 212, 162, 175, 156, 164, 114, 192,
     183, 253, 147, 38, 54, 63, 247, 204, 52, 165, 229, 241, 113, 216, 49, 21,
     4, 199, 35, 195, 24, 150, 5, 154, 7, 18, 128, 226, 235, 39, 178, 117,
     9, 131, 44, 26, 27, 110, 90, 160, 82, 59, 214, 179, 41, 227, 47, 132,
     83, 209, 0, 237, 32, 252, 177, 91, 106, 203, 190, 57, 74, 76, 88, 207,
     208, 239, 170, 251, 67, 77, 51, 133, 69, 249, 2, 127, 80, 60, 159, 168,
     81, 163, 64, 143, 146, 157, 56, 245, 188, 182, 218, 33, 16, 255, 243, 210,
     205, 12, 19, 236, 95, 151, 68, 23, 196, 167, 126, 61, 100, 93, 25, 115,
     96, 129, 79, 220, 34, 42, 144, 136, 70, 238, 184, 20, 222, 94, 11, 219,
     224, 50, 58, 10, 73, 6, 36, 92, 194, 211, 172, 98, 145, 149, 228, 121,
     231, 200, 55, 109, 141, 213, 78, 169, 108, 86, 244, 234, 101, 122, 174, 8,
     186, 120, 37, 46, 28, 166, 180, 198, 232, 221, 116, 31, 75, 189, 139, 138,
     112, 62, 181, 102, 72, 3, 246, 14, 97, 53, 87, 185, 134, 193, 29, 158,
     225, 248, 152, 17, 105, 217, 142, 148, 155, 30, 135, 233, 206, 85, 40, 223,
     140, 161, 137, 13, 191, 230, 66, 104, 65, 153, 45, 15, 176, 84, 187, 22]"

definition inv_sbox_table :: "byte list" where
  "inv_sbox_table =
    [82, 9, 106, 213, 48, 54, 165, 56, 191, 64, 163, 158, 129, 243, 215, 251,
     124, 227, 57, 130, 155, 47, 255, 135, 52, 142, 67, 68, 196, 222, 233, 203,
     84, 123, 148, 50, 166, 194, 35, 61, 238, 76, 149, 11, 66, 250, 195, 78,
     8, 46, 161, 102, 40, 217, 36, 178, 118, 91, 162, 73, 109, 139, 209, 37,
     114, 248, 246, 100, 134, 104, 152, 22, 212, 164, 92, 204, 93, 101, 182, 146,
     108, 112, 72, 80, 253, 237, 185, 218, 94, 21, 70, 87, 167, 141, 157, 132,
     144, 216, 171, 0, 140, 188, 211, 10, 247, 228, 88, 5, 184, 179, 69, 6,
     208, 44, 30, 143, 202, 63, 15, 2, 193, 175, 189, 3, 1, 19, 138, 107,
     58, 145, 17, 65, 79, 103, 220, 234, 151, 242, 207, 206, 240, 180, 230, 115,
     150, 172, 116, 34, 231, 173, 53, 133, 226, 249, 55, 232, 28, 117, 223, 110,
     71, 241, 26, 113, 29, 41, 197, 137, 111, 183, 98, 14, 170, 24, 190, 27,
     252, 86, 62, 75, 198, 210, 121, 32, 154, 219, 192, 254, 120, 205, 90, 244,
     31, 221, 168, 51, 136, 7, 199, 49, 177, 18, 16, 89, 39, 128, 236, 95,
     96, 81, 127, 169, 25, 181, 74, 13, 45, 229, 122, 159, 147, 201, 156, 239,
     160, 224, 59, 77, 174, 42, 245, 176, 200, 235, 187, 60, 131, 83, 153, 97,
     23, 43, 4, 126, 186, 119, 214, 38, 225, 105, 20, 99, 85, 33, 12, 125]"

definition sbox :: "byte \<Rightarrow> byte" where
  "sbox b = sbox_table ! unat b"

definition inv_sbox :: "byte \<Rightarrow> byte" where
  "inv_sbox b = inv_sbox_table ! unat b"

lemma sbox_table_inverse:
  "map (\<lambda>b. inv_sbox_table ! unat b) sbox_table = map word_of_nat [0..<256]"
  by code_simp

lemma length_sbox_table: "length sbox_table = 256"
  by (simp add: sbox_table_def)

lemma inv_sbox_sbox [simp]: "inv_sbox (sbox b) = b"
proof -
  have b: "unat b < 256" using unsigned_less [of b] by simp
  have "inv_sbox (sbox b) = map (\<lambda>b. inv_sbox_table ! unat b) sbox_table ! unat b"
    using b by (simp add: inv_sbox_def sbox_def length_sbox_table)
  also have "\<dots> = map word_of_nat [0..<256] ! unat b" by (simp only: sbox_table_inverse)
  also have "\<dots> = b" using b by simp
  finally show ?thesis .
qed

section \<open>The four round transformations\<close>

definition xor_bytes :: "bytes \<Rightarrow> bytes \<Rightarrow> bytes" where
  "xor_bytes a b = map2 (XOR) a b"

definition shift_rows :: "bytes \<Rightarrow> bytes" where
  "shift_rows s = map ((!) s) [0, 5, 10, 15, 4, 9, 14, 3, 8, 13, 2, 7, 12, 1, 6, 11]"

definition inv_shift_rows :: "bytes \<Rightarrow> bytes" where
  "inv_shift_rows s = map ((!) s) [0, 13, 10, 7, 4, 1, 14, 11, 8, 5, 2, 15, 12, 9, 6, 3]"

definition xtime :: "byte \<Rightarrow> byte" where
  "xtime b = push_bit 1 b XOR (if bit b 7 then 27 else 0)"

fun mix_columns :: "bytes \<Rightarrow> bytes" where
  "mix_columns (a # b # c # d # s) =
     (xtime a XOR (xtime b XOR b) XOR c XOR d)
   # (a XOR xtime b XOR (xtime c XOR c) XOR d)
   # (a XOR b XOR xtime c XOR (xtime d XOR d))
   # ((xtime a XOR a) XOR b XOR c XOR xtime d) # mix_columns s"
| "mix_columns s = s"

definition mul9 :: "byte \<Rightarrow> byte" where
  "mul9 b = xtime (xtime (xtime b)) XOR b"
definition mul11 :: "byte \<Rightarrow> byte" where
  "mul11 b = xtime (xtime (xtime b)) XOR xtime b XOR b"
definition mul13 :: "byte \<Rightarrow> byte" where
  "mul13 b = xtime (xtime (xtime b)) XOR xtime (xtime b) XOR b"
definition mul14 :: "byte \<Rightarrow> byte" where
  "mul14 b = xtime (xtime (xtime b)) XOR xtime (xtime b) XOR xtime b"

fun inv_mix_columns :: "bytes \<Rightarrow> bytes" where
  "inv_mix_columns (a # b # c # d # s) =
     (mul14 a XOR mul11 b XOR mul13 c XOR mul9 d)
   # (mul9 a XOR mul14 b XOR mul11 c XOR mul13 d)
   # (mul13 a XOR mul9 b XOR mul14 c XOR mul11 d)
   # (mul11 a XOR mul13 b XOR mul9 c XOR mul14 d) # inv_mix_columns s"
| "inv_mix_columns s = s"

lemma xtime_xor: "xtime (a XOR b) = xtime a XOR xtime b"
  by (rule bit_word_eqI) (auto simp: xtime_def bit_simps)

lemma xor_left_self [simp]: "(a :: byte) XOR (a XOR b) = b"
  by (simp flip: xor.assoc)

lemmas xor_ac = xor.assoc xor.commute xor.left_commute

lemma inv_mix_mix [simp]: "inv_mix_columns (mix_columns s) = s"
  by (induction s rule: mix_columns.induct)
    (simp_all add: mul9_def mul11_def mul13_def mul14_def xtime_xor xor_ac)

lemma xor_bytes_twice [simp]: "length s \<le> length k \<Longrightarrow> xor_bytes (xor_bytes s k) k = s"
  by (induction s k rule: list_induct2') (auto simp: xor_bytes_def xor.assoc)

lemma length_xor_bytes [simp]: "length (xor_bytes a b) = min (length a) (length b)"
  by (simp add: xor_bytes_def)

lemma length_mix_columns [simp]: "length (mix_columns s) = length s"
  by (induction s rule: mix_columns.induct) auto

lemma length_inv_mix_columns [simp]: "length (inv_mix_columns s) = length s"
  by (induction s rule: inv_mix_columns.induct) auto

lemma length_shift_rows [simp]: "length (shift_rows s) = 16"
  by (simp add: shift_rows_def)

lemma length_inv_shift_rows [simp]: "length (inv_shift_rows s) = 16"
  by (simp add: inv_shift_rows_def)

lemma inv_shift_shift [simp]:
  assumes "length s = 16"
  shows "inv_shift_rows (shift_rows s) = s"
proof -
  have "inv_shift_rows (shift_rows s) = map ((!) s) [0..<16]"
    by (simp add: inv_shift_rows_def shift_rows_def numeral_eq_Suc upt_rec)
  then show ?thesis using map_nth [of s] assms by simp
qed

section \<open>Rounds over a list of round keys\<close>

fun enc_rounds :: "bytes list \<Rightarrow> bytes \<Rightarrow> bytes" where
  "enc_rounds [] s = s"
| "enc_rounds [k] s = xor_bytes (shift_rows (map sbox s)) k"
| "enc_rounds (k # ks) s =
     enc_rounds ks (xor_bytes (mix_columns (shift_rows (map sbox s))) k)"

fun dec_rounds :: "bytes list \<Rightarrow> bytes \<Rightarrow> bytes" where
  "dec_rounds [] s = s"
| "dec_rounds [k] s = map inv_sbox (inv_shift_rows (xor_bytes s k))"
| "dec_rounds (k # ks) s =
     map inv_sbox (inv_shift_rows (inv_mix_columns (xor_bytes (dec_rounds ks s) k)))"

lemma length_enc_rounds:
  "length s = 16 \<Longrightarrow> (\<forall>k\<in>set ks. length k = 16) \<Longrightarrow> length (enc_rounds ks s) = 16"
  by (induction ks s rule: enc_rounds.induct) auto

lemma length_dec_rounds: "length s = 16 \<Longrightarrow> length (dec_rounds ks s) = 16"
  by (induction ks s rule: dec_rounds.induct) auto

lemma dec_enc_rounds:
  "length s = 16 \<Longrightarrow> (\<forall>k\<in>set ks. length k = 16) \<Longrightarrow> dec_rounds ks (enc_rounds ks s) = s"
  by (induction ks s rule: enc_rounds.induct) (auto simp: comp_def)

section \<open>Key schedule\<close>

definition rot_word :: "bytes \<Rightarrow> bytes" where
  "rot_word w = (case w of [] \<Rightarrow> [] | x # xs \<Rightarrow> xs @ [x])"

definition rcon :: "nat \<Rightarrow> bytes" where
  "rcon i = [(xtime ^^ (i - 1)) 1, 0, 0, 0]"

definition schedule_step :: "nat \<Rightarrow> bytes list \<Rightarrow> nat \<Rightarrow> bytes list" where
  "schedule_step nk ws i =
     (let t = ws ! (i - 1);
          t' = (if i mod nk = 0 then xor_bytes (map sbox (rot_word t)) (rcon (i div nk))
                else if 6 < nk \<and> i mod nk = 4 then map sbox t else t)
      in ws @ [xor_bytes (ws ! (i - nk)) t'])"

fun words4 :: "bytes \<Rightarrow> bytes list" where
  "words4 (a # b # c # d # s) = [a, b, c, d] # words4 s"
| "words4 s = []"

fun join4 :: "bytes list \<Rightarrow> bytes list" where
  "join4 (a # b # c # d # ws) = (a @ b @ c @ d) # join4 ws"
| "join4 ws = []"

definition round_keys :: "bytes \<Rightarrow> bytes list" where
  "round_keys key =
     (let nk = length key div 4
      in join4 (foldl (schedule_step nk) (words4 key) [nk ..< 4 * (nk + 7)]))"

definition all_len :: "nat \<Rightarrow> bytes list \<Rightarrow> bool" where
  "all_len n ws \<longleftrightarrow> (\<forall>w\<in>set ws. length w = n)"

lemma words4_len: "all_len 4 (words4 s)" "length (words4 s) = length s div 4"
  by (induction s rule: words4.induct) (auto simp: all_len_def)

lemma join4_len: "all_len 4 ws \<Longrightarrow> all_len 16 (join4 ws)"
  by (induction ws rule: join4.induct) (auto simp: all_len_def)

lemma schedule_step_len:
  assumes "all_len 4 ws" "length ws = i" "0 < nk" "nk \<le> i"
  shows "all_len 4 (schedule_step nk ws i)" "length (schedule_step nk ws i) = Suc i"
proof -
  have a: "length (ws ! (i - nk)) = 4" "length (ws ! (i - 1)) = 4"
    using assms by (auto simp: all_len_def)
  then have "length (rot_word (ws ! (i - 1))) = 4"
    by (cases "ws ! (i - 1)") (auto simp: rot_word_def)
  with a assms show "all_len 4 (schedule_step nk ws i)"
    by (auto simp: all_len_def schedule_step_def Let_def rcon_def)
  show "length (schedule_step nk ws i) = Suc i"
    using assms by (simp add: schedule_step_def Let_def)
qed

lemma schedule_len:
  "0 < nk \<Longrightarrow> nk \<le> i \<Longrightarrow> all_len 4 ws \<Longrightarrow> length ws = i
   \<Longrightarrow> all_len 4 (foldl (schedule_step nk) ws [i ..< i + n])"
proof (induction n arbitrary: i ws)
  case 0
  then show ?case by simp
next
  case (Suc n)
  have "[i ..< i + Suc n] = i # [Suc i ..< Suc i + n]"
    by (simp add: upt_rec)
  with Suc.IH [of "Suc i" "schedule_step nk ws i"] Suc.prems schedule_step_len [of ws i nk]
  show ?case by simp
qed

lemma round_keys_len:
  assumes "16 \<le> length key" "length key \<le> 32"
  shows "all_len 16 (round_keys key)"
proof -
  let ?nk = "length key div 4"
  have "all_len 4 (foldl (schedule_step ?nk) (words4 key) [?nk ..< ?nk + (3 * ?nk + 28)])"
    by (rule schedule_len) (use assms words4_len [of key] in auto)
  moreover have "?nk + (3 * ?nk + 28) = 4 * (?nk + 7)" by simp
  ultimately show ?thesis unfolding round_keys_def Let_def by (metis join4_len)
qed

section \<open>One block\<close>

definition aes_encrypt_block :: "bytes \<Rightarrow> bytes \<Rightarrow> bytes" where
  "aes_encrypt_block key s = (case round_keys key of
     [] \<Rightarrow> s | k # ks \<Rightarrow> enc_rounds ks (xor_bytes s k))"

definition aes_decrypt_block :: "bytes \<Rightarrow> bytes \<Rightarrow> bytes" where
  "aes_decrypt_block key s = (case round_keys key of
     [] \<Rightarrow> s | k # ks \<Rightarrow> xor_bytes (dec_rounds ks s) k)"

text \<open>\<open>aes.NewCipher\<close> accepts keys of 16, 24 and 32 bytes.\<close>

definition aes_key_ok :: "bytes \<Rightarrow> bool" where
  "aes_key_ok key \<longleftrightarrow> length key \<in> {16, 24, 32}"

lemma aes_block_roundtrip:
  assumes "aes_key_ok key" "length s = 16"
  shows "aes_decrypt_block key (aes_encrypt_block key s) = s"
    and "length (aes_encrypt_block key s) = 16"
proof -
  have all: "all_len 16 (round_keys key)"
    using assms by (intro round_keys_len) (auto simp: aes_key_ok_def)
  then show "aes_decrypt_block key (aes_encrypt_block key s) = s"
    and "length (aes_encrypt_block key s) = 16"
    using assms by (auto simp: aes_decrypt_block_def aes_encrypt_block_def all_len_def
        dec_enc_rounds length_enc_rounds split: list.split)
qed

text \<open>The known answer of FIPS 197, appendix C.1.\<close>

lemma fips197_c1:
  "aes_encrypt_block [0, 1, 2, 3, 4, 5, 6, 7, 8, 9, 10, 11, 12, 13, 14, 15]
     [0, 17, 34, 51, 68, 85, 102, 119, 136, 153, 170, 187, 204, 221, 238, 255] =
   [105, 196, 224, 216, 106, 123, 4, 48, 216, 205, 183, 128, 112, 180, 197, 90]"
  by code_simp

end
