(* ===== verification/Aes_Cbc.thy ===== *)
theory Aes_Cbc
  imports Prelude Aes
begin

text \<open>
  \<open>crypto/aesCBC.go\<close>: AES in CBC mode with PKCS#5 padding and a hex or raw-URL base64
  text form. The standard library's \<open>encoding/hex\<close>, \<open>encoding/base64\<close> and the CBC
  modes of \<open>crypto/cipher\<close> are modelled first, then one definition per function of the
  file. \<open>rand.Reader\<close> is an argument: the result of reading the 16 bytes of the
  initialisation vector.
\<close>

section \<open>encoding/hex\<close>

datatype aes_error =
    KeySizeError | TooShort | NotMultiple | HexError | Base64Error
  | PadEmpty | PadInvalid | PadRemove | RandError

definition hex_digit :: "nat \<Rightarrow> byte" where
  "hex_digit n = (if n < 10 then word_of_nat (48 + n) else word_of_nat (87 + n))"

definition hex_val :: "byte \<Rightarrow> nat option" where
  "hex_val b =
     (let n = unat b in
      if 48 \<le> n \<and> n \<le> 57 then Some (n - 48)
      else if 97 \<le> n \<and> n \<le> 102 then Some (n - 87)
      else if 65 \<le> n \<and> n \<le> 70 then Some (n - 55) else None)"

definition hex_Encode :: "bytes \<Rightarrow> bytes" where
  "hex_Encode src = concat (map (\<lambda>b. [hex_digit (unat b div 16), hex_digit (unat b mod 16)]) src)"

fun hex_Decode :: "bytes \<Rightarrow> (aes_error, bytes) result" where
  "hex_Decode [] = Inr []"
| "hex_Decode [a] = Inl HexError"
| "hex_Decode (a # b # s) = (case (hex_val a, hex_val b) of
     (Some x, Some y) \<Rightarrow> and_then (hex_Decode s) (\<lambda>r. Inr (word_of_nat (16 * x + y) # r))
   | _ \<Rightarrow> Inl HexError)"

section \<open>encoding/base64, RawURLEncoding\<close>

definition b64_digit :: "nat \<Rightarrow> byte" where
  "b64_digit n = word_of_nat
     (if n < 26 then 65 + n else if n < 52 then 71 + n else if n < 62 then n - 4
      else if n = 62 then 45 else 95)"

definition b64_val :: "byte \<Rightarrow> nat option" where
  "b64_val b =
     (let n = unat b in
      if 65 \<le> n \<and> n \<le> 90 then Some (n - 65)
      else if 97 \<le> n \<and> n \<le> 122 then Some (n - 71)
      else if 48 \<le> n \<and> n \<le> 57 then Some (n + 4)
      else if n = 45 then Some 62 else if n = 95 then Some 63 else None)"

fun b64_sextets :: "nat list \<Rightarrow> nat list" where
  "b64_sextets (a # b # c # s) =
     (a div 4) # ((a mod 4) * 16 + b div 16) # ((b mod 16) * 4 + c div 64) # (c mod 64)
     # b64_sextets s"
| "b64_sextets [a, b] = [a div 4, (a mod 4) * 16 + b div 16, (b mod 16) * 4]"
| "b64_sextets [a] = [a div 4, (a mod 4) * 16]"
| "b64_sextets [] = []"

fun b64_octets :: "nat list \<Rightarrow> (aes_error, nat list) result" where
  "b64_octets (w # x # y # z # s) = and_then (b64_octets s) (\<lambda>r. Inr
     ((w * 4 + x div 16) # ((x mod 16) * 16 + y div 4) # ((y mod 4) * 64 + z) # r))"
| "b64_octets [w, x, y] = Inr [w * 4 + x div 16, (x mod 16) * 16 + y div 4]"
| "b64_octets [w, x] = Inr [w * 4 + x div 16]"
| "b64_octets [w] = Inl Base64Error"
| "b64_octets [] = Inr []"

fun b64_vals :: "bytes \<Rightarrow> (aes_error, nat list) result" where
  "b64_vals [] = Inr []"
| "b64_vals (b # s) = (case b64_val b of
     None \<Rightarrow> Inl Base64Error | Some v \<Rightarrow> and_then (b64_vals s) (\<lambda>r. Inr (v # r)))"

definition b64_Encode :: "bytes \<Rightarrow> bytes" where
  "b64_Encode src = map b64_digit (b64_sextets (map unat src))"

text \<open>The decoder skips carriage returns and line feeds; its last group may be short, and
  the unused low bits of a short group are ignored (the encoding is not strict).\<close>

definition b64_Decode :: "bytes \<Rightarrow> (aes_error, bytes) result" where
  "b64_Decode src =
     and_then (b64_vals (filter (\<lambda>b. b \<noteq> 10 \<and> b \<noteq> 13) src)) (\<lambda>vs.
     and_then (b64_octets vs) (\<lambda>os. Inr (map word_of_nat os)))"

section \<open>The CBC modes of crypto/cipher\<close>

function cbc_encrypt :: "bytes \<Rightarrow> bytes \<Rightarrow> bytes \<Rightarrow> bytes" where
  "cbc_encrypt key iv p =
     (if length p < 16 then []
      else let c = aes_encrypt_block key (xor_bytes (take 16 p) iv)
           in c @ cbc_encrypt key c (drop 16 p))"
  by pat_completeness auto
termination by (relation "measure (\<lambda>(key, iv, p). length p)") auto

function cbc_decrypt :: "bytes \<Rightarrow> bytes \<Rightarrow> bytes \<Rightarrow> bytes" where
  "cbc_decrypt key iv c =
     (if length c < 16 then []
      else xor_bytes (aes_decrypt_block key (take 16 c)) iv
           @ cbc_decrypt key (take 16 c) (drop 16 c))"
  by pat_completeness auto
termination by (relation "measure (\<lambda>(key, iv, c). length c)") auto

declare cbc_encrypt.simps [simp del] cbc_decrypt.simps [simp del]

section \<open>The functions of aesCBC.go\<close>

definition OneBool :: "bool list \<Rightarrow> bool" where
  "OneBool b = (if 0 < length b then b ! 0 else False)"

definition base64Decode :: "bytes \<Rightarrow> (aes_error, bytes) result" where
  "base64Decode src = b64_Decode src"

definition base64Encode :: "bytes \<Rightarrow> bytes" where
  "base64Encode src = b64_Encode src"

definition hexDecode :: "bytes \<Rightarrow> (aes_error, bytes) result" where
  "hexDecode src = hex_Decode (bytes_ToLower src)"

definition hexEncode :: "bytes \<Rightarrow> bytes" where
  "hexEncode src = bytes_ToUpper (hex_Encode src)"

definition crypto_decode :: "bytes \<Rightarrow> bool list \<Rightarrow> (aes_error, bytes) result" where
  "crypto_decode src useBase64 = (if OneBool useBase64 then base64Decode src else hexDecode src)"

definition crypto_encode :: "bytes \<Rightarrow> bool list \<Rightarrow> bytes" where
  "crypto_encode src useBase64 = (if OneBool useBase64 then base64Encode src else hexEncode src)"

definition pkcs5Padding :: "bytes \<Rightarrow> nat \<Rightarrow> bytes" where
  "pkcs5Padding plaintext blockSize =
     (let n = (word_of_nat (blockSize - length plaintext mod blockSize) :: byte)
      in plaintext @ replicate (unat n) n)"

definition pkcs5UnPadding :: "bytes \<Rightarrow> (aes_error, bytes) result" where
  "pkcs5UnPadding r =
     (let l = length r in
      if l = 0 then Inl PadEmpty
      else let last = unat (r ! (l - 1)) in
        if l < last then Inl PadInvalid
        else let n = r ! (l - 1); pad = drop (l - last) r in
          if \<not> (\<forall>v\<in>set pad. v = n) then Inl PadRemove
          else Inr (take (l - last) r))"

definition AESCBCDecrypt :: "bytes \<Rightarrow> bytes \<Rightarrow> bool list \<Rightarrow> (aes_error, bytes) result" where
  "AESCBCDecrypt cipherKey ciphertext useBase64 =
     and_then (crypto_decode ciphertext useBase64) (\<lambda>ct.
     guard_err (length ct < 16) TooShort
     (let iv = take 16 ct; ct' = drop 16 ct in
      guard_err (length ct' mod 16 \<noteq> 0) NotMultiple
      (guard_err (\<not> aes_key_ok cipherKey) KeySizeError
       (pkcs5UnPadding (cbc_decrypt cipherKey iv ct')))))"

definition AESCBCEncrypt ::
  "(aes_error, bytes) result \<Rightarrow> bytes \<Rightarrow> bytes \<Rightarrow> bool list \<Rightarrow> (aes_error, bytes) result" where
  "AESCBCEncrypt rand16 cipherKey plaintext useBase64 =
     guard_err (\<not> aes_key_ok cipherKey) KeySizeError
     (let plain = pkcs5Padding plaintext 16 in
      and_then rand16 (\<lambda>iv.
      Inr (crypto_encode (iv @ cbc_encrypt cipherKey iv plain) useBase64)))"

section \<open>Text forms round trip\<close>

lemma unat_hex_digit: "n < 16 \<Longrightarrow> unat (hex_digit n) = (if n < 10 then 48 + n else 87 + n)"
  unfolding hex_digit_def by (auto simp del: of_nat_add simp: unat_byte_of_nat)

lemma hex_digit_val: "n < 16 \<Longrightarrow> hex_val (hex_digit n) = Some n"
  by (simp add: hex_val_def unat_hex_digit Let_def)

lemma hex_Decode_Encode: "hex_Decode (hex_Encode s) = Inr s"
proof (induction s)
  case Nil
  then show ?case by (simp add: hex_Encode_def)
next
  case (Cons b s)
  have "unat b div 16 < 16" "unat b mod 16 < 16" using unat_byte_less [of b] by auto
  with Cons show ?case by (simp add: hex_Encode_def hex_digit_val)
qed

definition upper_byte :: "byte \<Rightarrow> byte" where
  "upper_byte b = byte_of (char_upper (char_of_byte b))"

definition lower_byte :: "byte \<Rightarrow> byte" where
  "lower_byte b = byte_of (char_lower (char_of_byte b))"

lemma bytes_case_map:
  "bytes_ToUpper b = map upper_byte b" "bytes_ToLower b = map lower_byte b"
  by (simp_all add: bytes_ToUpper_def bytes_ToLower_def str_bytes_def bytes_str_def
      strings_ToUpper_def strings_ToLower_def upper_byte_def lower_byte_def)

lemma of_char_of_byte: "(of_char (char_of_byte b) :: nat) = unat b"
  using unat_byte_less [of b] by (simp add: char_of_byte_def)

lemma upper_byte_eq:
  "upper_byte b = (if 97 \<le> unat b \<and> unat b \<le> 122 then word_of_nat (unat b - 32) else b)"
  using unat_byte_less [of b]
  by (auto simp: upper_byte_def char_upper_def is_lower_def of_char_of_byte byte_of_def)

lemma lower_byte_eq:
  "lower_byte b = (if 65 \<le> unat b \<and> unat b \<le> 90 then word_of_nat (unat b + 32) else b)"
  using unat_byte_less [of b]
  by (auto simp: lower_byte_def char_lower_def is_upper_def of_char_of_byte byte_of_def)

lemma lower_upper_hex: "n < 16 \<Longrightarrow> lower_byte (upper_byte (hex_digit n)) = hex_digit n"
  unfolding word_unat_eq_iff
  by (auto simp: lower_byte_eq upper_byte_eq unat_hex_digit unat_byte_of_nat
      simp del: of_nat_add of_nat_diff)

lemma lower_upper_hex_Encode: "bytes_ToLower (bytes_ToUpper (hex_Encode s)) = hex_Encode s"
proof (induction s)
  case Nil
  then show ?case by (simp add: hex_Encode_def bytes_case_map)
next
  case (Cons b s)
  have "unat b div 16 < 16" "unat b mod 16 < 16" using unat_byte_less [of b] by auto
  with Cons show ?case by (simp add: hex_Encode_def bytes_case_map lower_upper_hex)
qed

lemma unat_b64_digit: "n < 64 \<Longrightarrow> unat (b64_digit n) =
    (if n < 26 then 65 + n else if n < 52 then 71 + n else if n < 62 then n - 4
     else if n = 62 then 45 else 95)"
  unfolding b64_digit_def by (rule unat_byte_of_nat) auto

lemma b64_digit_val: "n < 64 \<Longrightarrow> b64_val (b64_digit n) = Some n"
  by (auto simp add: b64_val_def unat_b64_digit Let_def)

lemma b64_digit_visible: "n < 64 \<Longrightarrow> b64_digit n \<noteq> 10 \<and> b64_digit n \<noteq> 13"
  using unat_b64_digit [of n] by (auto split: if_splits)

lemma b64_sextets_small: "\<forall>x\<in>set xs. x < 256 \<Longrightarrow> \<forall>x\<in>set (b64_sextets xs). x < 64"
  by (induction xs rule: b64_sextets.induct) auto

lemma octet_arith:
  "(b :: nat) < 256 \<Longrightarrow> b div 16 div 16 = 0"
  "(b :: nat) < 256 \<Longrightarrow> b div 16 mod 16 = b div 16"
  "(b :: nat) < 256 \<Longrightarrow> b div 64 div 4 = 0"
  "(b :: nat) < 256 \<Longrightarrow> b div 64 mod 4 = b div 64"
  by (simp_all add: less_mult_imp_div_less)

lemma b64_octets_sextets: "\<forall>x\<in>set xs. x < 256 \<Longrightarrow> b64_octets (b64_sextets xs) = Inr xs"
  by (induction xs rule: b64_sextets.induct) (simp_all add: octet_arith)

lemma b64_vals_digits:
  "\<forall>x\<in>set xs. x < 64 \<Longrightarrow>
   b64_vals (map b64_digit xs) = Inr xs \<and>
   filter (\<lambda>b. b \<noteq> 10 \<and> b \<noteq> 13) (map b64_digit xs) = map b64_digit xs"
  by (induction xs) (simp_all add: b64_digit_val b64_digit_visible)

lemma b64_Decode_Encode: "b64_Decode (b64_Encode s) = Inr s"
proof -
  have small: "\<forall>x\<in>set (map unat s). x < 256" by (simp add: unat_byte_less)
  note v = b64_vals_digits [OF b64_sextets_small [OF small]]
  have "b64_vals (filter (\<lambda>b. b \<noteq> 10 \<and> b \<noteq> 13) (b64_Encode s)) = Inr (b64_sextets (map unat s))"
    using v by (simp only: b64_Encode_def) 
  with b64_octets_sextets [OF small] show ?thesis
    by (simp add: b64_Decode_def comp_def)
qed

lemma crypto_decode_encode [simp]: "crypto_decode (crypto_encode s b) b = Inr s"
  by (simp add: crypto_decode_def crypto_encode_def base64Decode_def base64Encode_def
      hexDecode_def hexEncode_def b64_Decode_Encode hex_Decode_Encode lower_upper_hex_Encode)

section \<open>Padding\<close>

lemma pkcs5_pad_eq:
  assumes "0 < k" "k \<le> 255"
  obtains n where "n = k - length p mod k" "0 < n" "n < 256"
    and "pkcs5Padding p k = p @ replicate n (word_of_nat n)"
proof -
  define n where "n = k - length p mod k"
  have n: "0 < n" "n < 256"
    using assms mod_less_divisor [of k "length p"] by (auto simp: n_def)
  have "pkcs5Padding p k = p @ replicate n (word_of_nat n)"
    using n by (simp add: pkcs5Padding_def n_def [symmetric] Let_def unat_byte_of_nat)
  with n that show ?thesis by (simp add: n_def)
qed

lemma pkcs5_pad_len:
  assumes "0 < k" "k \<le> 255"
  shows "length (pkcs5Padding p k) = length p + (k - length p mod k)"
  by (rule pkcs5_pad_eq [OF assms, of p]) simp

lemma nth_pad: "0 < n \<Longrightarrow> (p @ replicate n w) ! (length p + n - 1) = w"
  by (auto simp: nth_append)

lemma pkcs5_unpad_pad:
  assumes "0 < k" "k \<le> 255"
  shows "pkcs5UnPadding (pkcs5Padding p k) = Inr p"
proof (rule pkcs5_pad_eq [OF assms, of p])
  fix n assume n: "0 < n" "n < 256"
    and eq: "pkcs5Padding p k = p @ replicate n (word_of_nat n)"
  have "(p @ replicate n (word_of_nat n :: byte)) ! (length p + n - 1) = word_of_nat n"
    using n(1) by (rule nth_pad)
  then show ?thesis
    using n unfolding eq by (simp add: pkcs5UnPadding_def Let_def unat_byte_of_nat)
qed

section \<open>CBC decryption undoes encryption\<close>

lemma cbc_Nil [simp]: "cbc_encrypt key iv [] = []" "cbc_decrypt key iv [] = []"
  by (simp_all add: cbc_encrypt.simps [of key iv "[]"] cbc_decrypt.simps [of key iv "[]"])

lemma cbc_len: "aes_key_ok key \<Longrightarrow> length iv = 16 \<Longrightarrow> length p mod 16 = 0
    \<Longrightarrow> length (cbc_encrypt key iv p) = length p"
proof (induction key iv p rule: cbc_encrypt.induct)
  case (1 key iv p)
  show ?case
  proof (cases "length p < 16")
    case True
    with 1 show ?thesis by (simp add: cbc_encrypt.simps [of key iv p])
  next
    case False
    with 1 show ?thesis
      by (simp add: cbc_encrypt.simps [of key iv p] Let_def aes_block_roundtrip
          le_mod_geq)
  qed
qed

lemma cbc_roundtrip: "aes_key_ok key \<Longrightarrow> length iv = 16 \<Longrightarrow> length p mod 16 = 0
    \<Longrightarrow> cbc_decrypt key iv (cbc_encrypt key iv p) = p"
proof (induction key iv p rule: cbc_encrypt.induct)
  case (1 key iv p)
  show ?case
  proof (cases "length p < 16")
    case True
    with 1 show ?thesis
      by (simp add: cbc_encrypt.simps [of key iv p] cbc_decrypt.simps [of key iv "[]"])
  next
    case False
    let ?c = "aes_encrypt_block key (xor_bytes (take 16 p) iv)"
    have c: "length ?c = 16" using 1 False by (simp add: aes_block_roundtrip)
    have "cbc_decrypt key ?c (cbc_encrypt key ?c (drop 16 p)) = drop 16 p"
      using 1 False c by (simp add: le_mod_geq)
    with c False 1 show ?thesis
      by (simp add: cbc_encrypt.simps [of key iv p] cbc_decrypt.simps [of key iv "?c @ _"]
          Let_def aes_block_roundtrip)
  qed
qed

lemma AESCBC_decrypts_own:
  assumes "aes_key_ok key" and "length iv = 16"
  shows "\<exists>ct. AESCBCEncrypt (Inr iv) key pt useBase64 = Inr ct \<and>
              AESCBCDecrypt key ct useBase64 = Inr pt"
proof -
  let ?p = "pkcs5Padding pt 16"
  have m: "length ?p mod 16 = 0" by (simp add: pkcs5_pad_len) presburger
  from assms m have "cbc_decrypt key iv (cbc_encrypt key iv ?p) = ?p"
    and "length (cbc_encrypt key iv ?p) = length ?p" by (simp_all add: cbc_roundtrip cbc_len)
  with assms m show ?thesis
    by (simp add: AESCBCEncrypt_def AESCBCDecrypt_def Let_def pkcs5_unpad_pad)
qed

text \<open>C7: Decrypting what AESCBCEncrypt produced, under the same key and in the same text
  form (hex or raw-URL base64), gives back the plaintext, for every key length the cipher
  accepts, every plaintext and every initialisation vector the random source delivers.\<close>
theorem AESCBC_roundtrip:
  assumes "aes_key_ok key" and "length iv = 16"
  shows "\<exists>ct. AESCBCEncrypt (Inr iv) key pt useBase64 = Inr ct \<and>
              AESCBCDecrypt key ct useBase64 = Inr pt"
  using assms by (rule AESCBC_decrypts_own)

theorem AESCBC_roundtrip_witness:
  "\<exists>ct. AESCBCEncrypt (Inr (replicate 16 7)) (replicate 24 9) [1, 2, 3] [True] = Inr ct \<and>
        AESCBCDecrypt (replicate 24 9) ct [True] = Inr [1, 2, 3]"
  by (rule AESCBC_roundtrip) (simp_all add: aes_key_ok_def)

lemma aes_decrypt_block_len:
  assumes "aes_key_ok key" "length s = 16"
  shows "length (aes_decrypt_block key s) = 16"
proof -
  have "all_len 16 (round_keys key)"
    using assms by (intro round_keys_len) (auto simp: aes_key_ok_def)
  with assms show ?thesis
    by (auto simp: aes_decrypt_block_def all_len_def length_dec_rounds split: list.split)
qed

lemma cbc_decrypt_len: "aes_key_ok key \<Longrightarrow> length iv = 16 \<Longrightarrow> length c mod 16 = 0
    \<Longrightarrow> length (cbc_decrypt key iv c) = length c"
proof (induction key iv c rule: cbc_decrypt.induct)
  case (1 key iv c)
  show ?case
  proof (cases "length c < 16")
    case True
    with 1 show ?thesis by (simp add: cbc_decrypt.simps [of key iv c])
  next
    case False
    with 1 show ?thesis
      by (simp add: cbc_decrypt.simps [of key iv c] aes_decrypt_block_len le_mod_geq)
  qed
qed

lemma pkcs5_unpad_ok:
  assumes "pkcs5UnPadding r = Inr pt"
  shows "0 < length r" "length r \<le> length pt + 255" "pt = take (length pt) r"
    "\<forall>v\<in>set (drop (length pt) r). v = last r"
  using assms unat_byte_less [of "r ! (length r - 1)"]
  by (auto simp: pkcs5UnPadding_def Let_def last_conv_nth split: if_splits)

lemma pkcs5_unpad_zero: "pkcs5UnPadding (r @ [0]) = Inr (r @ [0])"
  by (simp add: pkcs5UnPadding_def Let_def nth_append)

text \<open>AESCBCDecrypt succeeds only on well-formed input: the text form decodes to one
  initialisation vector followed by at least one whole 16-byte block, the key has 16, 24 or
  32 bytes, and the plaintext falls short of the blocks by at most 255 bytes.\<close>
theorem AESCBCDecrypt_ok_shape:
  assumes "AESCBCDecrypt key c useBase64 = Inr pt"
  shows "\<exists>ct. crypto_decode c useBase64 = Inr ct \<and> aes_key_ok key \<and> 32 \<le> length ct \<and>
    length ct mod 16 = 0 \<and> length pt + 16 \<le> length ct \<and> length ct \<le> length pt + 16 + 255"
proof -
  from assms obtain ct where ct: "crypto_decode c useBase64 = Inr ct" "16 \<le> length ct"
      "length (drop 16 ct) mod 16 = 0" "aes_key_ok key"
    and un: "pkcs5UnPadding (cbc_decrypt key (take 16 ct) (drop 16 ct)) = Inr pt"
    unfolding AESCBCDecrypt_def go_result Let_def by auto
  have len: "length (cbc_decrypt key (take 16 ct) (drop 16 ct)) = length ct - 16"
    using ct by (simp add: cbc_decrypt_len)
  note u = pkcs5_unpad_ok [OF un, unfolded len]
  have "length pt \<le> length ct - 16" using u(3) len by (metis length_take min.cobounded1)
  moreover have "length ct mod 16 = 0" using ct(2,3) by (simp add: le_mod_geq)
  ultimately show ?thesis using ct(1,2,4) u(1,2) by (intro exI [of _ ct]) auto
qed

theorem AESCBCDecrypt_ok_shape_witness:
  "\<exists>c ct. AESCBCDecrypt (replicate 16 9) c [True] = Inr [] \<and>
    crypto_decode c [True] = Inr ct \<and> aes_key_ok (replicate 16 9) \<and> 32 \<le> length ct \<and>
    length ct mod 16 = 0 \<and> length ct \<le> 16 + 255"
proof -
  obtain c where c: "AESCBCDecrypt (replicate 16 9) c [True] = Inr []"
    using AESCBC_decrypts_own [of "replicate 16 9" "replicate 16 0" "[]" "[True]"]
    by (auto simp: aes_key_ok_def)
  with AESCBCDecrypt_ok_shape [OF c] show ?thesis by auto
qed

end
