(* ===== verification/Rpc_Text.thy ===== *)
theory Rpc_Text
  imports Prelude Aes_Cbc
begin

text \<open>
  The pure parts of package \<open>j2rpc\<close>: the name conversions of \<open>functions.go\<close>
  (\<open>SnakeString\<close>, \<open>CamelString\<close>), the body codec chosen by \<open>option.go\<close>, and the levels
  and level filter of \<open>level_logger.go\<close>.
\<close>

section \<open>functions.go: SnakeString and CamelString\<close>

text \<open>The loop of \<open>SnakeString\<close>; \<open>j\<close> is its flag: a character other than an upper-case
  letter or an underscore was seen since the last inserted underscore.\<close>

fun snake_loop :: "bool \<Rightarrow> string \<Rightarrow> string" where
  "snake_loop j [] = []"
| "snake_loop j (d # s) =
     (if is_upper d then
        (if j then CHR ''_'' # d # snake_loop False s else d # snake_loop j s)
      else d # snake_loop (if d \<noteq> CHR ''_'' then True else j) s)"

definition SnakeString :: "string \<Rightarrow> string" where
  "SnakeString s = strings_ToLower (snake_loop False s)"

text \<open>The loop of \<open>CamelString\<close>: \<open>j\<close> asks for the next letter in upper case, \<open>k\<close> says
  that an upper-case letter was emitted or seen. The look-ahead \<open>s[i+1]\<close> is the head of the
  rest.\<close>

fun camel_loop :: "bool \<Rightarrow> bool \<Rightarrow> string \<Rightarrow> string" where
  "camel_loop j k [] = []"
| "camel_loop j k (d # s) =
     (let k1 = (k \<or> is_upper d);
          up = (is_lower d \<and> (j \<or> \<not> k1));
          d' = (if up then char_upper d else d);
          j' = (if up then False else j);
          k' = (if up then True else k1)
      in if k' \<and> d' = CHR ''_'' \<and> (case s of [] \<Rightarrow> False | c # _ \<Rightarrow> is_lower c)
         then camel_loop True k' s
         else d' # camel_loop j' k' s)"

definition CamelString :: "string \<Rightarrow> string" where
  "CamelString s = camel_loop False False s"

definition SliceStringContainsPrefix :: "string list \<Rightarrow> string \<Rightarrow> bool" where
  "SliceStringContainsPrefix items val = list_ex (\<lambda>item. strings_HasPrefix item val) items"

subsection \<open>What the conversions keep\<close>

lemma not_upper_underscore [simp]: "\<not> is_upper CHR ''_''" "\<not> is_lower CHR ''_''"
  by (simp_all add: is_upper_def is_lower_def)

lemma lower_not_upper: "is_lower c \<Longrightarrow> \<not> is_upper c"
  by (simp add: is_upper_def is_lower_def)

lemma is_upper_char_upper: "is_lower c \<Longrightarrow> is_upper (char_upper c)"
  by (auto simp: is_upper_def is_lower_def char_upper_def)

lemma char_lower_upper: "is_lower c \<Longrightarrow> char_lower (char_upper c) = c"
  by (auto simp: is_upper_def is_lower_def char_upper_def char_lower_def)

lemma char_lower_eq_underscore [simp]: "char_lower c = CHR ''_'' \<longleftrightarrow> c = CHR ''_''"
proof
  assume a: "char_lower c = CHR ''_''"
  show "c = CHR ''_''"
  proof (cases "is_upper c")
    case True
    then have "(of_char (char_lower c) :: nat) \<ge> 97"
      by (auto simp: char_lower_def is_upper_def)
    with a show ?thesis by simp
  next
    case False
    with a show ?thesis by (simp add: char_lower_id)
  qed
qed (simp add: char_lower_id)

lemma snake_loop_lower: "\<forall>c\<in>set s. \<not> is_upper c \<Longrightarrow> snake_loop j s = s"
  by (induction s arbitrary: j) auto

lemma snake_loop_letters:
  "filter (\<lambda>c. c \<noteq> CHR ''_'') (snake_loop j s) = filter (\<lambda>c. c \<noteq> CHR ''_'') s"
  by (induction j s rule: snake_loop.induct) auto

lemma filter_ToLower_underscore:
  "filter (\<lambda>c. c \<noteq> CHR ''_'') (strings_ToLower s) =
   strings_ToLower (filter (\<lambda>c. c \<noteq> CHR ''_'') s)"
  by (induction s) (auto simp: strings_ToLower_def)

lemma SnakeString_letters:
  "filter (\<lambda>c. c \<noteq> CHR ''_'') (SnakeString s) = strings_ToLower (filter (\<lambda>c. c \<noteq> CHR ''_'') s)"
  by (simp add: SnakeString_def filter_ToLower_underscore snake_loop_letters)

lemma SnakeString_no_upper: "c \<in> set (SnakeString s) \<Longrightarrow> \<not> is_upper c"
  by (auto simp: SnakeString_def strings_ToLower_def)

lemma SnakeString_idem: "SnakeString (SnakeString s) = SnakeString s"
proof -
  have "snake_loop False (SnakeString s) = SnakeString s"
    by (rule snake_loop_lower) (simp add: SnakeString_no_upper)
  then show ?thesis by (metis SnakeString_def ToLower_idem)
qed

lemma char_lower_dot: "char_lower c = CHR ''.'' \<longleftrightarrow> c = CHR ''.''"
proof
  assume a: "char_lower c = CHR ''.''"
  show "c = CHR ''.''"
  proof (cases "is_upper c")
    case True
    with a have "char_of ((of_char c :: nat) + 32) = CHR ''.''" by (simp add: char_lower_def)
    then have "of_char (char_of ((of_char c :: nat) + 32) :: char) = (46 :: nat)" by simp
    with True show ?thesis by (simp add: is_upper_def)
  qed (use a in \<open>simp add: char_lower_id\<close>)
qed (simp add: char_lower_id is_upper_def)

lemma char_lower_dot': "CHR ''.'' = char_lower c \<longleftrightarrow> CHR ''.'' = c"
  using char_lower_dot [of c] by (simp only: eq_commute [of "CHR ''.''"])

lemma SnakeString_dot: "CHR ''.'' \<in> set (SnakeString s) \<longleftrightarrow> CHR ''.'' \<in> set s"
proof -
  have "CHR ''.'' \<in> set t \<longleftrightarrow> CHR ''.'' \<in> set (filter (\<lambda>c. c \<noteq> CHR ''_'') t)" for t by simp
  moreover have "CHR ''.'' \<in> set (strings_ToLower t) \<longleftrightarrow> CHR ''.'' \<in> set t" for t
    by (induction t) (simp_all add: strings_ToLower_def char_lower_dot')
  ultimately show ?thesis by (metis SnakeString_letters)
qed

text \<open>SnakeString never loses or reorders a letter: apart from the underscores, its
  result is the input in lower case; and it is idempotent, so that converting a converted
  name again (as registration and lookup both do) changes nothing.\<close>
theorem SnakeString_content_idempotent:
  "filter (\<lambda>c. c \<noteq> CHR ''_'') (SnakeString s) =
     strings_ToLower (filter (\<lambda>c. c \<noteq> CHR ''_'') s)
   \<and> SnakeString (SnakeString s) = SnakeString s"
  by (simp add: SnakeString_letters SnakeString_idem)

text \<open>Identifiers in snake case whose words, the last one excepted, have two characters or
  more. A shorter word is not recovered: \<open>a_b\<close> becomes \<open>AB\<close> and then \<open>ab\<close>.\<close>

definition word_char :: "char \<Rightarrow> bool" where
  "word_char c \<longleftrightarrow> is_lower c \<or> is_digit c"

fun snake_tail :: "string \<Rightarrow> bool" where
  "snake_tail [] = True"
| "snake_tail (c # s) = (if c = CHR ''_'' then
      (case s of [] \<Rightarrow> False
       | d # s' \<Rightarrow> is_lower d \<and> (case s' of [] \<Rightarrow> True | e # _ \<Rightarrow> word_char e) \<and> snake_tail s')
      else word_char c \<and> snake_tail s)"

fun snake_ident :: "string \<Rightarrow> bool" where
  "snake_ident [] = True"
| "snake_ident (c # s) = (is_lower c \<and> (case s of [] \<Rightarrow> True | e # _ \<Rightarrow> word_char e) \<and> snake_tail s)"

lemma word_char_plain: "word_char c \<Longrightarrow> c \<noteq> CHR ''_'' \<and> \<not> is_upper c"
  by (auto simp: word_char_def is_upper_def is_lower_def is_digit_def)

lemma word_char_lower [simp]: "word_char c \<Longrightarrow> char_lower c = c"
  by (simp add: word_char_plain char_lower_id)

lemma upper_char_upper_underscore [simp]: "is_lower c \<Longrightarrow> char_upper c \<noteq> CHR ''_''"
  using is_upper_char_upper by fastforce

lemma camel_word: "word_char c \<Longrightarrow> camel_loop False True (c # s) = c # camel_loop False True s"
  by (simp add: word_char_plain Let_def)

lemma camel_new_word: "is_lower d \<Longrightarrow>
    camel_loop False True (CHR ''_'' # d # s) = char_upper d # camel_loop False True s"
  by (simp add: Let_def)

lemma snake_after_word:
  "snake_tail s \<Longrightarrow> (case s of [] \<Rightarrow> True | e # _ \<Rightarrow> word_char e) \<Longrightarrow>
   snake_loop False (camel_loop False True s) = snake_loop True (camel_loop False True s)"
  by (cases s) (auto simp: camel_word word_char_plain simp del: camel_loop.simps(2))

lemma snake_camel_tail:
  "snake_tail s \<Longrightarrow> strings_ToLower (snake_loop True (camel_loop False True s)) = s"
proof (induction s rule: length_induct)
  case (1 s)
  show ?case
  proof (cases s)
    case Nil
    then show ?thesis by (simp add: strings_ToLower_def)
  next
    case (Cons c t)
    show ?thesis
    proof (cases "c = CHR ''_''")
      case True
      with 1(2) Cons obtain d t' where t: "t = d # t'" "is_lower d" "snake_tail t'"
          "case t' of [] \<Rightarrow> True | e # _ \<Rightarrow> word_char e"
        by (auto split: list.splits)
      have "strings_ToLower (snake_loop True (camel_loop False True t')) = t'"
        using 1(1) t Cons by simp
      with t Cons True show ?thesis
        by (simp add: camel_new_word is_upper_char_upper char_lower_upper snake_after_word
            strings_ToLower_def char_lower_id del: camel_loop.simps(2))
    next
      case False
      with 1 Cons have "word_char c" "snake_tail t" by auto
      with 1(1) Cons show ?thesis
        by (simp add: camel_word word_char_plain strings_ToLower_def del: camel_loop.simps(2))
    qed
  qed
qed

text \<open>Round trip of the naming conventions: for an identifier in snake case whose words
  have at least two characters (the last may have one), SnakeString undoes CamelString.\<close>
theorem Snake_Camel_roundtrip:
  assumes "snake_ident s"
  shows "SnakeString (CamelString s) = s"
proof (cases s)
  case Nil
  then show ?thesis by (simp add: SnakeString_def CamelString_def strings_ToLower_def)
next
  case (Cons c t)
  with assms have c: "is_lower c" "snake_tail t" "case t of [] \<Rightarrow> True | e # _ \<Rightarrow> word_char e"
    by auto
  then have "CamelString s = char_upper c # camel_loop False True t"
    using Cons by (simp add: CamelString_def Let_def lower_not_upper)
  with c Cons snake_camel_tail [OF c(2)] show ?thesis
    by (simp add: SnakeString_def is_upper_char_upper snake_after_word char_lower_upper
        strings_ToLower_def)
qed

theorem Snake_Camel_roundtrip_witness:
  "snake_ident ''get_user2_x'' \<and> SnakeString (CamelString ''get_user2_x'') = ''get_user2_x''"
proof -
  have h: "snake_ident ''get_user2_x''"
    by (simp add: word_char_def is_lower_def is_digit_def)
  with Snake_Camel_roundtrip [OF h] show ?thesis by simp
qed

section \<open>option.go: the body codec\<close>

record HandlerCrypto =
  hc_key :: string
  hc_use_base64 :: bool

record rpc_option =
  SnakeNamespace :: bool
  CryptoKey :: string

definition SnakeOption :: rpc_option where
  "SnakeOption = \<lparr>SnakeNamespace = True, CryptoKey = []\<rparr>"

definition ParseHandlerCrypto :: "string \<Rightarrow> HandlerCrypto option" where
  "ParseHandlerCrypto str =
     (if length str = 0 then None
      else if \<not> strings_HasPrefix str ''base64:'' then
        Some \<lparr>hc_key = str, hc_use_base64 = False\<rparr>
      else let str' = drop 7 str in
        if length str' = 0 then None else Some \<lparr>hc_key = str', hc_use_base64 = True\<rparr>)"

text \<open>
  \<open>goutil.AESCBCEncrypt\<close> and \<open>AESCBCDecrypt\<close> are third-party code and so arguments:
  key, body and text form give the result, \<open>None\<close> being a panic, which the deferred
  \<open>recover\<close> of \<open>ParseRPCBody\<close> turns into an error.
\<close>

type_synonym body_enc = "bytes \<Rightarrow> bytes \<Rightarrow> bool \<Rightarrow> bytes option"
type_synonym body_dec = "bytes \<Rightarrow> bytes \<Rightarrow> bool \<Rightarrow> (string, bytes) result option"

definition body_key :: "string \<Rightarrow> bytes" where
  "body_key k =
     (let key = [];
          key = (if 16 \<le> length k \<and> length k < 24 then take 16 (str_bytes k) else key);
          key = (if 24 \<le> length k \<and> length k < 32 then take 24 (str_bytes k) else key);
          key = (if 32 \<le> length k then take 32 (str_bytes k) else key)
      in key)"

definition ParseRPCBody ::
  "body_enc \<Rightarrow> body_dec \<Rightarrow> rpc_option \<Rightarrow> bytes \<Rightarrow> bool \<Rightarrow> (string, bytes) result" where
  "ParseRPCBody genc gdec opt body isDecrypt =
     (if length body = 0 then Inr body
      else if length (CryptoKey opt) = 0 then Inr body
      else case ParseHandlerCrypto (CryptoKey opt) of
        None \<Rightarrow> Inr body
      | Some co \<Rightarrow>
          if length (hc_key co) < 16 then Inr body
          else let key = body_key (hc_key co) in
            if isDecrypt then
              (let body' = (if \<not> hc_use_base64 co then bytes_ToLower body else body) in
               case gdec key body' (hc_use_base64 co) of
                 None \<Rightarrow> Inl ''parse request body error: panic''
               | Some r \<Rightarrow> r)
            else case genc key body (hc_use_base64 co) of
                None \<Rightarrow> Inl ''parse request body error: panic''
              | Some c \<Rightarrow> Inr (if \<not> hc_use_base64 co then bytes_ToUpper c else c))"

lemma body_key_length: "16 \<le> length k \<Longrightarrow> length (body_key k) \<in> {16, 24, 32}"
  by (auto simp: body_key_def Let_def)

text \<open>What the code relies on in \<open>goutil\<close>: for the three AES key lengths, encryption does
  not panic, its output is not empty, decryption undoes it, and the hex form is in lower
  case.\<close>

definition goutil_codec :: "body_enc \<Rightarrow> body_dec \<Rightarrow> bool" where
  "goutil_codec genc gdec \<longleftrightarrow>
     (\<forall>key b u. length key \<in> {16, 24, 32} \<longrightarrow> b \<noteq> [] \<longrightarrow>
        (\<exists>c. genc key b u = Some c \<and> c \<noteq> [] \<and> gdec key c u = Some (Inr b) \<and>
             (\<not> u \<longrightarrow> bytes_ToLower (bytes_ToUpper c) = c)))"

lemma ParseRPCBody_back:
  assumes "goutil_codec genc gdec"
  shows "\<exists>c. ParseRPCBody genc gdec opt body False = Inr c \<and>
             ParseRPCBody genc gdec opt c True = Inr body"
proof (cases "ParseHandlerCrypto (CryptoKey opt)")
  case None
  then show ?thesis by (cases "body = []") (auto simp: ParseRPCBody_def)
next
  case (Some co)
  show ?thesis
  proof (cases "body = [] \<or> CryptoKey opt = [] \<or> length (hc_key co) < 16")
    case True
    with Some show ?thesis by (auto simp: ParseRPCBody_def)
  next
    case False
    then have "length (body_key (hc_key co)) \<in> {16, 24, 32}" by (intro body_key_length) auto
    moreover have "body \<noteq> []" using False by simp
    ultimately obtain c where "genc (body_key (hc_key co)) body (hc_use_base64 co) = Some c"
      "c \<noteq> []" "gdec (body_key (hc_key co)) c (hc_use_base64 co) = Some (Inr body)"
      "\<not> hc_use_base64 co \<longrightarrow> bytes_ToLower (bytes_ToUpper c) = c"
      using assms unfolding goutil_codec_def by blast
    with Some False show ?thesis
      by (auto simp: ParseRPCBody_def Let_def)
  qed
qed

text \<open>Whatever key string the option holds (none, too short to encrypt, 16 to 23, 24 to 31
  or 32 and more characters, with or without the \<open>base64:\<close> mark), decrypting what the
  option encrypted gives the body back, so both sides of the protocol agree.\<close>
theorem ParseRPCBody_roundtrip:
  assumes "goutil_codec genc gdec"
  shows "\<exists>c. ParseRPCBody genc gdec opt body False = Inr c \<and>
             ParseRPCBody genc gdec opt c True = Inr body"
  by (rule ParseRPCBody_back [OF assms])

text \<open>An instance of that contract: the cipher of \<open>crypto/aesCBC.go\<close> with a fixed
  initialisation vector and a hex form in lower case.\<close>

definition fixed_genc :: body_enc where
  "fixed_genc key b u =
     (let ct = replicate 16 0 @ cbc_encrypt key (replicate 16 0) (pkcs5Padding b 16)
      in Some (if u then b64_Encode ct else hex_Encode ct))"

definition fixed_gdec :: body_dec where
  "fixed_gdec key c u =
     (case (if u then b64_Decode c else hex_Decode c) of
        Inl _ \<Rightarrow> Some (Inl ''decode'')
      | Inr ct \<Rightarrow> (case pkcs5UnPadding (cbc_decrypt key (take 16 ct) (drop 16 ct)) of
          Inl _ \<Rightarrow> Some (Inl ''padding'') | Inr b \<Rightarrow> Some (Inr b)))"

lemma encode_nonempty: "s \<noteq> [] \<Longrightarrow> b64_Encode s \<noteq> [] \<and> hex_Encode s \<noteq> []"
  by (cases "map unat s" rule: b64_sextets.cases) (auto simp: b64_Encode_def hex_Encode_def)

lemma fixed_codec: "goutil_codec fixed_genc fixed_gdec"
  unfolding goutil_codec_def
proof (intro allI impI)
  fix key b :: bytes and u assume key: "length key \<in> {16, 24, 32}"
  let ?iv = "replicate 16 (0 :: byte)" and ?p = "pkcs5Padding b 16"
  let ?ct = "?iv @ cbc_encrypt key ?iv ?p"
  have "length ?p mod 16 = 0" by (simp add: pkcs5_pad_len) presburger
  with key have dec: "cbc_decrypt key ?iv (cbc_encrypt key ?iv ?p) = ?p"
    by (intro cbc_roundtrip) (auto simp: aes_key_ok_def)
  have ne: "(if u then b64_Encode ?ct else hex_Encode ?ct) \<noteq> []"
    using encode_nonempty [of ?ct] by simp
  show "\<exists>c. fixed_genc key b u = Some c \<and> c \<noteq> [] \<and> fixed_gdec key c u = Some (Inr b) \<and>
      (\<not> u \<longrightarrow> bytes_ToLower (bytes_ToUpper c) = c)"
    using dec ne
    by (simp add: fixed_genc_def fixed_gdec_def Let_def b64_Decode_Encode hex_Decode_Encode
        pkcs5_unpad_pad lower_upper_hex_Encode)
qed

theorem ParseRPCBody_roundtrip_witness:
  "\<exists>c. ParseRPCBody fixed_genc fixed_gdec \<lparr>SnakeNamespace = True, CryptoKey = ''base64:0123456789abcdefX''\<rparr>
         [104, 105] False = Inr c \<and>
       ParseRPCBody fixed_genc fixed_gdec \<lparr>SnakeNamespace = True, CryptoKey = ''base64:0123456789abcdefX''\<rparr>
         c True = Inr [104, 105]"
  by (rule ParseRPCBody_roundtrip) (rule fixed_codec)

section \<open>level_logger.go\<close>

type_synonym level = "32 word"

abbreviation PanicLevel :: level where "PanicLevel \<equiv> 0"
abbreviation FatalLevel :: level where "FatalLevel \<equiv> 1"
abbreviation ErrorLevel :: level where "ErrorLevel \<equiv> 2"
abbreviation WarnLevel :: level where "WarnLevel \<equiv> 3"
abbreviation InfoLevel :: level where "InfoLevel \<equiv> 4"
abbreviation DebugLevel :: level where "DebugLevel \<equiv> 5"
abbreviation TraceLevel :: level where "TraceLevel \<equiv> 6"

definition Level_MarshalText :: "level \<Rightarrow> string" where
  "Level_MarshalText l =
     (if l = TraceLevel then ''trace'' else if l = DebugLevel then ''debug''
      else if l = InfoLevel then ''info'' else if l = WarnLevel then ''warning''
      else if l = ErrorLevel then ''error'' else if l = FatalLevel then ''fatal''
      else if l = PanicLevel then ''panic'' else ''debug'')"

text \<open>\<open>MarshalText\<close> never fails, so \<open>String\<close> is the marshalled text.\<close>

definition Level_String :: "level \<Rightarrow> string" where
  "Level_String l = Level_MarshalText l"

definition ParseLevel :: "string \<Rightarrow> level" where
  "ParseLevel lvl =
     (let s = strings_ToLower lvl in
      if s = ''panic'' then PanicLevel else if s = ''fatal'' then FatalLevel
      else if s = ''error'' then ErrorLevel
      else if s = ''warn'' \<or> s = ''warning'' then WarnLevel
      else if s = ''info'' then InfoLevel else if s = ''debug'' then DebugLevel
      else if s = ''trace'' then TraceLevel else DebugLevel)"

definition Level_UnmarshalText :: "level \<Rightarrow> string \<Rightarrow> level" where
  "Level_UnmarshalText l text = ParseLevel text"

text \<open>What one call to a logger method does: nothing, a line with a format string and its
  arguments, or one of \<open>log.Logger\<close>'s terminating calls.\<close>

datatype 'a log_effect =
    LogNothing | LogPrintf string "'a list" | LogPrint "'a list" | LogPrintln "'a list"
  | LogFatal "'a list" | LogFatalf string "'a list" | LogFatalln "'a list"
  | LogPanic "'a list" | LogPanicf string "'a list" | LogPanicln "'a list"

definition logger_out :: "level \<Rightarrow> string \<Rightarrow> 'a list \<Rightarrow> 'a log_effect" where
  "logger_out lvl s i = LogPrintf (''['' @ strings_ToUpper (Level_String lvl) @ ''] '' @ s) i"

definition logger_Debugf :: "level \<Rightarrow> string \<Rightarrow> 'a list \<Rightarrow> 'a log_effect" where
  "logger_Debugf l s i = (if l < DebugLevel then LogNothing else logger_out DebugLevel s i)"
definition logger_Errorf :: "level \<Rightarrow> string \<Rightarrow> 'a list \<Rightarrow> 'a log_effect" where
  "logger_Errorf l s i = (if l < ErrorLevel then LogNothing else logger_out ErrorLevel s i)"
definition logger_Infof :: "level \<Rightarrow> string \<Rightarrow> 'a list \<Rightarrow> 'a log_effect" where
  "logger_Infof l s i = (if l < InfoLevel then LogNothing else logger_out InfoLevel s i)"
definition logger_Warnf :: "level \<Rightarrow> string \<Rightarrow> 'a list \<Rightarrow> 'a log_effect" where
  "logger_Warnf l s i = (if l < WarnLevel then LogNothing else logger_out WarnLevel s i)"
definition logger_Fatal :: "level \<Rightarrow> 'a list \<Rightarrow> 'a log_effect" where
  "logger_Fatal l i = (if l < FatalLevel then LogNothing else LogFatal i)"
definition logger_Fatalf :: "level \<Rightarrow> string \<Rightarrow> 'a list \<Rightarrow> 'a log_effect" where
  "logger_Fatalf l s i = (if l < FatalLevel then LogNothing else LogFatalf s i)"
definition logger_Fatalln :: "level \<Rightarrow> 'a list \<Rightarrow> 'a log_effect" where
  "logger_Fatalln l i = (if l < FatalLevel then LogNothing else LogFatalln i)"
definition logger_Panic :: "level \<Rightarrow> 'a list \<Rightarrow> 'a log_effect" where
  "logger_Panic l i = (if l < PanicLevel then LogNothing else LogPanic i)"
definition logger_Panicf :: "level \<Rightarrow> string \<Rightarrow> 'a list \<Rightarrow> 'a log_effect" where
  "logger_Panicf l s i = (if l < PanicLevel then LogNothing else LogPanicf s i)"
definition logger_Panicln :: "level \<Rightarrow> 'a list \<Rightarrow> 'a log_effect" where
  "logger_Panicln l i = (if l < PanicLevel then LogNothing else LogPanicln i)"
definition logger_Print :: "level \<Rightarrow> 'a list \<Rightarrow> 'a log_effect" where
  "logger_Print l i = (if l < InfoLevel then LogNothing else LogPrint i)"
definition logger_Printf :: "level \<Rightarrow> string \<Rightarrow> 'a list \<Rightarrow> 'a log_effect" where
  "logger_Printf l s i = logger_Infof l s i"
definition logger_Println :: "level \<Rightarrow> 'a list \<Rightarrow> 'a log_effect" where
  "logger_Println l i = LogPrintln i"

lemma level_cases:
  assumes "l \<le> TraceLevel"
  shows "l = 0 \<or> l = 1 \<or> l = 2 \<or> l = 3 \<or> l = 4 \<or> l = 5 \<or> l = 6"
  using assms by unat_arith

lemma lower_literals:
  "strings_ToLower ''panic'' = ''panic''" "strings_ToLower ''fatal'' = ''fatal''"
  "strings_ToLower ''error'' = ''error''" "strings_ToLower ''warning'' = ''warning''"
  "strings_ToLower ''info'' = ''info''" "strings_ToLower ''debug'' = ''debug''"
  "strings_ToLower ''trace'' = ''trace''"
  by (simp_all add: strings_ToLower_def char_lower_def is_upper_def)

text \<open>Level names round trip: parsing the text of any of the seven levels gives the level
  back, and the filter is by severity: a call at a level prints exactly when the logger's
  level is at least that level, so a message that is printed stays printed at every more
  verbose setting.\<close>
theorem level_roundtrip_and_filter:
  assumes "l \<le> TraceLevel"
  shows "ParseLevel (Level_String l) = l \<and>
   (logger_Errorf l s i = LogNothing \<longleftrightarrow> l < ErrorLevel) \<and>
   (logger_Warnf l s i = LogNothing \<longleftrightarrow> l < WarnLevel) \<and>
   (logger_Infof l s i = LogNothing \<longleftrightarrow> l < InfoLevel) \<and>
   (logger_Debugf l s i = LogNothing \<longleftrightarrow> l < DebugLevel) \<and>
   logger_Panic l i = LogPanic i"
  using level_cases [OF assms]
  by (auto simp: Level_String_def Level_MarshalText_def ParseLevel_def Let_def
      lower_literals logger_Errorf_def logger_Warnf_def logger_Infof_def logger_Debugf_def
      logger_Panic_def logger_out_def)

theorem level_roundtrip_and_filter_witness:
  "WarnLevel \<le> TraceLevel \<and> ParseLevel (Level_String WarnLevel) = WarnLevel \<and>
   logger_Warnf WarnLevel ''x'' [()] \<noteq> LogNothing \<and> logger_Infof WarnLevel ''x'' [()] = LogNothing"
proof -
  have h: "WarnLevel \<le> TraceLevel" by simp
  from level_roundtrip_and_filter [OF h, of "''x''" "[()]"] show ?thesis by simp
qed

end
