(* ===== verification/Rpc_Message.thy ===== *)
theory Rpc_Message
  imports Prelude
begin

text \<open>
  What the two RPC servers share: JSON values, the message and error types of
  \<open>j2rpc/message.go\<close>, \<open>j2rpc/error.go\<close> and \<open>j2rpc2/message.go\<close>, the decoding of a
  request into a message, and \<open>net/http\<close>'s response writer.

  A \<open>json.RawMessage\<close> holds the text of one JSON value; it is modelled by that value, an
  empty one by \<open>None\<close>. Its first byte is an opening brace or bracket exactly when the
  value is an object or an array. Reading and writing JSON text is \<open>encoding/json\<close>'s and
  enters the servers as an argument.
\<close>

section \<open>JSON values and errors\<close>

datatype json =
    JNull | JBool bool | JNum string | JStr string | JArr "json list"
  | JObj "(string \<times> json) list"

type_synonym raw_message = "json option"

record rpc_error =
  e_code :: int
  e_message :: string
  e_data :: "json option"

abbreviation ErrParse :: int where "ErrParse \<equiv> -32700"
abbreviation ErrInvalidRequest :: int where "ErrInvalidRequest \<equiv> -32600"
abbreviation ErrNoMethod :: int where "ErrNoMethod \<equiv> -32601"
abbreviation ErrBadParams :: int where "ErrBadParams \<equiv> -32602"
abbreviation ErrInternal :: int where "ErrInternal \<equiv> -32603"
abbreviation ErrServer :: int where "ErrServer \<equiv> -32000"
abbreviation ErrAuthorization :: int where "ErrAuthorization \<equiv> 401"
abbreviation ErrForbidden :: int where "ErrForbidden \<equiv> 403"

definition NewError :: "int \<Rightarrow> string \<Rightarrow> json list \<Rightarrow> rpc_error" where
  "NewError code msg data = \<lparr>e_code = code, e_message = msg,
     e_data = (if 0 < length data then Some (data ! 0) else None)\<rparr>"

text \<open>The dynamic types an \<open>error\<close> value can have where the code switches on them: the
  package's own \<open>*Error\<close>, another type with the methods of \<open>ItfJ2rpcError\<close>, one with
  \<open>RPCError()\<close> only, the two string types, and any other error.\<close>

datatype go_error =
    RpcErr rpc_error
  | ItfErr int string "json option"
  | HasRpcError string "rpc_error option"
  | TokenError string
  | ForbiddenError string
  | PlainErr string

fun error_text :: "go_error \<Rightarrow> string" where
  "error_text (RpcErr e) = e_message e"
| "error_text (ItfErr c m d) = m"
| "error_text (HasRpcError m e) = m"
| "error_text (TokenError m) = m"
| "error_text (ForbiddenError m) = m"
| "error_text (PlainErr m) = m"

section \<open>Messages\<close>

record rpc_message =
  m_id :: raw_message
  m_version :: string
  m_method :: string
  m_params :: raw_message
  m_result :: raw_message
  m_error :: "rpc_error option"

definition no_message :: rpc_message where
  "no_message = \<lparr>m_id = None, m_version = [], m_method = [], m_params = None,
     m_result = None, m_error = None\<rparr>"

definition RPCMessage_empty :: "rpc_message \<Rightarrow> rpc_message" where
  "RPCMessage_empty r = r\<lparr>m_id := None, m_version := [], m_method := [], m_params := None,
     m_result := None, m_error := None\<rparr>"

lemma RPCMessage_empty_eq [simp]: "RPCMessage_empty r = no_message"
  by (simp add: RPCMessage_empty_def no_message_def)

text \<open>The id is present and its text starts neither with a brace nor with a bracket.\<close>

definition RPCMessage_hasValidID :: "rpc_message \<Rightarrow> bool" where
  "RPCMessage_hasValidID r = (case m_id r of
     None \<Rightarrow> False | Some (JObj _) \<Rightarrow> False | Some (JArr _) \<Rightarrow> False | Some _ \<Rightarrow> True)"

definition RPCMessage_methods :: "rpc_message \<Rightarrow> (go_error, string list) result" where
  "RPCMessage_methods r =
     (let elem = strings_SplitN2 (m_method r) ''.'' in
      if length elem \<noteq> 2 then Inl (RpcErr (NewError ErrNoMethod ''wrong method'' []))
      else Inr elem)"

definition RPCMessage_output :: "rpc_message \<Rightarrow> rpc_message" where
  "RPCMessage_output r =
     (let r = (if m_id r = None then r\<lparr>m_id := Some (JNum ''1'')\<rparr> else r)
      in r\<lparr>m_version := ''2.0'', m_method := [], m_params := None\<rparr>)"

definition RPCMessage_setError :: "rpc_message \<Rightarrow> go_error option \<Rightarrow> rpc_message" where
  "RPCMessage_setError r err = (case err of
     None \<Rightarrow> r
   | Some er \<Rightarrow>
       let e = NewError ErrInternal (error_text er) [];
           e' = (case er of
               RpcErr v \<Rightarrow> Some (e\<lparr>e_code := e_code v, e_message := e_message v, e_data := e_data v\<rparr>)
             | ItfErr c m d \<Rightarrow> Some (e\<lparr>e_code := c, e_message := m, e_data := d\<rparr>)
             | HasRpcError _ v \<Rightarrow> v
             | TokenError m \<Rightarrow> Some (e\<lparr>e_code := ErrAuthorization, e_message := m\<rparr>)
             | ForbiddenError m \<Rightarrow> Some (e\<lparr>e_code := ErrForbidden, e_message := m\<rparr>)
             | PlainErr _ \<Rightarrow> Some e)
       in r\<lparr>m_error := e'\<rparr>)"

definition RPCError :: "go_error option \<Rightarrow> rpc_message" where
  "RPCError err = RPCMessage_setError no_message err"

text \<open>\<open>RPCResult\<close>: a value that cannot be marshalled leaves the result empty.\<close>

definition RPCResult :: "(string, json) result \<Rightarrow> rpc_message" where
  "RPCResult marshalled = RPCMessage_output (no_message\<lparr>m_result :=
     (case marshalled of Inl _ \<Rightarrow> None | Inr j \<Rightarrow> Some j)\<rparr>)"

section \<open>encoding/json: a value into a message, a message into a value\<close>

text \<open>Field names match without regard to case; \<open>null\<close> leaves a string alone, clears a
  pointer and is itself kept by a raw message; a value of another type is reported after the
  remaining fields have been set.\<close>

definition json_key :: "string \<Rightarrow> string \<Rightarrow> bool" where
  "json_key k name \<longleftrightarrow> strings_ToLower k = name"

definition decode_digits :: "string \<Rightarrow> int" where
  "decode_digits s = foldl (\<lambda>n c. 10 * n + (of_char c - 48)) 0 s"

definition json_int :: "string \<Rightarrow> int option" where
  "json_int s = (case s of
     [] \<Rightarrow> None
   | c # t \<Rightarrow>
      (let v = (if c = CHR ''-'' then - decode_digits t else decode_digits s);
           ds = (if c = CHR ''-'' then t else s)
       in if ds \<noteq> [] \<and> list_all is_digit ds \<and> wrap64 v = v then Some v else None))"

fun decode_error_field :: "rpc_error \<times> bool \<Rightarrow> string \<times> json \<Rightarrow> rpc_error \<times> bool" where
  "decode_error_field (e, ok) (k, v) =
     (if json_key k ''code'' then
        (case v of JNum s \<Rightarrow> (case json_int s of
            Some n \<Rightarrow> (e\<lparr>e_code := n\<rparr>, ok) | None \<Rightarrow> (e, False))
         | JNull \<Rightarrow> (e, ok) | _ \<Rightarrow> (e, False))
      else if json_key k ''message'' then
        (case v of JStr s \<Rightarrow> (e\<lparr>e_message := s\<rparr>, ok) | JNull \<Rightarrow> (e, ok) | _ \<Rightarrow> (e, False))
      else if json_key k ''data'' then
        (e\<lparr>e_data := (if v = JNull then None else Some v)\<rparr>, ok)
      else (e, ok))"

definition zero_error :: rpc_error where
  "zero_error = \<lparr>e_code = 0, e_message = [], e_data = None\<rparr>"

fun decode_field :: "rpc_message \<times> bool \<Rightarrow> string \<times> json \<Rightarrow> rpc_message \<times> bool" where
  "decode_field (m, ok) (k, v) =
     (if json_key k ''id'' then (m\<lparr>m_id := Some v\<rparr>, ok)
      else if json_key k ''jsonrpc'' then
        (case v of JStr s \<Rightarrow> (m\<lparr>m_version := s\<rparr>, ok) | JNull \<Rightarrow> (m, ok) | _ \<Rightarrow> (m, False))
      else if json_key k ''method'' then
        (case v of JStr s \<Rightarrow> (m\<lparr>m_method := s\<rparr>, ok) | JNull \<Rightarrow> (m, ok) | _ \<Rightarrow> (m, False))
      else if json_key k ''params'' then (m\<lparr>m_params := Some v\<rparr>, ok)
      else if json_key k ''result'' then (m\<lparr>m_result := Some v\<rparr>, ok)
      else if json_key k ''error'' then
        (case v of
           JNull \<Rightarrow> (m\<lparr>m_error := None\<rparr>, ok)
         | JObj fs \<Rightarrow>
             (let (e, ok') = foldl decode_error_field
                    (case m_error m of None \<Rightarrow> zero_error | Some e \<Rightarrow> e, ok) fs
              in (m\<lparr>m_error := Some e\<rparr>, ok'))
         | _ \<Rightarrow> (m, False))
      else (m, ok))"

definition decode_message :: "json \<Rightarrow> rpc_message \<Rightarrow> rpc_message \<times> bool" where
  "decode_message j m = (case j of
     JObj fs \<Rightarrow> foldl decode_field (m, True) fs
   | JNull \<Rightarrow> (m, True)
   | _ \<Rightarrow> (m, False))"

definition opt_field :: "string \<Rightarrow> json option \<Rightarrow> (string \<times> json) list" where
  "opt_field k v = (case v of None \<Rightarrow> [] | Some j \<Rightarrow> [(k, j)])"

definition opt_string :: "string \<Rightarrow> string \<Rightarrow> (string \<times> json) list" where
  "opt_string k s = (if s = [] then [] else [(k, JStr s)])"

text \<open>The JSON object of a message; \<open>int_text\<close> is the decimal notation of a code.\<close>

definition error_json :: "(int \<Rightarrow> string) \<Rightarrow> rpc_error \<Rightarrow> json" where
  "error_json int_text e = JObj ([(''code'', JNum (int_text (e_code e)))]
     @ opt_string ''message'' (e_message e) @ opt_field ''data'' (e_data e))"

definition message_json :: "(int \<Rightarrow> string) \<Rightarrow> rpc_message \<Rightarrow> json" where
  "message_json int_text m = JObj (opt_field ''id'' (m_id m) @ opt_string ''jsonrpc'' (m_version m)
     @ opt_string ''method'' (m_method m) @ opt_field ''params'' (m_params m)
     @ opt_field ''result'' (m_result m)
     @ opt_field ''error'' (map_option (error_json int_text) (m_error m)))"

section \<open>net/http's response writer\<close>

text \<open>The first call of \<open>WriteHeader\<close> fixes the status and the headers that go out; the
  header map can still be changed afterwards, without effect on the response. A first
  \<open>Write\<close> sends status 200.\<close>

type_synonym headers = "string \<rightharpoonup> string"

record http_writer =
  hw_header :: headers
  hw_sent :: "(int \<times> headers) option"
  hw_body :: bytes

definition new_writer :: http_writer where
  "new_writer = \<lparr>hw_header = Map.empty, hw_sent = None, hw_body = []\<rparr>"

definition header_set :: "string \<Rightarrow> string \<Rightarrow> http_writer \<Rightarrow> http_writer" where
  "header_set k v w = w\<lparr>hw_header := (hw_header w)(k \<mapsto> v)\<rparr>"

definition header_del :: "string \<Rightarrow> http_writer \<Rightarrow> http_writer" where
  "header_del k w = w\<lparr>hw_header := (hw_header w)(k := None)\<rparr>"

definition header_get :: "string \<Rightarrow> http_writer \<Rightarrow> string" where
  "header_get k w = (case hw_header w k of None \<Rightarrow> [] | Some v \<Rightarrow> v)"

definition write_header :: "int \<Rightarrow> http_writer \<Rightarrow> http_writer" where
  "write_header status w = (case hw_sent w of
     Some _ \<Rightarrow> w | None \<Rightarrow> w\<lparr>hw_sent := Some (status, hw_header w)\<rparr>)"

definition write_body :: "bytes \<Rightarrow> http_writer \<Rightarrow> http_writer" where
  "write_body b w = (let w = write_header 200 w in w\<lparr>hw_body := hw_body w @ b\<rparr>)"

definition http_Error :: "string \<Rightarrow> int \<Rightarrow> http_writer \<Rightarrow> http_writer" where
  "http_Error msg code w =
     write_body (str_bytes (msg @ [CHR 0x0A]))
       (write_header code
         (header_set ''x-content-type-options'' ''nosniff''
           (header_set ''Content-Type'' ''text/plain; charset=utf-8'' w)))"

lemma write_header_sent [simp]: "hw_sent (write_header c w) \<noteq> None"
  by (auto simp: write_header_def split: option.split)

lemma write_header_first: "hw_sent w = Some x \<Longrightarrow> hw_sent (write_header c w) = Some x"
  by (simp add: write_header_def)

lemma header_sent [simp]:
  "hw_sent (header_set k v w) = hw_sent w" "hw_sent (header_del k w) = hw_sent w"
  "hw_body (header_set k v w) = hw_body w" "hw_body (header_del k w) = hw_body w"
  by (simp_all add: header_set_def header_del_def)

section \<open>Properties of messages\<close>

text \<open>An error set on a message reaches the client with the code of its kind: the
  package's own errors and those with an error code keep code, text and data, token and
  forbidden errors become 401 and 403, every other error becomes an internal error with its
  text; and a message without an error is not changed.\<close>
theorem setError_codes:
  "m_error (RPCMessage_setError r (Some (RpcErr e))) = Some e \<and>
   m_error (RPCMessage_setError r (Some (ItfErr c t d))) = Some \<lparr>e_code = c, e_message = t, e_data = d\<rparr> \<and>
   m_error (RPCMessage_setError r (Some (TokenError t))) = Some (NewError ErrAuthorization t []) \<and>
   m_error (RPCMessage_setError r (Some (ForbiddenError t))) = Some (NewError ErrForbidden t []) \<and>
   m_error (RPCMessage_setError r (Some (PlainErr t))) = Some (NewError ErrInternal t []) \<and>
   m_result (RPCMessage_setError r er) = m_result r \<and> m_id (RPCMessage_setError r er) = m_id r \<and>
   RPCMessage_setError r None = r"
  by (cases e) (auto simp: RPCMessage_setError_def NewError_def Let_def split: option.split)

lemma Index_dot: "c \<notin> set a \<Longrightarrow> strings_Index (a @ c # b) [c] = Some (length a)"
  by (induction a) (auto simp: strings_HasPrefix_def)

lemma SplitN2_char: "c \<notin> set a \<Longrightarrow> strings_SplitN2 (a @ c # b) [c] = [a, b]"
  by (simp add: strings_SplitN2_def Index_dot)

lemma methods_ok:
  assumes "RPCMessage_methods r = Inr elem"
  shows "\<exists>ns meth. elem = [ns, meth] \<and> m_method r = ns @ ''.'' @ meth \<and> CHR ''.'' \<notin> set ns"
proof -
  from assms obtain i where i: "strings_Index (m_method r) ''.'' = Some i"
    and elem: "elem = [take i (m_method r), drop (i + 1) (m_method r)]"
    by (auto simp: RPCMessage_methods_def strings_SplitN2_def Let_def split: if_splits option.splits)
  have "strings_Index s [c] = Some i \<Longrightarrow> c \<notin> set (take i s)" for s c i
  proof (induction s arbitrary: i)
    case (Cons d s)
    then show ?case
      by (auto simp: HasPrefix_iff split: if_splits)
  qed simp
  with i elem Index_Some [OF i] show ?thesis by auto
qed

end
