(* ===== verification/Rpc_Server.thy ===== *)
theory Rpc_Server
  imports Prelude Rpc_Text Rpc_Message
begin

text \<open>
  The server of package \<open>j2rpc\<close>: argument parsing and request validation
  (\<open>functions.go\<close>), callbacks (\<open>callback.go\<close>), registration and dispatch
  (\<open>j2rpc.go\<close>), the request context with its middleware chain (\<open>context.go\<close>,
  \<open>handler.go\<close>) and the context pool (\<open>pool.go\<close>).

  User code enters as data: a registered method is a function from the application's state
  and the parsed arguments to a new state and an outcome (results, or a panic); a middleware
  is a list of actions (change request data, call \<open>Next\<close>, stop, return), so that the
  chain itself is executed by the model. What the code takes from other packages is the
  record \<open>rpc_ext\<close>.
\<close>

section \<open>Types, values and the environment\<close>

datatype gotype = GPtr gotype | GNamed string

record type_env =
  te_error :: "gotype \<Rightarrow> bool"
  te_context :: "gotype \<Rightarrow> bool"

datatype argval = ADecoded gotype json | AZero gotype | ANew gotype

text \<open>A result of a method: a nil interface or pointer, a value with the answer of
  \<open>IsZero\<close> and its JSON (or a marshalling error), or an error that is not nil.\<close>

datatype rvalue = RNil | RVal bool "(string, json) result" | RErr go_error

datatype outcome = Returned "rvalue list" | Panicked string

record rpc_ext =
  json_read :: "bytes \<Rightarrow> json option"
  json_error :: "bytes \<Rightarrow> string"
  json_write :: "json \<Rightarrow> (string, bytes) result"
  int_text :: "int \<Rightarrow> string"
  fits :: "gotype \<Rightarrow> json \<Rightarrow> string option"
  genc :: body_enc
  gdec :: body_dec
  clock :: "int \<times> int \<times> int"

section \<open>functions.go: positional arguments, request validation\<close>

fun isErrorType :: "type_env \<Rightarrow> gotype \<Rightarrow> bool" where
  "isErrorType env (GPtr t) = isErrorType env t"
| "isErrorType env (GNamed n) = te_error env (GNamed n)"

text \<open>The loop of \<open>parseArgumentArray\<close> over the elements that are left; \<open>i\<close> is its
  index. \<open>agv\<close> is the result of \<open>reflect.New\<close>, never a nil pointer, so the check for a
  missing value has no effect; it is kept as the condition \<open>agv_nil\<close>.\<close>

fun parse_argument_array ::
  "rpc_ext \<Rightarrow> nat \<Rightarrow> json list \<Rightarrow> gotype list \<Rightarrow> (string, argval list) result" where
  "parse_argument_array E i [] types = Inr []"
| "parse_argument_array E i (j # js) types =
     (if length types \<le> i then
        Inl (''too many arguments, want at most '' @ int_text E (int (length types)))
      else case fits E (types ! i) j of
        Some err \<Rightarrow> Inl (''invalid argument '' @ int_text E (int i) @ '': '' @ err)
      | None \<Rightarrow>
          let agv_nil = False in
          if agv_nil \<and> (case types ! i of GPtr _ \<Rightarrow> False | GNamed _ \<Rightarrow> True) then
            Inl (''missing value for required argument '' @ int_text E (int i))
          else and_then (parse_argument_array E (Suc i) js types)
                 (\<lambda>r. Inr (ADecoded (types ! i) j # r)))"

definition parseArgumentArray ::
  "rpc_ext \<Rightarrow> json list \<Rightarrow> gotype list \<Rightarrow> (string, argval list) result" where
  "parseArgumentArray E js types = parse_argument_array E 0 js types"

definition missing_arg :: "gotype \<Rightarrow> argval" where
  "missing_arg t = (case t of GPtr e \<Rightarrow> ANew e | GNamed _ \<Rightarrow> AZero t)"

definition ParsePositionalArguments ::
  "rpc_ext \<Rightarrow> raw_message \<Rightarrow> gotype list \<Rightarrow> (string, argval list) result" where
  "ParsePositionalArguments E rawArgs types =
     and_then
       (case rawArgs of
          None \<Rightarrow> Inr []
        | Some JNull \<Rightarrow> Inr []
        | Some (JArr js) \<Rightarrow> parseArgumentArray E js types
        | Some _ \<Rightarrow> Inl ''non-array args'')
       (\<lambda>args. Inr (args @ map missing_arg (drop (length args) types)))"

record http_request =
  rq_method :: string
  rq_content_length :: int
  rq_raw_query :: string
  rq_body :: "(string, bytes) result"

definition maxRequestContentLength :: int where
  "maxRequestContentLength = 1024 * 1024 * 5"

definition validateRequest :: "rpc_ext \<Rightarrow> http_request \<Rightarrow> (int \<times> string, unit) result" where
  "validateRequest E r =
     (if rq_method r = ''PUT'' \<or> rq_method r = ''DELETE'' then
        Inl (405, ''method not allowed'')
      else if rq_content_length r > maxRequestContentLength then
        Inl (413, ''content length too large ('' @ int_text E (rq_content_length r) @ ''>''
                  @ int_text E maxRequestContentLength @ '')'')
      else if rq_method r = ''OPTIONS'' then Inr ()
      else Inr ())"

definition HasWriteHeader :: "http_writer \<Rightarrow> bool \<times> http_writer" where
  "HasWriteHeader w = (header_get ''Status-Written'' w = ''1'', header_del ''Status-Written'' w)"

definition SetWriteHeader :: "http_writer \<Rightarrow> http_writer" where
  "SetWriteHeader w = header_set ''Status-Written'' ''1'' w"

definition writeError :: "http_writer \<Rightarrow> int \<Rightarrow> string \<Rightarrow> http_writer" where
  "writeError w status msg =
     write_body (str_bytes msg) (SetWriteHeader (write_header status
       (header_set ''Content-Type'' ''text/plain; charset=utf-8'' w)))"

text \<open>\<open>message.go\<close>: writing a message as the response.\<close>

definition writeResponse :: "rpc_ext \<Rightarrow> rpc_option \<Rightarrow> rpc_message \<Rightarrow> http_writer \<Rightarrow> http_writer" where
  "writeResponse E opt r w =
     (let (has, w) = HasWriteHeader w in
      if has then w
      else case json_write E (message_json (int_text E) r) of
        Inl err \<Rightarrow> writeError w 500 err
      | Inr bts \<Rightarrow>
          let w = write_header 200 w in
          (case ParseRPCBody (genc E) (gdec E) opt bts False of
             Inl err \<Rightarrow> writeError w 500 err
           | Inr bts' \<Rightarrow>
               let w = header_set ''Content-Type'' ''application/json; charset=utf-8'' w;
                   w = (if 16 \<le> length (CryptoKey opt)
                        then header_set ''Content-Type'' ''text/plain'' w else w)
               in write_body bts' w))"

section \<open>The request data and the callbacks (callback.go)\<close>

datatype stored = SInt int | SOther json

record 'w jdata =
  d_msg :: rpc_message
  d_store :: "string \<rightharpoonup> stored"
  d_body :: bytes
  d_writer :: http_writer
  d_world :: 'w

datatype hook_out = HookOk | HookErr go_error | HookPanic string

type_synonym 'w before_hook = "'w jdata \<Rightarrow> string \<Rightarrow> argval list \<Rightarrow> 'w jdata \<times> hook_out"
type_synonym 'w after_hook =
  "'w jdata \<Rightarrow> string \<Rightarrow> argval list \<Rightarrow> rvalue list \<Rightarrow> 'w jdata \<times> hook_out"

record 'w callback =
  cb_method_name :: string
  cb_provider :: string
  cb_has_ctx :: bool
  cb_err_pos :: int
  cb_arg_types :: "gotype list"
  cb_fn :: "'w \<Rightarrow> argval list \<Rightarrow> 'w \<times> outcome"
  cb_before :: "'w before_hook option"
  cb_after :: "'w after_hook option"

text \<open>A method as reflection shows it: name, package path (empty when exported), input types
  with the receiver first, output types.\<close>

record 'w gomethod =
  gm_name :: string
  gm_pkg_path :: string
  gm_ins :: "gotype list"
  gm_outs :: "gotype list"
  gm_fn :: "'w \<Rightarrow> argval list \<Rightarrow> 'w \<times> outcome"

definition makeArgTypes :: "type_env \<Rightarrow> 'w gomethod \<Rightarrow> (gotype list \<times> bool \<times> int) option" where
  "makeArgTypes env m =
     (let outs = gm_outs m; ins = gm_ins m in
      if 2 < length outs then None
      else
        let bad = (length outs = 2 \<and> (isErrorType env (outs ! 0) \<or> \<not> isErrorType env (outs ! 1)));
            errPos = (if length outs = 1 \<and> isErrorType env (outs ! 0) then 0
                      else if length outs = 2 then 1 else -1);
            hasCtx = (1 < length ins \<and> te_context env (ins ! 1));
            firstArg = (if hasCtx then 2 else 1)
        in if bad then None else Some (drop firstArg ins, hasCtx, errPos))"

definition value2err :: "rvalue \<Rightarrow> go_error option" where
  "value2err v = (case v of RErr e \<Rightarrow> Some e | _ \<Rightarrow> None)"

definition server_stack :: "string \<Rightarrow> string \<Rightarrow> go_error" where
  "server_stack recovered methodName =
     RpcErr (NewError ErrInternal (methodName @ '': '' @ recovered) [])"

datatype call_result = CallErr go_error | CallOk rvalue

definition with_hook ::
  "string \<Rightarrow> ('w jdata \<Rightarrow> 'w jdata \<times> hook_out) option \<Rightarrow> 'w jdata
   \<Rightarrow> ('w jdata \<Rightarrow> 'w jdata \<times> call_result) \<Rightarrow> 'w jdata \<times> call_result" where
  "with_hook name h d k = (case h of
     None \<Rightarrow> k d
   | Some f \<Rightarrow> (case f d of
        (d', HookOk) \<Rightarrow> k d'
      | (d', HookErr e) \<Rightarrow> (d', CallErr e)
      | (d', HookPanic p) \<Rightarrow> (d', CallErr (server_stack p name))))"

definition StartTimeKey :: string where "StartTimeKey = ''__j2rpc_startTimeKey''"
definition EndTimeKey :: string where "EndTimeKey = ''__j2rpc_endTimeKey''"
definition TimeUsedKey :: string where "TimeUsedKey = ''__j2rpc_timeUsedKey''"

text \<open>Selecting the result after the hooks; an index past the results panics.\<close>

definition call_results :: "'w callback \<Rightarrow> rvalue list \<Rightarrow> call_result" where
  "call_results c results =
     (if length results = 0 then CallOk RNil
      else let err = (if 0 \<le> cb_err_pos c then
               (if int (length results) \<le> cb_err_pos c
                then Some (server_stack ''index out of range'' (cb_provider c))
                else value2err (results ! nat (cb_err_pos c))) else None)
        in case err of Some e \<Rightarrow> CallErr e | None \<Rightarrow> CallOk (results ! 0))"

definition callback_call ::
  "rpc_ext \<Rightarrow> 'w before_hook option \<Rightarrow> 'w after_hook option \<Rightarrow> 'w callback \<Rightarrow> 'w jdata
   \<Rightarrow> argval list \<Rightarrow> 'w jdata \<times> call_result" where
  "callback_call E callBefore callAfter c d args =
     (let name = cb_provider c; before = (\<lambda>h d. h d name args) in
      with_hook name (map_option before callBefore) d (\<lambda>d.
      with_hook name (map_option before (cb_before c)) d (\<lambda>d.
      case cb_fn c (d_world d) args of
        (world, Panicked p) \<Rightarrow> (d\<lparr>d_world := world\<rparr>, CallErr (server_stack p name))
      | (world, Returned results) \<Rightarrow>
          let d = d\<lparr>d_world := world, d_store := (d_store d)(EndTimeKey \<mapsto> SInt (fst (snd (clock E))))\<rparr>;
              after = (\<lambda>h d. h d name args results);
              rest = (\<lambda>d.
                with_hook name (map_option after (cb_after c)) d (\<lambda>d.
                with_hook name (map_option after callAfter) d (\<lambda>d. (d, call_results c results))))
          in case d_store d StartTimeKey of
               None \<Rightarrow> rest d
             | Some (SInt t) \<Rightarrow>
                 rest (d\<lparr>d_store := (d_store d)(TimeUsedKey \<mapsto> SInt (snd (snd (clock E)) - t))\<rparr>)
             | Some (SOther _) \<Rightarrow> (d, CallErr (server_stack ''interface conversion'' name)))))"

section \<open>Registration (j2rpc.go)\<close>

text \<open>The value handed to \<open>Register\<close>: its type name, the namespace name and the excluded
  methods it may provide, its exported methods and its call hooks.\<close>

record 'w receiver =
  rc_type_name :: string
  rc_namespace :: "string option"
  rc_exclude :: "string list option"
  rc_methods :: "'w gomethod list"
  rc_before :: "'w before_hook option"
  rc_after :: "'w after_hook option"

record 'w service =
  sv_name :: string
  sv_receiver :: "'w receiver"
  sv_callbacks :: "string \<rightharpoonup> 'w callback"

datatype 'w mact =
    MData "'w jdata \<Rightarrow> go_error option \<Rightarrow> 'w jdata"
  | MSetErr "'w jdata \<Rightarrow> go_error option \<Rightarrow> go_error option"
  | MReturnIf "'w jdata \<Rightarrow> go_error option \<Rightarrow> bool"
  | MStop
  | MNext

record 'w mid =
  mid_name :: string
  mid_prog :: "'w mact list"

record 'w server =
  s_opt :: rpc_option
  s_run :: bool
  s_services :: "string \<rightharpoonup> 'w service"
  s_exclude :: "string list"
  s_mids :: "'w mid list"
  s_before :: "'w before_hook option"
  s_after :: "'w after_hook option"
  s_types :: type_env

definition server_formatName :: "'w server \<Rightarrow> string \<Rightarrow> string" where
  "server_formatName s name = (if SnakeNamespace (s_opt s) then SnakeString name else name)"

definition skip_methods :: "'w server \<Rightarrow> 'w receiver \<Rightarrow> string list" where
  "skip_methods s rcv = [''Constructor'', ''ExcludeMethod'', ''BeforeCall'', ''AfterCall'']
     @ s_exclude s @ (case rc_exclude rcv of None \<Rightarrow> [] | Some l \<Rightarrow> l)"

definition method_callback :: "'w server \<Rightarrow> 'w receiver \<Rightarrow> 'w gomethod \<Rightarrow> 'w callback option" where
  "method_callback s rcv m =
     (if gm_pkg_path m \<noteq> [] then None
      else if gm_name m \<in> set (skip_methods s rcv) then None
      else map_option (\<lambda>(types, hasCtx, errPos).
             \<lparr>cb_method_name = gm_name m, cb_provider = [], cb_has_ctx = hasCtx,
              cb_err_pos = errPos, cb_arg_types = types, cb_fn = gm_fn m,
              cb_before = rc_before rcv, cb_after = rc_after rcv\<rparr>)
           (makeArgTypes (s_types s) m))"

definition suitableCallbacks :: "'w server \<Rightarrow> 'w receiver \<Rightarrow> (string \<rightharpoonup> 'w callback)" where
  "suitableCallbacks s rcv =
     foldl (\<lambda>cbs m. case method_callback s rcv m of
              None \<Rightarrow> cbs | Some c \<Rightarrow> cbs(server_formatName s (gm_name m) \<mapsto> c))
       Map.empty (rc_methods rcv)"

definition service_name :: "'w server \<Rightarrow> 'w receiver \<Rightarrow> string list \<Rightarrow> string" where
  "service_name s rcv names =
     (let name = (if 0 < length names \<and> 0 < length (names ! 0) then names ! 0 else []);
          name = (case rc_namespace rcv of None \<Rightarrow> name | Some n \<Rightarrow> n)
      in if length name = 0 then server_formatName s (rc_type_name rcv) else name)"

text \<open>\<open>Inl\<close> is the panic for a namespace that exists.\<close>

definition server_Register :: "'w server \<Rightarrow> 'w receiver \<Rightarrow> string list \<Rightarrow> (string, 'w server) result" where
  "server_Register s rcv names =
     (let serviceName = service_name s rcv names; callbacks = suitableCallbacks s rcv in
      if callbacks = Map.empty then Inr s
      else if s_services s serviceName \<noteq> None then
        Inl (''namespace ['' @ serviceName @ ''] exists'')
      else Inr (s\<lparr>s_services := (s_services s)(serviceName \<mapsto>
             \<lparr>sv_name = serviceName, sv_receiver = rcv, sv_callbacks = callbacks\<rparr>)\<rparr>))"

text \<open>The application object: its excluded methods, its start-up function, and the receivers
  found by their \<open>j2rpc\<close> tag, registered in order.\<close>

record 'w app =
  app_exclude :: "string list option"
  app_startup :: "('w server \<Rightarrow> (string, 'w server) result) option"
  app_namespaces :: "'w receiver list"

fun register_all :: "'w server \<Rightarrow> 'w receiver list \<Rightarrow> (string, 'w server) result" where
  "register_all s [] = Inr s"
| "register_all s (r # rs) = and_then (server_Register s r []) (\<lambda>s'. register_all s' rs)"

definition server_RegisterForApp :: "'w server \<Rightarrow> 'w app \<Rightarrow> (string, 'w server) result" where
  "server_RegisterForApp s a =
     (let s = (case app_exclude a of None \<Rightarrow> s | Some l \<Rightarrow> s\<lparr>s_exclude := l\<rparr>) in
      and_then (case app_startup a of None \<Rightarrow> Inr s | Some f \<Rightarrow> f s)
        (\<lambda>s. register_all s (app_namespaces a)))"

definition server_NamespaceService :: "'w server \<Rightarrow> string \<Rightarrow> 'w receiver option" where
  "server_NamespaceService s meth =
     map_option sv_receiver (s_services s (strings_SplitN2 meth ''.'' ! 0))"

definition server_getCallBack :: "'w server \<Rightarrow> string list \<Rightarrow> (go_error, 'w callback) result" where
  "server_getCallBack s elem = (case s_services s (elem ! 0) of
     None \<Rightarrow> Inl (RpcErr (NewError ErrNoMethod ''no namespace'' []))
   | Some svs \<Rightarrow> (case sv_callbacks svs (elem ! 1) of
        None \<Rightarrow> Inl (RpcErr (NewError ErrNoMethod ''no method'' []))
      | Some cbk \<Rightarrow> Inr cbk))"

text \<open>\<open>handler.go\<close>: handlers are told apart by their function name.\<close>

fun UpsertHandlers :: "'w mid list \<Rightarrow> 'w mid list \<Rightarrow> 'w mid list" where
  "UpsertHandlers handlers [] = handlers"
| "UpsertHandlers handlers (h # hs) =
     UpsertHandlers
       (if list_ex (\<lambda>nh. mid_name h = mid_name nh) handlers then handlers else handlers @ [h]) hs"

definition server_Use :: "'w server \<Rightarrow> 'w mid list \<Rightarrow> 'w server" where
  "server_Use s hs = (if length hs = 0 then s else s\<lparr>s_mids := UpsertHandlers (s_mids s) hs\<rparr>)"

definition server_SetCallAfter :: "'w server \<Rightarrow> 'w after_hook option \<Rightarrow> 'w server" where
  "server_SetCallAfter s h = s\<lparr>s_after := h\<rparr>"
definition server_SetCallBefore :: "'w server \<Rightarrow> 'w before_hook option \<Rightarrow> 'w server" where
  "server_SetCallBefore s h = s\<lparr>s_before := h\<rparr>"

definition server_Stop :: "'w server \<Rightarrow> 'w server" where
  "server_Stop s = (if s_run s then s\<lparr>s_run := False\<rparr> else s)"

definition server_New :: "type_env \<Rightarrow> rpc_option option \<Rightarrow> 'w app option \<Rightarrow> (string, 'w server) result" where
  "server_New env opt service =
     (let opt = (case opt of None \<Rightarrow> SnakeOption | Some o' \<Rightarrow> o');
          s = \<lparr>s_opt = opt, s_run = True, s_services = Map.empty, s_exclude = [], s_mids = [],
               s_before = None, s_after = None, s_types = env\<rparr>
      in case service of None \<Rightarrow> Inr s | Some a \<Rightarrow> server_RegisterForApp s a)"

section \<open>The context and its middleware chain (context.go)\<close>

record 'w jctx =
  x_data :: "'w jdata"
  x_request :: http_request
  x_stopped :: bool
  x_index :: nat
  x_mids :: "'w mid list"

text \<open>\<open>run_actions\<close> executes the rest of a middleware with its local error; \<open>Context_Next\<close>
  is \<open>Next\<close>. The first argument bounds the nesting of calls; \<open>Next\<close> only ever raises the
  index, so the length of the chain is enough (\<open>Next_enough\<close>).\<close>

function (sequential) run_actions ::
    "nat \<Rightarrow> 'w mact list \<Rightarrow> 'w jctx \<Rightarrow> go_error option \<Rightarrow> 'w jctx \<times> go_error option"
  and Context_Next :: "nat \<Rightarrow> 'w jctx \<Rightarrow> 'w jctx \<times> go_error option" where
  "run_actions k [] x e = (x, e)"
| "run_actions k (MData f # p) x e = run_actions k p (x\<lparr>x_data := f (x_data x) e\<rparr>) e"
| "run_actions k (MSetErr f # p) x e = run_actions k p x (f (x_data x) e)"
| "run_actions k (MReturnIf f # p) x e = (if f (x_data x) e then (x, e) else run_actions k p x e)"
| "run_actions k (MStop # p) x e = run_actions k p (x\<lparr>x_stopped := True\<rparr>) e"
| "run_actions k (MNext # p) x e = (case Context_Next k x of (x', e') \<Rightarrow> run_actions k p x' e')"
| "Context_Next 0 x = (x, None)"
| "Context_Next (Suc k) x =
     (if x_stopped x then (x, None)
      else let x = x\<lparr>x_index := x_index x + 1\<rparr> in
        if length (x_mids x) \<le> x_index x then (x, None)
        else run_actions k (mid_prog (x_mids x ! x_index x)) x None)"
  by pat_completeness auto
termination
  by (relation "measures [\<lambda>v. case v of Inl (k, p, x, e) \<Rightarrow> k | Inr (k, x) \<Rightarrow> k,
        \<lambda>v. case v of Inl (k, p, x, e) \<Rightarrow> Suc (length p) | Inr (k, x) \<Rightarrow> 0]") auto

definition Context_Do :: "'w jctx \<Rightarrow> 'w mid list \<Rightarrow> 'w jctx \<times> go_error option" where
  "Context_Do x handlers =
     (if length handlers = 0 then (x, None)
      else let x = x\<lparr>x_mids := handlers\<rparr>
           in run_actions (length handlers) (mid_prog (handlers ! 0)) x None)"

definition BeginRequest :: "http_writer \<Rightarrow> http_request \<Rightarrow> 'w jctx \<Rightarrow> 'w jctx" where
  "BeginRequest w r x = x\<lparr>x_data := (x_data x)\<lparr>d_writer := w\<rparr>, x_request := r,
     x_stopped := False, x_index := 0\<rparr>"

definition new_Context :: "'w \<Rightarrow> 'w jctx" where
  "new_Context world = \<lparr>x_data = \<lparr>d_msg = no_message, d_store = Map.empty, d_body = [],
       d_writer = new_writer, d_world = world\<rparr>,
     x_request = \<lparr>rq_method = [], rq_content_length = 0, rq_raw_query = [], rq_body = Inr []\<rparr>,
     x_stopped = False, x_index = 0, x_mids = []\<rparr>"

text \<open>\<open>pool.go\<close>: a released context has its message emptied; its store and body stay.\<close>

definition pool_Release :: "'w jctx \<Rightarrow> 'w jctx list \<Rightarrow> 'w jctx list" where
  "pool_Release x pool = x\<lparr>x_data := (x_data x)\<lparr>d_msg := RPCMessage_empty (d_msg (x_data x))\<rparr>\<rparr> # pool"

text \<open>\<open>sync.Pool\<close> hands out any pooled context or a new one: \<open>pick\<close> is its choice.\<close>

definition pool_Acquire :: "'w \<Rightarrow> nat option \<Rightarrow> 'w jctx list \<Rightarrow> 'w jctx \<times> 'w jctx list" where
  "pool_Acquire world pick pool = (case pick of
     Some i \<Rightarrow> if i < length pool then (pool ! i, take i pool @ drop (Suc i) pool)
               else (new_Context world, pool)
   | None \<Rightarrow> (new_Context world, pool))"

section \<open>Handling a request (j2rpc.go)\<close>

definition bad_request_text :: string where
  "bad_request_text = [CHR 0xE8, CHR 0xAF, CHR 0xB7, CHR 0xE6, CHR 0xB1, CHR 0x82, CHR 0xE9, CHR 0x94, CHR 0x99, CHR 0xE8, CHR 0xAF, CHR 0xAF]"

definition set_msg :: "(rpc_message \<Rightarrow> rpc_message) \<Rightarrow> 'w jctx \<Rightarrow> 'w jctx" where
  "set_msg f x = x\<lparr>x_data := (x_data x)\<lparr>d_msg := f (d_msg (x_data x))\<rparr>\<rparr>"

text \<open>The part of \<open>handle\<close> after the method is found and the chain has run.\<close>

definition handle_call :: "rpc_ext \<Rightarrow> 'w server \<Rightarrow> 'w callback \<Rightarrow> 'w jctx \<Rightarrow> 'w jctx \<times> go_error option" where
  "handle_call E s cbk x =
     (case ParsePositionalArguments E (m_params (d_msg (x_data x))) (cb_arg_types cbk) of
        Inl err \<Rightarrow> (x, Some (RpcErr (NewError ErrBadParams err [])))
      | Inr callArgs \<Rightarrow>
          (case callback_call E (s_before s) (s_after s) cbk (x_data x) callArgs of
             (d, CallErr e) \<Rightarrow> (x\<lparr>x_data := d\<rparr>, Some e)
           | (d, CallOk v) \<Rightarrow>
               let x = x\<lparr>x_data := d\<rparr> in
               (case v of
                  RNil \<Rightarrow> (x, None)
                | RErr _ \<Rightarrow> (x, None)
                | RVal True _ \<Rightarrow> (x, None)
                | RVal False (Inl err) \<Rightarrow> (x, Some (PlainErr err))
                | RVal False (Inr answer) \<Rightarrow> (set_msg (\<lambda>m. m\<lparr>m_result := Some answer\<rparr>) x, None))))"

definition server_handle :: "rpc_ext \<Rightarrow> 'w server \<Rightarrow> 'w jctx \<Rightarrow> 'w jctx \<times> go_error option" where
  "server_handle E s x =
     (case rq_body (x_request x) of
        Inl e \<Rightarrow> (x, Some (PlainErr e))
      | Inr raw \<Rightarrow>
     (case ParseRPCBody (genc E) (gdec E) (s_opt s) raw True of
        Inl e \<Rightarrow> (x, Some (PlainErr e))
      | Inr body \<Rightarrow>
     let x = x\<lparr>x_data := (x_data x)\<lparr>d_body := body,
               d_store := (d_store (x_data x))(StartTimeKey \<mapsto> SInt (fst (clock E)))\<rparr>\<rparr> in
     (case json_read E body of
        None \<Rightarrow> (x, Some (RpcErr (NewError ErrParse bad_request_text [])))
      | Some j \<Rightarrow>
     (case decode_message j (d_msg (x_data x)) of (msg, decoded) \<Rightarrow>
     let x = set_msg (\<lambda>_. msg) x in
     if \<not> decoded then (x, Some (RpcErr (NewError ErrParse bad_request_text [])))
     else if \<not> RPCMessage_hasValidID msg then
       (x, Some (RpcErr (NewError ErrInvalidRequest ''id is invalid'' [])))
     else (case RPCMessage_methods msg of
        Inl e \<Rightarrow> (x, Some e)
      | Inr elem \<Rightarrow>
     let elem = map (server_formatName s) elem;
         x = set_msg (\<lambda>m. m\<lparr>m_method := strings_Join elem ''.''\<rparr>) x in
     (case server_getCallBack s elem of
        Inl e \<Rightarrow> (x, Some e)
      | Inr cbk \<Rightarrow>
     let cbk = cbk\<lparr>cb_provider := m_method (d_msg (x_data x))\<rparr> in
     (case Context_Do x (s_mids s) of
        (x, Some e) \<Rightarrow> (x, Some e)
      | (x, None) \<Rightarrow> if x_stopped x then (x, None) else handle_call E s cbk x)))))))"

definition server_Handler :: "rpc_ext \<Rightarrow> 'w server \<Rightarrow> 'w jctx \<Rightarrow> 'w jctx" where
  "server_Handler E s x =
     (let set_w = (\<lambda>w x. x\<lparr>x_data := (x_data x)\<lparr>d_writer := w\<rparr>\<rparr>); w = d_writer (x_data x) in
      if \<not> s_run s then x
      else let (has, w) = HasWriteHeader w; x = set_w w x in
        if has then x
        else case validateRequest E (x_request x) of
          Inl (code, err) \<Rightarrow> set_w (http_Error err code w) x
        | Inr _ \<Rightarrow>
            let x = set_w (header_set ''x-content-type-options'' ''nosniff'' w) x;
                (x, err) = server_handle E s x;
                x = set_msg (\<lambda>m. RPCMessage_output (RPCMessage_setError m err)) x
            in set_w (writeResponse E (s_opt s) (d_msg (x_data x)) (d_writer (x_data x))) x)"

text \<open>\<open>ServeHTTP\<close> with the pool: the writer that answers, and the pool afterwards.\<close>

definition ServeHTTP ::
  "rpc_ext \<Rightarrow> 'w server \<Rightarrow> 'w \<Rightarrow> nat option \<Rightarrow> 'w jctx list \<Rightarrow> http_writer \<Rightarrow> http_request
   \<Rightarrow> http_writer \<times> 'w jctx list" where
  "ServeHTTP E s world pick pool w r =
     (if rq_method r = ''GET'' \<and> rq_content_length r = 0 \<and> rq_raw_query r = []
      then (write_header 200 w, pool)
      else let (x, pool) = pool_Acquire world pick pool;
               x = server_Handler E s (BeginRequest w r x)
           in (d_writer (x_data x), pool_Release x pool))"

section \<open>Positional arguments\<close>

lemma parse_argument_array_iff:
  "i \<le> length types \<Longrightarrow> parse_argument_array E i js types = Inr args \<longleftrightarrow>
     i + length js \<le> length types \<and>
     list_all2 (\<lambda>t j. fits E t j = None) (take (length js) (drop i types)) js \<and>
     args = map2 ADecoded (drop i types) js"
proof (induction js arbitrary: i args)
  case (Cons j js)
  show ?case
  proof (cases "length types \<le> i")
    case False
    then have "drop i types = types ! i # drop (Suc i) types" "Suc i \<le> length types"
      by (simp_all add: Cons_nth_drop_Suc)
    with False Cons.IH [of "Suc i"] show ?thesis
      by (auto simp: and_then_Inr_iff split: option.splits)
  qed (use Cons.prems in auto)
qed auto

lemma length_map2_drop: "length js \<le> length ts \<Longrightarrow> length (map2 f ts js) = length js"
  by simp

text \<open>C25: The arguments of a call are accepted exactly when they are absent, null, or an array
  with at most as many elements as the method has parameters, each decodable into its
  parameter's type; the method then gets one value per parameter, the decoded elements first
  and for the rest new values behind pointer types and zero values otherwise.\<close>
theorem ParsePositionalArguments_iff:
  "ParsePositionalArguments E raw types = Inr args \<longleftrightarrow>
    (\<exists>js. (raw = Some (JArr js) \<or> (raw = None \<or> raw = Some JNull) \<and> js = []) \<and>
       length js \<le> length types \<and>
       list_all2 (\<lambda>t j. fits E t j = None) (take (length js) types) js \<and>
       args = map2 ADecoded types js @ map missing_arg (drop (length js) types))"
proof -
  consider "raw = None \<or> raw = Some JNull" | js where "raw = Some (JArr js)"
    | "\<exists>j. raw = Some j \<and> (\<forall>js. j \<noteq> JArr js) \<and> j \<noteq> JNull"
    by (metis option.exhaust)
  then show ?thesis
  proof cases
    case (2 js)
    then show ?thesis
      using parse_argument_array_iff [of 0 types E js]
      by (auto simp: ParsePositionalArguments_def parseArgumentArray_def and_then_Inr_iff)
  qed (auto simp: ParsePositionalArguments_def split: json.splits)
qed

end
