(* ===== verification/Rpc_Laws.thy ===== *)
theory Rpc_Laws
  imports Rpc_Server
begin

text \<open>
  The laws of the \<open>j2rpc\<close> server: the middleware chain (fuel, order, stopping), registration
  and dispatch, the outcome of a call, the response and the context pool.
\<close>

section \<open>The middleware chain\<close>

lemma chain_mids:
  "x_mids (fst (run_actions k p x e)) = x_mids x \<and> x_index x \<le> x_index (fst (run_actions k p x e))"
  "x_mids (fst (Context_Next k x)) = x_mids x \<and> x_index x \<le> x_index (fst (Context_Next k x))"
  by (induction k p x e and k x rule: run_actions_Context_Next.induct)
    (auto simp: Let_def split: prod.splits)

lemma chain_enough:
  "1 \<le> k \<Longrightarrow> length (x_mids x) \<le> k + x_index x \<Longrightarrow>
     run_actions (k + n) p x e = run_actions k p x e"
  "1 \<le> k \<Longrightarrow> length (x_mids x) \<le> k + x_index x \<Longrightarrow>
     Context_Next (k + n) x = Context_Next k x"
proof (induction k p x e and k x rule: run_actions_Context_Next.induct)
  case (6 k p x e)
  obtain x' e' where N: "Context_Next k x = (x', e')" by (cases "Context_Next k x")
  from chain_mids(2) [of k x] N have "x_mids x' = x_mids x" "x_index x \<le> x_index x'" by simp_all
  with 6 N show ?case by (simp add: le_trans)
next
  case (8 k x)
  show ?case
  proof (cases "x_stopped x \<or> length (x_mids x) \<le> x_index x + 1")
    case False
    with 8 show ?thesis by (simp add: Let_def)
  qed (auto simp: Let_def)
qed auto

text \<open>The chain always ends: the bound \<open>Context_Do\<close> runs with, the number of middlewares,
  is enough, since any larger bound gives the same context and error.\<close>
theorem Context_Do_enough:
  "(if handlers = [] then (x, None)
    else run_actions (length handlers + n) (mid_prog (handlers ! 0)) (x\<lparr>x_mids := handlers\<rparr>) None)
   = Context_Do x handlers"
proof (cases handlers)
  case (Cons h hs)
  then show ?thesis
    using chain_enough(1) [of "length handlers" "x\<lparr>x_mids := handlers\<rparr>" n "mid_prog h" None]
    by (simp add: Context_Do_def Let_def)
qed (simp add: Context_Do_def)

text \<open>A middleware that works on the request data, calls \<open>Next\<close>, and works on it again.\<close>

definition around :: "string \<Rightarrow> ('w jdata \<Rightarrow> 'w jdata) \<Rightarrow> ('w jdata \<Rightarrow> 'w jdata) \<Rightarrow> 'w mid" where
  "around n f g = \<lparr>mid_name = n, mid_prog = [MData (\<lambda>d _. f d), MNext, MData (\<lambda>d _. g d)]\<rparr>"

definition halting :: "string \<Rightarrow> ('w jdata \<Rightarrow> 'w jdata) \<Rightarrow> 'w mid" where
  "halting n f = \<lparr>mid_name = n, mid_prog = [MData (\<lambda>d _. f d), MStop, MNext]\<rparr>"

fun onion :: "(string \<times> ('d \<Rightarrow> 'd) \<times> ('d \<Rightarrow> 'd)) list \<Rightarrow> ('d \<Rightarrow> 'd) \<Rightarrow> 'd \<Rightarrow> 'd" where
  "onion [] core d = core d"
| "onion ((n, f, g) # hs) core d = g (onion hs core (f d))"

abbreviation around_all where "around_all \<equiv> map (\<lambda>(n, f, g). around n f g)"

lemma run_around: "run_actions k (mid_prog (around n f g)) x e =
   (case Context_Next k (x\<lparr>x_data := f (x_data x)\<rparr>) of (x', e') \<Rightarrow> (x'\<lparr>x_data := g (x_data x')\<rparr>, e'))"
  by (simp add: around_def split: prod.split)

lemma run_halting: "1 \<le> k \<Longrightarrow> run_actions k (mid_prog (halting n f)) x e =
   (x\<lparr>x_data := f (x_data x), x_stopped := True\<rparr>, None)"
  by (cases k) (simp_all add: halting_def)

lemma drop_ConsD: "drop i xs = y # ys \<Longrightarrow> i < length xs \<and> xs ! i = y \<and> drop (Suc i) xs = ys"
  by (metis Cons_nth_drop_Suc list.inject not_le_imp_less drop_all list.distinct(1))

definition chain_end :: "'w mid list \<Rightarrow> ('w jdata \<Rightarrow> 'w jdata) \<Rightarrow> bool \<Rightarrow> bool" where
  "chain_end rest core stopped \<longleftrightarrow> rest = [] \<and> core = id \<and> \<not> stopped \<or>
     (\<exists>n r. rest = halting n core # r) \<and> stopped"

lemma Next_onion:
  "chain_end rest core st \<Longrightarrow> \<not> x_stopped x \<Longrightarrow>
   drop (Suc (x_index x)) (x_mids x) = around_all ls @ rest \<Longrightarrow> Suc (length ls) < k \<Longrightarrow>
   \<exists>x'. Context_Next k x = (x', None) \<and> x_data x' = onion ls core (x_data x) \<and>
     x_stopped x' = st \<and> x_request x' = x_request x"
proof (induction ls arbitrary: x k)
  case Nil
  then obtain k' where k: "k = Suc k'" "1 \<le> k'" by (cases k) auto
  from Nil.prems(1) consider "rest = []" "core = id" "\<not> st"
    | n r where "rest = halting n core # r" "st" by (auto simp: chain_end_def)
  then show ?case
  proof cases
    case (2 n r)
    with Nil.prems drop_ConsD [of "Suc (x_index x)" "x_mids x"] k show ?thesis
      by (simp add: Let_def run_halting)
  qed (use Nil k in \<open>simp add: Let_def\<close>)
next
  case (Cons l ls)
  obtain n f g where l: "l = (n, f, g)" by (cases l)
  from Cons.prems obtain k' where k: "k = Suc k'" by (cases k) auto
  note d = drop_ConsD [of "Suc (x_index x)" "x_mids x" "around n f g" "around_all ls @ rest"]
  let ?x = "x\<lparr>x_index := Suc (x_index x), x_data := f (x_data x)\<rparr>"
  from Cons.IH [of ?x k'] Cons.prems d k l obtain x' where
    "Context_Next k' ?x = (x', None)" "x_data x' = onion ls core (f (x_data x))"
    "x_stopped x' = st" "x_request x' = x_request x" by auto
  with Cons.prems d k l show ?case by (simp add: Let_def run_around)
qed

lemma Do_onion:
  assumes e: "chain_end r core st" and "\<not> x_stopped x" "x_index x = 0"
  shows "\<exists>x'. Context_Do x (around_all ls @ r) = (x', None) \<and> x_data x' = onion ls core (x_data x)
       \<and> x_stopped x' = st \<and> x_request x' = x_request x"
proof (cases ls)
  case Nil
  with assms show ?thesis by (auto simp: chain_end_def Context_Do_def Let_def run_halting)
next
  case (Cons l ls')
  obtain n f g where l: "l = (n, f, g)" by (cases l)
  let ?hs = "around_all ls @ r" let ?x = "x\<lparr>x_mids := ?hs, x_data := f (x_data x)\<rparr>"
  from assms Cons l Next_onion [of r core st ?x ls' "length ?hs + 2"]
  obtain x' where x': "Context_Next (length ?hs + 2) ?x = (x', None)"
    "x_data x' = onion ls' core (f (x_data x))" "x_stopped x' = st" "x_request x' = x_request x" by auto
  with chain_enough(2) [of "length ?hs" ?x 2] Cons
  have "Context_Next (length ?hs) ?x = (x', None)" by (simp del: Context_Next.simps)
  with x' Cons l show ?thesis by (simp add: Context_Do_def Let_def run_around del: Context_Next.simps)
qed

text \<open>A request that \<open>handle\<close> takes as far as the middlewares: the body, its message, and the method's callback; and
  the data as the first middleware sees it.\<close>

definition finds_method :: "rpc_ext \<Rightarrow> 'w server \<Rightarrow> 'w jctx \<Rightarrow> bytes \<Rightarrow> rpc_message \<Rightarrow> 'w callback \<Rightarrow> bool" where
  "finds_method E s x body msg cbk \<longleftrightarrow>
     (\<exists>raw j elem. rq_body (x_request x) = Inr raw \<and> ParseRPCBody (genc E) (gdec E) (s_opt s) raw True = Inr body \<and>
        json_read E body = Some j \<and> decode_message j (d_msg (x_data x)) = (msg, True) \<and> RPCMessage_hasValidID msg \<and>
        RPCMessage_methods msg = Inr elem \<and> server_getCallBack s (map (server_formatName s) elem) = Inr cbk)"

definition formatted_method :: "'w server \<Rightarrow> rpc_message \<Rightarrow> string" where
  "formatted_method s msg = (case RPCMessage_methods msg of
     Inl _ \<Rightarrow> [] | Inr elem \<Rightarrow> strings_Join (map (server_formatName s) elem) ''.'')"

definition read_data :: "rpc_ext \<Rightarrow> 'w server \<Rightarrow> bytes \<Rightarrow> rpc_message \<Rightarrow> 'w jdata \<Rightarrow> 'w jdata" where
  "read_data E s body msg d = d\<lparr>d_body := body, d_store := (d_store d)(StartTimeKey \<mapsto> SInt (fst (clock E))),
     d_msg := msg\<lparr>m_method := formatted_method s msg\<rparr>\<rparr>"

lemma handle_chain:
  assumes "finds_method E s x body msg cbk"
  shows "\<exists>x0. x_data x0 = read_data E s body msg (x_data x) \<and> x_stopped x0 = x_stopped x \<and> x_index x0 = x_index x \<and>
    x_request x0 = x_request x \<and> server_handle E s x = (case Context_Do x0 (s_mids s) of
        (x, Some e) \<Rightarrow> (x, Some e)
      | (x, None) \<Rightarrow> if x_stopped x then (x, None) else handle_call E s (cbk\<lparr>cb_provider := formatted_method s msg\<rparr>) x)"
proof -
  let ?x0 = "x\<lparr>x_data := read_data E s body msg (x_data x)\<rparr>"
  have "server_handle E s x = (case Context_Do ?x0 (s_mids s) of
        (x, Some e) \<Rightarrow> (x, Some e)
      | (x, None) \<Rightarrow> if x_stopped x then (x, None) else handle_call E s (cbk\<lparr>cb_provider := formatted_method s msg\<rparr>) x)"
    using assms by (auto simp: finds_method_def server_handle_def set_msg_def read_data_def formatted_method_def Let_def split: prod.split option.split)
  then show ?thesis by (intro exI [of _ ?x0]) simp
qed

text \<open>C18: The middlewares run around each other and before the call, not around it. For a request whose method is
  found, on a server whose middlewares work on the request, call \<open>Next\<close> and work on it again: they run like the layers of
  an onion in the order they were added, all of them to their end, around nothing; then the method is called once, on the
  data they leave, so that no part of a middleware sees its result. When one of them stops the request instead, what follows
  it in the list does not run, the layers around it still finish, and the method is not called.\<close>
theorem middlewares_before_call:
  assumes "finds_method E s x body msg cbk" "\<not> x_stopped x" "x_index x = 0"
  shows "(s_mids s = around_all ls \<longrightarrow>
      (\<exists>x'. x_data x' = onion ls id (read_data E s body msg (x_data x)) \<and>
        server_handle E s x = handle_call E s (cbk\<lparr>cb_provider := formatted_method s msg\<rparr>) x'))
    \<and> (s_mids s = around_all ls @ halting m h # rest \<longrightarrow>
      (\<exists>x'. x_data x' = onion ls h (read_data E s body msg (x_data x)) \<and> x_stopped x' \<and> server_handle E s x = (x', None)))"
proof -
  from handle_chain [OF assms(1)] obtain x0 where x0: "x_data x0 = read_data E s body msg (x_data x)" "\<not> x_stopped x0" "x_index x0 = 0"
    and h: "server_handle E s x = (case Context_Do x0 (s_mids s) of
        (x, Some e) \<Rightarrow> (x, Some e)
      | (x, None) \<Rightarrow> if x_stopped x then (x, None) else handle_call E s (cbk\<lparr>cb_provider := formatted_method s msg\<rparr>) x)"
    using assms(2,3) by auto
  have "chain_end [] id False" "chain_end (halting m h # rest) h True" by (auto simp: chain_end_def)
  note ends = this [THEN Do_onion, OF x0(2,3), of ls]
  show ?thesis
  proof (intro conjI impI)
    assume "s_mids s = around_all ls"
    with ends(1) h x0(1) show "\<exists>x'. x_data x' = onion ls id (read_data E s body msg (x_data x)) \<and>
        server_handle E s x = handle_call E s (cbk\<lparr>cb_provider := formatted_method s msg\<rparr>) x'" by auto
  next
    assume "s_mids s = around_all ls @ halting m h # rest"
    with ends(2) h x0(1) show "\<exists>x'. x_data x' = onion ls h (read_data E s body msg (x_data x)) \<and> x_stopped x' \<and> server_handle E s x = (x', None)"
      by auto
  qed
qed

section \<open>Registration and dispatch\<close>

lemma method_callback_other [simp]:
  "method_callback s (rcv\<lparr>rc_methods := ms\<rparr>) = method_callback s rcv"
proof -
  have "skip_methods s (rcv\<lparr>rc_methods := ms\<rparr>) = skip_methods s rcv" by (simp add: skip_methods_def)
  then show ?thesis by (simp add: fun_eq_iff method_callback_def)
qed

lemma suitable_step:
  "suitableCallbacks s (rcv\<lparr>rc_methods := ms @ [m]\<rparr>) =
    (case method_callback s rcv m of
       None \<Rightarrow> suitableCallbacks s (rcv\<lparr>rc_methods := ms\<rparr>)
     | Some c \<Rightarrow> (suitableCallbacks s (rcv\<lparr>rc_methods := ms\<rparr>))(server_formatName s (gm_name m) \<mapsto> c))"
  by (simp add: suitableCallbacks_def split: option.split)

lemma suitable_in:
  assumes "m \<in> set ms" "method_callback s rcv m = Some c"
    and "\<And>m'. m' \<in> set ms \<Longrightarrow> server_formatName s (gm_name m') = server_formatName s (gm_name m) \<Longrightarrow> m' = m"
  shows "suitableCallbacks s (rcv\<lparr>rc_methods := ms\<rparr>) (server_formatName s (gm_name m)) = Some c"
  using assms
proof (induction ms rule: rev_induct)
  case (snoc a ms)
  show ?case
  proof (cases "a = m")
    case True
    with snoc.prems show ?thesis by (simp add: suitable_step)
  next
    case False
    with snoc.prems have m: "m \<in> set ms" "server_formatName s (gm_name a) \<noteq> server_formatName s (gm_name m)"
      by auto
    with snoc.IH snoc.prems have "suitableCallbacks s (rcv\<lparr>rc_methods := ms\<rparr>) (server_formatName s (gm_name m)) = Some c"
      by simp
    with m show ?thesis by (simp add: suitable_step split: option.split)
  qed
qed simp

lemma Register_Inr:
  "server_Register s rcv names = Inr s' \<longleftrightarrow>
     suitableCallbacks s rcv = Map.empty \<and> s' = s \<or>
     suitableCallbacks s rcv \<noteq> Map.empty \<and> s_services s (service_name s rcv names) = None \<and>
     s' = s\<lparr>s_services := (s_services s)(service_name s rcv names \<mapsto>
       \<lparr>sv_name = service_name s rcv names, sv_receiver = rcv, sv_callbacks = suitableCallbacks s rcv\<rparr>)\<rparr>"
  by (simp add: server_Register_def Let_def eq_commute [of s'])

lemma formatName_idem [simp]: "server_formatName s (server_formatName s n) = server_formatName s n"
  by (simp add: server_formatName_def SnakeString_idem)

lemma formatName_dot: "CHR ''.'' \<in> set (server_formatName s n) \<longleftrightarrow> CHR ''.'' \<in> set n"
  by (simp add: server_formatName_def SnakeString_dot)

lemma Register_keeps [simp]:
  "server_Register s rcv ns = Inr s' \<Longrightarrow> s_opt s' = s_opt s"
  "server_Register s rcv ns = Inr s' \<Longrightarrow> server_formatName s' = server_formatName s"
  by (auto simp: Register_Inr server_formatName_def fun_eq_iff)

lemma methods_dot:
  "CHR ''.'' \<notin> set a \<Longrightarrow> m_method msg = a @ ''.'' @ b \<Longrightarrow> RPCMessage_methods msg = Inr [a, b]"
  by (simp add: RPCMessage_methods_def SplitN2_char Let_def)

lemma Register_dispatches:
  assumes reg: "server_Register s rcv names = Inr s'"
    and m: "m \<in> set (rc_methods rcv)" "method_callback s rcv m = Some c"
    and uniq: "\<forall>m' \<in> set (rc_methods rcv).
      server_formatName s (gm_name m') = server_formatName s (gm_name m) \<longrightarrow> m' = m"
  shows "server_getCallBack s' [service_name s rcv names, server_formatName s (gm_name m)] = Inr c"
proof -
  from suitable_in [of m "rc_methods rcv" s rcv c] m uniq
  have c: "suitableCallbacks s rcv (server_formatName s (gm_name m)) = Some c" by simp
  then have "suitableCallbacks s rcv \<noteq> Map.empty" by auto
  with reg have "s_services s' (service_name s rcv names) = Some
     \<lparr>sv_name = service_name s rcv names, sv_receiver = rcv, sv_callbacks = suitableCallbacks s rcv\<rparr>"
    unfolding Register_Inr by simp
  with c show ?thesis by (simp add: server_getCallBack_def)
qed

text \<open>C12: A receiver registered under its type name is served afterwards: a request naming
  \<open>Type.Method\<close>, or the same in the server's own spelling, reaches the callback of that
  method; every namespace registered before keeps its service; and registering a receiver
  with callable methods under the same namespace again panics.\<close>
theorem Register_then_dispatch:
  assumes "server_Register s rcv [] = Inr s'"
    and "rc_namespace rcv = None" "CHR ''.'' \<notin> set (rc_type_name rcv)"
    and "m \<in> set (rc_methods rcv)" "method_callback s rcv m = Some c"
    and "\<forall>m' \<in> set (rc_methods rcv).
      server_formatName s (gm_name m') = server_formatName s (gm_name m) \<longrightarrow> m' = m"
    and "m_method msg \<in> {rc_type_name rcv @ ''.'' @ gm_name m,
           server_formatName s (rc_type_name rcv) @ ''.'' @ server_formatName s (gm_name m)}"
  shows "and_then (RPCMessage_methods msg) (\<lambda>elem. server_getCallBack s' (map (server_formatName s') elem)) = Inr c
    \<and> (s_services s n = Some svc \<longrightarrow> s_services s' n = Some svc)
    \<and> (suitableCallbacks s' rcv' \<noteq> Map.empty \<and> service_name s' rcv' names' = service_name s rcv []
        \<longrightarrow> server_Register s' rcv' names' = Inl (''namespace ['' @ service_name s rcv [] @ ''] exists''))"
proof -
  let ?f = "server_formatName s"
  have name: "service_name s rcv [] = ?f (rc_type_name rcv)"
    using assms(2) by (simp add: service_name_def Let_def)
  from assms(3,7) formatName_dot methods_dot [of _ msg] have "RPCMessage_methods msg \<in>
      {Inr [rc_type_name rcv, gm_name m], Inr [?f (rc_type_name rcv), ?f (gm_name m)]}" by auto
  moreover have "server_getCallBack s' [?f (rc_type_name rcv), ?f (gm_name m)] = Inr c"
    using Register_dispatches [OF assms(1,4,5,6)] name by simp
  moreover from this assms(1) name have "s_services s' (service_name s rcv []) \<noteq> None"
    by (auto simp: server_getCallBack_def split: option.splits)
  moreover have "s_services s' n = Some svc" if "s_services s n = Some svc"
    using assms(1) that unfolding Register_Inr by auto
  ultimately show ?thesis
    using assms(1) by (auto simp: server_Register_def [of s'] Let_def)
qed

definition demo_env :: type_env where
  "demo_env = \<lparr>te_error = (\<lambda>t. t = GNamed ''error''), te_context = (\<lambda>t. t = GNamed ''Context'')\<rparr>"

definition demo_method :: "nat gomethod" where
  "demo_method = \<lparr>gm_name = ''GetName'', gm_pkg_path = [],
     gm_ins = [GPtr (GNamed ''User''), GNamed ''Context'', GNamed ''int''],
     gm_outs = [GNamed ''string'', GNamed ''error''],
     gm_fn = (\<lambda>n args. (Suc n, Returned [RVal False (Inr (JStr ''x'')), RNil]))\<rparr>"

definition demo_receiver :: "nat receiver" where
  "demo_receiver = \<lparr>rc_type_name = ''User'', rc_namespace = None, rc_exclude = None,
     rc_methods = [demo_method], rc_before = None, rc_after = None\<rparr>"

definition demo_callback :: "nat callback" where
  "demo_callback = \<lparr>cb_method_name = ''GetName'', cb_provider = [], cb_has_ctx = True,
     cb_err_pos = 1, cb_arg_types = [GNamed ''int''], cb_fn = gm_fn demo_method,
     cb_before = None, cb_after = None\<rparr>"

definition demo_server :: "nat server" where
  "demo_server = \<lparr>s_opt = SnakeOption, s_run = True, s_services = Map.empty, s_exclude = [],
     s_mids = [], s_before = None, s_after = None, s_types = demo_env\<rparr>"

lemma demo_method_callback:
  "method_callback demo_server demo_receiver demo_method = Some demo_callback"
  by (simp add: method_callback_def skip_methods_def makeArgTypes_def demo_callback_def demo_env_def
      demo_receiver_def demo_method_def demo_server_def Let_def)

theorem Register_then_dispatch_witness:
  "\<exists>s'. server_Register demo_server demo_receiver [] = Inr s' \<and>
     and_then (RPCMessage_methods (no_message\<lparr>m_method := ''User.GetName''\<rparr>))
       (\<lambda>elem. server_getCallBack s' (map (server_formatName s') elem)) = Inr demo_callback"
proof -
  have "suitableCallbacks demo_server demo_receiver \<noteq> Map.empty"
    using suitable_in [of demo_method "[demo_method]" demo_server demo_receiver demo_callback]
      demo_method_callback by (auto simp: demo_receiver_def)
  moreover have "s_services demo_server n = None" for n by (simp add: demo_server_def)
  ultimately obtain s' where s': "server_Register demo_server demo_receiver [] = Inr s'"
    using Register_Inr by metis
  let ?msg = "no_message\<lparr>m_method := ''User.GetName''\<rparr>"
  have "m_method ?msg \<in> {rc_type_name demo_receiver @ ''.'' @ gm_name demo_method,
      server_formatName demo_server (rc_type_name demo_receiver) @ ''.'' @ server_formatName demo_server (gm_name demo_method)}"
    by (simp add: demo_receiver_def demo_method_def)
  from Register_then_dispatch [OF s' _ _ _ demo_method_callback _ this, THEN conjunct1]
  have "and_then (RPCMessage_methods ?msg) (\<lambda>elem. server_getCallBack s' (map (server_formatName s') elem)) = Inr demo_callback"
    by (simp add: demo_receiver_def)
  with s' show ?thesis by blast
qed

text \<open>With snake-case namespaces, a request can never name a namespace that was registered
  under an explicit name with an upper-case letter: the name is stored as given and looked up
  converted.\<close>

theorem upper_namespace_unreachable:
  assumes "SnakeNamespace (s_opt s)" "c \<in> set ns" "is_upper c"
    and "\<And>n. n \<noteq> ns \<Longrightarrow> s_services s n = None" "RPCMessage_methods msg = Inr elem"
  shows "server_getCallBack s (map (server_formatName s) elem)
     = Inl (RpcErr (NewError ErrNoMethod ''no namespace'' []))"
proof -
  from methods_ok [OF assms(5)] obtain a b where elem: "elem = [a, b]" by blast
  have "SnakeString a \<noteq> ns" using assms(2,3) SnakeString_no_upper [of c a] by auto
  with assms(1,4) elem show ?thesis by (simp add: server_getCallBack_def server_formatName_def)
qed

section \<open>Calls\<close>

text \<open>What a call of a registered method yields: a panic of the method becomes an
  internal error that names the method and the panic, an error in the last result becomes the
  call's error, otherwise the first result (or none) is the answer; the method's effect is
  kept in every case and the message is left alone.\<close>
theorem call_outcome:
  assumes "method_callback s rcv m = Some c" "rc_before rcv = None" "rc_after rcv = None"
    and "d_store d StartTimeKey = Some (SInt t)" "cb_fn c (d_world d) args = (world, out)"
    and "\<forall>rs. out = Returned rs \<longrightarrow> length rs = length (gm_outs m)"
  shows "let (d', r) = callback_call E None None (c\<lparr>cb_provider := name\<rparr>) d args in
     d_world d' = world \<and> d_msg d' = d_msg d \<and> d_writer d' = d_writer d \<and>
     r = (case out of
       Panicked p \<Rightarrow> CallErr (RpcErr \<lparr>e_code = ErrInternal, e_message = name @ '': '' @ p, e_data = None\<rparr>)
     | Returned [] \<Rightarrow> CallOk RNil
     | Returned (v # vs) \<Rightarrow>
         (if isErrorType (s_types s) (last (gm_outs m))
          then (case last (v # vs) of RErr e \<Rightarrow> CallErr e | _ \<Rightarrow> CallOk v) else CallOk v))"
proof -
  obtain types hasCtx errPos where mk: "makeArgTypes (s_types s) m = Some (types, hasCtx, errPos)"
    and c: "cb_before c = None" "cb_after c = None" "cb_err_pos c = errPos"
    using assms(1-3) by (auto simp: method_callback_def split: if_splits)
  have "StartTimeKey \<noteq> EndTimeKey" by (simp add: StartTimeKey_def EndTimeKey_def)
  note call = callback_call_def with_hook_def Let_def c assms(4,5) this
  show ?thesis
  proof (cases out)
    case (Panicked p)
    then show ?thesis by (simp add: call server_stack_def NewError_def)
  next
    case (Returned rs)
    with assms(6) have len: "length rs = length (gm_outs m)" by simp
    from mk have "length (gm_outs m) \<le> 2"
      by (simp add: makeArgTypes_def Let_def split: if_splits)
    with len consider "rs = []" | v t where "rs = [v]" "gm_outs m = [t]"
      | v w t u where "rs = [v, w]" "gm_outs m = [t, u]"
      by (cases rs; cases "gm_outs m"; cases "tl rs"; cases "tl (gm_outs m)") auto
    then show ?thesis
    proof cases
      case (2 v t)
      with mk show ?thesis
        by (auto simp: Returned call call_results_def value2err_def makeArgTypes_def
            split: rvalue.split if_splits)
    next
      case (3 v w t u)
      with mk show ?thesis
        by (auto simp: Returned call call_results_def value2err_def makeArgTypes_def
            split: rvalue.split if_splits)
    qed (simp add: Returned call call_results_def)
  qed
qed

section \<open>Requests and responses\<close>

text \<open>A server without middlewares and hooks, so that only the package's own code touches the
  message and the writer.\<close>

definition plain_server :: "'w server \<Rightarrow> bool" where
  "plain_server s \<longleftrightarrow> s_mids s = [] \<and> s_before s = None \<and> s_after s = None \<and>
     (\<forall>ns svc n c. s_services s ns = Some svc \<longrightarrow> sv_callbacks svc n = Some c \<longrightarrow>
        cb_before c = None \<and> cb_after c = None)"

lemma plain_getCallBack:
  "plain_server s \<Longrightarrow> server_getCallBack s elem = Inr c \<Longrightarrow> cb_before c = None \<and> cb_after c = None"
  by (auto simp: plain_server_def server_getCallBack_def split: option.splits)

definition same_request :: "'w jdata \<Rightarrow> 'w jdata \<Rightarrow> bool" where
  "same_request d d' \<longleftrightarrow> d_writer d' = d_writer d \<and> m_id (d_msg d') = m_id (d_msg d) \<and>
     m_error (d_msg d') = m_error (d_msg d)"

lemma callback_call_plain:
  "cb_before c = None \<Longrightarrow> cb_after c = None \<Longrightarrow>
   same_request d (fst (callback_call E None None c d args))"
  by (auto simp: callback_call_def with_hook_def Let_def same_request_def
      split: prod.split outcome.split option.split stored.split)

lemma handle_call_plain:
  assumes "s_before s = None" "s_after s = None" "cb_before c = None" "cb_after c = None"
  shows "same_request (x_data x) (x_data (fst (handle_call E s c x)))"
proof (cases "ParsePositionalArguments E (m_params (d_msg (x_data x))) (cb_arg_types c)")
  case (Inr args)
  obtain d r where "callback_call E None None c (x_data x) args = (d, r)" by fastforce
  with callback_call_plain [of c "x_data x" E args] assms Inr show ?thesis
    by (cases r) (auto simp: handle_call_def same_request_def set_msg_def Let_def
        split: rvalue.split bool.split sum.split)
qed (simp add: handle_call_def same_request_def)

text \<open>A request whose body decodes: the id of the message it decodes to.\<close>

definition decodes_to :: "rpc_ext \<Rightarrow> rpc_option \<Rightarrow> http_request \<Rightarrow> rpc_message \<Rightarrow> bool \<Rightarrow> bool" where
  "decodes_to E opt r msg ok \<longleftrightarrow> (case rq_body r of Inl _ \<Rightarrow> False
     | Inr raw \<Rightarrow> (case ParseRPCBody (genc E) (gdec E) opt raw True of Inl _ \<Rightarrow> False
        | Inr body \<Rightarrow> (case json_read E body of None \<Rightarrow> False
           | Some j \<Rightarrow> decode_message j no_message = (msg, ok))))"

lemma handle_plain:
  assumes "plain_server s" "d_msg (x_data x) = no_message"
    and "decodes_to E (s_opt s) (x_request x) msg ok"
  shows "d_writer (x_data (fst (server_handle E s x))) = d_writer (x_data x) \<and>
    m_id (d_msg (x_data (fst (server_handle E s x)))) = m_id msg"
proof -
  obtain raw body j where b: "rq_body (x_request x) = Inr raw"
    "ParseRPCBody (genc E) (gdec E) (s_opt s) raw True = Inr body" "json_read E body = Some j"
    "decode_message j no_message = (msg, ok)"
    using assms(3) by (auto simp: decodes_to_def split: sum.splits option.splits)
  have p: "s_before s = None" "s_after s = None" "s_mids s = []"
    using assms(1) by (simp_all add: plain_server_def)
  show ?thesis
  proof (cases "RPCMessage_methods msg")
    case (Inr elem)
    show ?thesis
    proof (cases "server_getCallBack s (map (server_formatName s) elem)")
      case (Inr c)
      with plain_getCallBack [OF assms(1) this] Inr \<open>RPCMessage_methods msg = _\<close> b p assms(2)
      show ?thesis
        by (simp add: server_handle_def Let_def set_msg_def Context_Do_def
            handle_call_plain [unfolded same_request_def, THEN conjunct1]
            handle_call_plain [unfolded same_request_def, THEN conjunct2, THEN conjunct1])
    qed (use b p assms(2) Inr in \<open>auto simp: server_handle_def Let_def set_msg_def\<close>)
  qed (use b p assms(2) in \<open>auto simp: server_handle_def Let_def set_msg_def\<close>)
qed

lemma header_get_set [simp]:
  "header_get k (header_set k v w) = v" "k \<noteq> k' \<Longrightarrow> header_get k (header_set k' v w) = header_get k w"
  "header_get k (header_del k w) = []"
  by (simp_all add: header_get_def header_set_def header_del_def)

lemma output_fields [simp]:
  "m_version (RPCMessage_output m) = ''2.0''" "m_method (RPCMessage_output m) = []"
  "m_params (RPCMessage_output m) = None" "m_result (RPCMessage_output m) = m_result m"
  "m_error (RPCMessage_output m) = m_error m"
  "m_id (RPCMessage_output m) = Some (case m_id m of None \<Rightarrow> JNum ''1'' | Some j \<Rightarrow> j)"
  by (auto simp: RPCMessage_output_def Let_def split: option.split)

lemma setError_id [simp]: "m_id (RPCMessage_setError m e) = m_id m"
  by (simp add: RPCMessage_setError_def Let_def split: option.split)

lemma writeResponse_plain:
  assumes "header_get ''Status-Written'' w \<noteq> ''1''" "hw_sent w = None"
    and "json_write E (message_json (int_text E) m) = Inr b" "ParseRPCBody (genc E) (gdec E) opt b False = Inr c"
  shows "hw_body (writeResponse E opt m w) = hw_body w @ c"
    and "hw_sent (writeResponse E opt m w) = Some (200, (hw_header w)(''Status-Written'' := None))"
  using assms by (simp_all add: writeResponse_def HasWriteHeader_def Let_def
      write_body_def write_header_def header_set_def header_del_def)

text \<open>What \<open>Handler\<close> does with a context whose message is empty.\<close>

lemma Handler_answers:
  assumes "plain_server s" "s_run s" and enc: "\<forall>b. \<exists>c. ParseRPCBody (genc E) (gdec E) (s_opt s) b False = Inr c"
    and "rq_method r = ''POST''" "rq_content_length r \<le> maxRequestContentLength"
    and "decodes_to E (s_opt s) r msg ok" and msg: "d_msg (x_data x) = no_message"
    and w0: "hw_sent w0 = None" "hw_body w0 = []" "header_get ''Status-Written'' w0 \<noteq> ''1''"
    and "\<forall>m. \<exists>b. json_write E (message_json (int_text E) m) = Inr b"
  shows "\<exists>m b. json_write E (message_json (int_text E) m) = Inr b \<and>
     ParseRPCBody (genc E) (gdec E) (s_opt s) b False = Inr (hw_body (d_writer (x_data (server_Handler E s (BeginRequest w0 r x))))) \<and>
     hw_sent (d_writer (x_data (server_Handler E s (BeginRequest w0 r x))))
       = Some (200, (hw_header w0)(''x-content-type-options'' \<mapsto> ''nosniff'', ''Status-Written'' := None)) \<and>
     m_version m = ''2.0'' \<and> m_method m = [] \<and> m_params m = None \<and>
     m_id m = Some (case m_id msg of None \<Rightarrow> JNum ''1'' | Some j \<Rightarrow> j)"
proof -
  define w where "w = header_set ''x-content-type-options'' ''nosniff'' (header_del ''Status-Written'' w0)"
  define x0 where "x0 = (BeginRequest w0 r x)\<lparr>x_data := (x_data (BeginRequest w0 r x))\<lparr>d_writer := w\<rparr>\<rparr>"
  obtain x1 err where h: "server_handle E s x0 = (x1, err)" by fastforce
  have x0: "d_msg (x_data x0) = no_message" "x_request x0 = r" "d_writer (x_data x0) = w"
    using msg by (simp_all add: x0_def BeginRequest_def)
  with handle_plain [OF assms(1), of x0 E msg ok] assms(6) h
  have x1: "d_writer (x_data x1) = w" "m_id (d_msg (x_data x1)) = m_id msg" by simp_all
  let ?m = "RPCMessage_output (RPCMessage_setError (d_msg (x_data x1)) err)"
  obtain b where b: "json_write E (message_json (int_text E) ?m) = Inr b" using assms(11) by blast
  obtain b' where b': "ParseRPCBody (genc E) (gdec E) (s_opt s) b False = Inr b'" using enc by blast
  have v: "validateRequest E r = Inr ()" using assms(4,5) by (simp add: validateRequest_def)
  have "d_writer (x_data (server_Handler E s (BeginRequest w0 r x))) = writeResponse E (s_opt s) ?m w"
    using h x1 v assms(2,4) w0(3)
    by (simp add: server_Handler_def Let_def HasWriteHeader_def BeginRequest_def
        x0_def w_def set_msg_def)
  moreover have "header_get ''Status-Written'' w \<noteq> ''1''" "hw_sent w = None" "hw_body w = []"
    "(hw_header w)(''Status-Written'' := None) = (hw_header w0)(''x-content-type-options'' \<mapsto> ''nosniff'', ''Status-Written'' := None)"
    using w0(1,2) by (auto simp: w_def header_set_def header_del_def header_get_def)
  ultimately show ?thesis
    using writeResponse_plain [OF _ _ b b', of w] b b' x1(2) by (intro exI [of _ ?m] exI [of _ b]) simp
qed

text \<open>A running server with no middlewares and hooks, over an unencrypted body, answers
  every request whose body decodes with exactly one JSON message and status 200, also when
  the outcome is an error: the message has version 2.0, no method and no parameters, and the
  id of the request (1 when it has none). The headers sent are those set before the status,
  which do not include the response's own content type.\<close>
theorem ServeHTTP_answers:
  assumes "plain_server s" "s_run s" "CryptoKey (s_opt s) = []"
    and "rq_method r = ''POST''" "rq_content_length r \<le> maxRequestContentLength"
    and "decodes_to E (s_opt s) r msg ok" "\<forall>x \<in> set pool. d_msg (x_data x) = no_message"
    and "\<forall>m. \<exists>b. json_write E (message_json (int_text E) m) = Inr b"
  shows "\<exists>m b. json_write E (message_json (int_text E) m) = Inr b \<and>
     hw_body (fst (ServeHTTP E s world pick pool new_writer r)) = b \<and>
     hw_sent (fst (ServeHTTP E s world pick pool new_writer r))
       = Some (200, [''x-content-type-options'' \<mapsto> ''nosniff'']) \<and>
     m_version m = ''2.0'' \<and> m_method m = [] \<and> m_params m = None \<and>
     m_id m = Some (case m_id msg of None \<Rightarrow> JNum ''1'' | Some j \<Rightarrow> j)"
proof -
  obtain x pool' where acq: "pool_Acquire world pick pool = (x, pool')" by fastforce
  then have msg: "d_msg (x_data x) = no_message"
    using assms(7) by (auto simp: pool_Acquire_def new_Context_def split: option.splits if_splits)
  have "fst (ServeHTTP E s world pick pool new_writer r) = d_writer (x_data (server_Handler E s (BeginRequest new_writer r x)))"
    using assms(4) acq by (simp add: ServeHTTP_def Let_def)
  moreover have "hw_sent new_writer = None" "hw_body new_writer = []" "header_get ''Status-Written'' new_writer \<noteq> ''1''"
    "(hw_header new_writer)(''x-content-type-options'' \<mapsto> ''nosniff'', ''Status-Written'' := None) = [''x-content-type-options'' \<mapsto> ''nosniff'']"
    by (auto simp: new_writer_def header_get_def)
  moreover have plain: "ParseRPCBody (genc E) (gdec E) (s_opt s) b d = Inr b" for b d
    using assms(3) by (simp add: ParseRPCBody_def)
  ultimately show ?thesis using Handler_answers [OF assms(1,2) _ assms(4-6) msg, of new_writer] assms(8) by simp
qed

definition demo_ext :: "json \<Rightarrow> rpc_ext" where
  "demo_ext j = \<lparr>json_read = (\<lambda>_. Some j), json_error = (\<lambda>_. []), json_write = (\<lambda>_. Inr [123, 125]), int_text = (\<lambda>_. ''0''),
     fits = (\<lambda>_ _. None), genc = (\<lambda>_ b _. Some b), gdec = (\<lambda>_ b _. Some (Inr b)), clock = (1, 2, 3)\<rparr>"

definition demo_request :: http_request where
  "demo_request = \<lparr>rq_method = ''POST'', rq_content_length = 2, rq_raw_query = [], rq_body = Inr [123, 125]\<rparr>"

theorem ServeHTTP_answers_witness:
  "let w = fst (ServeHTTP (demo_ext (JObj [(''id'', JNum ''7'')]))
       (demo_server\<lparr>s_opt := \<lparr>SnakeNamespace = True, CryptoKey = []\<rparr>\<rparr>) 0 None [] new_writer demo_request)
   in hw_body w = [123, 125] \<and> hw_sent w = Some (200, [''x-content-type-options'' \<mapsto> ''nosniff''])"
proof -
  let ?E = "demo_ext (JObj [(''id'', JNum ''7'')])"
  let ?s = "demo_server\<lparr>s_opt := \<lparr>SnakeNamespace = True, CryptoKey = []\<rparr>\<rparr>"
  let ?m = "no_message\<lparr>m_id := Some (JNum ''7'')\<rparr>"
  have 1: "plain_server ?s" "s_run ?s" "CryptoKey (s_opt ?s) = []"
    by (simp_all add: plain_server_def demo_server_def)
  have 2: "rq_method demo_request = ''POST''" "rq_content_length demo_request \<le> maxRequestContentLength"
    by (simp_all add: demo_request_def maxRequestContentLength_def)
  have 3: "decodes_to ?E (s_opt ?s) demo_request ?m True"
    by (simp add: decodes_to_def demo_request_def demo_ext_def ParseRPCBody_def decode_message_def
        json_key_def strings_ToLower_def char_lower_def is_upper_def)
  have 4: "\<forall>x \<in> set []. d_msg (x_data x) = no_message"
    "\<forall>m. \<exists>b. json_write ?E (message_json (int_text ?E) m) = Inr b"
    by (simp_all add: demo_ext_def)
  have 5: "json_write ?E j = Inr [123, 125]" for j by (simp add: demo_ext_def)
  from ServeHTTP_answers [OF 1 2 3 4, of 0 None] show ?thesis by (auto simp: 5 Let_def)
qed

theorem call_outcome_witness:
  "snd (callback_call (demo_ext JNull) None None (demo_callback\<lparr>cb_provider := ''u.g''\<rparr>)
      ((x_data (new_Context 5))\<lparr>d_store := [StartTimeKey \<mapsto> SInt 0]\<rparr>) [])
    = CallOk (RVal False (Inr (JStr ''x'')))"
proof -
  let ?d = "(x_data (new_Context (5 :: nat)))\<lparr>d_store := [StartTimeKey \<mapsto> SInt 0]\<rparr>"
  let ?rs = "[RVal False (Inr (JStr ''x'')), RNil]"
  have 1: "rc_before demo_receiver = None" "rc_after demo_receiver = None" by (simp_all add: demo_receiver_def)
  have 2: "d_store ?d StartTimeKey = Some (SInt 0)" by simp
  have 3: "cb_fn demo_callback (d_world ?d) [] = (6, Returned ?rs)"
    by (simp add: demo_callback_def demo_method_def new_Context_def)
  have 4: "\<forall>rs. Returned ?rs = Returned rs \<longrightarrow> length rs = length (gm_outs demo_method)"
    by (simp add: demo_method_def)
  from call_outcome [OF demo_method_callback 1 2 3 4, of "demo_ext JNull" "''u.g''"] show ?thesis
    by (auto simp: Let_def demo_method_def split: prod.splits)
qed

text \<open>A middleware that adds ten before \<open>Next\<close> and doubles after it, and a method that adds one: the sum is doubled before
  one is added.\<close>

definition mid_server :: "(string \<times> (nat jdata \<Rightarrow> nat jdata) \<times> (nat jdata \<Rightarrow> nat jdata)) list \<Rightarrow> nat server" where
  "mid_server ls = demo_server\<lparr>s_opt := \<lparr>SnakeNamespace = True, CryptoKey = []\<rparr>, s_mids := around_all ls,
     s_services := [''user'' \<mapsto> \<lparr>sv_name = ''user'', sv_receiver = demo_receiver, sv_callbacks = [''get'' \<mapsto> demo_callback\<lparr>cb_arg_types := []\<rparr>]\<rparr>]\<rparr>"

theorem middlewares_before_call_witness:
  "d_world (x_data (fst (server_handle (demo_ext (JObj [(''id'', JNum ''7''), (''method'', JStr ''user.get'')]))
     (mid_server [(''m'', \<lambda>d. d\<lparr>d_world := d_world d + 10\<rparr>, \<lambda>d. d\<lparr>d_world := d_world d * 2\<rparr>)])
     (BeginRequest new_writer demo_request (new_Context 5))))) = 31"
proof -
  let ?E = "demo_ext (JObj [(''id'', JNum ''7''), (''method'', JStr ''user.get'')])"
  let ?ls = "[(''m'', \<lambda>d. d\<lparr>d_world := d_world d + 10\<rparr>, \<lambda>d. d\<lparr>d_world := d_world d * 2\<rparr>)]"
  let ?s = "mid_server ?ls" let ?x = "BeginRequest new_writer demo_request (new_Context (5 :: nat))"
  let ?msg = "no_message\<lparr>m_id := Some (JNum ''7''), m_method := ''user.get''\<rparr>"
  let ?c = "demo_callback\<lparr>cb_arg_types := []\<rparr>"
  have names: "RPCMessage_methods ?msg = Inr [''user'', ''get'']" "SnakeString ''user'' = ''user''" "SnakeString ''get'' = ''get''"
    by (simp_all add: RPCMessage_methods_def no_message_def) code_simp+
  have 1: "finds_method ?E ?s ?x [123, 125] ?msg ?c"
    by (simp add: finds_method_def names demo_ext_def demo_request_def mid_server_def BeginRequest_def new_Context_def ParseRPCBody_def
        decode_message_def json_key_def strings_ToLower_def char_lower_def is_upper_def RPCMessage_hasValidID_def
        server_getCallBack_def server_formatName_def)
  have 2: "\<not> x_stopped ?x" "x_index ?x = 0" by (simp_all add: BeginRequest_def)
  have "s_mids ?s = around_all ?ls" by (simp add: mid_server_def)
  with middlewares_before_call [OF 1 2, of ?ls] obtain x' where
    x': "x_data x' = onion ?ls id (read_data ?E ?s [123, 125] ?msg (x_data ?x))"
    "server_handle ?E ?s ?x = handle_call ?E ?s (?c\<lparr>cb_provider := formatted_method ?s ?msg\<rparr>) x'" by blast
  show ?thesis unfolding x'(2)
    by (simp add: x'(1) handle_call_def ParsePositionalArguments_def read_data_def callback_call_def with_hook_def demo_callback_def demo_method_def
        BeginRequest_def new_Context_def mid_server_def demo_server_def set_msg_def call_results_def value2err_def no_message_def Let_def StartTimeKey_def EndTimeKey_def
        split: rvalue.split sum.split)
qed

section \<open>The context pool\<close>

text \<open>The pool after a list of requests (the latest first), each with the pool's choice.\<close>

fun pool_after :: "rpc_ext \<Rightarrow> 'w server \<Rightarrow> ('w \<times> nat option \<times> http_writer \<times> http_request) list \<Rightarrow> 'w jctx list" where
  "pool_after E s [] = []"
| "pool_after E s ((world, pick, w, r) # rs) = snd (ServeHTTP E s world pick (pool_after E s rs) w r)"

lemma Acquire_subset: "set (snd (pool_Acquire world pick pool)) \<subseteq> set pool"
  by (auto simp: pool_Acquire_def split: option.splits dest: in_set_takeD in_set_dropD)

lemma ServeHTTP_pool:
  assumes "list_all (\<lambda>x. d_msg (x_data x) = no_message) pool"
  shows "list_all (\<lambda>x. d_msg (x_data x) = no_message) (snd (ServeHTTP E s world pick pool w r))"
proof -
  have "list_all (\<lambda>x. d_msg (x_data x) = no_message) (snd (pool_Acquire world pick pool))"
    using assms Acquire_subset [of world pick pool] by (auto simp: list_all_iff)
  with assms show ?thesis
    by (auto simp: ServeHTTP_def Let_def pool_Release_def split: prod.splits)
qed

text \<open>Whatever requests were served and whatever the pool handed out, every pooled
  context has an empty message, so no field of an earlier request is seen by a later one
  through the message. The store is not emptied: what a request stored is still there for the
  next request that gets the context.\<close>
theorem pool_contexts:
  "list_all (\<lambda>x. d_msg (x_data x) = no_message) (pool_after E s rs) \<and>
   d_store (x_data (BeginRequest w r (fst (pool_Acquire world (Some 0) (pool_Release x pool)))))
     = d_store (x_data x)"
proof -
  have "list_all (\<lambda>x. d_msg (x_data x) = no_message) (pool_after E s rs)"
  proof (induction rs)
    case (Cons q rs)
    then show ?case by (cases q) (simp add: ServeHTTP_pool)
  qed simp
  then show ?thesis by (simp add: pool_Acquire_def pool_Release_def BeginRequest_def)
qed

text \<open>A \<open>result\<close> in a request survives into an error response, so that the response holds
  both.\<close>

lemma result_beside_error:
  "let m = fst (decode_message (JObj [(''id'', JNum ''1''), (''method'', JStr ''x''), (''result'', JNum ''5'')]) no_message);
       out = RPCMessage_output (RPCMessage_setError m (Some (RpcErr (NewError ErrNoMethod ''wrong method'' []))))
   in m_result out = Some (JNum ''5'') \<and> m_error out \<noteq> None"
  by (simp add: decode_message_def json_key_def strings_ToLower_def char_lower_def is_upper_def
      RPCMessage_setError_def NewError_def Let_def no_message_def)

end
