(* ===== verification/Fifo_Queue.thy ===== *)
theory Fifo_Queue
  imports Prelude
begin

text \<open>
  The queue of package \<open>gods\<close> (\<open>linkedlistqueue\<close>) the task queue and the closeable
  channel are built on. It is not part of the repository: its operations are an argument of
  the models, and what they rely on, first in first out, is the locale \<open>fifo_queue\<close>. The
  list instance shows that the laws can hold.
\<close>

record ('q, 'a) queue_ops =
  qo_new :: 'q
  qo_enqueue :: "'a \<Rightarrow> 'q \<Rightarrow> 'q"
  qo_dequeue :: "'q \<Rightarrow> ('a \<times> 'q) option"
  qo_empty :: "'q \<Rightarrow> bool"

locale fifo_queue =
  fixes Q :: "('q, 'a) queue_ops"
    and items :: "'q \<Rightarrow> 'a list"
  assumes items_new: "items (qo_new Q) = []"
    and items_enqueue: "items (qo_enqueue Q x q) = items q @ [x]"
    and items_empty: "qo_empty Q q \<longleftrightarrow> items q = []"
    and items_dequeue: "map_option (\<lambda>(x, q'). (x, items q')) (qo_dequeue Q q) =
      (case items q of [] \<Rightarrow> None | x # xs \<Rightarrow> Some (x, xs))"
begin

lemma dequeue_Some: "qo_dequeue Q q = Some (x, q') \<Longrightarrow> items q = x # items q'"
  using items_dequeue [of q] by (cases "items q") auto

lemma dequeue_None: "qo_dequeue Q q = None \<longleftrightarrow> items q = []"
  using items_dequeue [of q] by (cases "items q") auto

lemma enqueue_not_empty: "\<not> qo_empty Q (qo_enqueue Q x q)"
  by (simp add: items_empty items_enqueue)

lemmas queue_simps = items_new items_enqueue items_empty dequeue_None

end

definition list_queue :: "('a list, 'a) queue_ops" where
  "list_queue = \<lparr>qo_new = [], qo_enqueue = (\<lambda>x q. q @ [x]),
     qo_dequeue = (\<lambda>q. case q of [] \<Rightarrow> None | x # xs \<Rightarrow> Some (x, xs)), qo_empty = (\<lambda>q. q = [])\<rparr>"

interpretation listq: fifo_queue list_queue "\<lambda>q. q"
  by unfold_locales (auto simp: list_queue_def split: list.split)

end
