(* ===== verification/Task_Queue.thy ===== *)
theory Task_Queue
  imports Prelude Fifo_Queue "HOL-Library.Multiset"
begin

text \<open>
  The task queue (\<open>util/queue.go\<close>) and its application-wide instance (\<open>queue/\<close>): tasks
  and their options, the queue, handlers, the background loop that moves due tasks to the
  channel, the watcher that starts them, the worker limits per group, and the retries.

  Instants and durations are nanoseconds; the zero \<open>time.Time\<close> is \<open>None\<close>. The two loops
  and the running tasks are threads: \<open>gq_step\<close> interleaves their steps with those of the
  clients.
\<close>

section \<open>Tasks\<close>

record queue_task =
  tk_name :: string
  tk_data :: bytes
  tk_retried :: int
  tk_group :: int
  tk_max_retry :: int
  tk_retry_delay :: "(int \<Rightarrow> int) option"
  tk_run_at :: "int option"

definition defaultQueueMaxRetry :: int where "defaultQueueMaxRetry = 5"

definition defaultQueueRetryDelayFunc :: "int \<Rightarrow> int" where
  "defaultQueueRetryDelayFunc retried = wrap64 (retried * 1000000000)"

definition QueueTask_Copy :: "queue_task \<Rightarrow> queue_task" where
  "QueueTask_Copy t = \<lparr>tk_name = tk_name t, tk_data = tk_data t, tk_retried = tk_retried t,
     tk_group = tk_group t, tk_max_retry = tk_max_retry t, tk_retry_delay = tk_retry_delay t,
     tk_run_at = tk_run_at t\<rparr>"

definition WithQueueTaskGroup :: "int \<Rightarrow> queue_task \<Rightarrow> queue_task" where
  "WithQueueTaskGroup grp t = t\<lparr>tk_group := grp\<rparr>"
definition WithQueueTaskMaxRetry :: "int \<Rightarrow> queue_task \<Rightarrow> queue_task" where
  "WithQueueTaskMaxRetry maxRetry t = t\<lparr>tk_max_retry := maxRetry\<rparr>"
definition WithQueueTaskRetryDelayFunc :: "(int \<Rightarrow> int) option \<Rightarrow> queue_task \<Rightarrow> queue_task" where
  "WithQueueTaskRetryDelayFunc f t = t\<lparr>tk_retry_delay := f\<rparr>"
definition WithQueueTaskRunAt :: "int option \<Rightarrow> queue_task \<Rightarrow> queue_task" where
  "WithQueueTaskRunAt runAt t = t\<lparr>tk_run_at := runAt\<rparr>"

definition NewQueueTask :: "int \<Rightarrow> string \<Rightarrow> bytes \<Rightarrow> (queue_task \<Rightarrow> queue_task) list \<Rightarrow> queue_task" where
  "NewQueueTask now name data opts =
     (let task = \<lparr>tk_name = name, tk_data = data, tk_retried = 0, tk_group = 1, tk_max_retry = 0,
                  tk_retry_delay = None, tk_run_at = None\<rparr>;
          task = foldl (\<lambda>t f. f t) task opts;
          task = (if tk_max_retry task \<le> 0 then task\<lparr>tk_max_retry := defaultQueueMaxRetry\<rparr> else task);
          task = (if tk_retry_delay task = None
                  then task\<lparr>tk_retry_delay := Some defaultQueueRetryDelayFunc\<rparr> else task)
      in if tk_run_at task = None then task\<lparr>tk_run_at := Some now\<rparr> else task)"

text \<open>\<open>runAt.After(now)\<close>; the zero time is before every other.\<close>

definition due :: "int \<Rightarrow> queue_task \<Rightarrow> bool" where
  "due now t = (case tk_run_at t of None \<Rightarrow> True | Some r \<Rightarrow> r \<le> now)"

section \<open>The queue\<close>

datatype task_outcome = TaskOk | TaskErr string | TaskPanic string

text \<open>A handler gets a pointer to its task and may change it.\<close>

type_synonym 'w handler = "'w \<Rightarrow> queue_task \<Rightarrow> 'w \<times> queue_task \<times> task_outcome"

record gq_option =
  o_max_workers :: int
  o_max_retry :: int
  o_groups :: "int \<rightharpoonup> int"

record ('q, 'w) gqueue =
  q_opt :: gq_option
  q_qu :: 'q
  q_handlers :: "string \<rightharpoonup> 'w handler"
  q_chan :: "queue_task list"
  q_slots :: "int \<rightharpoonup> nat"
  q_used :: "int \<Rightarrow> nat"
  q_background :: "queue_task option"
  q_watcher :: "(int \<times> queue_task \<times> 'w handler) option"
  q_running :: "(int \<times> queue_task \<times> 'w handler) list"
  q_now :: int
  q_world :: 'w

definition getNumberFromPercent :: "int \<Rightarrow> int \<Rightarrow> int" where
  "getNumberFromPercent whole percent =
     (let percent = (if percent > 10 \<or> percent < 1 then 1 else percent);
          v = wrap64 (whole * percent) sdiv 10
      in if v < 1 then 1 else v)"

definition normal_option :: "gq_option \<Rightarrow> gq_option" where
  "normal_option opt =
     (let opt = (if o_max_workers opt \<le> 0 then opt\<lparr>o_max_workers := 10\<rparr> else opt);
          opt = (if o_max_retry opt < 1 then opt\<lparr>o_max_retry := 1\<rparr> else opt);
          opt = (if o_groups opt = Map.empty then opt\<lparr>o_groups := [1 \<mapsto> 6, 2 \<mapsto> 3, 3 \<mapsto> 1]\<rparr> else opt)
      in case o_groups opt 1 of
           None \<Rightarrow> opt\<lparr>o_groups := (o_groups opt)(1 \<mapsto> 6)\<rparr>
         | Some v \<Rightarrow> if v < 1 then opt\<lparr>o_groups := (o_groups opt)(1 \<mapsto> 6)\<rparr> else opt)"

definition NewGQueue :: "('q, queue_task) queue_ops \<Rightarrow> gq_option \<Rightarrow> int \<Rightarrow> 'w \<Rightarrow> ('q, 'w) gqueue" where
  "NewGQueue Q opt now world =
     (let opt = normal_option opt in
      \<lparr>q_opt = opt, q_qu = qo_new Q, q_handlers = Map.empty, q_chan = [],
       q_slots = (\<lambda>k. map_option (\<lambda>v. nat (getNumberFromPercent (o_max_workers opt) v)) (o_groups opt k)),
       q_used = (\<lambda>_. 0), q_background = None, q_watcher = None, q_running = [], q_now = now, q_world = world\<rparr>)"

definition gq_Enqueue :: "('q, queue_task) queue_ops \<Rightarrow> queue_task \<Rightarrow> ('q, 'w) gqueue \<Rightarrow> ('q, 'w) gqueue" where
  "gq_Enqueue Q t g = g\<lparr>q_qu := qo_enqueue Q t (q_qu g)\<rparr>"

definition gq_Register :: "string \<Rightarrow> 'w handler \<Rightarrow> ('q, 'w) gqueue \<Rightarrow> ('q, 'w) gqueue" where
  "gq_Register task h g = g\<lparr>q_handlers := (q_handlers g)(task \<mapsto> h)\<rparr>"

definition gq_dequeue ::
  "('q, queue_task) queue_ops \<Rightarrow> ('q, 'w) gqueue \<Rightarrow> (queue_task \<times> ('q, 'w) gqueue) option" where
  "gq_dequeue Q g =
     (if qo_empty Q (q_qu g) then None
      else case qo_dequeue Q (q_qu g) of
        None \<Rightarrow> None | Some (t, q) \<Rightarrow> Some (t, g\<lparr>q_qu := q\<rparr>))"

definition gq_getHandler :: "('q, 'w) gqueue \<Rightarrow> string \<Rightarrow> 'w handler option" where
  "gq_getHandler g task = q_handlers g task"

text \<open>The task that is enqueued again after a run that ended with \<open>out\<close>; calling a nil
  delay function panics, which \<open>runTask\<close> recovers.\<close>

definition retry_task :: "gq_option \<Rightarrow> int \<Rightarrow> queue_task \<Rightarrow> task_outcome \<Rightarrow> queue_task option" where
  "retry_task opt now t out = (case out of
     TaskPanic p \<Rightarrow> None
   | TaskOk \<Rightarrow> None
   | TaskErr err \<Rightarrow>
       let maxRetry = o_max_retry opt;
           maxRetry = (if 0 < tk_max_retry t then tk_max_retry t else maxRetry)
       in if maxRetry \<le> tk_retried t then None
          else let task = QueueTask_Copy t;
                   task = task\<lparr>tk_retried := wrap64 (tk_retried task + 1)\<rparr>
               in case tk_retry_delay task of
                    None \<Rightarrow> None
                  | Some f \<Rightarrow> Some (task\<lparr>tk_run_at := Some (now + f (tk_retried task))\<rparr>))"

definition gq_runTask ::
  "('q, queue_task) queue_ops \<Rightarrow> queue_task \<Rightarrow> 'w handler \<Rightarrow> ('q, 'w) gqueue
   \<Rightarrow> queue_task option \<times> ('q, 'w) gqueue" where
  "gq_runTask Q t handler g =
     (case handler (q_world g) t of (world, t', out) \<Rightarrow>
      let g = g\<lparr>q_world := world\<rparr> in
      case retry_task (q_opt g) (q_now g) t' out of
        None \<Rightarrow> (None, g) | Some task \<Rightarrow> (Some task, gq_Enqueue Q task g))"

text \<open>\<open>runTaskHandler\<close>: the group of workers a task runs in, group 1 for an unknown one.\<close>

definition task_workers :: "('q, 'w) gqueue \<Rightarrow> queue_task \<Rightarrow> int" where
  "task_workers g t = (case q_slots g (tk_group t) of None \<Rightarrow> 1 | Some _ \<Rightarrow> tk_group t)"

section \<open>The threads\<close>

datatype gq_event =
    ESubmit queue_task | ERegister string | ETick | ETake queue_task | EPutBack queue_task
  | ESend queue_task | EDrop queue_task | EReceive queue_task | EStart int queue_task
  | EFinish int queue_task "queue_task option"

inductive gq_step ::
  "('q, queue_task) queue_ops \<Rightarrow> ('q, 'w) gqueue \<Rightarrow> gq_event \<Rightarrow> ('q, 'w) gqueue \<Rightarrow> bool"
  for Q :: "('q, queue_task) queue_ops" where
  submit: "gq_step Q g (ESubmit t) (gq_Enqueue Q t g)"
| register: "gq_step Q g (ERegister name) (gq_Register name h g)"
| tick: "q_now g \<le> now' \<Longrightarrow> gq_step Q g ETick (g\<lparr>q_now := now'\<rparr>)"
| take: "q_background g = None \<Longrightarrow> gq_dequeue Q g = Some (t, g') \<Longrightarrow>
    gq_step Q g (ETake t) (g'\<lparr>q_background := Some t\<rparr>)"
| putback: "q_background g = Some t \<Longrightarrow> \<not> due (q_now g) t \<Longrightarrow>
    gq_step Q g (EPutBack t) ((gq_Enqueue Q t g)\<lparr>q_background := None\<rparr>)"
| send: "q_background g = Some t \<Longrightarrow> due (q_now g) t \<Longrightarrow>
    int (length (q_chan g)) < o_max_workers (q_opt g) \<Longrightarrow>
    gq_step Q g (ESend t) (g\<lparr>q_background := None, q_chan := q_chan g @ [t]\<rparr>)"
| drop: "q_watcher g = None \<Longrightarrow> q_chan g = t # ts \<Longrightarrow> gq_getHandler g (tk_name t) = None \<Longrightarrow>
    gq_step Q g (EDrop t) (g\<lparr>q_chan := ts\<rparr>)"
| receive: "q_watcher g = None \<Longrightarrow> q_chan g = t # ts \<Longrightarrow> gq_getHandler g (tk_name t) = Some h \<Longrightarrow>
    gq_step Q g (EReceive t) (g\<lparr>q_chan := ts, q_watcher := Some (task_workers g t, t, h)\<rparr>)"
| start: "q_watcher g = Some (k, t, h) \<Longrightarrow> q_slots g k = Some n \<Longrightarrow> q_used g k < n \<Longrightarrow>
    gq_step Q g (EStart k t) (g\<lparr>q_watcher := None, q_used := (q_used g)(k := q_used g k + 1),
      q_running := (k, t, h) # q_running g\<rparr>)"
| finish: "q_running g = as @ (k, t, h) # bs \<Longrightarrow> gq_runTask Q t h g = (r, g') \<Longrightarrow>
    gq_step Q g (EFinish k t r) (g'\<lparr>q_used := (q_used g')(k := q_used g' k - 1), q_running := as @ bs\<rparr>)"

inductive gq_run ::
  "('q, queue_task) queue_ops \<Rightarrow> ('q, 'w) gqueue \<Rightarrow> gq_event list \<Rightarrow> ('q, 'w) gqueue \<Rightarrow> bool"
  for Q :: "('q, queue_task) queue_ops" and g0 :: "('q, 'w) gqueue" where
  start: "gq_run Q g0 [] g0"
| step: "gq_run Q g0 tr g \<Longrightarrow> gq_step Q g e g' \<Longrightarrow> gq_run Q g0 (tr @ [e]) g'"

inductive_cases gq_stepE [elim]: "gq_step Q g e g'"

section \<open>The application's queue (queue/queueMemory.go)\<close>

text \<open>A payload: a string, bytes, or a value with the answer of \<open>util.Marshal\<close>.\<close>

datatype payload = PString string | PBytes bytes | PValue "(string, bytes) result"

definition EnqueueGq ::
  "('q, queue_task) queue_ops \<Rightarrow> string \<Rightarrow> payload \<Rightarrow> (queue_task \<Rightarrow> queue_task) list
   \<Rightarrow> ('q, 'w) gqueue \<Rightarrow> (string, ('q, 'w) gqueue) result" where
  "EnqueueGq Q task payload opts g =
     and_then (case payload of PString s \<Rightarrow> Inr (str_bytes s) | PBytes b \<Rightarrow> Inr b | PValue m \<Rightarrow> m)
       (\<lambda>data. Inr (gq_Enqueue Q (NewQueueTask (q_now g) task data opts) g))"

definition GetGQServer :: "('q, queue_task) queue_ops \<Rightarrow> int \<Rightarrow> 'w \<Rightarrow> ('q, 'w) gqueue" where
  "GetGQServer Q now world =
     NewGQueue Q \<lparr>o_max_workers = 10, o_max_retry = 3, o_groups = Map.empty\<rparr> now world"

definition StartGQServer :: "(string \<times> 'w handler) list \<Rightarrow> ('q, 'w) gqueue \<Rightarrow> ('q, 'w) gqueue" where
  "StartGQServer hs g = foldl (\<lambda>g (task, h). gq_Register task h g) g hs"

section \<open>Invariants of the running queue\<close>

definition opt_mset :: "'a option \<Rightarrow> 'a multiset" where
  "opt_mset x = (case x of None \<Rightarrow> {#} | Some a \<Rightarrow> {#a#})"

lemma opt_mset_simps [simp]: "opt_mset None = {#}" "opt_mset (Some a) = {#a#}"
  by (simp_all add: opt_mset_def)

text \<open>Every task the queue holds: queued, in the hands of a loop, in the channel, running.\<close>

definition pending :: "('q \<Rightarrow> queue_task list) \<Rightarrow> ('q, 'w) gqueue \<Rightarrow> queue_task multiset" where
  "pending items g = mset (items (q_qu g)) + opt_mset (q_background g) + mset (q_chan g)
     + opt_mset (map_option (\<lambda>(_, t, _). t) (q_watcher g)) + mset (map (\<lambda>(_, t, _). t) (q_running g))"

fun added :: "gq_event \<Rightarrow> queue_task multiset" where
  "added (ESubmit t) = {#t#}"
| "added (EFinish k t r) = opt_mset r"
| "added _ = {#}"

fun handled :: "gq_event \<Rightarrow> queue_task multiset" where
  "handled (EDrop t) = {#t#}"
| "handled (EFinish k t r) = {#t#}"
| "handled _ = {#}"

definition all_of :: "(gq_event \<Rightarrow> queue_task multiset) \<Rightarrow> gq_event list \<Rightarrow> queue_task multiset" where
  "all_of f tr = sum_list (map f tr)"

lemma all_of_simps [simp]: "all_of f [] = {#}" "all_of f (tr @ [e]) = all_of f tr + f e"
  by (simp_all add: all_of_def)

text \<open>The worker groups: the slots in use are the running tasks, never more than the group
  has; what waits or runs is due; group 1 exists.\<close>

definition group_running :: "('q, 'w) gqueue \<Rightarrow> int \<Rightarrow> nat" where
  "group_running g k = length (filter (\<lambda>(k', _). k' = k) (q_running g))"

definition gq_inv :: "('q, 'w) gqueue \<Rightarrow> bool" where
  "gq_inv g \<longleftrightarrow> (\<forall>k. q_used g k = group_running g k) \<and>
     (\<forall>k. group_running g k \<le> (case q_slots g k of None \<Rightarrow> 0 | Some n \<Rightarrow> n)) \<and>
     (\<forall>t \<in> set (q_chan g). due (q_now g) t) \<and>
     (\<forall>k t h. q_watcher g = Some (k, t, h) \<longrightarrow> due (q_now g) t \<and> q_slots g k \<noteq> None) \<and>
     (\<forall>(k, t, h) \<in> set (q_running g). due (q_now g) t) \<and>
     q_slots g 1 \<noteq> None \<and> int (length (q_chan g)) \<le> o_max_workers (q_opt g)"

lemma due_mono: "due now t \<Longrightarrow> now \<le> now' \<Longrightarrow> due now' t"
  by (auto simp: due_def split: option.splits)

lemma Enqueue_fields [simp]:
  "q_chan (gq_Enqueue Q t g) = q_chan g" "q_slots (gq_Enqueue Q t g) = q_slots g"
  "q_used (gq_Enqueue Q t g) = q_used g" "q_background (gq_Enqueue Q t g) = q_background g"
  "q_watcher (gq_Enqueue Q t g) = q_watcher g" "q_running (gq_Enqueue Q t g) = q_running g"
  "q_now (gq_Enqueue Q t g) = q_now g" "q_opt (gq_Enqueue Q t g) = q_opt g"
  "group_running (gq_Enqueue Q t g) = group_running g"
  "q_qu (gq_Enqueue Q t g) = qo_enqueue Q t (q_qu g)"
  by (simp_all add: gq_Enqueue_def group_running_def fun_eq_iff)

lemma runTask_fields:
  assumes "gq_runTask Q t h g = (r, g')"
  shows "q_chan g' = q_chan g" "q_slots g' = q_slots g" "q_used g' = q_used g"
    "q_background g' = q_background g" "q_watcher g' = q_watcher g" "q_now g' = q_now g"
    "q_opt g' = q_opt g" "q_qu g' = (case r of None \<Rightarrow> q_qu g | Some t' \<Rightarrow> qo_enqueue Q t' (q_qu g))"
  using assms by (auto simp: gq_runTask_def Let_def split: prod.splits option.splits)

lemma dequeue_fields:
  assumes "gq_dequeue Q g = Some (t, g')"
  shows "\<exists>q. qo_dequeue Q (q_qu g) = Some (t, q) \<and> g' = g\<lparr>q_qu := q\<rparr>"
  using assms by (auto simp: gq_dequeue_def split: if_splits option.splits prod.splits)

locale task_fifo = fifo_queue Q items
  for Q :: "('q, queue_task) queue_ops" and items :: "'q \<Rightarrow> queue_task list"
begin

lemma step_pending:
  "gq_step Q g e g' \<Longrightarrow> pending items g' + handled e = pending items g + added e"
proof (induction rule: gq_step.induct)
  case (take g t g')
  then obtain q where "qo_dequeue Q (q_qu g) = Some (t, q)" "g' = g\<lparr>q_qu := q\<rparr>"
    using dequeue_fields by blast
  with take.hyps(1) show ?case by (simp add: pending_def dequeue_Some)
next
  case (finish g as k t h bs r g')
  then show ?case
    using runTask_fields [OF finish(2)] by (cases r) (simp_all add: pending_def items_enqueue)
qed (simp_all add: pending_def items_enqueue gq_Register_def)

lemma run_pending:
  "gq_run Q g0 tr g \<Longrightarrow> pending items g + all_of handled tr = pending items g0 + all_of added tr"
proof (induction rule: gq_run.induct)
  case (step tr g e g')
  from step_pending [OF step.hyps(2)] step.IH show ?case
    by (simp add: add.assoc) (metis add.assoc add.commute)
qed simp

end

lemma group_running_simps [simp]:
  "group_running (g\<lparr>q_qu := q\<rparr>) = group_running g"
  "group_running (g\<lparr>q_now := n\<rparr>) = group_running g"
  "group_running (g\<lparr>q_chan := ts\<rparr>) = group_running g"
  "group_running (g\<lparr>q_background := b\<rparr>) = group_running g"
  "group_running (g\<lparr>q_watcher := w\<rparr>) = group_running g"
  "group_running (g\<lparr>q_handlers := hs\<rparr>) = group_running g"
  "group_running (g\<lparr>q_used := u\<rparr>) = group_running g"
  "group_running (g'\<lparr>q_running := (k, t, h) # q_running g\<rparr>) =
     (group_running g)(k := group_running g k + 1)"
  by (auto simp: group_running_def fun_eq_iff)

lemma group_running_remove:
  assumes "q_running g = as @ (k, t, h) # bs"
  shows "group_running (g'\<lparr>q_running := as @ bs\<rparr>) = (group_running g)(k := group_running g k - 1)"
  using assms by (auto simp: group_running_def fun_eq_iff)

lemma step_inv: "gq_step Q g e g' \<Longrightarrow> gq_inv g \<Longrightarrow> gq_inv g'"
proof (induction rule: gq_step.induct)
  case (tick g now')
  then show ?case by (auto simp: gq_inv_def intro: due_mono)
next
  case (take g t g')
  then obtain q where "g' = g\<lparr>q_qu := q\<rparr>" using dequeue_fields by blast
  with take.prems show ?case by (simp add: gq_inv_def)
next
  case (receive g t ts h)
  then show ?case by (auto simp: gq_inv_def task_workers_def split: option.split)
next
  case (start g k t h n)
  then show ?case by (auto simp: gq_inv_def)
next
  case (finish g as k t h bs r g')
  note f = runTask_fields [OF finish(2)]
  have "group_running g k - 1 \<le> (case q_slots g k of None \<Rightarrow> 0 | Some n \<Rightarrow> n)"
    using finish.prems by (auto simp: gq_inv_def intro: order.trans [of _ "group_running g k"])
  with finish f show ?case
    by (auto simp: gq_inv_def group_running_remove [OF finish(1)])
qed (auto simp: gq_inv_def gq_Register_def)

lemma NumberFromPercent_pos: "1 \<le> getNumberFromPercent n p"
  by (simp add: getNumberFromPercent_def Let_def)

lemma normal_option_ok:
  "0 < o_max_workers (normal_option opt)" "1 \<le> o_max_retry (normal_option opt)"
  "o_groups (normal_option opt) 1 \<noteq> None"
  by (auto simp: normal_option_def Let_def split: option.split)

lemma NewGQueue_inv: "gq_inv (NewGQueue Q opt now world)"
  using normal_option_ok [of opt]
  by (auto simp: NewGQueue_def Let_def gq_inv_def group_running_def split: option.split)

lemma step_slots: "gq_step Q g e g' \<Longrightarrow> q_slots g' = q_slots g"
  by (induction rule: gq_step.induct)
    (auto simp: gq_Register_def dest!: dequeue_fields runTask_fields(2))

lemma run_inv: "gq_run Q g0 tr g \<Longrightarrow> gq_inv g0 \<Longrightarrow> gq_inv g \<and> q_slots g = q_slots g0"
  by (induction rule: gq_run.induct) (auto simp: step_inv step_slots)

interpretation gqueue: task_fifo list_queue "\<lambda>q. q"
  by unfold_locales

text \<open>C1: No task is lost or run twice: in every state the queue can reach, whatever the
  interleaving of clients, loops and workers, the tasks it holds together with those it has
  finished or dropped for want of a handler are exactly the tasks submitted and the retries.\<close>
theorem gqueue_conserves_tasks:
  assumes "task_fifo Q items" "gq_run Q (NewGQueue Q opt now world) tr g"
  shows "pending items g + all_of handled tr = all_of added tr"
proof -
  have "pending items (NewGQueue Q opt now world) = {#}"
    using assms(1) by (simp add: pending_def NewGQueue_def Let_def task_fifo_def fifo_queue.items_new)
  then show ?thesis using task_fifo.run_pending [OF assms] by simp
qed

definition demo_task :: queue_task where
  "demo_task = NewQueueTask 0 ''t'' [1] []"

lemma demo_run:
  "\<exists>g. gq_run list_queue (NewGQueue list_queue \<lparr>o_max_workers = 0, o_max_retry = 0, o_groups = Map.empty\<rparr> 0 ())
     [ESubmit demo_task, ETake demo_task, ESend demo_task, EDrop demo_task] g"
proof -
  let ?g0 = "NewGQueue list_queue \<lparr>o_max_workers = 0, o_max_retry = 0, o_groups = Map.empty\<rparr> 0 ()"
  have "gq_run list_queue ?g0 [ESubmit demo_task] (gq_Enqueue list_queue demo_task ?g0)"
    using gq_run.step [OF gq_run.start gq_step.submit] by fastforce
  then have "gq_run list_queue ?g0 [ESubmit demo_task, ETake demo_task]
      (?g0\<lparr>q_background := Some demo_task\<rparr>)" (is "gq_run _ _ _ ?g2")
    using gq_run.step gq_step.take [of "gq_Enqueue list_queue demo_task ?g0" list_queue demo_task ?g0]
    by (fastforce simp: NewGQueue_def Let_def gq_Enqueue_def list_queue_def gq_dequeue_def)
  then have "gq_run list_queue ?g0 [ESubmit demo_task, ETake demo_task, ESend demo_task]
      (?g2\<lparr>q_background := None, q_chan := q_chan ?g2 @ [demo_task]\<rparr>)" (is "gq_run _ _ _ ?g3")
    using gq_run.step gq_step.send [of ?g2 demo_task list_queue]
    by (fastforce simp: NewGQueue_def Let_def normal_option_def due_def demo_task_def NewQueueTask_def)
  then have "gq_run list_queue ?g0 [ESubmit demo_task, ETake demo_task, ESend demo_task, EDrop demo_task]
      (?g3\<lparr>q_chan := []\<rparr>)"
    using gq_run.step gq_step.drop [of ?g3 demo_task "[]" list_queue]
    by (fastforce simp: NewGQueue_def Let_def gq_getHandler_def)
  then show ?thesis by blast
qed

theorem gqueue_conserves_tasks_witness:
  "\<exists>g. pending (\<lambda>q. q) (g :: (queue_task list, unit) gqueue) + {#demo_task#} = {#demo_task#}"
proof -
  obtain g where "gq_run list_queue (NewGQueue list_queue \<lparr>o_max_workers = 0, o_max_retry = 0, o_groups = Map.empty\<rparr> 0 ())
     [ESubmit demo_task, ETake demo_task, ESend demo_task, EDrop demo_task] g"
    using demo_run by blast
  from gqueue_conserves_tasks [OF gqueue.task_fifo_axioms this] show ?thesis
    by (auto simp: all_of_def)
qed

text \<open>C10: The limits hold in every reachable state: a group never runs more tasks than its
  share of the workers, which is at least one, the channel never holds more than the number of
  workers, and a task that runs is due (it never starts before its time).\<close>
theorem gqueue_limits:
  assumes "gq_run Q (NewGQueue Q opt now world) tr g"
  shows "group_running g k \<le> (case o_groups (normal_option opt) k of
       None \<Rightarrow> 0 | Some p \<Rightarrow> nat (getNumberFromPercent (o_max_workers (normal_option opt)) p))
    \<and> list_all (\<lambda>(k, t, h). due (q_now g) t) (q_running g)
    \<and> 1 \<le> getNumberFromPercent (o_max_workers (normal_option opt)) p"
proof -
  from run_inv [OF assms NewGQueue_inv] have inv: "gq_inv g"
    and slots: "q_slots g = q_slots (NewGQueue Q opt now world)" by auto
  then have "group_running g k \<le> (case q_slots (NewGQueue Q opt now world) k of None \<Rightarrow> 0 | Some n \<Rightarrow> n)"
    by (simp add: gq_inv_def)
  also have "\<dots> = (case o_groups (normal_option opt) k of
       None \<Rightarrow> 0 | Some p \<Rightarrow> nat (getNumberFromPercent (o_max_workers (normal_option opt)) p))"
    by (simp add: NewGQueue_def Let_def split: option.split)
  finally show ?thesis using inv NumberFromPercent_pos by (auto simp: gq_inv_def list_all_iff)
qed

theorem gqueue_limits_witness:
  "\<exists>g. group_running (g :: (queue_task list, unit) gqueue) 2 \<le> 3"
proof -
  obtain g where "gq_run list_queue (NewGQueue list_queue \<lparr>o_max_workers = 0, o_max_retry = 0, o_groups = Map.empty\<rparr> 0 ())
     [ESubmit demo_task, ETake demo_task, ESend demo_task, EDrop demo_task] g"
    using demo_run by blast
  from gqueue_limits [OF this, of 2] show ?thesis
    by (auto simp: normal_option_def getNumberFromPercent_def Let_def wrap64_def)
qed

section \<open>Retries\<close>

text \<open>The retries of a task whose handler fails every time, each run at its own time.\<close>

fun retries :: "nat \<Rightarrow> gq_option \<Rightarrow> int \<Rightarrow> queue_task \<Rightarrow> queue_task list" where
  "retries 0 opt now t = []"
| "retries (Suc n) opt now t = (case retry_task opt now t (TaskErr []) of
     None \<Rightarrow> []
   | Some t' \<Rightarrow> t' # retries n opt (case tk_run_at t' of None \<Rightarrow> now | Some r \<Rightarrow> r) t')"

lemma retries_count:
  assumes "0 < tk_max_retry t" "tk_max_retry t < 2 ^ 63" "0 \<le> tk_retried t" "tk_retried t \<le> tk_max_retry t"
    and "tk_retry_delay t \<noteq> None" "tk_max_retry t - tk_retried t \<le> int n"
  shows "map tk_retried (retries n opt now t) = [tk_retried t + 1..tk_max_retry t]"
  using assms
proof (induction n arbitrary: t now)
  case (Suc n)
  show ?case
  proof (cases "tk_max_retry t \<le> tk_retried t")
    case False
    then have w: "wrap64 (tk_retried t + 1) = tk_retried t + 1"
      using Suc.prems by (intro wrap64_id) auto
    from Suc.prems(5) obtain f where f: "tk_retry_delay t = Some f" by auto
    let ?t = "(QueueTask_Copy t)\<lparr>tk_retried := tk_retried t + 1, tk_run_at := Some (now + f (tk_retried t + 1))\<rparr>"
    have "retry_task opt now t (TaskErr []) = Some ?t"
      using False f w Suc.prems(1) by (simp add: retry_task_def Let_def QueueTask_Copy_def)
    moreover have "map tk_retried (retries n opt (now + f (tk_retried t + 1)) ?t)
        = [tk_retried ?t + 1..tk_max_retry ?t]"
      using Suc.prems False by (intro Suc.IH) (simp_all add: QueueTask_Copy_def)
    ultimately show ?thesis using False by (simp add: QueueTask_Copy_def upto_rec1 [of "tk_retried t + 1"])
  qed (use Suc.prems in \<open>simp add: retry_task_def Let_def\<close>)
qed simp

text \<open>C26: A task made by \<open>NewQueueTask\<close> whose handler always fails is retried exactly as
  often as its own limit says, 5 times without one, with retry numbers 1, 2, 3 and so on, and
  is then given up; the limit of the queue's options plays no part. A panic is never retried,
  nor is a task that was not made by \<open>NewQueueTask\<close>.\<close>
theorem retries_of_failing_task:
  assumes "m < 2 ^ 63" "max 5 m \<le> int n"
  shows "map tk_retried (retries n opt now (NewQueueTask now name data [WithQueueTaskMaxRetry m]))
      = [1..(if m \<le> 0 then 5 else m)]
    \<and> retry_task opt now t (TaskPanic p) = None
    \<and> retry_task opt now (t\<lparr>tk_retry_delay := None\<rparr>) out = None"
proof -
  let ?t = "NewQueueTask now name data [WithQueueTaskMaxRetry m]"
  have "tk_max_retry ?t = (if m \<le> 0 then 5 else m)" "tk_retried ?t = 0" "tk_retry_delay ?t \<noteq> None"
    by (simp_all add: NewQueueTask_def WithQueueTaskMaxRetry_def defaultQueueMaxRetry_def Let_def)
  with retries_count [of ?t n opt now] assms
  have "map tk_retried (retries n opt now ?t) = [1..(if m \<le> 0 then 5 else m)]"
    by (auto split: if_splits)
  then show ?thesis by (simp add: retry_task_def QueueTask_Copy_def Let_def split: task_outcome.split)
qed

theorem retries_of_failing_task_witness:
  "map tk_retried (retries 9 \<lparr>o_max_workers = 10, o_max_retry = 3, o_groups = Map.empty\<rparr> 7
     (NewQueueTask 7 ''t'' [] [WithQueueTaskMaxRetry 0])) = [1..5]"
proof -
  have "(0 :: int) < 2 ^ 63" "max 5 0 \<le> int 9" by simp_all
  from retries_of_failing_task [OF this, THEN conjunct1] show ?thesis by simp
qed

end
