(* ===== verification/Closeable.thy ===== *)
theory Closeable
  imports Prelude Fifo_Queue "HOL-Library.Multiset"
begin

text \<open>
  \<open>util/closeable.go\<close>: a channel with a queue in front of it that can be closed while
  senders and the background loop use it.

  An operation under the write lock is one step, as is one under the read lock, except a send
  with a negative timeout, which keeps the read lock until the channel takes its value
  (\<open>c_blocked\<close>); while such a sender waits, no operation that needs the write lock can run.
  A send with a timeout ends with the value in the channel or, when the channel had no room
  for the whole time, without it: both are steps, the second records the value as dropped. A
  receiver that waits on a channel without buffer is room for one value.
\<close>

record ('q, 'a) closeable =
  c_buffer :: "'a list"
  c_cap :: nat
  c_waiting :: nat
  c_closed :: bool
  c_queue :: 'q
  c_blocked :: "'a list"
  c_received :: "'a list"
  c_dropped :: "'a list"
  c_panicked :: bool

definition NewCloseable :: "('q, 'a) queue_ops \<Rightarrow> nat \<Rightarrow> ('q, 'a) closeable" where
  "NewCloseable Q cap = \<lparr>c_buffer = [], c_cap = cap, c_waiting = 0, c_closed = False,
     c_queue = qo_new Q, c_blocked = [], c_received = [], c_dropped = [], c_panicked = False\<rparr>"

definition IsClosed :: "('q, 'a) closeable \<Rightarrow> bool" where
  "IsClosed c = c_closed c"

definition LockWrapFunc ::
  "(('q, 'a) closeable \<Rightarrow> ('q, 'a) closeable) \<Rightarrow> ('q, 'a) closeable \<Rightarrow> ('q, 'a) closeable" where
  "LockWrapFunc fn c = (if IsClosed c then c else fn c)"

definition RLockWrapFunc ::
  "(('q, 'a) closeable \<Rightarrow> ('q, 'a) closeable) \<Rightarrow> ('q, 'a) closeable \<Rightarrow> ('q, 'a) closeable" where
  "RLockWrapFunc fn c = (if IsClosed c then c else fn c)"

text \<open>Closing a closed channel and sending on one panic.\<close>

definition chan_close :: "('q, 'a) closeable \<Rightarrow> ('q, 'a) closeable" where
  "chan_close c = (if c_closed c then c\<lparr>c_panicked := True\<rparr> else c\<lparr>c_closed := True\<rparr>)"

definition chan_room :: "('q, 'a) closeable \<Rightarrow> bool" where
  "chan_room c \<longleftrightarrow> length (c_buffer c) < c_cap c + c_waiting c"

definition chan_send :: "'a \<Rightarrow> ('q, 'a) closeable \<Rightarrow> ('q, 'a) closeable" where
  "chan_send v c = (if c_closed c then c\<lparr>c_panicked := True\<rparr> else c\<lparr>c_buffer := c_buffer c @ [v]\<rparr>)"

definition Close :: "('q, 'a) closeable \<Rightarrow> ('q, 'a) closeable" where
  "Close c = LockWrapFunc chan_close c"

definition Enqueue :: "('q, 'a) queue_ops \<Rightarrow> 'a \<Rightarrow> ('q, 'a) closeable \<Rightarrow> ('q, 'a) closeable" where
  "Enqueue Q v c = LockWrapFunc (\<lambda>c. c\<lparr>c_queue := qo_enqueue Q v (c_queue c)\<rparr>) c"

definition Send :: "('q, 'a) queue_ops \<Rightarrow> 'a \<Rightarrow> ('q, 'a) closeable \<Rightarrow> ('q, 'a) closeable" where
  "Send Q v c = Enqueue Q v c"

definition Dequeue :: "('q, 'a) queue_ops \<Rightarrow> ('q, 'a) closeable \<Rightarrow> 'a option \<times> ('q, 'a) closeable" where
  "Dequeue Q c =
     (if IsClosed c then (None, c)
      else if qo_empty Q (c_queue c) then (None, c)
      else case qo_dequeue Q (c_queue c) of
        None \<Rightarrow> (None, c) | Some (v, q) \<Rightarrow> (Some v, c\<lparr>c_queue := q\<rparr>))"

text \<open>\<open>sendWithTimeout\<close> for a timeout that is not negative: \<open>in_time\<close> says whether the
  channel had room before the timer fired (it is raised to 100 ms at least).\<close>

definition sendWithTimeout :: "bool \<Rightarrow> 'a \<Rightarrow> ('q, 'a) closeable \<Rightarrow> ('q, 'a) closeable" where
  "sendWithTimeout in_time v c =
     (if in_time then chan_send v c else c\<lparr>c_dropped := c_dropped c @ [v]\<rparr>)"

definition send_timeout :: "int \<Rightarrow> int option" where
  "send_timeout timeout = (if timeout < 0 then None
     else if timeout < 100000000 then Some 100000000 else Some timeout)"

definition dequeueSend :: "('q, 'a) queue_ops \<Rightarrow> bool \<Rightarrow> ('q, 'a) closeable \<Rightarrow> bool \<times> ('q, 'a) closeable" where
  "dequeueSend Q in_time c =
     (case Dequeue Q c of
        (None, c') \<Rightarrow> (False, c') | (Some v, c') \<Rightarrow> (True, sendWithTimeout in_time v c'))"

section \<open>The steps\<close>

datatype 'a cl_event =
    CEnqueue 'a | CDequeue "'a option" | CClose | CSendTimeout 'a | CSendBlock 'a | CUnblock 'a
  | CLoop | CWait | CReceive 'a

inductive cl_step ::
  "('q, 'a) queue_ops \<Rightarrow> ('q, 'a) closeable \<Rightarrow> 'a cl_event \<Rightarrow> ('q, 'a) closeable \<Rightarrow> bool"
  for Q :: "('q, 'a) queue_ops" where
  enqueue: "c_blocked c = [] \<Longrightarrow> cl_step Q c (CEnqueue v) (Send Q v c)"
| dequeue: "c_blocked c = [] \<Longrightarrow> Dequeue Q c = (r, c') \<Longrightarrow> cl_step Q c (CDequeue r) c'"
| close: "c_blocked c = [] \<Longrightarrow> cl_step Q c CClose (Close c)"
| send_timeout: "in_time \<longrightarrow> chan_room c \<Longrightarrow> send_timeout timeout \<noteq> None \<Longrightarrow>
    cl_step Q c (CSendTimeout v) (RLockWrapFunc (sendWithTimeout in_time v) c)"
| send_block: "send_timeout timeout = None \<Longrightarrow>
    cl_step Q c (CSendBlock v) (RLockWrapFunc (\<lambda>c. c\<lparr>c_blocked := c_blocked c @ [v]\<rparr>) c)"
| unblock: "c_blocked c = as @ v # bs \<Longrightarrow> chan_room c \<Longrightarrow>
    cl_step Q c (CUnblock v) (chan_send v (c\<lparr>c_blocked := as @ bs\<rparr>))"
| loop: "c_blocked c = [] \<Longrightarrow> in_time \<longrightarrow> chan_room c \<Longrightarrow> \<not> IsClosed c \<Longrightarrow>
    cl_step Q c CLoop (snd (dequeueSend Q in_time c))"
| wait: "cl_step Q c CWait (c\<lparr>c_waiting := c_waiting c + 1\<rparr>)"
| receive: "c_buffer c = v # vs \<Longrightarrow> cl_step Q c (CReceive v)
    (c\<lparr>c_buffer := vs, c_received := c_received c @ [v], c_waiting := c_waiting c - 1\<rparr>)"

inductive cl_run ::
  "('q, 'a) queue_ops \<Rightarrow> nat \<Rightarrow> 'a cl_event list \<Rightarrow> ('q, 'a) closeable \<Rightarrow> bool"
  for Q :: "('q, 'a) queue_ops" and cap :: nat where
  start: "cl_run Q cap [] (NewCloseable Q cap)"
| step: "cl_run Q cap tr c \<Longrightarrow> cl_step Q c e c' \<Longrightarrow> cl_run Q cap (tr @ [e]) c'"

lemmas cl_defs = Close_def Enqueue_def Send_def Dequeue_def IsClosed_def LockWrapFunc_def
  RLockWrapFunc_def sendWithTimeout_def dequeueSend_def chan_send_def chan_close_def

definition cl_safe :: "('q, 'a) closeable \<Rightarrow> bool" where
  "cl_safe c \<longleftrightarrow> \<not> c_panicked c \<and> (c_closed c \<longrightarrow> c_blocked c = [])"

lemma step_safe: "cl_step Q c e c' \<Longrightarrow> cl_safe c \<Longrightarrow> cl_safe c'"
  by (induction rule: cl_step.induct)
    (auto simp: cl_safe_def cl_defs split: if_splits option.splits prod.splits)

lemma step_closed: "cl_step Q c e c' \<Longrightarrow> cl_safe c \<Longrightarrow> c_closed c \<Longrightarrow>
   c_closed c' \<and> c_queue c' = c_queue c \<and> c_dropped c' = c_dropped c \<and>
   c_received c' @ c_buffer c' = c_received c @ c_buffer c"
  by (induction rule: cl_step.induct)
    (auto simp: cl_safe_def cl_defs split: if_splits option.splits prod.splits)

lemma run_safe: "cl_run Q cap tr c \<Longrightarrow> cl_safe c"
proof (induction rule: cl_run.induct)
  case (step tr c e c')
  from step_safe [OF step(2,3)] show ?case .
qed (simp add: cl_safe_def NewCloseable_def)

text \<open>C6: The channel is never sent on, nor closed again, once it is closed: in no
  interleaving of clients, waiting senders and the background loop does an operation panic,
  no sender is left waiting on a closed channel, and after the close the values that reach
  the receivers are those the channel already held, in their order.\<close>
theorem closeable_safe:
  assumes "cl_run Q cap tr c" "cl_step Q c e c'"
  shows "\<not> c_panicked c' \<and> (c_closed c' \<longrightarrow> c_blocked c' = []) \<and>
    (c_closed c \<longrightarrow> c_closed c' \<and> c_received c' @ c_buffer c' = c_received c @ c_buffer c)"
  using step_safe [OF assms(2) run_safe [OF assms(1)]] step_closed [OF assms(2) run_safe [OF assms(1)]]
  by (auto simp: cl_safe_def)

theorem closeable_safe_witness:
  "c_closed (Close (NewCloseable list_queue 1 :: (nat list, nat) closeable)) \<and>
   \<not> c_panicked (Close (Close (NewCloseable list_queue 1 :: (nat list, nat) closeable)))"
proof -
  let ?c = "NewCloseable list_queue 1 :: (nat list, nat) closeable"
  have "cl_run list_queue 1 [CClose] (Close ?c)"
    using cl_run.step [OF cl_run.start cl_step.close] by (fastforce simp: NewCloseable_def)
  moreover have "cl_step list_queue (Close ?c) CClose (Close (Close ?c))"
    by (rule cl_step.close) (simp add: NewCloseable_def cl_defs)
  ultimately show ?thesis using closeable_safe by (fastforce simp: NewCloseable_def cl_defs)
qed

section \<open>Where the values go\<close>

text \<open>The values that entered: queued or sent on the open channel; the ones that left by
  \<open>Dequeue\<close>.\<close>

fun entered :: "bool \<Rightarrow> 'a cl_event \<Rightarrow> 'a multiset" where
  "entered open' (CEnqueue v) = (if open' then {#v#} else {#})"
| "entered open' (CSendTimeout v) = (if open' then {#v#} else {#})"
| "entered open' (CSendBlock v) = (if open' then {#v#} else {#})"
| "entered open' _ = {#}"

fun left_by :: "'a cl_event \<Rightarrow> 'a multiset" where
  "left_by (CDequeue (Some v)) = {#v#}"
| "left_by _ = {#}"

definition held :: "('q \<Rightarrow> 'a list) \<Rightarrow> ('q, 'a) closeable \<Rightarrow> 'a multiset" where
  "held items c = mset (items (c_queue c)) + mset (c_buffer c) + mset (c_blocked c)
     + mset (c_received c) + mset (c_dropped c)"

text \<open>The queued values only, in order, for a channel no one sends on directly.\<close>

definition direct :: "'a cl_event \<Rightarrow> bool" where
  "direct e \<longleftrightarrow> (\<exists>v. e = CSendTimeout v \<or> e = CSendBlock v)"

fun enqueued :: "'a cl_event \<Rightarrow> 'a list" where
  "enqueued (CEnqueue v) = [v]"
| "enqueued _ = []"

lemma subseq_skip: "subseq (a @ b @ v # q) vs \<Longrightarrow> subseq (a @ b @ q) vs"
  by (erule subseq_order.trans [rotated]) (intro list_emb_append_mono list_emb_Cons, simp_all)

context fifo_queue
begin

lemma Dequeue_cases:
  assumes "Dequeue Q c = (r, c')"
  shows "(r = None \<and> c' = c) \<or>
    (\<exists>v q. r = Some v \<and> c' = c\<lparr>c_queue := q\<rparr> \<and> items (c_queue c) = v # items q \<and> \<not> c_closed c)"
  using assms by (auto simp: Dequeue_def IsClosed_def dequeue_Some split: if_splits option.splits prod.splits)

lemma step_held:
  "cl_step Q c e c' \<Longrightarrow> cl_safe c \<Longrightarrow> held items c' + left_by e = held items c + entered (\<not> c_closed c) e"
proof (induction rule: cl_step.induct)
  case (dequeue c r c')
  from Dequeue_cases [OF dequeue(2)] show ?case by (auto simp: held_def)
next
  case (loop c in_time)
  obtain r c' where d: "Dequeue Q c = (r, c')" by fastforce
  from Dequeue_cases [OF this] loop show ?case
    by (auto simp: held_def dequeueSend_def d sendWithTimeout_def chan_send_def IsClosed_def)
qed (auto simp: held_def cl_defs cl_safe_def items_enqueue)

lemma step_order:
  "cl_step Q c e c' \<Longrightarrow> cl_safe c \<Longrightarrow> \<not> direct e \<Longrightarrow> c_blocked c = [] \<Longrightarrow>
   subseq (c_received c @ c_buffer c @ items (c_queue c)) vs \<Longrightarrow>
   c_blocked c' = [] \<and> subseq (c_received c' @ c_buffer c' @ items (c_queue c')) (vs @ enqueued e)"
proof (induction rule: cl_step.induct)
  case (enqueue c v)
  then have "subseq ((c_received c @ c_buffer c @ items (c_queue c)) @ [v]) (vs @ [v])"
    by (intro list_emb_append_mono) simp_all
  with enqueue show ?case by (auto simp: cl_defs items_enqueue intro: subseq_order.trans [of _ vs])
next
  case (dequeue c r c')
  from Dequeue_cases [OF dequeue(2)] dequeue show ?case by (auto intro: subseq_skip)
next
  case (loop c in_time)
  obtain r c' where d: "Dequeue Q c = (r, c')" by fastforce
  from Dequeue_cases [OF this] loop show ?case
    by (auto simp: dequeueSend_def d sendWithTimeout_def chan_send_def IsClosed_def intro: subseq_skip)
qed (auto simp: cl_defs direct_def)

lemma run_order:
  "cl_run Q cap tr c \<Longrightarrow> list_all (\<lambda>e. \<not> direct e) tr \<Longrightarrow> c_blocked c = [] \<and>
     subseq (c_received c @ c_buffer c @ items (c_queue c)) (concat (map enqueued tr))"
proof (induction rule: cl_run.induct)
  case (step tr c e c')
  then have "c_blocked c = []"
    "subseq (c_received c @ c_buffer c @ items (c_queue c)) (concat (map enqueued tr))" by auto
  with step_order [OF step(2) run_safe [OF step(1)]] step.prems show ?case by simp
qed (simp add: NewCloseable_def items_new)

end

text \<open>C17: Every value that enters an open channel is accounted for in every step: it is
  queued, in the channel, with a waiting sender, received, taken back by \<open>Dequeue\<close>, or was
  dropped when its time ran out. Values that are only queued arrive in the order they were
  queued in, possibly with some missing: the background loop drops the value it holds when no
  receiver takes it in time.\<close>
theorem closeable_values:
  assumes "fifo_queue Q items" "cl_run Q cap tr c" "cl_step Q c e c'"
  shows "held items c' + left_by e = held items c + entered (\<not> c_closed c) e \<and>
    (list_all (\<lambda>e. \<not> direct e) tr \<longrightarrow>
       subseq (c_received c @ c_buffer c @ items (c_queue c)) (concat (map enqueued tr)))"
  using fifo_queue.step_held [OF assms(1,3) run_safe [OF assms(2)]]
    fifo_queue.run_order [OF assms(1,2)] by simp

theorem closeable_values_witness:
  "\<exists>c. held (\<lambda>q. q) c = {#7 :: nat#} \<and> c_dropped c = [7]"
proof -
  let ?c = "NewCloseable list_queue 0 :: (nat list, nat) closeable"
  have run: "cl_run list_queue 0 [CEnqueue 7] (Send list_queue 7 ?c)"
    using cl_run.step [OF cl_run.start cl_step.enqueue] by (fastforce simp: NewCloseable_def)
  have step: "cl_step list_queue (Send list_queue 7 ?c) CLoop (snd (dequeueSend list_queue False (Send list_queue 7 ?c)))"
    by (rule cl_step.loop) (simp_all add: NewCloseable_def cl_defs list_queue_def)
  from closeable_values [OF listq.fifo_queue_axioms run step] show ?thesis
    by (intro exI [of _ "snd (dequeueSend list_queue False (Send list_queue 7 ?c))"])
      (simp add: NewCloseable_def cl_defs list_queue_def held_def)
qed

end
