(* ===== verification/Rpc2.thy ===== *)
theory Rpc2
  imports Prelude Rpc_Message Rpc_Server
begin

text \<open>
  Package \<open>j2rpc2\<close>: the request context with its growing handler list (\<open>context.go\<close>),
  groups of handlers by path (\<open>group.go\<close>), the router's registration (\<open>router.go\<close>) and the
  server (\<open>server.go\<close>, \<open>functions.go\<close>, \<open>middleware.go\<close>).

  Handlers are data: the server's own two kinds, \<open>Recover\<close>, and user handlers as lists of
  actions, so that the model executes the chain with its deferred calls and panics. A
  registered function works on the request's data (which includes the application's state).
  The iteration order of Go's map of groups is a field of the request (\<open>r_order\<close>). User
  handlers do not add handlers of their own.
\<close>

section \<open>Requests and the context\<close>

record http_request2 =
  r2_method :: string
  r2_content_length :: int
  r2_body :: "(string, bytes) result option"

definition maxRequestContentLength2 :: int where
  "maxRequestContentLength2 = 5242880"

definition getValidateRequestStatus :: "rpc_ext \<Rightarrow> http_request2 \<Rightarrow> (int \<times> string, unit) result" where
  "getValidateRequestStatus E r =
     (if r2_method r = ''OPTIONS'' then Inr ()
      else if r2_method r \<noteq> ''POST'' then Inl (405, ''method isn't allowed'')
      else if r2_content_length r > maxRequestContentLength2 then
        Inl (413, ''content length too large ('' @ int_text E (r2_content_length r) @ ''>''
              @ int_text E maxRequestContentLength2 @ '')'')
      else Inr ())"

record 'w rdata =
  rd_store :: "string \<rightharpoonup> json"
  rd_msg :: "rpc_message option"
  rd_writer :: http_writer
  rd_abort :: bool
  rd_wrote :: bool
  rd_world :: 'w

type_synonym caller_body = "bytes \<Rightarrow> (string, bytes) result"

record server_option =
  CallerAfterReadBody :: "caller_body option"
  CallerBeforeWrite :: "caller_body option"

definition rpcContext_Abort :: "'w rdata \<Rightarrow> 'w rdata" where
  "rpcContext_Abort d = d\<lparr>rd_abort := True\<rparr>"

definition rpcContext_Msg :: "'w rdata \<Rightarrow> rpc_message" where
  "rpcContext_Msg d = (case rd_msg d of None \<Rightarrow> no_message\<lparr>m_id := Some (JNum ''0'')\<rparr> | Some m \<Rightarrow> m)"

definition rpcContext_SetMsg :: "rpc_message \<Rightarrow> 'w rdata \<Rightarrow> 'w rdata" where
  "rpcContext_SetMsg m d = d\<lparr>rd_msg := Some m\<rparr>"

definition rpcContext_SetValue :: "string \<Rightarrow> json \<Rightarrow> 'w rdata \<Rightarrow> 'w rdata" where
  "rpcContext_SetValue k v d = d\<lparr>rd_store := (rd_store d)(k \<mapsto> v)\<rparr>"

definition StopWriteStringStatus :: "int \<Rightarrow> string \<Rightarrow> 'w rdata \<Rightarrow> 'w rdata" where
  "StopWriteStringStatus status str d =
     (if rd_wrote d then d
      else let d = rpcContext_Abort d;
               d = d\<lparr>rd_writer := write_body (str_bytes str) (write_header status (rd_writer d))\<rparr>
           in d\<lparr>rd_wrote := True\<rparr>)"

definition bytes_TrimSpace :: "bytes \<Rightarrow> bytes" where
  "bytes_TrimSpace b = str_bytes (strings_TrimSpace (bytes_str b))"

text \<open>\<open>JSONEncode\<close> ends the text with a newline.\<close>

definition JSONEncode :: "rpc_ext \<Rightarrow> json \<Rightarrow> (string, bytes) result" where
  "JSONEncode E j = and_then (json_write E j) (\<lambda>b. Inr (b @ [10]))"

datatype write_arg = WErr go_error | WResult json

fun response_arg :: "rpc_message \<Rightarrow> write_arg \<Rightarrow> rpc_message" where
  "response_arg m (WResult j) = m\<lparr>m_result := Some j\<rparr>"
| "response_arg m (WErr (RpcErr e)) = m\<lparr>m_error := Some e\<rparr>"
| "response_arg m (WErr (ItfErr c t d)) = m\<lparr>m_error := Some \<lparr>e_code = c, e_message = t, e_data = d\<rparr>\<rparr>"
| "response_arg m (WErr e) = m\<lparr>m_error := Some (NewError ErrInternal (error_text e) [])\<rparr>"

definition response_message :: "rpc_message \<Rightarrow> write_arg list \<Rightarrow> rpc_message" where
  "response_message m args =
     (let m = foldl response_arg m args;
          m = (if m_error m = None \<and> m_result m = None then m\<lparr>m_result := Some (JStr ''Success'')\<rparr> else m)
      in if m_error m \<noteq> None then m\<lparr>m_result := None\<rparr> else m)"

definition WriteResponse ::
  "rpc_ext \<Rightarrow> server_option \<Rightarrow> write_arg list \<Rightarrow> 'w rdata \<Rightarrow> 'w rdata" where
  "WriteResponse E opt args d =
     (if rd_wrote d then d
      else let msg = response_message (rpcContext_Msg d) args;
               d = rpcContext_SetMsg msg d;
               msg = msg\<lparr>m_method := [], m_params := None\<rparr>
           in case JSONEncode E (message_json (int_text E) msg) of
                Inl err \<Rightarrow> StopWriteStringStatus 500 err d
              | Inr data \<Rightarrow>
                  (case (case CallerBeforeWrite opt of None \<Rightarrow> Inr data
                         | Some f \<Rightarrow> f (bytes_TrimSpace data)) of
                     Inl err \<Rightarrow> StopWriteStringStatus 500 err d
                   | Inr data \<Rightarrow>
                       d\<lparr>rd_writer := write_body data (write_header 200
                           (header_set ''x-content-type-options'' ''nosniff''
                             (header_set ''Content-Type'' ''application/json; charset=utf-8'' (rd_writer d)))),
                         rd_wrote := True\<rparr>))"

definition ReadBody ::
  "rpc_ext \<Rightarrow> server_option \<Rightarrow> http_request2 \<Rightarrow> 'w rdata \<Rightarrow> 'w rdata \<times> string option" where
  "ReadBody E opt r d =
     (if rd_msg d \<noteq> None then (d, None)
      else case getValidateRequestStatus E r of
        Inl (status, err) \<Rightarrow> (StopWriteStringStatus status err d, Some err)
      | Inr _ \<Rightarrow>
     (case r2_body r of
        None \<Rightarrow> (StopWriteStringStatus 400 ''missing request body'' d, None)
      | Some (Inl err) \<Rightarrow> (StopWriteStringStatus 400 err d, Some err)
      | Some (Inr body) \<Rightarrow>
     (case (case CallerAfterReadBody opt of None \<Rightarrow> Inr body | Some f \<Rightarrow> f (bytes_TrimSpace body)) of
        Inl err \<Rightarrow> (StopWriteStringStatus 400 err d, Some err)
      | Inr body \<Rightarrow>
     let d = rpcContext_SetValue ''___j2rpc.body'' (JStr (bytes_str body)) d in
     (case json_read E body of
        None \<Rightarrow> (StopWriteStringStatus 400 (json_error E body) d, Some (json_error E body))
      | Some j \<Rightarrow>
     (case decode_message j no_message of (msg, ok) \<Rightarrow>
      if \<not> ok then (StopWriteStringStatus 400 (json_error E body) d, Some (json_error E body))
      else if \<not> RPCMessage_hasValidID msg then (StopWriteStringStatus 400 ''invalid request id'' d, None)
      else let msg = msg\<lparr>m_method := strings_TrimSpace (m_method msg)\<rparr> in
        if m_method msg = [] then (StopWriteStringStatus 400 ''missing method'' d, None)
        else (rpcContext_SetMsg msg d, None))))))"

section \<open>Functions, handlers, groups\<close>

text \<open>\<open>fi_args\<close>: the parameter types after the receiver and the context, if any. The context
  of a request is always the package's own, so it can always be passed.\<close>

record 'w func_info =
  fi_name :: string
  fi_is_type :: bool
  fi_args :: "gotype list"
  fi_outs :: "gotype list"
  fi_fn :: "'w rdata \<Rightarrow> argval list \<Rightarrow> 'w rdata \<times> outcome"

datatype 'w user_act =
    UData "'w rdata \<Rightarrow> 'w rdata" | UWrite "write_arg list" | UStop int string | UAbort
  | UReturnIf "'w rdata \<Rightarrow> bool" | UPanic string | UNext

datatype 'w rhandler = HReadBody | HCall "'w func_info" | HRecover | HUser "'w user_act list"

type_synonym 'w groups = "(string \<times> 'w rhandler list) list"

record 'w server2 =
  s2_groups :: "'w groups"
  s2_funcs :: "string set"
  s2_option :: server_option
  s2_types :: type_env

definition getOrNewGroup :: "string \<Rightarrow> 'w server2 \<Rightarrow> 'w rhandler list \<times> 'w server2" where
  "getOrNewGroup path s = (case map_of (s2_groups s) path of
     Some hs \<Rightarrow> (hs, s)
   | None \<Rightarrow> ([], s\<lparr>s2_groups := s2_groups s @ [(path, [])]\<rparr>))"

definition server2_Use :: "string \<Rightarrow> 'w rhandler list \<Rightarrow> 'w server2 \<Rightarrow> 'w server2" where
  "server2_Use path hs s = (case getOrNewGroup path s of (_, s) \<Rightarrow>
     s\<lparr>s2_groups := map (\<lambda>(p, old). (p, if p = path then old @ hs else old)) (s2_groups s)\<rparr>)"

definition NewServer :: "type_env \<Rightarrow> server_option \<Rightarrow> 'w server2" where
  "NewServer env opt = server2_Use [] [HReadBody]
     \<lparr>s2_groups = [], s2_funcs = {}, s2_option = opt, s2_types = env\<rparr>"

definition MethodNameProvider :: "string \<Rightarrow> string" where
  "MethodNameProvider name = strings_ToLower (take 1 name) @ drop 1 name"

text \<open>\<open>registerFunc\<close>: \<open>qualified\<close> is the name the runtime has for the function.\<close>

definition registerFunc :: "'w func_info \<Rightarrow> string \<Rightarrow> string \<Rightarrow> 'w server2 \<Rightarrow> 'w server2" where
  "registerFunc f qualified methodName s =
     (let methodName = (if methodName = [] then
            MethodNameProvider (last (split_on qualified ''.'')) else methodName)
      in if methodName \<in> s2_funcs s then s
         else let info = f\<lparr>fi_name := methodName, fi_is_type := False\<rparr> in
           server2_Use methodName [HCall info] (s\<lparr>s2_funcs := insert methodName (s2_funcs s)\<rparr>))"

record 'w bean =
  bn_type_name :: string
  bn_rpc_type_name :: "string option"
  bn_method_name :: "(string \<Rightarrow> string) option"
  bn_methods :: "'w func_info list"

fun register_methods :: "(string \<Rightarrow> string) \<Rightarrow> 'w func_info list \<Rightarrow> 'w server2 \<Rightarrow> 'w server2" where
  "register_methods name [] s = s"
| "register_methods name (m # ms) s = register_methods name ms
     (let methodName = name (fi_name m) in
      if methodName \<in> s2_funcs s then s
      else server2_Use methodName [HCall (m\<lparr>fi_name := methodName, fi_is_type := True\<rparr>)]
             (s\<lparr>s2_funcs := insert methodName (s2_funcs s)\<rparr>))"

definition registerType :: "'w bean \<Rightarrow> string \<Rightarrow> 'w server2 \<Rightarrow> 'w server2" where
  "registerType b typeName s =
     (let typeName = (if typeName = [] then bn_type_name b else typeName);
          typeName = MethodNameProvider typeName;
          typeName = (case bn_rpc_type_name b of None \<Rightarrow> typeName | Some n \<Rightarrow> n);
          name = (\<lambda>m. case bn_method_name b of
             None \<Rightarrow> typeName @ ''.'' @ MethodNameProvider m | Some f \<Rightarrow> f m)
      in register_methods name (bn_methods b) s)"

text \<open>The name in the tag of a field that \<open>RegisterTypeBus\<close> registers. Without a tag, \<open>Split\<close> gives one empty
  piece, which is the (empty) name.\<close>

definition tag_name :: "string \<Rightarrow> string" where
  "tag_name tag = (case List.find (\<lambda>v. strings_HasPrefix v ''name:'' \<or> \<not> strings_Contains v '':'')
       (split_on tag '','') of
     None \<Rightarrow> []
   | Some v \<Rightarrow> if strings_HasPrefix v ''name:'' then drop 5 v else v)"

section \<open>Calling a function\<close>

text \<open>\<open>functions.go\<close>, \<open>reflect.go\<close>: the arguments, as in package \<open>j2rpc\<close>.\<close>

definition parsePositionalArguments ::
  "rpc_ext \<Rightarrow> raw_message \<Rightarrow> gotype list \<Rightarrow> (string, argval list) result" where
  "parsePositionalArguments E rawArgs types =
     and_then
       (case rawArgs of
          None \<Rightarrow> Inr []
        | Some JNull \<Rightarrow> Inr []
        | Some (JArr js) \<Rightarrow> parse_argument_array E 0 js types
        | Some _ \<Rightarrow> Inl ''non-array args'')
       (\<lambda>args. Inr (args @ map missing_arg (drop (length args) types)))"

definition encode_value :: "rvalue \<Rightarrow> (string, json) result" where
  "encode_value v = (case v of RNil \<Rightarrow> Inr JNull | RVal _ r \<Rightarrow> r
     | RErr (RpcErr e) \<Rightarrow> Inr (error_json (\<lambda>_. []) e) | RErr _ \<Rightarrow> Inr (JObj []))"

text \<open>What the results make of the response: the arguments of \<open>WriteResponse\<close>, or a panic
  (\<open>IsNil\<close> of an error type that cannot be nil).\<close>

definition result_response :: "type_env \<Rightarrow> gotype list \<Rightarrow> rvalue list \<Rightarrow> (string, write_arg list) result" where
  "result_response env outs results =
     (let plain = (\<lambda>rs. case rs of
            [] \<Rightarrow> Inr []
          | RNil # _ \<Rightarrow> Inr []
          | v # _ \<Rightarrow> (case encode_value v of
               Inl e \<Rightarrow> Inr [WErr (RpcErr (NewError ErrInternal e []))] | Inr j \<Rightarrow> Inr [WResult j]))
      in if results \<noteq> [] \<and> te_error env (last outs) then
           (case last results of
              RErr e \<Rightarrow> Inr [WErr e]
            | RNil \<Rightarrow> plain (butlast results)
            | RVal _ _ \<Rightarrow> Inl ''reflect: IsNil'')
         else plain results)"

text \<open>\<open>handleCallFunc\<close> before the deferred \<open>Next\<close>: the data, and the panic if there is one.\<close>

definition callFunc ::
  "rpc_ext \<Rightarrow> type_env \<Rightarrow> server_option \<Rightarrow> 'w func_info \<Rightarrow> 'w rdata \<Rightarrow> 'w rdata \<times> string option" where
  "callFunc E env opt f d =
     (if rd_wrote d then (d, None)
      else case parsePositionalArguments E (m_params (rpcContext_Msg d)) (fi_args f) of
        Inl err \<Rightarrow> (WriteResponse E opt [WErr (RpcErr (NewError ErrBadParams err []))] d, None)
      | Inr args \<Rightarrow>
          (case fi_fn f d args of
             (d, Panicked p) \<Rightarrow> (d, Some p)
           | (d, Returned results) \<Rightarrow>
               (case result_response env (fi_outs f) results of
                  Inl p \<Rightarrow> (d, Some p)
                | Inr wargs \<Rightarrow> (WriteResponse E opt wargs d, None))))"

section \<open>The handler chain\<close>

record 'w rctx =
  r_data :: "'w rdata"
  r_req :: http_request2
  r_handlers :: "'w rhandler list"
  r_hid :: nat
  r_order :: "string list"

text \<open>The handlers \<open>handleReadBody\<close> adds for a method: those of the groups the method lies
  under, in the order the map gives, then the method's own.\<close>

definition method_handlers :: "'w server2 \<Rightarrow> string list \<Rightarrow> string \<Rightarrow> 'w rhandler list option" where
  "method_handlers s order meth = map_option (\<lambda>own.
       concat (map (\<lambda>key. if key \<noteq> [] \<and> meth \<noteq> key \<and> strings_HasPrefix meth (key @ ''.'')
                 then (case map_of (s2_groups s) key of None \<Rightarrow> [] | Some hs \<Rightarrow> hs) else []) order) @ own)
     (map_of (s2_groups s) meth)"

definition rpcContext_AddHandler :: "'w rhandler list \<Rightarrow> 'w rctx \<Rightarrow> 'w rctx" where
  "rpcContext_AddHandler hs x = (if length hs = 0 then x else x\<lparr>r_handlers := r_handlers x @ hs\<rparr>)"

definition handleReadBody :: "rpc_ext \<Rightarrow> 'w server2 \<Rightarrow> 'w rctx \<Rightarrow> 'w rctx" where
  "handleReadBody E s x =
     (case ReadBody E (s2_option s) (r_req x) (r_data x) of
        (d, Some e) \<Rightarrow> x\<lparr>r_data := d\<rparr>
      | (d, None) \<Rightarrow>
          if rd_wrote d then x\<lparr>r_data := d\<rparr>
          else let d = rpcContext_SetValue ''___j2rpc.timeBegin'' (JNum (int_text E (fst (clock E)))) d in
            (case method_handlers s (r_order x) (m_method (rpcContext_Msg d)) of
               None \<Rightarrow> x\<lparr>r_data := WriteResponse E (s2_option s)
                         [WErr (RpcErr (NewError ErrNoMethod ''wrong method'' []))] d\<rparr>
             | Some hs \<Rightarrow> rpcContext_AddHandler hs (x\<lparr>r_data := d\<rparr>)))"

abbreviation on_data :: "('w rdata \<Rightarrow> 'w rdata) \<Rightarrow> 'w rctx \<Rightarrow> 'w rctx" where
  "on_data f x \<equiv> x\<lparr>r_data := f (r_data x)\<rparr>"

text \<open>A panic in a deferred \<open>Next\<close> replaces the one in flight.\<close>

definition deferred :: "string option \<Rightarrow> 'w rctx \<times> string option \<Rightarrow> 'w rctx \<times> string option" where
  "deferred p r = (case r of (x, None) \<Rightarrow> (x, p) | (x, Some q) \<Rightarrow> (x, Some q))"

lemma fst_deferred [simp]: "fst (deferred p r) = fst r"
  by (simp add: deferred_def split: prod.split option.split)

function (sequential) rpc_Next :: "rpc_ext \<Rightarrow> 'w server2 \<Rightarrow> nat \<Rightarrow> 'w rctx \<Rightarrow> 'w rctx \<times> string option"
  and run_user :: "rpc_ext \<Rightarrow> 'w server2 \<Rightarrow> nat \<Rightarrow> 'w user_act list \<Rightarrow> 'w rctx \<Rightarrow> 'w rctx \<times> string option" where
  "rpc_Next E s 0 x = (x, None)"
| "rpc_Next E s (Suc k) x =
     (if rd_abort (r_data x) then (x, None)
      else if length (r_handlers x) \<le> r_hid x then (x, None)
      else let h = r_handlers x ! r_hid x; x = x\<lparr>r_hid := r_hid x + 1\<rparr> in
        (case h of
           HReadBody \<Rightarrow> rpc_Next E s k (handleReadBody E s x)
         | HCall f \<Rightarrow> (case callFunc E (s2_types s) (s2_option s) f (r_data x) of
              (d, p) \<Rightarrow> deferred p (rpc_Next E s k (x\<lparr>r_data := d\<rparr>)))
         | HRecover \<Rightarrow> (case rpc_Next E s k x of
              (x, None) \<Rightarrow> (x, None)
            | (x, Some p) \<Rightarrow> (on_data (\<lambda>d. WriteResponse E (s2_option s)
                 [WErr (RpcErr (NewError ErrInternal (''panic: '' @ p) []))] (rpcContext_Abort d)) x, None))
         | HUser acts \<Rightarrow> run_user E s k acts x))"
| "run_user E s k [] x = (x, None)"
| "run_user E s k (UData f # p) x = run_user E s k p (on_data f x)"
| "run_user E s k (UWrite args # p) x = run_user E s k p (on_data (WriteResponse E (s2_option s) args) x)"
| "run_user E s k (UStop c t # p) x = run_user E s k p (on_data (StopWriteStringStatus c t) x)"
| "run_user E s k (UAbort # p) x = run_user E s k p (on_data rpcContext_Abort x)"
| "run_user E s k (UReturnIf f # p) x = (if f (r_data x) then (x, None) else run_user E s k p x)"
| "run_user E s k (UPanic t # p) x = (x, Some t)"
| "run_user E s k (UNext # p) x = (case rpc_Next E s k x of
     (x', Some q) \<Rightarrow> (x', Some q) | (x', None) \<Rightarrow> run_user E s k p x')"
  by pat_completeness auto
termination
  by (relation "measures [\<lambda>v. case v of Inl (E, s, k, x) \<Rightarrow> k | Inr (E, s, k, p, x) \<Rightarrow> k,
        \<lambda>v. case v of Inl _ \<Rightarrow> 0 | Inr (E, s, k, p, x) \<Rightarrow> Suc (length p)]") auto

definition newRpcContext :: "'w \<Rightarrow> string list \<Rightarrow> http_writer \<Rightarrow> http_request2 \<Rightarrow> 'w rctx" where
  "newRpcContext world order w r =
     \<lparr>r_data = \<lparr>rd_store = Map.empty, rd_msg = None, rd_writer = w, rd_abort = False, rd_wrote = False,
                rd_world = world\<rparr>,
      r_req = r, r_handlers = [], r_hid = 0, r_order = order\<rparr>"

text \<open>Enough for every chain: the handlers of all groups, and one more call.\<close>

definition chain_bound :: "'w server2 \<Rightarrow> string list \<Rightarrow> nat" where
  "chain_bound s order = Suc ((length order + 2) * length (concat (map snd (s2_groups s))))"

definition server2_Handler :: "rpc_ext \<Rightarrow> 'w server2 \<Rightarrow> 'w rctx \<Rightarrow> 'w rctx \<times> string option" where
  "server2_Handler E s x = (case getOrNewGroup [] s of (hs, s) \<Rightarrow>
     rpc_Next E s (chain_bound s (r_order x)) (rpcContext_AddHandler hs x))"

definition ServeHTTP2 ::
  "rpc_ext \<Rightarrow> 'w server2 \<Rightarrow> 'w \<Rightarrow> string list \<Rightarrow> http_writer \<Rightarrow> http_request2 \<Rightarrow> 'w rctx \<times> string option" where
  "ServeHTTP2 E s world order w r = server2_Handler E s (newRpcContext world order w r)"

section \<open>One response at most\<close>

text \<open>A predicate on the request's data that every operation of the context keeps. \<open>ok\<close> says
  which user code is allowed: functions on the data in handlers and in registered functions.\<close>

definition ok_act :: "(('w rdata \<Rightarrow> 'w rdata) \<Rightarrow> bool) \<Rightarrow> 'w user_act \<Rightarrow> bool" where
  "ok_act ok a = (case a of UData f \<Rightarrow> ok f | _ \<Rightarrow> True)"

definition ok_handler :: "(('w rdata \<Rightarrow> 'w rdata) \<Rightarrow> bool) \<Rightarrow> 'w rhandler \<Rightarrow> bool" where
  "ok_handler ok h \<longleftrightarrow> (case h of HUser acts \<Rightarrow> list_all (ok_act ok) acts
     | HCall f \<Rightarrow> (\<forall>args. ok (\<lambda>d. fst (fi_fn f d args))) | _ \<Rightarrow> True)"

definition ok_server :: "(('w rdata \<Rightarrow> 'w rdata) \<Rightarrow> bool) \<Rightarrow> 'w server2 \<Rightarrow> bool" where
  "ok_server ok s \<longleftrightarrow> (\<forall>(p, hs) \<in> set (s2_groups s). list_all (ok_handler ok) hs)"

lemma list_all_concat_map: "(\<And>k. list_all P (g k)) \<Longrightarrow> list_all P (concat (map g ks))"
  by (induction ks) auto

locale request_invariant =
  fixes E :: rpc_ext and s :: "'w server2"
    and P :: "'w rdata \<Rightarrow> bool" and ok :: "('w rdata \<Rightarrow> 'w rdata) \<Rightarrow> bool"
  assumes keeps_write: "P d \<Longrightarrow> P (WriteResponse E (s2_option s) args d)"
    and keeps_stop: "P d \<Longrightarrow> P (StopWriteStringStatus c t d)"
    and keeps_abort: "P d \<Longrightarrow> P (rpcContext_Abort d)"
    and keeps_value: "P d \<Longrightarrow> P (rpcContext_SetValue k v d)"
    and keeps_msg: "P d \<Longrightarrow> P (rpcContext_SetMsg m d)"
    and keeps_user: "P d \<Longrightarrow> ok f \<Longrightarrow> P (f d)"
begin

lemmas keeps = keeps_write keeps_stop keeps_abort keeps_value keeps_msg

lemma keeps_ReadBody: "P d \<Longrightarrow> P (fst (ReadBody E (s2_option s) r d))"
  by (auto simp: ReadBody_def Let_def intro: keeps split: sum.split option.split prod.split)

lemma keeps_callFunc:
  assumes "P d" "ok_handler ok (HCall f)"
  shows "P (fst (callFunc E env (s2_option s) f d))"
proof -
  have "P d'" if "fi_fn f d args = (d', out)" for args d' out
    using assms keeps_user [OF assms(1), of "\<lambda>d. fst (fi_fn f d args)"] that by (simp add: ok_handler_def)
  then show ?thesis
    using assms(1) by (auto simp: callFunc_def intro: keeps split: sum.split prod.split outcome.split)
qed

definition inv :: "'w rctx \<Rightarrow> bool" where
  "inv x \<longleftrightarrow> P (r_data x) \<and> list_all (ok_handler ok) (r_handlers x)"

lemma inv_data: "inv x \<Longrightarrow> P d \<Longrightarrow> inv (x\<lparr>r_data := d\<rparr>)"
  by (simp add: inv_def)

lemma group_ok: "ok_server ok s \<Longrightarrow> map_of (s2_groups s) k = Some hs \<Longrightarrow> list_all (ok_handler ok) hs"
  by (auto simp: ok_server_def dest: map_of_SomeD)

lemma method_handlers_ok:
  assumes "ok_server ok s" "method_handlers s order meth = Some hs"
  shows "list_all (ok_handler ok) hs"
proof -
  from assms(2) obtain own where own: "map_of (s2_groups s) meth = Some own"
    and hs: "hs = concat (map (\<lambda>key. if key \<noteq> [] \<and> meth \<noteq> key \<and> strings_HasPrefix meth (key @ ''.'')
        then (case map_of (s2_groups s) key of None \<Rightarrow> [] | Some hs \<Rightarrow> hs) else []) order) @ own"
    unfolding method_handlers_def by blast
  show ?thesis
    unfolding hs list_all_append
    by (intro conjI list_all_concat_map group_ok [OF assms(1) own])
      (auto dest: group_ok [OF assms(1)] split: option.split)
qed

lemma inv_handleReadBody:
  assumes "ok_server ok s" "inv x" shows "inv (handleReadBody E s x)"
proof -
  obtain d e where d: "ReadBody E (s2_option s) (r_req x) (r_data x) = (d, e)" by fastforce
  with keeps_ReadBody [of "r_data x" "r_req x"] assms have "P d" by (simp add: inv_def)
  with assms d show ?thesis
    by (auto simp: handleReadBody_def rpcContext_AddHandler_def inv_def Let_def intro: keeps
        dest!: method_handlers_ok [OF assms(1)] split: option.split)
qed

lemma chain_inv:
  "E' = E \<Longrightarrow> s' = s \<Longrightarrow> ok_server ok s \<Longrightarrow> inv x \<Longrightarrow> inv (fst (rpc_Next E' s' k x))"
  "E' = E \<Longrightarrow> s' = s \<Longrightarrow> ok_server ok s \<Longrightarrow> inv x \<Longrightarrow> list_all (ok_act ok) p \<Longrightarrow> inv (fst (run_user E' s' k p x))"
proof (induction E' s' k x and E' s' k p x rule: rpc_Next_run_user.induct)
  case (2 E' s' k x)
  show ?case
  proof (cases "rd_abort (r_data x) \<or> length (r_handlers x) \<le> r_hid x")
    case False
    let ?x = "x\<lparr>r_hid := r_hid x + 1\<rparr>"
    from False 2(8) have x: "inv ?x" and h: "ok_handler ok (r_handlers x ! r_hid x)"
      by (auto simp: inv_def list_all_length)
    show ?thesis
    proof (cases "r_handlers x ! r_hid x")
      case HReadBody
      with 2 False inv_handleReadBody [OF 2(7) x] show ?thesis by (simp add: Let_def)
    next
      case (HCall f)
      obtain d p where d: "callFunc E (s2_types s) (s2_option s) f (r_data ?x) = (d, p)" by fastforce
      with keeps_callFunc [of "r_data ?x" f "s2_types s"] x h HCall have "P d" by (simp add: inv_def)
      with x have "inv (?x\<lparr>r_data := d\<rparr>)" by (simp only: inv_data)
      with 2(2) False HCall d 2(5-7) show ?thesis
        by (simp add: Let_def)
    next
      case HRecover
      obtain y q where y: "rpc_Next E s k ?x = (y, q)" by fastforce
      with 2(3) False HRecover 2(5-7) x have "inv y" by fastforce
      then have "inv (on_data (\<lambda>d. WriteResponse E (s2_option s) args (rpcContext_Abort d)) y)" for args
        by (auto simp: inv_def intro: keeps)
      with \<open>inv y\<close> False HRecover y 2(5-7) show ?thesis by (simp add: Let_def split: option.split)
    next
      case (HUser acts)
      with 2 False x h show ?thesis by (simp add: Let_def ok_handler_def)
    qed
  qed (use 2 in auto)
next
  case (10 E' s' k p x)
  then show ?case by (auto split: prod.split option.split)
qed (auto simp: inv_def ok_act_def intro: keeps keeps_user)

lemma Handler_inv:
  assumes "ok_server ok s" "map_of (s2_groups s) [] = Some hs" "inv x"
  shows "inv (fst (server2_Handler E s x))"
proof -
  have "inv (rpcContext_AddHandler hs x)"
    using assms group_ok [OF assms(1,2)] by (simp add: inv_def rpcContext_AddHandler_def)
  then show ?thesis
    using assms(1,2) chain_inv(1) [OF refl refl] by (simp add: server2_Handler_def getOrNewGroup_def)
qed

end

text \<open>User code that leaves the writer alone and answers through the context only.\<close>

definition quiet :: "('w rdata \<Rightarrow> 'w rdata) \<Rightarrow> bool" where
  "quiet f \<longleftrightarrow> (\<forall>d. rd_writer (f d) = rd_writer d \<and> rd_wrote (f d) = rd_wrote d)"

text \<open>Nothing was written to \<open>w\<close> yet, or one status and one body.\<close>

definition resp_state :: "http_writer \<Rightarrow> 'w rdata \<Rightarrow> bool" where
  "resp_state w d \<longleftrightarrow> (if rd_wrote d
     then (\<exists>status hd body. rd_writer d = write_body body (write_header status (w\<lparr>hw_header := hd\<rparr>)))
     else rd_writer d = w)"

lemmas ctx_defs = rpcContext_Abort_def rpcContext_SetValue_def rpcContext_SetMsg_def
  StopWriteStringStatus_def

lemma resp_written:
  "rd_wrote d \<Longrightarrow> rd_writer d = write_body b (write_header c (w\<lparr>hw_header := h\<rparr>)) \<Longrightarrow> resp_state w d"
  by (auto simp: resp_state_def)

lemma resp_state_stop:
  assumes "resp_state w d" shows "resp_state w (StopWriteStringStatus c t d)"
proof (cases "rd_wrote d")
  case False
  then have "rd_writer d = w\<lparr>hw_header := hw_header w\<rparr>" using assms by (simp add: resp_state_def)
  with False show ?thesis
    by (intro resp_written [where b = "str_bytes t" and c = c and h = "hw_header w"])
      (simp_all add: ctx_defs Let_def)
qed (use assms in \<open>simp add: ctx_defs\<close>)

lemma resp_state_msg: "resp_state w d \<Longrightarrow> resp_state w (rpcContext_SetMsg m d)"
  by (simp add: resp_state_def ctx_defs)

lemma resp_state_write:
  assumes "resp_state w d" shows "resp_state w (WriteResponse E opt args d)"
proof (cases "rd_wrote d")
  case False
  then have "rd_writer d = w" using assms by (simp add: resp_state_def)
  then have "resp_state w (d\<lparr>rd_msg := m, rd_writer := write_body b (write_header 200
       (header_set k v (header_set k' v' (rd_writer d)))), rd_wrote := True\<rparr>)" for m b k v k' v'
    by (intro resp_written [where b = b and c = 200 and h = "(hw_header w)(k' \<mapsto> v', k \<mapsto> v)"])
      (simp_all add: header_set_def)
  with False show ?thesis
    using resp_state_stop [OF resp_state_msg [OF assms]]
    by (simp add: WriteResponse_def Let_def rpcContext_SetMsg_def split: sum.split option.split)
qed (use assms in \<open>simp add: WriteResponse_def\<close>)

interpretation responds: request_invariant E s "resp_state w" quiet for E s w
proof unfold_locales
qed (simp_all add: resp_state_write resp_state_stop, simp_all add: resp_state_def ctx_defs quiet_def)

text \<open>Once written, the response is final.\<close>

interpretation final: request_invariant E s "\<lambda>d. rd_wrote d \<and> rd_writer d = w" quiet for E s w
  by unfold_locales (auto simp: WriteResponse_def ctx_defs quiet_def)

text \<open>C8: A request gets one response at most. Whatever the middlewares do, as long as they
  and the registered functions answer through the context only, the writer in the end is
  untouched or has got one status and one body; and once the context has written, no handler
  that follows in the chain changes the response.\<close>
theorem rpc2_one_response:
  assumes "ok_server quiet s" "map_of (s2_groups s) [] = Some hs"
  shows "(let d = r_data (fst (ServeHTTP2 E s world order w r)) in
      if rd_wrote d
      then \<exists>status hd body. rd_writer d = write_body body (write_header status (w\<lparr>hw_header := hd\<rparr>))
      else rd_writer d = w)
    \<and> (rd_wrote (r_data x) \<and> list_all (ok_handler quiet) (r_handlers x) \<longrightarrow>
        rd_writer (r_data (fst (rpc_Next E s k x))) = rd_writer (r_data x))"
proof -
  have "responds.inv w (newRpcContext world order w r)"
    by (simp add: responds.inv_def newRpcContext_def resp_state_def)
  with responds.Handler_inv [OF assms]
  have "resp_state w (r_data (fst (ServeHTTP2 E s world order w r)))"
    by (simp add: responds.inv_def ServeHTTP2_def)
  moreover have "rd_writer (r_data (fst (rpc_Next E s k x))) = rd_writer (r_data x)"
    if "rd_wrote (r_data x)" "list_all (ok_handler quiet) (r_handlers x)"
    using final.chain_inv(1) [OF refl refl assms(1), of "rd_writer (r_data x)" x] that
    by (simp add: final.inv_def)
  ultimately show ?thesis by (simp add: resp_state_def Let_def)
qed

definition demo_opt :: server_option where
  "demo_opt = \<lparr>CallerAfterReadBody = None, CallerBeforeWrite = None\<rparr>"

definition demo_server2 :: "nat server2" where
  "demo_server2 = \<lparr>s2_groups = [([], [HReadBody]), (''b'', [HUser [UNext]]),
      (''a.f'', [HCall \<lparr>fi_name = ''a.f'', fi_is_type = False, fi_args = [], fi_outs = [GNamed ''int''],
         fi_fn = (\<lambda>d _. (d\<lparr>rd_world := 1\<rparr>, Returned [RVal False (Inr (JNum ''1''))]))\<rparr>])],
    s2_funcs = {''a.f''}, s2_option = demo_opt, s2_types = \<lparr>te_error = (\<lambda>t. t = GNamed ''error''), te_context = (\<lambda>_. False)\<rparr>\<rparr>"

definition demo_ext2 :: "json \<Rightarrow> rpc_ext" where
  "demo_ext2 j = \<lparr>json_read = (\<lambda>_. Some j), json_error = (\<lambda>_. []), json_write = (\<lambda>_. Inr [123, 125]),
     int_text = (\<lambda>_. ''0''), fits = (\<lambda>_ _. None), genc = (\<lambda>_ b _. Some b), gdec = (\<lambda>_ b _. Some (Inr b)),
     clock = (1, 2, 3)\<rparr>"

definition demo_request2 :: http_request2 where
  "demo_request2 = \<lparr>r2_method = ''POST'', r2_content_length = 2, r2_body = Some (Inr [123, 125])\<rparr>"

theorem rpc2_one_response_witness:
  "\<exists>d. d = r_data (fst (ServeHTTP2 (demo_ext2 JNull) demo_server2 0 [[], ''b'', ''a.f''] new_writer demo_request2)) \<and>
     (rd_wrote d \<or> rd_writer d = new_writer)"
proof -
  have 1: "ok_server quiet demo_server2"
    by (simp add: ok_server_def demo_server2_def ok_handler_def ok_act_def quiet_def)
  have 2: "map_of (s2_groups demo_server2) [] = Some [HReadBody]" by (simp add: demo_server2_def)
  let ?d = "r_data (fst (ServeHTTP2 (demo_ext2 JNull) demo_server2 0 [[], ''b'', ''a.f''] new_writer demo_request2))"
  have "if rd_wrote ?d
      then \<exists>status hd body. rd_writer ?d = write_body body (write_header status (new_writer\<lparr>hw_header := hd\<rparr>))
      else rd_writer ?d = new_writer"
    using rpc2_one_response [OF 1 2] unfolding Let_def by blast
  then show ?thesis by (auto split: if_splits)
qed

section \<open>From the request to the function\<close>

lemma method_handlers_plain:
  assumes "\<forall>key \<in> set order. key \<noteq> [] \<and> meth \<noteq> key \<longrightarrow> \<not> strings_HasPrefix meth (key @ ''.'')"
  shows "method_handlers s order meth = map_of (s2_groups s) meth"
proof -
  have "concat (map (\<lambda>key. if key \<noteq> [] \<and> meth \<noteq> key \<and> strings_HasPrefix meth (key @ ''.'')
      then g key else []) order) = []" for g :: "string \<Rightarrow> 'a rhandler list"
    using assms by auto
  from this [of "\<lambda>key. case map_of (s2_groups s) key of None \<Rightarrow> [] | Some hs \<Rightarrow> hs"] show ?thesis
    unfolding method_handlers_def by (cases "map_of (s2_groups s) meth") (simp_all only: option.map append_Nil)
qed

text \<open>A request that reads well: the message it decodes to.\<close>

definition reads_to :: "rpc_ext \<Rightarrow> server_option \<Rightarrow> http_request2 \<Rightarrow> bytes \<Rightarrow> rpc_message \<Rightarrow> bool" where
  "reads_to E opt r body msg \<longleftrightarrow> getValidateRequestStatus E r = Inr () \<and> r2_body r = Some (Inr body) \<and>
     CallerAfterReadBody opt = None \<and> RPCMessage_hasValidID msg \<and> strings_TrimSpace (m_method msg) \<noteq> [] \<and>
     (case json_read E body of None \<Rightarrow> False | Some j \<Rightarrow> decode_message j no_message = (msg, True))"

definition request_data :: "rpc_ext \<Rightarrow> 'w \<Rightarrow> http_writer \<Rightarrow> bytes \<Rightarrow> rpc_message \<Rightarrow> 'w rdata" where
  "request_data E world w body msg =
     \<lparr>rd_store = [''___j2rpc.body'' \<mapsto> JStr (bytes_str body), ''___j2rpc.timeBegin'' \<mapsto> JNum (int_text E (fst (clock E)))],
      rd_msg = Some (msg\<lparr>m_method := strings_TrimSpace (m_method msg)\<rparr>), rd_writer = w, rd_abort = False,
      rd_wrote = False, rd_world = world\<rparr>"

lemma ReadBody_ok:
  assumes "reads_to E opt r body msg" "rd_msg d = None"
  shows "ReadBody E opt r d = (d\<lparr>rd_store := (rd_store d)(''___j2rpc.body'' \<mapsto> JStr (bytes_str body)),
     rd_msg := Some (msg\<lparr>m_method := strings_TrimSpace (m_method msg)\<rparr>)\<rparr>, None)"
  using assms by (auto simp: reads_to_def ReadBody_def ctx_defs Let_def split: option.splits)

lemma serve_read:
  fixes world :: 'w and w :: http_writer and order :: "string list"
  assumes "reads_to E (s2_option s) r body msg" "map_of (s2_groups s) [] = Some [HReadBody]"
  defines "meth \<equiv> strings_TrimSpace (m_method msg)" and "d \<equiv> request_data E world w body msg"
    and "x \<equiv> newRpcContext world order w r"
  shows "ServeHTTP2 E s world order w r = (case method_handlers s order meth of
     None \<Rightarrow> rpc_Next E s (chain_bound s order - 1) (x\<lparr>r_handlers := [HReadBody], r_hid := 1,
         r_data := WriteResponse E (s2_option s) [WErr (RpcErr (NewError ErrNoMethod ''wrong method'' []))] d\<rparr>)
   | Some hs \<Rightarrow> rpc_Next E s (chain_bound s order - 1) (x\<lparr>r_handlers := HReadBody # hs, r_hid := 1, r_data := d\<rparr>))"
proof -
  have "handleReadBody E s (x\<lparr>r_handlers := [HReadBody], r_hid := 1\<rparr>) = (case method_handlers s order meth of
     None \<Rightarrow> x\<lparr>r_handlers := [HReadBody], r_hid := 1,
         r_data := WriteResponse E (s2_option s) [WErr (RpcErr (NewError ErrNoMethod ''wrong method'' []))] d\<rparr>
   | Some hs \<Rightarrow> x\<lparr>r_handlers := HReadBody # hs, r_hid := 1, r_data := d\<rparr>)"
    using ReadBody_ok [OF assms(1), of "r_data x"]
    by (simp add: handleReadBody_def x_def d_def newRpcContext_def request_data_def ctx_defs
        rpcContext_Msg_def meth_def rpcContext_AddHandler_def Let_def fun_upd_twist split: option.split)
  then show ?thesis
    using assms(2)
    by (simp add: ServeHTTP2_def server2_Handler_def getOrNewGroup_def chain_bound_def Let_def
        rpcContext_AddHandler_def x_def newRpcContext_def split: option.split)
qed

lemma response_message_shape:
  "(m_error (response_message m args) = None) \<noteq> (m_result (response_message m args) = None)"
  by (auto simp: response_message_def Let_def)

lemma response_arg_id: "m_id (response_arg m a) = m_id m"
  by (cases "(m, a)" rule: response_arg.cases) simp_all

lemma response_message_id: "m_id (response_message m args) = m_id m"
proof -
  have "m_id (foldl response_arg m args) = m_id m"
    by (induction args arbitrary: m) (simp_all add: response_arg_id)
  then show ?thesis by (simp add: response_message_def Let_def)
qed

lemma chain_bound_3:
  assumes "map_of (s2_groups s) [] = Some [HReadBody]"
  obtains k where "chain_bound s order = Suc (Suc (Suc k))"
proof -
  have "length (concat (map snd (s2_groups s))) \<noteq> 0"
    using map_of_SomeD [OF assms] by force
  then show ?thesis
    by (metis (no_types, lifting) One_nat_def Suc_1 add_2_eq_Suc' chain_bound_def mult_is_0 mult_Suc
        nat.exhaust add_Suc_right add_eq_if that)
qed

lemma ServeHTTP2_outcome:
  assumes "reads_to E (s2_option s) r body msg" "map_of (s2_groups s) [] = Some [HReadBody]"
    and "\<forall>key \<in> set order. key \<noteq> [] \<and> strings_TrimSpace (m_method msg) \<noteq> key
      \<longrightarrow> \<not> strings_HasPrefix (strings_TrimSpace (m_method msg)) (key @ ''.'')"
  shows "map_of (s2_groups s) (strings_TrimSpace (m_method msg)) = Some [HCall f] \<Longrightarrow>
      (r_data (fst (ServeHTTP2 E s world order w r)), snd (ServeHTTP2 E s world order w r))
        = callFunc E (s2_types s) (s2_option s) f (request_data E world w body msg)"
    and "map_of (s2_groups s) (strings_TrimSpace (m_method msg)) = None \<Longrightarrow>
      r_data (fst (ServeHTTP2 E s world order w r))
        = WriteResponse E (s2_option s) [WErr (RpcErr (NewError ErrNoMethod ''wrong method'' []))] (request_data E world w body msg)"
proof -
  note res = serve_read [OF assms(1,2), of world order w, unfolded method_handlers_plain [OF assms(3)]]
  obtain k where k: "chain_bound s order = Suc (Suc (Suc k))" by (rule chain_bound_3 [OF assms(2)])
  let ?d = "request_data E world w body msg"
  have stop: "rpc_Next E s (chain_bound s order - 1) y = (y, None)" if "length (r_handlers y) \<le> r_hid y" for y
    using k that by simp
  have call: "rpc_Next E s (chain_bound s order - 1) (y\<lparr>r_handlers := [h, HCall f], r_hid := 1, r_data := ?d\<rparr>)
      = (case callFunc E (s2_types s) (s2_option s) f ?d of (d, p) \<Rightarrow>
         (y\<lparr>r_handlers := [h, HCall f], r_hid := 2, r_data := d\<rparr>, p))" for y h
    using k by (auto simp: deferred_def Let_def request_data_def split: prod.splits)
  show "(r_data (fst (ServeHTTP2 E s world order w r)), snd (ServeHTTP2 E s world order w r))
        = callFunc E (s2_types s) (s2_option s) f ?d"
    if "map_of (s2_groups s) (strings_TrimSpace (m_method msg)) = Some [HCall f]"
    unfolding res that by (simp add: call del: One_nat_def split: prod.split)
  show "r_data (fst (ServeHTTP2 E s world order w r)) = WriteResponse E (s2_option s) [WErr (RpcErr (NewError ErrNoMethod ''wrong method'' []))] ?d"
    if "map_of (s2_groups s) (strings_TrimSpace (m_method msg)) = None"
    unfolding res that by (simp add: stop del: One_nat_def)
qed

text \<open>Dispatch. On a server with no middlewares for the method, a readable request runs
  exactly the function registered under its (trimmed) method name, on its own data, and the
  outcome is that of the function's handler; a method nobody registered is answered by the
  error for an unknown method. In every response one of result and error is present and the
  other absent, and the id is the request's.\<close>
theorem ServeHTTP2_dispatch:
  assumes "reads_to E (s2_option s) r body msg" "map_of (s2_groups s) [] = Some [HReadBody]"
    and "\<forall>key \<in> set order. key \<noteq> [] \<and> strings_TrimSpace (m_method msg) \<noteq> key
      \<longrightarrow> \<not> strings_HasPrefix (strings_TrimSpace (m_method msg)) (key @ ''.'')"
  shows "let d = request_data E world w body msg; res = ServeHTTP2 E s world order w r in
      (map_of (s2_groups s) (strings_TrimSpace (m_method msg)) = Some [HCall f] \<longrightarrow>
      (r_data (fst res), snd res) = callFunc E (s2_types s) (s2_option s) f d)
    \<and> (map_of (s2_groups s) (strings_TrimSpace (m_method msg)) = None \<longrightarrow>
      r_data (fst res) = WriteResponse E (s2_option s) [WErr (RpcErr (NewError ErrNoMethod ''wrong method'' []))] d)
    \<and> (m_error (response_message (rpcContext_Msg d) args) = None)
        \<noteq> (m_result (response_message (rpcContext_Msg d) args) = None)
    \<and> m_id (response_message (rpcContext_Msg d) args) = m_id msg"
  using ServeHTTP2_outcome(1) [OF assms, of f world w] ServeHTTP2_outcome(2) [OF assms, of world w]
  by (simp add: response_message_id response_message_shape request_data_def rpcContext_Msg_def Let_def)

definition demo_call :: json where
  "demo_call = JObj [(''id'', JNum ''7''), (''method'', JStr ''a.f'')]"

lemma demo_reads:
  assumes "strings_TrimSpace meth = meth" "meth \<noteq> []"
  shows "reads_to (demo_ext2 (JObj [(''id'', JNum ''7''), (''method'', JStr meth)])) demo_opt demo_request2
     [123, 125] (no_message\<lparr>m_id := Some (JNum ''7''), m_method := meth\<rparr>)"
  using assms
  by (simp add: reads_to_def demo_request2_def demo_opt_def demo_ext2_def getValidateRequestStatus_def
      maxRequestContentLength2_def RPCMessage_hasValidID_def decode_message_def json_key_def
      strings_ToLower_def char_lower_def is_upper_def)

theorem ServeHTTP2_dispatch_witness:
  "rd_world (r_data (fst (ServeHTTP2 (demo_ext2 demo_call) demo_server2 0 [[], ''b'', ''a.f''] new_writer demo_request2))) = 1"
proof -
  let ?msg = "no_message\<lparr>m_id := Some (JNum ''7''), m_method := ''a.f''\<rparr>"
  have t: "strings_TrimSpace ''a.f'' = ''a.f''" by (simp add: strings_TrimSpace_def is_space_def)
  have 1: "reads_to (demo_ext2 demo_call) (s2_option demo_server2) demo_request2 [123, 125] ?msg"
    using demo_reads [OF t] by (simp add: demo_call_def demo_server2_def)
  have 2: "map_of (s2_groups demo_server2) [] = Some [HReadBody]" by (simp add: demo_server2_def)
  have 3: "\<forall>key \<in> set [[], ''b'', ''a.f'']. key \<noteq> [] \<and> strings_TrimSpace (m_method ?msg) \<noteq> key
      \<longrightarrow> \<not> strings_HasPrefix (strings_TrimSpace (m_method ?msg)) (key @ ''.'')"
    by (simp add: t strings_HasPrefix_def)
  let ?f = "\<lparr>fi_name = ''a.f'', fi_is_type = False, fi_args = [], fi_outs = [GNamed ''int''],
     fi_fn = (\<lambda>d _. (d\<lparr>rd_world := 1\<rparr>, Returned [RVal False (Inr (JNum ''1''))]))\<rparr> :: nat func_info"
  let ?d = "request_data (demo_ext2 demo_call) 0 new_writer [123, 125] ?msg"
  have f: "map_of (s2_groups demo_server2) (strings_TrimSpace (m_method ?msg)) = Some [HCall ?f]"
    by (simp add: t demo_server2_def)
  have "rd_world (fst (callFunc (demo_ext2 demo_call) (s2_types demo_server2) (s2_option demo_server2) ?f ?d)) = 1"
    by (simp add: callFunc_def request_data_def parsePositionalArguments_def rpcContext_Msg_def
        result_response_def demo_server2_def encode_value_def WriteResponse_def Let_def ctx_defs
        demo_ext2_def JSONEncode_def demo_opt_def no_message_def)
  with ServeHTTP2_dispatch [OF 1 2 3, of 0 new_writer ?f] f show ?thesis
    unfolding Let_def by (metis fst_conv)
qed

text \<open>A request that names a group of middlewares rather than a function passes the check for
  an unknown method and gets no response at all.\<close>

lemma prefix_group_silent:
  "let d = r_data (fst (ServeHTTP2 (demo_ext2 (JObj [(''id'', JNum ''7''), (''method'', JStr ''b'')]))
       demo_server2 0 [[], ''b'', ''a.f''] new_writer demo_request2))
   in rd_wrote d = False \<and> rd_writer d = new_writer"
proof -
  let ?msg = "no_message\<lparr>m_id := Some (JNum ''7''), m_method := ''b''\<rparr>"
  have t: "strings_TrimSpace ''b'' = ''b''" by (simp add: strings_TrimSpace_def is_space_def)
  have 1: "reads_to (demo_ext2 (JObj [(''id'', JNum ''7''), (''method'', JStr ''b'')])) (s2_option demo_server2)
      demo_request2 [123, 125] ?msg"
    using demo_reads [OF t] by (simp add: demo_server2_def)
  have 2: "map_of (s2_groups demo_server2) [] = Some [HReadBody]" by (simp add: demo_server2_def)
  have m: "method_handlers demo_server2 [[], ''b'', ''a.f''] ''b'' = Some [HUser [UNext]]"
    by (simp add: method_handlers_def demo_server2_def strings_HasPrefix_def)
  obtain k where "chain_bound demo_server2 [[], ''b'', ''a.f''] - 1 = Suc (Suc (Suc k))"
    by (rule that [of 12]) (simp add: chain_bound_def demo_server2_def)
  then show ?thesis
    unfolding serve_read [OF 1 2] using m t
    by (simp add: newRpcContext_def request_data_def Let_def)
qed

section \<open>Registration\<close>

lemma Use_group:
  "map_of (s2_groups (server2_Use path hs s)) path = Some ((case map_of (s2_groups s) path of
     None \<Rightarrow> [] | Some old \<Rightarrow> old) @ hs)"
  "p \<noteq> path \<Longrightarrow> map_of (s2_groups (server2_Use path hs s)) p = map_of (s2_groups s) p"
proof -
  have upd: "map_of (map (\<lambda>(p, old). (p, if p = path then old @ hs else old)) gs) q =
      (if q = path then map_option (\<lambda>old. old @ hs) (map_of gs q) else map_of gs q)" for gs q
    by (induction gs) auto
  show "map_of (s2_groups (server2_Use path hs s)) path = Some ((case map_of (s2_groups s) path of
     None \<Rightarrow> [] | Some old \<Rightarrow> old) @ hs)"
    by (auto simp: server2_Use_def getOrNewGroup_def upd map_add_def split: option.split)
  show "map_of (s2_groups (server2_Use path hs s)) p = map_of (s2_groups s) p" if "p \<noteq> path"
    using that by (auto simp: server2_Use_def getOrNewGroup_def upd map_add_def split: option.split)
qed

text \<open>The first registration of a name wins; it makes the function the group's handler and
  leaves the other groups alone.\<close>

lemma registerFunc_group:
  assumes "name \<noteq> []" "name \<notin> s2_funcs s" "map_of (s2_groups s) name = None"
  shows "map_of (s2_groups (registerFunc f q name s)) name
      = Some [HCall (f\<lparr>fi_name := name, fi_is_type := False\<rparr>)]"
    and "p \<noteq> name \<Longrightarrow> map_of (s2_groups (registerFunc f q name s)) p = map_of (s2_groups s) p"
    and "registerFunc g q' name (registerFunc f q name s) = registerFunc f q name s"
proof -
  have "s2_funcs (server2_Use path hs s') = s2_funcs s'" for path hs and s' :: "'a server2"
    by (simp add: server2_Use_def getOrNewGroup_def split: option.split)
  with assms show "map_of (s2_groups (registerFunc f q name s)) name
      = Some [HCall (f\<lparr>fi_name := name, fi_is_type := False\<rparr>)]"
    "registerFunc g q' name (registerFunc f q name s) = registerFunc f q name s"
    by (simp_all add: registerFunc_def Let_def Use_group)
  show "p \<noteq> name \<Longrightarrow> map_of (s2_groups (registerFunc f q name s)) p = map_of (s2_groups s) p"
    using assms by (simp add: registerFunc_def Let_def Use_group)
qed

section \<open>The chain ends\<close>

definition no_read :: "'w rhandler list \<Rightarrow> bool" where
  "no_read hs \<longleftrightarrow> HReadBody \<notin> set hs"

lemma drop_hid: "r_hid x < length (r_handlers x) \<Longrightarrow>
   no_read (drop (r_hid x) (r_handlers x)) \<longleftrightarrow>
     r_handlers x ! r_hid x \<noteq> HReadBody \<and> no_read (drop (Suc (r_hid x)) (r_handlers x))"
  by (metis (no_types, lifting) Cons_nth_drop_Suc list.set_intros(1) no_read_def set_ConsD set_subset_Cons subsetD)

definition left_after :: "'w rctx \<Rightarrow> 'w rctx \<Rightarrow> bool" where
  "left_after x y \<longleftrightarrow> r_handlers y = r_handlers x \<and> r_hid x \<le> r_hid y"

lemma left_step: "left_after (x\<lparr>r_hid := Suc (r_hid x), r_data := d\<rparr>) y \<Longrightarrow> left_after x y"
  by (simp add: left_after_def)

lemma no_read_later: "no_read (drop i hs) \<Longrightarrow> i \<le> j \<Longrightarrow> no_read (drop j hs)"
  unfolding no_read_def using set_drop_subset_set_drop [of i j hs] by blast

lemma chain_left:
  "no_read (drop (r_hid x) (r_handlers x)) \<Longrightarrow> left_after x (fst (rpc_Next E s k x))"
  "no_read (drop (r_hid x) (r_handlers x)) \<Longrightarrow> left_after x (fst (run_user E s k p x))"
proof (induction E s k x and E s k p x rule: rpc_Next_run_user.induct)
  case (2 E s k x)
  show ?case
  proof (cases "rd_abort (r_data x) \<or> length (r_handlers x) \<le> r_hid x")
    case False
    with 2(5) have h: "r_handlers x ! r_hid x \<noteq> HReadBody"
      and n: "no_read (drop (Suc (r_hid x)) (r_handlers x))" by (simp_all add: drop_hid)
    show ?thesis
    proof (cases "r_handlers x ! r_hid x")
      case (HCall f)
      obtain d p where d: "callFunc E (s2_types s) (s2_option s) f (r_data x) = (d, p)" by fastforce
      with 2(2) False HCall n
      have "left_after (x\<lparr>r_hid := Suc (r_hid x), r_data := d\<rparr>)
          (fst (rpc_Next E s k (x\<lparr>r_hid := Suc (r_hid x), r_data := d\<rparr>)))" by simp
      from left_step [OF this] d False HCall show ?thesis by (simp add: Let_def)
    next
      case HRecover
      obtain y q where y: "rpc_Next E s k (x\<lparr>r_hid := r_hid x + 1\<rparr>) = (y, q)" by fastforce
      with 2(3) False HRecover n have "left_after (x\<lparr>r_hid := r_hid x + 1\<rparr>) y" by fastforce
      with False HRecover y show ?thesis by (simp add: Let_def left_after_def split: option.split)
    next
      case (HUser acts)
      with 2(4) False n show ?thesis by (auto simp: Let_def left_after_def)
    qed (use h in simp)
  qed (auto simp: left_after_def)
next
  case (10 E s k p x)
  obtain y q where y: "rpc_Next E s k x = (y, q)" by fastforce
  with 10(1,3) have "left_after x y" by simp
  moreover from this have "no_read (drop (r_hid y) (r_handlers y))"
    using 10(3) by (auto simp: left_after_def intro: no_read_later)
  ultimately show ?case
    using y 10(2) by (auto simp: left_after_def split: option.split)
qed (auto simp: left_after_def)

lemma chain_more:
  "no_read (drop (r_hid x) (r_handlers x)) \<Longrightarrow> length (r_handlers x) < k + r_hid x \<Longrightarrow>
     rpc_Next E s (k + n) x = rpc_Next E s k x"
  "no_read (drop (r_hid x) (r_handlers x)) \<Longrightarrow> length (r_handlers x) < k + r_hid x \<Longrightarrow>
     run_user E s (k + n) p x = run_user E s k p x"
proof (induction E s k x and E s k p x rule: rpc_Next_run_user.induct)
  case (2 E s k x)
  show ?case
  proof (cases "rd_abort (r_data x) \<or> length (r_handlers x) \<le> r_hid x")
    case False
    with 2(5) have h: "r_handlers x ! r_hid x \<noteq> HReadBody"
      and n: "no_read (drop (Suc (r_hid x)) (r_handlers x))" by (simp_all add: drop_hid)
    show ?thesis
    proof (cases "r_handlers x ! r_hid x")
      case (HCall f)
      obtain d p where d: "callFunc E (s2_types s) (s2_option s) f (r_data x) = (d, p)" by fastforce
      with 2(2,6) False HCall n show ?thesis by (simp add: Let_def)
    next
      case HRecover
      with 2(3,6) False n show ?thesis by (simp add: Let_def)
    next
      case (HUser acts)
      with 2(4,6) False n show ?thesis by (simp add: Let_def)
    qed (use h in simp)
  qed auto
next
  case (10 E s k p x)
  obtain y q where y: "rpc_Next E s k x = (y, q)" by fastforce
  with chain_left(1) [OF 10(3), of E s k] have l: "left_after x y" by simp
  then have "no_read (drop (r_hid y) (r_handlers y))"
    using 10(3) by (auto simp: left_after_def intro: no_read_later)
  with l y 10 show ?case by (auto simp: left_after_def split: option.split)
next
  case (1 E s x)
  then show ?case by (cases n) auto
qed auto

lemma handlers_bound:
  assumes "method_handlers s order meth = Some hs" "\<And>p gs. (p, gs) \<in> set (s2_groups s) \<Longrightarrow> p \<noteq> [] \<Longrightarrow> no_read gs"
    "meth \<noteq> []"
  shows "length hs \<le> (length order + 1) * length (concat (map snd (s2_groups s))) \<and> no_read hs"
proof -
  define g where "g = (\<lambda>key. if key \<noteq> [] \<and> meth \<noteq> key \<and> strings_HasPrefix meth (key @ ''.'')
        then (case map_of (s2_groups s) key of None \<Rightarrow> [] | Some hs \<Rightarrow> hs) else [])"
  define n where "n = length (concat (map snd (s2_groups s)))"
  from assms(1) obtain own where own: "map_of (s2_groups s) meth = Some own" and hs: "hs = concat (map g order) @ own"
    unfolding method_handlers_def g_def by blast
  have le: "length gs \<le> n" if "map_of (s2_groups s) p = Some gs" for p gs
  proof -
    have "(p, gs) \<in> set xs \<Longrightarrow> length gs \<le> length (concat (map snd xs))" for xs by (induction xs) auto
    with map_of_SomeD [OF that] show ?thesis unfolding n_def by blast
  qed
  have g: "length (g key) \<le> n \<and> no_read (g key)" for key
  proof (cases "map_of (s2_groups s) key")
    case (Some gs)
    then have "g key = [] \<or> g key = gs \<and> key \<noteq> []" by (simp add: g_def)
    with le [OF Some] assms(2) [OF map_of_SomeD [OF Some]] show ?thesis by (auto simp: no_read_def)
  next
    case None
    then have "g key = []" unfolding g_def by (metis option.simps(4))
    then show ?thesis by (simp add: no_read_def)
  qed
  have "length (concat (map g ks)) \<le> length ks * n \<and> no_read (concat (map g ks))" for ks
  proof (induction ks)
    case (Cons k ks)
    with g [of k] show ?case by (auto simp: no_read_def)
  qed (simp add: no_read_def)
  from this [of order] le [OF own] own assms(2) [OF map_of_SomeD [OF own] assms(3)] show ?thesis
    by (auto simp: hs no_read_def n_def [symmetric])
qed

text \<open>The chain ends: for a server as \<open>NewServer\<close>, registration and middlewares build it,
  with the body reader as its first handler and nowhere else, the bound the model runs with is
  enough, whatever the handlers do: any larger bound gives the same result.\<close>
theorem rpc2_chain_enough:
  assumes "map_of (s2_groups s) [] = Some (HReadBody # mids)" "no_read mids"
    and "\<forall>(p, hs) \<in> set (s2_groups s). p \<noteq> [] \<longrightarrow> no_read hs"
  shows "rpc_Next E s (chain_bound s order + n) (rpcContext_AddHandler (HReadBody # mids) (newRpcContext world order w r))
    = ServeHTTP2 E s world order w r"
proof -
  let ?n = "length (concat (map snd (s2_groups s)))"
  let ?x = "rpcContext_AddHandler (HReadBody # mids) (newRpcContext world order w r)"
  let ?x1 = "?x\<lparr>r_hid := 1\<rparr>"
  have split: "(p, gs) \<in> set xs \<Longrightarrow> length gs \<le> length (concat (map snd xs))" for p gs and xs :: "'a groups"
    by (induction xs) auto
  from split [OF map_of_SomeD [OF assms(1)]] have mids: "Suc (length mids) \<le> ?n" by simp
  let ?y = "handleReadBody E s ?x1"
  have y: "no_read (drop (r_hid ?y) (r_handlers ?y)) \<and> length (r_handlers ?y) < chain_bound s order - 1 + r_hid ?y"
  proof -
    obtain d e where d: "ReadBody E (s2_option s) (r_req ?x1) (r_data ?x1) = (d, e)" by fastforce
    have x1: "r_handlers ?x1 = HReadBody # mids" "r_hid ?x1 = 1" "r_order ?x1 = order"
      by (simp_all add: rpcContext_AddHandler_def newRpcContext_def)
    have base: "no_read (drop 1 (HReadBody # mids)) \<and> length (HReadBody # mids) < chain_bound s order - 1 + 1"
      using assms(2) mids by (simp add: chain_bound_def)
    show ?thesis
    proof (cases "e = None \<and> \<not> rd_wrote d")
      case False
      with d x1 base show ?thesis by (cases e) (auto simp: handleReadBody_def)
    next
      case True
      let ?d = "rpcContext_SetValue ''___j2rpc.timeBegin'' (JNum (int_text E (fst (clock E)))) d"
      show ?thesis
      proof (cases "method_handlers s order (m_method (rpcContext_Msg ?d))")
        case None
        with True d x1 base show ?thesis by (simp add: handleReadBody_def Let_def)
      next
        case (Some hs)
        have meth: "m_method (rpcContext_Msg ?d) \<noteq> []"
          using d True by (auto simp: ReadBody_def newRpcContext_def rpcContext_AddHandler_def ctx_defs
              rpcContext_Msg_def Let_def split: if_splits sum.splits option.splits prod.splits)
        from handlers_bound [OF Some _ meth] assms(3)
        have "length hs \<le> (length order + 1) * ?n" "no_read hs" by auto
        with True d x1 Some mids assms(2) show ?thesis
          by (auto simp: handleReadBody_def Let_def rpcContext_AddHandler_def no_read_def chain_bound_def)
      qed
    qed
  qed
  obtain k where k: "chain_bound s order = Suc k" by (simp add: chain_bound_def)
  have "rpc_Next E s (Suc m) ?x = rpc_Next E s m ?y" for m
    by (simp add: rpcContext_AddHandler_def newRpcContext_def Let_def)
  then show ?thesis
    using k y chain_more(1) [where x = ?y and k = k and n = n] assms(1)
    by (simp add: ServeHTTP2_def server2_Handler_def getOrNewGroup_def newRpcContext_def)
qed

theorem rpc2_chain_enough_witness:
  "\<exists>mids. rpc_Next (demo_ext2 JNull) demo_server2 (chain_bound demo_server2 [] + 5)
     (rpcContext_AddHandler (HReadBody # mids) (newRpcContext 0 [] new_writer demo_request2))
   = ServeHTTP2 (demo_ext2 JNull) demo_server2 0 [] new_writer demo_request2"
proof -
  have 1: "map_of (s2_groups demo_server2) [] = Some (HReadBody # [])" by (simp add: demo_server2_def)
  have 2: "no_read []" by (simp add: no_read_def)
  have 3: "\<forall>(p, hs) \<in> set (s2_groups demo_server2). p \<noteq> [] \<longrightarrow> no_read hs"
    by (simp add: demo_server2_def no_read_def)
  from rpc2_chain_enough [OF 1 2 3] show ?thesis by blast
qed

end
