(* ===== verification/Kv_Store.thy ===== *)
theory Kv_Store
  imports Prelude "HOL-Library.AList"
begin

text \<open>
  The stores behind the query cache (\<open>mdb/storage.go\<close>, \<open>mdb/storage-redis.go\<close>): the
  interface \<open>CacheStore\<close> as a locale over what a store shows (\<open>view\<close>), and the three
  stores that provide it. Redis, ccache and freecache are not part of the repository: their
  operations are arguments, and what the stores rely on are the locales \<open>redis_hash\<close>,
  \<open>ccache_laws\<close> and \<open>freecache_laws\<close>. A store may lose entries at any time (expiry, limits),
  so the laws bound its view from above.
\<close>

definition cache_separator :: string where "cache_separator = '':sep:''"

text \<open>\<open>Get\<close> may remove an expired entry, so it returns the store.\<close>

record 's store_ops =
  so_get :: "string \<Rightarrow> 's \<Rightarrow> bytes option \<times> 's"
  so_set :: "string \<Rightarrow> bytes \<Rightarrow> int list \<Rightarrow> 's \<Rightarrow> 's"
  so_del :: "string \<Rightarrow> 's \<Rightarrow> 's"
  so_drop :: "string list \<Rightarrow> 's \<Rightarrow> 's"
  so_clear :: "'s \<Rightarrow> 's"

definition view :: "'s store_ops \<Rightarrow> 's \<Rightarrow> string \<Rightarrow> bytes option" where
  "view S s k = fst (so_get S k s)"

text \<open>A prefix whose only separator, when one is put after it, is that one, and which has no
  character with a meaning in a Redis pattern; a key lies under it when it continues it with a
  separator.\<close>

definition glob_free :: "string \<Rightarrow> bool" where
  "glob_free p \<longleftrightarrow> list_all (\<lambda>c. c \<notin> {CHR ''*'', CHR ''?'', CHR ''['', CHR '']'', CHR 0x5C}) p"

definition clean :: "string \<Rightarrow> bool" where
  "clean p \<longleftrightarrow> strings_Index (p @ cache_separator) cache_separator = Some (length p) \<and> glob_free p"

definition under :: "string \<Rightarrow> string \<Rightarrow> bool" where
  "under p k \<longleftrightarrow> clean p \<and> strings_HasPrefix k (p @ cache_separator)"

lemma map_leD: "m \<subseteq>\<^sub>m m' \<Longrightarrow> m k = Some v \<Longrightarrow> m' k = Some v"
  by (metis domI map_le_def)

lemma map_leI: "(\<And>k v. m k = Some v \<Longrightarrow> m' k = Some v) \<Longrightarrow> m \<subseteq>\<^sub>m m'"
  by (auto simp: map_le_def)

locale cache_store =
  fixes S :: "'s store_ops" and ok :: "'s \<Rightarrow> bool"
  assumes get_le: "ok s \<Longrightarrow> view S (snd (so_get S k s)) \<subseteq>\<^sub>m view S s"
    and set_view: "ok s \<Longrightarrow> view S (so_set S k d ttl s) k' = Some v \<Longrightarrow> (k' = k \<and> v = d) \<or> view S s k' = Some v"
    and del_le: "ok s \<Longrightarrow> view S (so_del S k s) \<subseteq>\<^sub>m (view S s)(k := None)"
    and drop_le: "ok s \<Longrightarrow> view S (so_drop S ps s) \<subseteq>\<^sub>m view S s"
    and drop_under: "ok s \<Longrightarrow> p \<in> set ps \<Longrightarrow> under p k \<Longrightarrow> view S (so_drop S ps s) k = None"
    and clear_view: "ok s \<Longrightarrow> view S (so_clear S s) = Map.empty"
    and ok_get: "ok s \<Longrightarrow> ok (snd (so_get S k s))"
    and ok_set: "ok s \<Longrightarrow> ok (so_set S k d ttl s)"
    and ok_del: "ok s \<Longrightarrow> ok (so_del S k s)"
    and ok_drop: "ok s \<Longrightarrow> ok (so_drop S ps s)"
    and ok_clear: "ok s \<Longrightarrow> ok (so_clear S s)"
begin

lemmas ok_ops = ok_get ok_set ok_del ok_drop ok_clear

lemma del_view: "view S (so_del S k s) k' = Some v \<Longrightarrow> ok s \<Longrightarrow> k' \<noteq> k \<and> view S s k' = Some v"
  using map_leD [OF del_le, of s k k' v] by (auto split: if_splits)

lemma drop_view: "view S (so_drop S ps s) k = Some v \<Longrightarrow> ok s \<Longrightarrow>
   view S s k = Some v \<and> (\<forall>p \<in> set ps. \<not> under p k)"
  using map_leD [OF drop_le, of s ps k v] drop_under [of s _ ps k] by auto

lemma get_view: "view S (snd (so_get S k s)) k' = Some v \<Longrightarrow> ok s \<Longrightarrow> view S s k' = Some v"
  using map_leD [OF get_le] .

end

section \<open>storage-redis.go: RedisStore\<close>

record 'r redis_ops =
  HGet :: "string \<Rightarrow> string \<Rightarrow> 'r \<Rightarrow> string option"
  HSet :: "string \<Rightarrow> string \<Rightarrow> string \<Rightarrow> 'r \<Rightarrow> 'r"
  HDel :: "string \<Rightarrow> string list \<Rightarrow> 'r \<Rightarrow> 'r"
  HScan :: "string \<Rightarrow> 'r \<Rightarrow> string list"
  Scan :: "string \<Rightarrow> 'r \<Rightarrow> string list"
  DelKeys :: "string list \<Rightarrow> 'r \<Rightarrow> 'r"
  FlushDB :: "'r \<Rightarrow> 'r"

text \<open>The stored value: JSON of the data and the expiry. \<open>rv_enc\<close> fails for data that is not
  JSON.\<close>

record redis_codec =
  rv_enc :: "bytes \<Rightarrow> int \<Rightarrow> string option"
  rv_dec :: "string \<Rightarrow> (bytes \<times> int) option"

record 'r redis_store =
  rs_client :: 'r
  rs_separator :: string
  rs_now :: int

definition isExpired :: "int \<Rightarrow> int \<Rightarrow> bool" where
  "isExpired now expire_at \<longleftrightarrow> expire_at > 0 \<and> expire_at < now"

definition NewRedisStore :: "'r \<Rightarrow> string option \<Rightarrow> int \<Rightarrow> 'r redis_store" where
  "NewRedisStore c opt now = \<lparr>rs_client = c,
     rs_separator = (case opt of None \<Rightarrow> cache_separator | Some s \<Rightarrow> s), rs_now = now\<rparr>"

definition GetKeyFieldOrNot :: "string \<Rightarrow> string \<Rightarrow> (string \<times> string) option" where
  "GetKeyFieldOrNot sep key =
     (let s1 = strings_Split key sep in
      if length s1 < 2 then None
      else Some (strings_Join (take (length s1 - 1) s1) sep, s1 ! (length s1 - 1)))"

definition RedisStore_Del :: "'r redis_ops \<Rightarrow> string \<Rightarrow> 'r redis_store \<Rightarrow> 'r redis_store" where
  "RedisStore_Del R key r = (case GetKeyFieldOrNot (rs_separator r) key of
     None \<Rightarrow> r | Some (k, f) \<Rightarrow> r\<lparr>rs_client := HDel R k [f] (rs_client r)\<rparr>)"

definition RedisStore_Get ::
  "'r redis_ops \<Rightarrow> redis_codec \<Rightarrow> string \<Rightarrow> 'r redis_store \<Rightarrow> bytes option \<times> 'r redis_store" where
  "RedisStore_Get R C key r = (case GetKeyFieldOrNot (rs_separator r) key of
     None \<Rightarrow> (None, r)
   | Some (k, f) \<Rightarrow> (case HGet R k f (rs_client r) of
       None \<Rightarrow> (None, r)
     | Some v \<Rightarrow> (case rv_dec C v of
         None \<Rightarrow> (None, r)
       | Some (val, expire_at) \<Rightarrow>
           if isExpired (rs_now r) expire_at then (None, RedisStore_Del R key r) else (Some val, r))))"

definition RedisStore_Set ::
  "'r redis_ops \<Rightarrow> redis_codec \<Rightarrow> string \<Rightarrow> bytes \<Rightarrow> int list \<Rightarrow> 'r redis_store \<Rightarrow> 'r redis_store" where
  "RedisStore_Set R C key data ttl r = (case GetKeyFieldOrNot (rs_separator r) key of
     None \<Rightarrow> r
   | Some (k, f) \<Rightarrow>
       let expire_at = (if length ttl > 0 \<and> ttl ! 0 > 0 then wrap64 (rs_now r + ttl ! 0) else 0)
       in (case rv_enc C data expire_at of
             None \<Rightarrow> r | Some v \<Rightarrow> r\<lparr>rs_client := HSet R k f v (rs_client r)\<rparr>))"

definition ScanKeys :: "'r redis_ops \<Rightarrow> string \<Rightarrow> 'r redis_store \<Rightarrow> string list" where
  "ScanKeys R matchParam r = Scan R (''*'' @ matchParam @ ''*'') (rs_client r)"

fun RedisStore_DropPrefix :: "'r redis_ops \<Rightarrow> string list \<Rightarrow> 'r redis_store \<Rightarrow> 'r redis_store" where
  "RedisStore_DropPrefix R [] r = r"
| "RedisStore_DropPrefix R (s # pres) r =
     (let keys = ScanKeys R s r in
      RedisStore_DropPrefix R pres
        (if length keys = 0 then r else r\<lparr>rs_client := DelKeys R keys (rs_client r)\<rparr>))"

definition RedisStore_ClearAll :: "'r redis_ops \<Rightarrow> 'r redis_store \<Rightarrow> 'r redis_store" where
  "RedisStore_ClearAll R r = r\<lparr>rs_client := FlushDB R (rs_client r)\<rparr>"

definition RedisStore_ops :: "'r redis_ops \<Rightarrow> redis_codec \<Rightarrow> 'r redis_store store_ops" where
  "RedisStore_ops R C = \<lparr>so_get = RedisStore_Get R C, so_set = RedisStore_Set R C,
     so_del = RedisStore_Del R, so_drop = RedisStore_DropPrefix R, so_clear = RedisStore_ClearAll R\<rparr>"

subsection \<open>storage.go: HDeleter, HScanCallback; the collector\<close>

text \<open>\<open>HDeleter\<close>: its slice of collected fields, and what one call deletes.\<close>

definition HDeleter_call ::
  "'r redis_ops \<Rightarrow> string \<Rightarrow> string list \<Rightarrow> string list \<times> 'r \<Rightarrow> string list \<times> 'r" where
  "HDeleter_call R key flds st = (case st of (sl, c) \<Rightarrow>
     let sl = sl @ flds in
     if length sl \<le> 0 then (sl, c)
     else if length sl < 100 \<and> length flds > 0 then (sl, c)
     else ([], HDel R key sl c))"

text \<open>\<open>HScanCallback\<close>: the scan gives fields and values in turn.\<close>

fun HScan_loop :: "('a \<Rightarrow> 'a \<Rightarrow> 'b \<Rightarrow> 'b) \<Rightarrow> 'a list \<Rightarrow> 'a list \<Rightarrow> 'b \<Rightarrow> 'b" where
  "HScan_loop fn s [] st = st"
| "HScan_loop fn s (v # vs) st =
     (let s = s @ [v]; n = length s in
      HScan_loop fn s vs (if n > 1 \<and> n mod 2 = 0 then fn (s ! (n - 2)) (s ! (n - 1)) st else st))"

definition HScanCallback :: "'r redis_ops \<Rightarrow> string \<Rightarrow> (string \<Rightarrow> string \<Rightarrow> 'b \<Rightarrow> 'b) \<Rightarrow> 'r \<Rightarrow> 'b \<Rightarrow> 'b" where
  "HScanCallback R key fn c st = HScan_loop fn [] (HScan R key c) st"

text \<open>\<open>gc\<close> of one key: the callback collects, the last call deletes the rest. The scan runs over
  the hash as it was (a field the collector has removed is not wanted any more).\<close>

definition gc_field ::
  "'r redis_ops \<Rightarrow> redis_codec \<Rightarrow> int \<Rightarrow> string \<Rightarrow> string \<Rightarrow> string \<Rightarrow> string list \<times> 'r \<Rightarrow> string list \<times> 'r" where
  "gc_field R C now key k v st =
     (case rv_dec C v of
        None \<Rightarrow> HDeleter_call R key [k] st
      | Some (val, expire_at) \<Rightarrow> if isExpired now expire_at then HDeleter_call R key [k] st else st)"

fun RedisStore_gc :: "'r redis_ops \<Rightarrow> redis_codec \<Rightarrow> string list \<Rightarrow> 'r redis_store \<Rightarrow> 'r redis_store" where
  "RedisStore_gc R C [] r = r"
| "RedisStore_gc R C (key # keys) r =
     (let st = HScanCallback R key (gc_field R C (rs_now r) key) (rs_client r) ([], rs_client r);
          (sl, c) = HDeleter_call R key [] st
      in RedisStore_gc R C keys (r\<lparr>rs_client := c\<rparr>))"

definition StoreGC :: "'r redis_ops \<Rightarrow> redis_codec \<Rightarrow> string \<Rightarrow> 'r redis_store \<Rightarrow> 'r redis_store" where
  "StoreGC R C pre r = (let keys = ScanKeys R pre r in
     if length keys = 0 then r else RedisStore_gc R C keys r)"

section \<open>storage.go: CCStore and FreeStore\<close>

record 'c ccache_ops =
  cc_get :: "string \<Rightarrow> 'c \<Rightarrow> (bytes \<times> bool) option"
  cc_set :: "string \<Rightarrow> bytes \<Rightarrow> int \<Rightarrow> 'c \<Rightarrow> 'c"
  cc_delete :: "string \<Rightarrow> 'c \<Rightarrow> 'c"
  cc_delete_prefix :: "string \<Rightarrow> 'c \<Rightarrow> 'c"
  cc_clear :: "'c \<Rightarrow> 'c"

definition CCStore_Del :: "'c ccache_ops \<Rightarrow> string \<Rightarrow> 'c \<Rightarrow> 'c" where
  "CCStore_Del C key c = cc_delete C key c"

definition CCStore_Get :: "'c ccache_ops \<Rightarrow> string \<Rightarrow> 'c \<Rightarrow> bytes option \<times> 'c" where
  "CCStore_Get C key c = (case cc_get C key c of
     None \<Rightarrow> (None, c)
   | Some (data, expired) \<Rightarrow> if expired then (None, CCStore_Del C key c) else (Some data, c))"

definition CCStore_Set :: "'c ccache_ops \<Rightarrow> string \<Rightarrow> bytes \<Rightarrow> int list \<Rightarrow> 'c \<Rightarrow> 'c" where
  "CCStore_Set C key data ttl c =
     (let t = 3600 * 1000000000;
          t = (if length ttl > 0 \<and> ttl ! 0 > 0 then wrap64 (ttl ! 0 * 1000000000) else t)
      in cc_set C key data t c)"

fun CCStore_DropPrefix :: "'c ccache_ops \<Rightarrow> string list \<Rightarrow> 'c \<Rightarrow> 'c" where
  "CCStore_DropPrefix C [] c = c"
| "CCStore_DropPrefix C (s # pres) c = CCStore_DropPrefix C pres (cc_delete_prefix C s c)"

definition CCStore_ops :: "'c ccache_ops \<Rightarrow> 'c store_ops" where
  "CCStore_ops C = \<lparr>so_get = CCStore_Get C, so_set = CCStore_Set C, so_del = CCStore_Del C,
     so_drop = CCStore_DropPrefix C, so_clear = cc_clear C\<rparr>"

record 'f freecache_ops =
  fc_get :: "string \<Rightarrow> 'f \<Rightarrow> bytes option"
  fc_set :: "string \<Rightarrow> bytes \<Rightarrow> int \<Rightarrow> 'f \<Rightarrow> 'f"
  fc_del :: "string \<Rightarrow> 'f \<Rightarrow> 'f"
  fc_keys :: "'f \<Rightarrow> string list"
  fc_clear :: "'f \<Rightarrow> 'f"

definition FreeStore_Get :: "'f freecache_ops \<Rightarrow> string \<Rightarrow> 'f \<Rightarrow> bytes option \<times> 'f" where
  "FreeStore_Get F key f = (fc_get F key f, f)"

definition FreeStore_Set :: "'f freecache_ops \<Rightarrow> string \<Rightarrow> bytes \<Rightarrow> int list \<Rightarrow> 'f \<Rightarrow> 'f" where
  "FreeStore_Set F key data ttl f = fc_set F key data (if length ttl > 0 then ttl ! 0 else 3600) f"

definition FreeStore_Del :: "'f freecache_ops \<Rightarrow> string \<Rightarrow> 'f \<Rightarrow> 'f" where
  "FreeStore_Del F key f = fc_del F key f"

definition FreeStore_DropPrefix :: "'f freecache_ops \<Rightarrow> string list \<Rightarrow> 'f \<Rightarrow> 'f" where
  "FreeStore_DropPrefix F pres f = foldl (\<lambda>f k. foldl (\<lambda>f p.
     if strings_HasPrefix k p then fc_del F k f else f) f pres) f (fc_keys F f)"

definition FreeStore_ops :: "'f freecache_ops \<Rightarrow> 'f store_ops" where
  "FreeStore_ops F = \<lparr>so_get = FreeStore_Get F, so_set = FreeStore_Set F, so_del = FreeStore_Del F,
     so_drop = FreeStore_DropPrefix F, so_clear = fc_clear F\<rparr>"

section \<open>Keys and fields\<close>

lemma KeyField_iff:
  assumes "sep \<noteq> []" "GetKeyFieldOrNot sep key = Some (k, f)"
  shows "key = k @ sep @ f \<and> \<not> strings_Contains f sep"
proof -
  let ?s = "split_on key sep"
  from assms(2) have len: "2 \<le> length ?s" and k: "k = strings_Join (butlast ?s) sep" and f: "f = last ?s"
    using split_on_nonempty [OF assms(1), of key]
    by (auto simp: GetKeyFieldOrNot_def strings_Split_def Let_def butlast_conv_take last_conv_nth split: if_splits)
  from len have "butlast ?s \<noteq> []" "?s = butlast ?s @ [last ?s]" by (cases ?s, auto)+
  then have "strings_Join ?s sep = k @ sep @ f" using Join_snoc k f by metis
  with Join_split_on [OF assms(1), of key] split_on_pieces [OF assms(1), of key f] f show ?thesis by simp
qed

lemma KeyField_inj:
  "sep \<noteq> [] \<Longrightarrow> GetKeyFieldOrNot sep key = Some kf \<Longrightarrow> GetKeyFieldOrNot sep key' = Some kf \<Longrightarrow> key' = key"
  using KeyField_iff by (metis prod.exhaust)

lemma Index_append: "strings_Index a sub = Some i \<Longrightarrow> strings_Index (a @ b) sub = Some i"
proof (induction a arbitrary: i)
  case Nil
  then have "sub = []" by (simp split: if_splits)
  with Nil show ?case by (cases b) (auto simp: strings_HasPrefix_def)
next
  case (Cons c a)
  have "strings_HasPrefix ((c # a) @ b) sub" if "strings_HasPrefix (c # a) sub"
    using that by (metis HasPrefix_iff append.assoc)
  moreover have "\<not> strings_HasPrefix ((c # a) @ b) sub" if n: "\<not> strings_HasPrefix (c # a) sub"
  proof -
    from n Cons.prems obtain j where "strings_Index a sub = Some j" by auto
    from Index_bound [OF this] have le: "length sub \<le> length (c # a)" by simp
    then have "take (length sub) ((c # a) @ b) = take (length sub) (c # a)" by (simp del: append_Cons)
    with n le show ?thesis by (simp add: strings_HasPrefix_def)
  qed
  ultimately show ?case using Cons by (auto split: if_splits)
qed

lemma under_key:
  assumes "under p key"
  shows "\<exists>k f. GetKeyFieldOrNot cache_separator key = Some (k, f) \<and> strings_Contains k p"
proof -
  from assms obtain t where key: "key = (p @ cache_separator) @ t" and c: "clean p"
    by (auto simp: under_def HasPrefix_iff)
  have "strings_Index key cache_separator = Some (length p)"
    using c Index_append [of "p @ cache_separator" cache_separator "length p" t] by (simp add: clean_def key)
  moreover have sep: "cache_separator \<noteq> []" by (simp add: cache_separator_def)
  ultimately have s: "split_on key cache_separator = p # split_on t cache_separator"
    by (subst split_on.simps) (simp add: key)
  then have len: "\<not> length (split_on key cache_separator) < 2"
    using split_on_nonempty [OF sep, of t] by (cases "split_on t cache_separator") auto
  let ?k = "strings_Join (take (length (split_on key cache_separator) - 1) (split_on key cache_separator)) cache_separator"
  have "\<exists>b. ?k = p @ b"
    using len s by (cases "take (length (split_on t cache_separator) - 1) (split_on t cache_separator)")
      (auto simp: take_Cons' Join_Cons)
  then have "strings_Contains ?k p" by (auto simp: Contains_iff intro: exI [of _ "[]"])
  with len show ?thesis by (simp add: GetKeyFieldOrNot_def strings_Split_def Let_def)
qed

section \<open>RedisStore keeps the laws\<close>

text \<open>The laws of Redis. A scan gives every field with its value, in any order and maybe more than once.\<close>

locale redis_hash =
  fixes R :: "'r redis_ops" and C :: redis_codec
  assumes hset: "HGet R k' f' (HSet R k f v r) = (if k' = k \<and> f' = f then Some v else HGet R k' f' r)"
    and hdel: "HGet R k' f' (HDel R k fs r) = (if k' = k \<and> f' \<in> set fs then None else HGet R k' f' r)"
    and del_keys: "HGet R k' f' (DelKeys R ks r) = (if k' \<in> set ks then None else HGet R k' f' r)"
    and flush: "HGet R k' f' (FlushDB R r) = None"
    and scan: "glob_free m \<Longrightarrow> HGet R k' f' r \<noteq> None \<Longrightarrow> strings_Contains k' m \<Longrightarrow>
      k' \<in> set (Scan R (''*'' @ m @ ''*'') r)"
    and hscan: "\<exists>fvs. HScan R k r = concat (map (\<lambda>(f, v). [f, v]) fvs) \<and>
      (\<forall>f v. (f, v) \<in> set fvs \<longleftrightarrow> HGet R k f r = Some v)"
    and codec: "rv_enc C d e = Some s \<Longrightarrow> rv_dec C s = Some (d, e)"
begin

abbreviation hview :: "'r redis_store \<Rightarrow> string \<Rightarrow> bytes option" where
  "hview r key \<equiv> fst (RedisStore_Get R C key r)"

lemma hview_eq: "hview r key = (case GetKeyFieldOrNot (rs_separator r) key of None \<Rightarrow> None
   | Some (k, f) \<Rightarrow> (case HGet R k f (rs_client r) of None \<Rightarrow> None
     | Some v \<Rightarrow> (case rv_dec C v of None \<Rightarrow> None
       | Some (d, e) \<Rightarrow> if isExpired (rs_now r) e then None else Some d)))"
  by (simp add: RedisStore_Get_def split: option.split)

lemma hview_mono:
  assumes "rs_separator r' = rs_separator r" "rs_now r' = rs_now r"
    and "\<And>k f v. HGet R k f (rs_client r') = Some v \<Longrightarrow> HGet R k f (rs_client r) = Some v"
  shows "hview r' key = Some d \<Longrightarrow> hview r key = Some d"
  using assms by (auto simp: hview_eq split: option.splits if_splits)

lemma Del_client: "rs_separator (RedisStore_Del R key r) = rs_separator r"
    "rs_now (RedisStore_Del R key r) = rs_now r"
    "HGet R k f (rs_client (RedisStore_Del R key r)) =
      (if GetKeyFieldOrNot (rs_separator r) key = Some (k, f) then None else HGet R k f (rs_client r))"
  by (auto simp: RedisStore_Del_def hdel split: option.split)

lemma Set_client: "rs_separator (RedisStore_Set R C key d ttl r) = rs_separator r"
    "rs_now (RedisStore_Set R C key d ttl r) = rs_now r"
  by (simp_all add: RedisStore_Set_def Let_def split: option.split)

lemma DropPrefix_client:
  "rs_separator (RedisStore_DropPrefix R ps r) = rs_separator r \<and> rs_now (RedisStore_DropPrefix R ps r) = rs_now r \<and>
   (HGet R k f (rs_client (RedisStore_DropPrefix R ps r)) = Some v \<longrightarrow>
     HGet R k f (rs_client r) = Some v \<and> (\<forall>p \<in> set ps. glob_free p \<longrightarrow> \<not> strings_Contains k p))"
proof (induction ps arbitrary: r)
  case (Cons p ps)
  let ?r = "if length (ScanKeys R p r) = 0 then r else r\<lparr>rs_client := DelKeys R (ScanKeys R p r) (rs_client r)\<rparr>"
  have "HGet R k f (rs_client r) = Some v \<and> (glob_free p \<longrightarrow> \<not> strings_Contains k p)"
    if "HGet R k f (rs_client ?r) = Some v"
    using that scan [of p k f "rs_client r"] by (auto simp: del_keys ScanKeys_def split: if_splits)
  with Cons.IH [of ?r] show ?case by (auto simp: Let_def split: if_splits)
qed simp

lemma Del_mono:
  assumes "hview (RedisStore_Del R k r) key = Some d" shows "hview r key = Some d"
proof (rule hview_mono [OF _ _ _ assms])
  fix k' f v assume "HGet R k' f (rs_client (RedisStore_Del R k r)) = Some v"
  then show "HGet R k' f (rs_client r) = Some v" by (simp add: Del_client(3) split: if_splits)
qed (simp_all add: Del_client)

lemma Get_keeps:
  assumes "hview (snd (RedisStore_Get R C k r)) key = Some d" shows "hview r key = Some d"
proof -
  have "snd (RedisStore_Get R C k r) = r \<or> snd (RedisStore_Get R C k r) = RedisStore_Del R k r"
    by (simp add: RedisStore_Get_def split: option.split)
  then consider "snd (RedisStore_Get R C k r) = r" | "snd (RedisStore_Get R C k r) = RedisStore_Del R k r"
    by blast
  then show ?thesis
  proof cases
    case 1
    show ?thesis using assms unfolding 1 .
  next
    case 2
    show ?thesis using assms unfolding 2 by (rule Del_mono)
  qed
qed

lemma Del_drops: "rs_separator r \<noteq> [] \<Longrightarrow> hview (RedisStore_Del R key r) key = None"
  by (auto simp: hview_eq Del_client split: option.split)

lemma Set_view:
  assumes "rs_separator r \<noteq> []" "hview (RedisStore_Set R C key d ttl r) key' = Some v"
  shows "(key' = key \<and> v = d) \<or> hview r key' = Some v"
proof (cases "GetKeyFieldOrNot (rs_separator r) key")
  case (Some kf)
  obtain k f where kf: "kf = (k, f)" by fastforce
  let ?e = "if length ttl > 0 \<and> ttl ! 0 > 0 then wrap64 (rs_now r + ttl ! 0) else 0"
  show ?thesis
  proof (cases "rv_enc C d ?e")
    case None
    with assms(2) Some kf show ?thesis by (simp add: RedisStore_Set_def Let_def)
  next
    case enc: (Some e)
    then have S: "RedisStore_Set R C key d ttl r = r\<lparr>rs_client := HSet R k f e (rs_client r)\<rparr>"
      using Some kf by (simp add: RedisStore_Set_def Let_def)
    show ?thesis
    proof (cases "GetKeyFieldOrNot (rs_separator r) key' = Some (k, f)")
      case True
      with KeyField_inj [OF assms(1)] Some kf have "key' = key" by blast
      with assms(2) True codec [OF enc] show ?thesis
        unfolding S by (auto simp: hview_eq hset split: if_splits)
    next
      case False
      with assms(2) show ?thesis unfolding S by (auto simp: hview_eq hset split: option.splits)
    qed
  qed
qed (use assms(2) in \<open>simp add: RedisStore_Set_def\<close>)

lemma Drop_view:
  assumes "hview (RedisStore_DropPrefix R ps r) key = Some v" "rs_separator r = cache_separator"
  shows "hview r key = Some v \<and> (\<forall>p \<in> set ps. \<not> under p key)"
proof -
  have r: "rs_separator (RedisStore_DropPrefix R ps r) = rs_separator r"
    "rs_now (RedisStore_DropPrefix R ps r) = rs_now r" using DropPrefix_client by auto
  from assms(1) obtain k f w where kf: "GetKeyFieldOrNot (rs_separator r) key = Some (k, f)"
    and w: "HGet R k f (rs_client (RedisStore_DropPrefix R ps r)) = Some w"
    by (auto simp: hview_eq r split: option.splits)
  have "\<not> under p key" if "p \<in> set ps" for p
  proof
    assume u: "under p key"
    with under_key [OF u] kf assms(2) have "strings_Contains k p" by simp
    with DropPrefix_client [of ps r k f w] w that u show False by (auto simp: under_def clean_def)
  qed
  with hview_mono [OF r] DropPrefix_client [of ps r] assms(1) show ?thesis by blast
qed

end

text \<open>The store with the separator of the cache's keys keeps the contract.\<close>

definition default_sep :: "'r redis_store \<Rightarrow> bool" where
  "default_sep r \<longleftrightarrow> rs_separator r = cache_separator"

sublocale redis_hash \<subseteq> redis: cache_store "RedisStore_ops R C" default_sep
proof
  have sep: "cache_separator \<noteq> []" by (simp add: cache_separator_def)
  have v: "view (RedisStore_ops R C) = (\<lambda>r. hview r)" by (simp add: fun_eq_iff view_def RedisStore_ops_def)
  have ops: "so_get (RedisStore_ops R C) = RedisStore_Get R C" "so_set (RedisStore_ops R C) = RedisStore_Set R C"
    "so_del (RedisStore_ops R C) = RedisStore_Del R" "so_drop (RedisStore_ops R C) = RedisStore_DropPrefix R"
    "so_clear (RedisStore_ops R C) = RedisStore_ClearAll R" by (simp_all add: RedisStore_ops_def)
  note defs = v ops default_sep_def
  fix r :: "'r redis_store" and k p :: string and d :: bytes and ttl :: "int list" and ps :: "string list"
  assume r: "default_sep r"
  show "view (RedisStore_ops R C) (snd (so_get (RedisStore_ops R C) k r)) \<subseteq>\<^sub>m view (RedisStore_ops R C) r"
    unfolding defs by (intro map_leI) (rule Get_keeps)
  show "(k' = k \<and> v = d) \<or> view (RedisStore_ops R C) r k' = Some v"
    if "view (RedisStore_ops R C) (so_set (RedisStore_ops R C) k d ttl r) k' = Some v" for k' v
    using that Set_view [where r = r and key = k and d = d and ttl = ttl and key' = k' and v = v] r sep
    by (auto simp: defs)
  show "view (RedisStore_ops R C) (so_del (RedisStore_ops R C) k r) \<subseteq>\<^sub>m (view (RedisStore_ops R C) r)(k := None)"
  proof (intro map_leI)
    fix key v assume "view (RedisStore_ops R C) (so_del (RedisStore_ops R C) k r) key = Some v"
    with Del_drops [of r k] Del_mono [where r = r and k = k and key = key and d = v] r sep
    show "((view (RedisStore_ops R C) r)(k := None)) key = Some v" by (auto simp: defs)
  qed
  show "view (RedisStore_ops R C) (so_drop (RedisStore_ops R C) ps r) \<subseteq>\<^sub>m view (RedisStore_ops R C) r"
  proof (intro map_leI)
    fix key v assume "view (RedisStore_ops R C) (so_drop (RedisStore_ops R C) ps r) key = Some v"
    with Drop_view [where r = r and ps = ps and key = key and v = v] r
    show "view (RedisStore_ops R C) r key = Some v" by (simp add: defs)
  qed
  show "view (RedisStore_ops R C) (so_drop (RedisStore_ops R C) ps r) k = None" if "p \<in> set ps" "under p k"
    using Drop_view [where r = r and ps = ps and key = k] r that by (cases "hview (RedisStore_DropPrefix R ps r) k") (auto simp: defs)
  show "view (RedisStore_ops R C) (so_clear (RedisStore_ops R C) r) = Map.empty"
    by (auto simp: defs fun_eq_iff hview_eq RedisStore_ClearAll_def flush split: option.split)
  show "default_sep (snd (so_get (RedisStore_ops R C) k r))"
    using r by (auto simp: defs RedisStore_Get_def Del_client split: option.split)
  show "default_sep (so_set (RedisStore_ops R C) k d ttl r)" using r by (simp add: defs Set_client)
  show "default_sep (so_del (RedisStore_ops R C) k r)" using r by (simp add: defs Del_client)
  show "default_sep (so_drop (RedisStore_ops R C) ps r)" using r DropPrefix_client by (simp add: defs)
  show "default_sep (so_clear (RedisStore_ops R C) r)" using r by (simp add: defs RedisStore_ClearAll_def)
qed

section \<open>A Redis to try the store on\<close>

type_synonym demo_redis = "((string \<times> string) \<times> string) list"

definition demo_row :: "string \<Rightarrow> demo_redis \<Rightarrow> (string \<times> string) list" where
  "demo_row k r = map (\<lambda>((_, f), v). (f, v)) (filter (\<lambda>((k', _), _). k' = k) (AList.clearjunk r))"

text \<open>Its scan gives every field twice.\<close>

definition demo_redis :: "demo_redis redis_ops" where
  "demo_redis = \<lparr>HGet = (\<lambda>k f r. map_of r (k, f)), HSet = (\<lambda>k f v r. ((k, f), v) # r),
     HDel = (\<lambda>k fs r. filter (\<lambda>((k', f), _). \<not> (k' = k \<and> f \<in> set fs)) r),
     HScan = (\<lambda>k r. concat (map (\<lambda>(f, v). [f, v]) (demo_row k r @ demo_row k r))),
     Scan = (\<lambda>pat r. filter (\<lambda>k. strings_Contains k (butlast (tl pat))) (map (fst \<circ> fst) r)),
     DelKeys = (\<lambda>ks r. filter (\<lambda>((k', _), _). k' \<notin> set ks) r), FlushDB = (\<lambda>_. [])\<rparr>"

definition demo_codec :: redis_codec where
  "demo_codec = \<lparr>rv_enc = (\<lambda>d e. if e = 0 then Some (bytes_str d) else None), rv_dec = (\<lambda>s. Some (str_bytes s, 0))\<rparr>"

lemma map_of_filter_keys: "map_of (filter (\<lambda>(k, _). P k) r) x = (if P x then map_of r x else None)"
  by (induction r) auto

lemma map_of_row: "map_of (map (\<lambda>((_, f), v). (f, v)) (filter (\<lambda>((k', _), _). k' = k) r)) f = map_of r (k, f)"
  by (induction r) auto

lemma distinct_row: "distinct (map fst r) \<Longrightarrow>
   distinct (map fst (map (\<lambda>((_, f), v). (f, v)) (filter (\<lambda>((k', _), _). k' = k) r)))"
  by (induction r) (force simp: image_iff)+

lemma demo_hash:
  assumes "\<And>d e s. rv_enc C d e = Some s \<Longrightarrow> rv_dec C s = Some (d, e)" shows "redis_hash demo_redis C"
proof
  fix k k' f' :: string and fs ks m r
  show "HGet demo_redis k' f' (HDel demo_redis k fs r) = (if k' = k \<and> f' \<in> set fs then None else HGet demo_redis k' f' r)"
    using map_of_filter_keys [of "\<lambda>(k', f). \<not> (k' = k \<and> f \<in> set fs)" r "(k', f')"]
    by (simp add: demo_redis_def case_prod_unfold)
  show "HGet demo_redis k' f' (DelKeys demo_redis ks r) = (if k' \<in> set ks then None else HGet demo_redis k' f' r)"
    using map_of_filter_keys [of "\<lambda>(k', f). k' \<notin> set ks" r "(k', f')"]
    by (simp add: demo_redis_def case_prod_unfold)
  show "k' \<in> set (Scan demo_redis (''*'' @ m @ ''*'') r)"
    if "HGet demo_redis k' f' r \<noteq> None" "strings_Contains k' m"
    using that by (force simp: demo_redis_def dest!: map_of_SomeD)
  have "distinct (map fst (demo_row k r))" by (simp add: demo_row_def distinct_row del: map_map)
  moreover have "map_of (demo_row k r) f = HGet demo_redis k f r" for f
    by (simp add: demo_row_def demo_redis_def map_of_row map_of_clearjunk del: map_map)
  ultimately have "(f, v) \<in> set (demo_row k r) \<longleftrightarrow> HGet demo_redis k f r = Some v" for f v
    by (metis map_of_SomeD map_of_is_SomeI)
  then show "\<exists>fvs. HScan demo_redis k r = concat (map (\<lambda>(f, v). [f, v]) fvs) \<and> (\<forall>f v. (f, v) \<in> set fvs \<longleftrightarrow> HGet demo_redis k f r = Some v)"
    by (intro exI [of _ "demo_row k r @ demo_row k r"]) (simp add: demo_redis_def)
qed (use assms in \<open>auto simp: demo_redis_def split: if_splits\<close>)

interpretation demo: redis_hash demo_redis demo_codec
  by (rule demo_hash) (auto simp: demo_codec_def split: if_splits)

section \<open>What is stored is found again; what is collected\<close>

context redis_hash
begin

lemma set_get:
  assumes "rs_separator r \<noteq> []" "GetKeyFieldOrNot (rs_separator r) key \<noteq> None"
    and "ttl = [] \<or> 0 < ttl ! 0 \<and> rs_now r + ttl ! 0 < 2 ^ 63 \<and> - (2 ^ 63) \<le> rs_now r"
    and "rv_enc C d (if ttl = [] then 0 else rs_now r + ttl ! 0) \<noteq> None"
  shows "hview (RedisStore_Set R C key d ttl r) key = Some d \<and>
    (key' \<noteq> key \<longrightarrow> hview (RedisStore_Set R C key d ttl r) key' = hview r key')"
proof -
  obtain k f where kf: "GetKeyFieldOrNot (rs_separator r) key = Some (k, f)" using assms(2) by auto
  let ?e = "if ttl = [] then 0 else rs_now r + ttl ! 0"
  obtain s where s: "rv_enc C d ?e = Some s" using assms(4) by auto
  have e: "(if length ttl > 0 \<and> ttl ! 0 > 0 then wrap64 (rs_now r + ttl ! 0) else 0) = ?e"
    using assms(3) wrap64_id [of "rs_now r + ttl ! 0"] by auto
  have S: "RedisStore_Set R C key d ttl r = r\<lparr>rs_client := HSet R k f s (rs_client r)\<rparr>"
    unfolding RedisStore_Set_def Let_def e using kf s by simp
  have "\<not> isExpired (rs_now r) ?e" using assms(3) by (auto simp: isExpired_def)
  with codec [OF s] kf have "hview (RedisStore_Set R C key d ttl r) key = Some d"
    unfolding S hview_eq by (simp add: hset)
  moreover have "hview (RedisStore_Set R C key d ttl r) key' = hview r key'" if "key' \<noteq> key"
  proof -
    have "GetKeyFieldOrNot (rs_separator r) key' \<noteq> Some (k, f)"
      using KeyField_inj [OF assms(1) kf] that by blast
    then show ?thesis unfolding S hview_eq by (auto simp: hset split: option.split)
  qed
  ultimately show ?thesis by blast
qed

end

text \<open>What is set under a key is what the next \<open>Get\<close> of that key returns, and no other
  key's entry is touched, although keys are split into a hash and a field: for every key with
  a separator, data that can be encoded, and no time to live or a positive one that does not
  overflow.\<close>
theorem RedisStore_set_get:
  assumes "redis_hash R C" "rs_separator r \<noteq> []" "GetKeyFieldOrNot (rs_separator r) key \<noteq> None"
    and "ttl = [] \<or> 0 < ttl ! 0 \<and> rs_now r + ttl ! 0 < 2 ^ 63 \<and> - (2 ^ 63) \<le> rs_now r"
    and "rv_enc C d (if ttl = [] then 0 else rs_now r + ttl ! 0) \<noteq> None"
  shows "fst (RedisStore_Get R C key (RedisStore_Set R C key d ttl r)) = Some d \<and>
    (key' \<noteq> key \<longrightarrow> fst (RedisStore_Get R C key' (RedisStore_Set R C key d ttl r)) = fst (RedisStore_Get R C key' r))"
  by (rule redis_hash.set_get [OF assms])

theorem RedisStore_set_get_witness:
  "fst (RedisStore_Get demo_redis demo_codec ''a:sep:b''
     (RedisStore_Set demo_redis demo_codec ''a:sep:b'' [123] [] (NewRedisStore [] None 5))) = Some [123]"
proof -
  let ?r = "NewRedisStore ([] :: demo_redis) None 5"
  have 1: "rs_separator ?r \<noteq> []" by (simp add: NewRedisStore_def cache_separator_def)
  have 2: "GetKeyFieldOrNot (rs_separator ?r) ''a:sep:b'' \<noteq> None"
    by (simp add: NewRedisStore_def cache_separator_def GetKeyFieldOrNot_def strings_Split_def
        split_on.simps strings_HasPrefix_def)
  have 3: "[] = [] \<or> 0 < [] ! 0 \<and> rs_now ?r + [] ! 0 < 2 ^ 63 \<and> - (2 ^ 63) \<le> rs_now ?r" by simp
  have 4: "rv_enc demo_codec [123] (if [] = [] then 0 else rs_now ?r + [] ! 0) \<noteq> None"
    by (simp add: demo_codec_def)
  from RedisStore_set_get [OF demo.redis_hash_axioms 1 2 3 4] show ?thesis by blast
qed

lemma HScan_loop_pairs:
  "even (length s) \<Longrightarrow> HScan_loop fn s (concat (map (\<lambda>(k, v). [k, v]) kvs)) st = foldl (\<lambda>st (k, v). fn k v st) st kvs"
proof (induction kvs arbitrary: s st)
  case (Cons kv kvs)
  obtain k v where kv: "kv = (k, v)" by fastforce
  have "HScan_loop fn s (k # v # rest) st = HScan_loop fn (s @ [k, v]) rest (fn k v st)" for rest
  proof -
    have "Suc (length s) mod 2 \<noteq> 0" using Cons.prems by presburger
    then show ?thesis using Cons.prems by (simp add: Let_def nth_append)
  qed
  with Cons kv show ?case by (simp del: HScan_loop.simps)
qed simp

definition dead :: "redis_codec \<Rightarrow> int \<Rightarrow> string \<Rightarrow> bool" where
  "dead C now v = (case rv_dec C v of None \<Rightarrow> True | Some (_, e) \<Rightarrow> isExpired now e)"

context redis_hash
begin

text \<open>Collected or already deleted: \<open>D\<close>.\<close>

definition collected :: "string \<Rightarrow> 'r \<Rightarrow> string set \<Rightarrow> string list \<times> 'r \<Rightarrow> bool" where
  "collected key c0 D st \<longleftrightarrow> (\<exists>G. D = G \<union> set (fst st) \<and>
     (\<forall>k f. HGet R k f (snd st) = (if k = key \<and> f \<in> G then None else HGet R k f c0)))"

lemma HDeleter_collects:
  "collected key c0 D st \<Longrightarrow> collected key c0 (D \<union> set fs) (HDeleter_call R key fs st)"
  unfolding collected_def
  by (auto simp: HDeleter_call_def Let_def hdel split: prod.split)

lemma gc_field_collects:
  "collected key c0 D st \<Longrightarrow> collected key c0 (if dead C now v then insert f D else D) (gc_field R C now key f v st)"
  using HDeleter_collects [of key c0 D st "[f]"]
  by (auto simp: gc_field_def dead_def split: option.split)

lemma gc_fold:
  "collected key c0 D st \<Longrightarrow> collected key c0 (D \<union> {f. \<exists>v. (f, v) \<in> set fvs \<and> dead C now v})
     (foldl (\<lambda>st (f, v). gc_field R C now key f v st) st fvs)"
proof (induction fvs arbitrary: D st)
  case (Cons fv fvs)
  obtain f v where fv: "fv = (f, v)" by fastforce
  let ?D = "if dead C now v then insert f D else D"
  have "D \<union> {f'. \<exists>v'. (f', v') \<in> set (fv # fvs) \<and> dead C now v'} = ?D \<union> {f. \<exists>v. (f, v) \<in> set fvs \<and> dead C now v}"
    using fv by auto
  with Cons.IH [OF gc_field_collects [OF Cons.prems, of now v f]] fv show ?case by simp
qed simp

lemma gc_one:
  assumes "collected key c0 D st"
  shows "HGet R k f (snd (HDeleter_call R key [] st)) = (if k = key \<and> f \<in> D then None else HGet R k f c0)"
proof -
  obtain sl c where st: "st = (sl, c)" by fastforce
  from assms obtain G where "D = G \<union> set sl"
    and "\<And>k f. HGet R k f c = (if k = key \<and> f \<in> G then None else HGet R k f c0)"
    unfolding collected_def st by auto
  then show ?thesis unfolding st by (simp add: HDeleter_call_def Let_def hdel)
qed

lemma gc_key:
  "HGet R k f (snd (HDeleter_call R key [] (HScanCallback R key (gc_field R C now key) c ([], c)))) =
    (case HGet R k f c of None \<Rightarrow> None | Some v \<Rightarrow> if k = key \<and> dead C now v then None else Some v)"
proof -
  obtain fvs where fvs: "HScan R key c = concat (map (\<lambda>(f, v). [f, v]) fvs)"
    and mem: "\<And>f v. (f, v) \<in> set fvs \<longleftrightarrow> HGet R key f c = Some v" using hscan by blast
  have "collected key c {} ([], c)" by (simp add: collected_def)
  from gc_one [OF gc_fold [OF this, of fvs now], of k f] mem show ?thesis
    unfolding HScanCallback_def fvs(1) HScan_loop_pairs [of "[]", simplified]
    by (auto split: option.split)
qed

lemma gc_hget:
  "HGet R k f (rs_client (RedisStore_gc R C keys r)) = (case HGet R k f (rs_client r) of
     None \<Rightarrow> None | Some v \<Rightarrow> if k \<in> set keys \<and> dead C (rs_now r) v then None else Some v)"
proof (induction keys arbitrary: r)
  case (Cons key keys)
  let ?st = "HScanCallback R key (gc_field R C (rs_now r) key) (rs_client r) ([], rs_client r)"
  have "RedisStore_gc R C (key # keys) r = RedisStore_gc R C keys (r\<lparr>rs_client := snd (HDeleter_call R key [] ?st)\<rparr>)"
    by (simp add: Let_def split: prod.split)
  then show ?case
    unfolding Cons.IH by (auto simp: gc_key Cons.IH split: option.split)
qed (simp split: option.split)

end

text \<open>C19: The collector removes exactly the dead entries: after it has run over a list of hashes,
  a field of one of them is gone if its value has expired or is not a stored value, and every
  other entry of the server is as it was, however the deletions were batched and however often a scan gives a field.
  Nobody else writes to the server while it runs.\<close>
theorem gc_exact:
  assumes "redis_hash R C"
  shows "HGet R k f (rs_client (RedisStore_gc R C keys r)) = (case HGet R k f (rs_client r) of
     None \<Rightarrow> None | Some v \<Rightarrow> if k \<in> set keys \<and> dead C (rs_now r) v then None else Some v)"
  by (rule redis_hash.gc_hget [OF assms])

text \<open>A value that cannot be read and one that has expired go; the third stays, and so does an expired one of another hash.\<close>

definition dead_codec :: redis_codec where
  "dead_codec = \<lparr>rv_enc = (\<lambda>d e. if e = 0 \<and> bytes_str d \<notin> {''!'', ''#''} then Some (bytes_str d) else None),
     rv_dec = (\<lambda>s. if s = ''!'' then None else if s = ''#'' then Some ([], 1) else Some (str_bytes s, 0))\<rparr>"

lemma dead_hash: "redis_hash demo_redis dead_codec"
  by (rule demo_hash) (auto simp: dead_codec_def split: if_splits)

theorem gc_exact_witness:
  "let c = [((''h'', ''e''), ''#''), ((''h'', ''f''), ''v''), ((''h'', ''g''), ''!''), ((''i'', ''e''), ''#'')];
       c' = rs_client (RedisStore_gc demo_redis dead_codec [''h''] (NewRedisStore c None 5))
   in HGet demo_redis ''h'' ''e'' c' = None \<and> HGet demo_redis ''h'' ''f'' c' = Some ''v'' \<and> HGet demo_redis ''h'' ''g'' c' = None \<and>
      HGet demo_redis ''i'' ''e'' c' = Some ''#''"
  unfolding Let_def gc_exact [OF dead_hash]
  by (simp add: NewRedisStore_def demo_redis_def dead_def dead_codec_def isExpired_def)

section \<open>The two caches in memory keep the laws\<close>

definition cc_view :: "'c ccache_ops \<Rightarrow> 'c \<Rightarrow> string \<Rightarrow> bytes option" where
  "cc_view C c k = (case cc_get C k c of Some (d, False) \<Rightarrow> Some d | _ \<Rightarrow> None)"

locale ccache_laws =
  fixes C :: "'c ccache_ops"
  assumes delete: "cc_view C (cc_delete C k c) \<subseteq>\<^sub>m (cc_view C c)(k := None)"
    and set: "cc_view C (cc_set C k d t c) \<subseteq>\<^sub>m (cc_view C c)(k \<mapsto> d)"
    and delete_prefix: "cc_view C (cc_delete_prefix C p c) k' = Some v \<Longrightarrow>
      cc_view C c k' = Some v \<and> \<not> strings_HasPrefix k' p"
    and clear: "cc_view C (cc_clear C c) k' = None"
begin

lemma drop: "cc_view C (CCStore_DropPrefix C ps c) k = Some v \<Longrightarrow>
   cc_view C c k = Some v \<and> (\<forall>p \<in> set ps. \<not> strings_HasPrefix k p)"
  by (induction ps arbitrary: c) (auto dest: delete_prefix)

lemma cc_view_ops: "view (CCStore_ops C) = cc_view C"
  by (simp add: fun_eq_iff view_def CCStore_ops_def CCStore_Get_def cc_view_def split: option.split)

lemma set_fresh: "view (CCStore_ops C) (so_set (CCStore_ops C) k d ttl c) k = Some v \<Longrightarrow> v = d"
  using map_leD [OF set, of k d _ c k v] unfolding cc_view_ops by (auto simp: CCStore_ops_def CCStore_Set_def Let_def)

end

lemma under_prefix: "under p k \<Longrightarrow> strings_HasPrefix k p"
  by (auto simp: under_def HasPrefix_iff)

lemma ops_simps [simp]:
  "so_get (CCStore_ops C) = CCStore_Get C" "so_set (CCStore_ops C) = CCStore_Set C"
  "so_del (CCStore_ops C) = CCStore_Del C" "so_drop (CCStore_ops C) = CCStore_DropPrefix C"
  "so_clear (CCStore_ops C) = cc_clear C"
  "so_get (FreeStore_ops F) = FreeStore_Get F" "so_set (FreeStore_ops F) = FreeStore_Set F"
  "so_del (FreeStore_ops F) = FreeStore_Del F" "so_drop (FreeStore_ops F) = FreeStore_DropPrefix F"
  "so_clear (FreeStore_ops F) = fc_clear F"
  by (simp_all add: CCStore_ops_def FreeStore_ops_def)

sublocale ccache_laws \<subseteq> cc: cache_store "CCStore_ops C" "\<lambda>_. True"
proof (unfold_locales, unfold cc_view_ops ops_simps)
  fix k d and ttl :: "int list" and c k' v ps p
  have del: "cc_view C (CCStore_Del C k c) \<subseteq>\<^sub>m (cc_view C c)(k := None)" for k
    using delete by (simp add: CCStore_Del_def)
  then show "cc_view C (CCStore_Del C k c) \<subseteq>\<^sub>m (cc_view C c)(k := None)" .
  have le: "cc_view C (CCStore_Del C k c) \<subseteq>\<^sub>m cc_view C c"
  proof (intro map_leI)
    fix k' v assume "cc_view C (CCStore_Del C k c) k' = Some v"
    from map_leD [OF del this] show "cc_view C c k' = Some v" by (simp split: if_splits)
  qed
  then show "cc_view C (snd (CCStore_Get C k c)) \<subseteq>\<^sub>m cc_view C c"
    by (auto simp: CCStore_Get_def split: option.split prod.split)
  show "(k' = k \<and> v = d) \<or> cc_view C c k' = Some v" if "cc_view C (CCStore_Set C k d ttl c) k' = Some v"
    using map_leD [OF set that [unfolded CCStore_Set_def Let_def]] by (auto split: if_splits)
  show "cc_view C (CCStore_DropPrefix C ps c) \<subseteq>\<^sub>m cc_view C c"
    using drop by (intro map_leI) blast
  show "cc_view C (CCStore_DropPrefix C ps c) k = None" if "p \<in> set ps" "under p k"
    using drop [of ps c k] that under_prefix by (cases "cc_view C (CCStore_DropPrefix C ps c) k") auto
  show "cc_view C (cc_clear C c) = Map.empty" by (simp add: fun_eq_iff clear)
qed simp_all

context ccache_laws
begin

lemma cc_store: "cache_store (CCStore_ops C) (\<lambda>_. True)"
  by unfold_locales

end

locale freecache_laws =
  fixes F :: "'f freecache_ops"
  assumes get_del: "fc_get F k' (fc_del F k f) = Some v \<Longrightarrow> k' \<noteq> k \<and> fc_get F k' f = Some v"
    and get_set: "fc_get F k' (fc_set F k d t f) = Some v \<Longrightarrow> (k' = k \<and> v = d) \<or> fc_get F k' f = Some v"
    and get_keys: "fc_get F k' f \<noteq> None \<Longrightarrow> k' \<in> set (fc_keys F f)"
    and get_clear: "fc_get F k' (fc_clear F f) = None"
begin

lemma free_view: "view (FreeStore_ops F) = (\<lambda>f k. fc_get F k f)"
  by (simp add: fun_eq_iff view_def FreeStore_ops_def FreeStore_Get_def)

lemma drop_one: "fc_get F k' (foldl (\<lambda>f p. if strings_HasPrefix k p then fc_del F k f else f) f ps) = Some v \<Longrightarrow>
   fc_get F k' f = Some v \<and> (k' = k \<longrightarrow> (\<forall>p \<in> set ps. \<not> strings_HasPrefix k p))"
proof (induction ps arbitrary: f)
  case (Cons p ps)
  let ?f = "if strings_HasPrefix k p then fc_del F k f else f"
  have h: "fc_get F k' ?f = Some v \<and> (k' = k \<longrightarrow> (\<forall>p \<in> set ps. \<not> strings_HasPrefix k p))"
    by (rule Cons.IH [OF Cons.prems [unfolded foldl_Cons]])
  show ?case
  proof (cases "strings_HasPrefix k p")
    case True
    with h have "fc_get F k' (fc_del F k f) = Some v" by (simp only: if_True)
    from get_del [OF this] show ?thesis by blast
  next
    case False
    with h show ?thesis by (metis set_ConsD)
  qed
qed simp

lemma drop_keys: "fc_get F k' (foldl (\<lambda>f k. foldl (\<lambda>f p. if strings_HasPrefix k p then fc_del F k f else f) f ps) f ks) = Some v \<Longrightarrow>
   fc_get F k' f = Some v \<and> (k' \<in> set ks \<longrightarrow> (\<forall>p \<in> set ps. \<not> strings_HasPrefix k' p))"
proof (induction ks arbitrary: f)
  case (Cons k ks)
  let ?f = "foldl (\<lambda>f p. if strings_HasPrefix k p then fc_del F k f else f) f ps"
  have h: "fc_get F k' ?f = Some v \<and> (k' \<in> set ks \<longrightarrow> (\<forall>p \<in> set ps. \<not> strings_HasPrefix k' p))"
    by (rule Cons.IH [OF Cons.prems [unfolded foldl_Cons]])
  with drop_one [OF conjunct1 [OF h]] show ?case by (metis set_ConsD)
qed simp

lemma drop_free: "fc_get F k' (FreeStore_DropPrefix F ps f) = Some v \<Longrightarrow>
   fc_get F k' f = Some v \<and> (\<forall>p \<in> set ps. \<not> strings_HasPrefix k' p)"
  using drop_keys [of k' ps f "fc_keys F f" v] get_keys [of k' f] by (auto simp: FreeStore_DropPrefix_def)

end

sublocale freecache_laws \<subseteq> free: cache_store "FreeStore_ops F" "\<lambda>_. True"
proof (unfold_locales, unfold free_view ops_simps)
  fix k d and ttl :: "int list" and f k' v ps p
  show "(\<lambda>k'. fc_get F k' (snd (FreeStore_Get F k f))) \<subseteq>\<^sub>m (\<lambda>k. fc_get F k f)"
    by (simp add: FreeStore_Get_def)
  show "(\<lambda>k'. fc_get F k' (FreeStore_Del F k f)) \<subseteq>\<^sub>m (\<lambda>k. fc_get F k f)(k := None)"
    by (intro map_leI) (auto simp: FreeStore_Del_def dest: get_del)
  show "(k' = k \<and> v = d) \<or> fc_get F k' f = Some v" if "fc_get F k' (FreeStore_Set F k d ttl f) = Some v"
    using get_set that by (auto simp: FreeStore_Set_def)
  show "(\<lambda>k. fc_get F k (FreeStore_DropPrefix F ps f)) \<subseteq>\<^sub>m (\<lambda>k. fc_get F k f)"
    by (intro map_leI) (rule drop_free [THEN conjunct1])
  show "fc_get F k (FreeStore_DropPrefix F ps f) = None" if "p \<in> set ps" "under p k"
    using drop_free [of k ps f] that under_prefix by (cases "fc_get F k (FreeStore_DropPrefix F ps f)") auto
  show "(\<lambda>k. fc_get F k (fc_clear F f)) = Map.empty" by (simp add: fun_eq_iff get_clear)
qed simp_all

definition demo_free :: "(string \<times> bytes) list freecache_ops" where
  "demo_free = \<lparr>fc_get = (\<lambda>k f. map_of f k), fc_set = (\<lambda>k d t f. (k, d) # f),
     fc_del = (\<lambda>k f. filter (\<lambda>(k', _). k' \<noteq> k) f), fc_keys = map fst, fc_clear = (\<lambda>_. [])\<rparr>"

interpretation demo_free: freecache_laws demo_free
proof
  fix k k' v and f :: "(string \<times> bytes) list"
  show "fc_get demo_free k' (fc_del demo_free k f) = Some v \<Longrightarrow> k' \<noteq> k \<and> fc_get demo_free k' f = Some v"
    using map_of_filter_keys [of "\<lambda>k'. k' \<noteq> k" f k'] by (auto simp: demo_free_def case_prod_unfold split: if_splits)
qed (auto simp: demo_free_def split: if_splits dest!: map_of_SomeD intro: rev_image_eqI)

definition demo_cc :: "(string \<times> bytes) list ccache_ops" where
  "demo_cc = \<lparr>cc_get = (\<lambda>k c. map_option (\<lambda>d. (d, False)) (map_of c k)), cc_set = (\<lambda>k d t c. (k, d) # c),
     cc_delete = (\<lambda>k c. filter (\<lambda>(k', _). k' \<noteq> k) c),
     cc_delete_prefix = (\<lambda>p c. filter (\<lambda>(k', _). \<not> strings_HasPrefix k' p) c), cc_clear = (\<lambda>_. [])\<rparr>"

lemma demo_cc_view: "cc_view demo_cc c = map_of c"
  by (simp add: fun_eq_iff cc_view_def demo_cc_def split: option.split)

interpretation demo_cc: ccache_laws demo_cc
proof (unfold_locales, unfold demo_cc_view)
  fix k k' p and v d :: bytes and t and c :: "(string \<times> bytes) list"
  show "map_of (cc_delete demo_cc k c) \<subseteq>\<^sub>m (map_of c)(k := None)"
    using map_of_filter_keys [of "\<lambda>k'. k' \<noteq> k" c] by (intro map_leI) (simp add: demo_cc_def case_prod_unfold split: if_splits)
  show "map_of (cc_delete_prefix demo_cc p c) k' = Some v \<Longrightarrow> map_of c k' = Some v \<and> \<not> strings_HasPrefix k' p"
    using map_of_filter_keys [of "\<lambda>k'. \<not> strings_HasPrefix k' p" c k'] by (simp add: demo_cc_def case_prod_unfold split: if_splits)
qed (simp_all add: demo_cc_def)

end
