(* ===== verification/Gorm_Cache.thy ===== *)
theory Gorm_Cache
  imports Prelude Kv_Store
begin

text \<open>
  The query cache plugin of the database (\<open>mdb/gm2c.go\<close>): the cache keys of a statement, the
  query callback that answers from the cache or asks the database and fills it, and the
  callbacks that invalidate it after a write.

  gorm, the database and \<open>cast\<close> are not part of the repository: a statement shows its table,
  its schema, its WHERE expressions (values as \<open>cast.ToString\<close> gives them), its SQL, its
  destination and whether gorm reports an absent row (\<open>st_raises\<close>: First, Take and Last do, Find
  does not), and what the plugin calls is the record \<open>gc_ext\<close>. The name of a primary key,
  which the code puts into a regular expression, is taken literally. Queries run one after
  another, so a flight of \<open>singleflight\<close> is the call itself.
\<close>

section \<open>Statements\<close>

text \<open>\<open>CIn\<close>: whether the column is gorm's primary column; \<open>CEq\<close>: the name, if the column is
  a \<open>clause.Column\<close>; \<open>CExpr\<close>: raw SQL with its arguments.\<close>

datatype clause_expr = CIn bool "string list" | CEq "string option" string | CExpr string "string list" | COther

record stmt =
  st_table :: string
  st_primary :: "string list option"
  st_model_struct :: bool
  st_value_struct :: bool
  st_where :: "clause_expr list option"
  st_sql :: string
  st_no_cache :: bool
  st_raises :: bool

datatype gorm_error = ErrRecordNotFound | OtherError string

record 'row qresult =
  r_dest :: 'row
  r_rows :: int
  r_err :: "gorm_error option"

record ('row, 'db) gc_ext =
  db_run :: "'db \<Rightarrow> stmt \<Rightarrow> 'row \<Rightarrow> 'row qresult"
  row_id :: "'row \<Rightarrow> string option"
  marshal :: "'row \<Rightarrow> (string, bytes) result"
  unmarshal :: "bytes \<Rightarrow> 'row \<Rightarrow> (string, 'row) result"
  to_uint64 :: "string \<Rightarrow> nat"
  uint_text :: "nat \<Rightarrow> string"

record cache_config =
  gc_prefix :: string
  gc_ttl :: int

definition nullValue :: bytes where "nullValue = str_bytes ''null''"

section \<open>Keys\<close>

definition primaryKeyPrefix :: "string \<Rightarrow> string \<Rightarrow> string" where
  "primaryKeyPrefix pre table = ''gm2c'' @ '':'' @ pre @ '':p:'' @ table"

definition searchKeyPrefix :: "string \<Rightarrow> string \<Rightarrow> string" where
  "searchKeyPrefix pre table = ''gm2c'' @ '':'' @ pre @ '':s:'' @ table"

definition primaryCacheKey :: "string \<Rightarrow> string \<Rightarrow> string \<Rightarrow> string" where
  "primaryCacheKey pre table ident = primaryKeyPrefix pre table @ cache_separator @ ident"

definition searchCacheKey :: "string \<Rightarrow> string \<Rightarrow> string \<Rightarrow> string" where
  "searchCacheKey pre table sq = searchKeyPrefix pre table @ cache_separator @ ''['' @ sq @ '']''"

definition getPrimaryKeyName :: "stmt \<Rightarrow> string" where
  "getPrimaryKeyName stm = (case st_primary stm of
     None \<Rightarrow> [] | Some fs \<Rightarrow> if length fs \<noteq> 1 then [] else fs ! 0)"

definition getPrimaryValue :: "('row, 'db) gc_ext \<Rightarrow> stmt \<Rightarrow> 'row \<Rightarrow> string option" where
  "getPrimaryValue E stm dest = (case st_primary stm of
     None \<Rightarrow> None | Some fs \<Rightarrow> if length fs \<noteq> 1 then None else row_id E dest)"

definition getPrimaryCacheKVFromDest :: "('row, 'db) gc_ext \<Rightarrow> stmt \<Rightarrow> 'row \<Rightarrow> string \<times> string" where
  "getPrimaryCacheKVFromDest E stm dest =
     (let name = getPrimaryKeyName stm in
      if name = [] then ([], [])
      else case getPrimaryValue E stm dest of
        None \<Rightarrow> ([], []) | Some v \<Rightarrow> (v, name @ ''='' @ v))"

definition sql_names_key :: "string \<Rightarrow> string \<Rightarrow> bool" where
  "sql_names_key name sq \<longleftrightarrow> strings_HasPrefix sq (name @ ''='') \<and>
     (let r = drop (length name + 1) sq in r \<noteq> [] \<and> list_all is_digit r)"

definition clauseFindPrimaryCacheKey :: "clause_expr \<Rightarrow> string \<Rightarrow> string" where
  "clauseFindPrimaryCacheKey expr name =
     (let ident = (case expr of
          CIn prim vals \<Rightarrow> if \<not> prim then [] else if length vals \<noteq> 1 then [] else vals ! 0
        | CEq col v \<Rightarrow> (case col of None \<Rightarrow> [] | Some c \<Rightarrow> if c \<noteq> name then [] else v)
        | CExpr sql vars \<Rightarrow>
            let sq = strings_TrimSpace sql;
                sq = (if strings_Contains sq ''?'' \<and> length vars = 1
                      then strings_ReplaceAll sq ''?'' (vars ! 0) else sq);
                sq = strings_ReplaceAll sq '' '' []
            in if \<not> sql_names_key name sq then []
               else let sl1 = strings_Split sq ''='' in if length sl1 \<noteq> 2 then [] else sl1 ! 1
        | COther \<Rightarrow> [])
      in if ident = [] then [] else name @ ''='' @ ident)"

text \<open>The loop over the conditions: a key to return at once, the set of keys found, and the
  variable \<open>v\<close>, which keeps the value of the last condition.\<close>

fun find_loop :: "bool \<Rightarrow> string \<Rightarrow> clause_expr list \<Rightarrow> string set \<Rightarrow> string \<Rightarrow> string option \<times> string set \<times> string" where
  "find_loop justHas name [] m v = (None, m, v)"
| "find_loop justHas name (e # es) m v =
     (let v = clauseFindPrimaryCacheKey e name in
      if v \<noteq> [] then (if justHas then (Some v, insert v m, v) else find_loop justHas name es (insert v m) v)
      else find_loop justHas name es m v)"

definition findPrimaryCacheKey :: "cache_config \<Rightarrow> stmt \<Rightarrow> bool \<Rightarrow> string" where
  "findPrimaryCacheKey p stm justHas =
     (let name = getPrimaryKeyName stm in
      if name = [] then []
      else case st_where stm of
        None \<Rightarrow> []
      | Some exprs \<Rightarrow>
          if length exprs < 1 then []
          else case find_loop justHas name exprs {} [] of
            (Some v, m, _) \<Rightarrow> primaryCacheKey (gc_prefix p) (st_table stm) v
          | (None, m, v) \<Rightarrow>
              if card m \<noteq> 1 then [] else primaryCacheKey (gc_prefix p) (st_table stm) v)"

definition getCacheKey :: "cache_config \<Rightarrow> stmt \<Rightarrow> string \<times> bool" where
  "getCacheKey p stm =
     (let pk = findPrimaryCacheKey p stm False in
      if pk \<noteq> [] then (pk, True) else (searchCacheKey (gc_prefix p) (st_table stm) (st_sql stm), False))"

section \<open>Queries\<close>

record ('row, 's) qstate =
  qs_store :: 's
  qs_dest :: 'row
  qs_rows :: int
  qs_err :: "gorm_error option"

definition queryCachePk ::
  "('row, 'db) gc_ext \<Rightarrow> 's store_ops \<Rightarrow> string \<Rightarrow> ('row, 's) qstate \<Rightarrow> bool \<times> ('row, 's) qstate" where
  "queryCachePk E S key q = (case so_get S key (qs_store q) of
     (None, s) \<Rightarrow> (False, q\<lparr>qs_store := s\<rparr>)
   | (Some data, s) \<Rightarrow>
       let q = q\<lparr>qs_store := s\<rparr> in
       if data = nullValue then (True, q\<lparr>qs_err := Some ErrRecordNotFound\<rparr>)
       else (case unmarshal E data (qs_dest q) of
          Inl e \<Rightarrow> (False, q\<lparr>qs_err := Some (OtherError e)\<rparr>)
        | Inr row \<Rightarrow> (True, q\<lparr>qs_dest := row\<rparr>)))"

definition queryCacheSearch ::
  "cache_config \<Rightarrow> ('row, 'db) gc_ext \<Rightarrow> 's store_ops \<Rightarrow> stmt \<Rightarrow> string \<Rightarrow> ('row, 's) qstate
   \<Rightarrow> (string \<times> bool) \<times> ('row, 's) qstate" where
  "queryCacheSearch p E S stm key q = (case so_get S key (qs_store q) of
     (None, s) \<Rightarrow> (([], False), q\<lparr>qs_store := s\<rparr>)
   | (Some data, s) \<Rightarrow>
       let q = q\<lparr>qs_store := s\<rparr> in
       if data = nullValue then (([], True), q\<lparr>qs_err := Some ErrRecordNotFound\<rparr>)
       else let pkIntVal = to_uint64 E (bytes_str data) in
         if pkIntVal \<le> 0 then (([], False), q)
         else let pkKeyName = getPrimaryKeyName stm in
           if pkKeyName = [] then (([], False), q)
           else ((primaryCacheKey (gc_prefix p) (st_table stm) (pkKeyName @ ''='' @ uint_text E pkIntVal), True), q))"

definition getCache ::
  "cache_config \<Rightarrow> ('row, 'db) gc_ext \<Rightarrow> 's store_ops \<Rightarrow> stmt \<Rightarrow> ('row, 's) qstate \<Rightarrow> bool \<times> ('row, 's) qstate" where
  "getCache p E S stm q = (case getCacheKey p stm of (key, isPrimary) \<Rightarrow>
     if key = [] then (False, q)
     else case (if \<not> isPrimary then queryCacheSearch p E S stm key q else ((key, False), q)) of
       ((key, hit), q) \<Rightarrow> if key = [] then (hit, q) else queryCachePk E S key q)"

definition setCache ::
  "cache_config \<Rightarrow> ('row, 'db) gc_ext \<Rightarrow> 's store_ops \<Rightarrow> stmt \<Rightarrow> ('row, 's) qstate \<Rightarrow> ('row, 's) qstate" where
  "setCache p E S stm q =
     (let isNotFound = (qs_err q = Some ErrRecordNotFound);
          put = (\<lambda>key data ttl q. q\<lparr>qs_store := so_set S key data [ttl] (qs_store q)\<rparr>);
          finish = (\<lambda>key q.
            if isNotFound then put key nullValue 60 q
            else case marshal E (qs_dest q) of
              Inl e \<Rightarrow> q\<lparr>qs_err := Some (OtherError e)\<rparr>
            | Inr data \<Rightarrow> put key data (gc_ttl p) q)
      in case getCacheKey p stm of (key, isPrimary) \<Rightarrow>
        if isPrimary then finish key q
        else if isNotFound then put key nullValue 60 q
        else case getPrimaryCacheKVFromDest E stm (qs_dest q) of (idv, idStr) \<Rightarrow>
          if idStr = [] then q
          else finish (primaryCacheKey (gc_prefix p) (st_table stm) idStr) (put key (str_bytes idv) (gc_ttl p) q))"

text \<open>gorm's own query callback: nothing after an error.\<close>

definition callbacks_Query ::
  "('row, 'db) gc_ext \<Rightarrow> 'db \<Rightarrow> stmt \<Rightarrow> ('row, 's) qstate \<Rightarrow> ('row, 's) qstate" where
  "callbacks_Query E db stm q =
     (if qs_err q \<noteq> None then q
      else let r = db_run E db stm (qs_dest q)
           in q\<lparr>qs_dest := r_dest r, qs_rows := r_rows r, qs_err := r_err r\<rparr>)"

definition queryWithCache ::
  "cache_config \<Rightarrow> ('row, 'db) gc_ext \<Rightarrow> 's store_ops \<Rightarrow> 'db \<Rightarrow> stmt \<Rightarrow> ('row, 's) qstate \<Rightarrow> ('row, 's) qstate" where
  "queryWithCache p E S db stm q =
     (if qs_err q \<noteq> None then q
      else if \<not> st_value_struct stm \<or> st_primary stm = None then callbacks_Query E db stm q
      else case getCache p E S stm q of (hit, q) \<Rightarrow>
        if hit then (if qs_err q \<noteq> None then q else q\<lparr>qs_rows := 1\<rparr>)
        else setCache p E S stm (callbacks_Query E db stm q))"

definition plugin_query ::
  "cache_config \<Rightarrow> ('row, 'db) gc_ext \<Rightarrow> 's store_ops \<Rightarrow> 'db \<Rightarrow> stmt \<Rightarrow> ('row, 's) qstate \<Rightarrow> ('row, 's) qstate" where
  "plugin_query p E S db stm q =
     (if qs_err q \<noteq> None then q
      else if st_primary stm = None \<or> \<not> st_value_struct stm \<or> st_no_cache stm then callbacks_Query E db stm q
      else let q = queryWithCache p E S db stm q in
        if qs_err q \<noteq> None then q
        else if qs_rows q > 0 then
          (case marshal E (qs_dest q) of
             Inl e \<Rightarrow> q\<lparr>qs_err := Some (OtherError e)\<rparr>
           | Inr data \<Rightarrow>
               if length data > 0 then
                 (case unmarshal E data (qs_dest q) of
                    Inl e \<Rightarrow> q\<lparr>qs_err := Some (OtherError e)\<rparr> | Inr row \<Rightarrow> q\<lparr>qs_dest := row\<rparr>)
               else q)
        else q)"

section \<open>Invalidation\<close>

definition afterDelete ::
  "cache_config \<Rightarrow> ('row, 'db) gc_ext \<Rightarrow> 's store_ops \<Rightarrow> stmt \<Rightarrow> 'row \<Rightarrow> 's \<Rightarrow> 's" where
  "afterDelete p E S stm dest s =
     (let table = st_table stm; pre = gc_prefix p; s = so_drop S [searchKeyPrefix pre table] s in
      if st_primary stm = None \<or> \<not> st_model_struct stm then so_drop S [primaryKeyPrefix pre table] s
      else if \<not> st_value_struct stm then so_drop S [primaryKeyPrefix pre table] s
      else let pk = findPrimaryCacheKey p stm True in
        if pk \<noteq> [] then so_del S pk s
        else case getPrimaryCacheKVFromDest E stm dest of (_, idStr) \<Rightarrow>
          if idStr \<noteq> [] then so_del S (primaryCacheKey pre table idStr) s
          else so_drop S [primaryKeyPrefix pre table] s)"

definition afterCreate ::
  "cache_config \<Rightarrow> ('row, 'db) gc_ext \<Rightarrow> 's store_ops \<Rightarrow> stmt \<Rightarrow> 'row \<Rightarrow> 's \<Rightarrow> 's" where
  "afterCreate = afterDelete"

definition afterUpdate ::
  "cache_config \<Rightarrow> ('row, 'db) gc_ext \<Rightarrow> 's store_ops \<Rightarrow> stmt \<Rightarrow> 'row \<Rightarrow> 's \<Rightarrow> 's" where
  "afterUpdate = afterDelete"

definition NewPlugin :: "bool \<Rightarrow> cache_config \<Rightarrow> cache_config" where
  "NewPlugin skip c = (if skip then c else if gc_prefix c = [] then c\<lparr>gc_prefix := ''default''\<rparr> else c)"

section \<open>Keys tell tables, ids and searches apart\<close>

lemma clean_split:
  assumes "clean a" "clean b" "a @ cache_separator @ x = b @ cache_separator @ y"
  shows "a = b \<and> x = y"
proof -
  have "strings_Index ((a @ cache_separator) @ x) cache_separator = Some (length a)"
    "strings_Index ((b @ cache_separator) @ y) cache_separator = Some (length b)"
    using assms(1,2) by (simp_all only: clean_def Index_append)
  with assms(3) have "length a = length b" by simp
  with assms(3) show ?thesis by simp
qed

lemma primary_key_inj:
  "clean (primaryKeyPrefix pre t) \<Longrightarrow> clean (primaryKeyPrefix pre t') \<Longrightarrow>
   primaryCacheKey pre t v = primaryCacheKey pre t' v' \<longleftrightarrow> t = t' \<and> v = v'"
  using clean_split [of "primaryKeyPrefix pre t" "primaryKeyPrefix pre t'" v v']
  by (auto simp: primaryCacheKey_def primaryKeyPrefix_def)

lemma search_key_inj:
  "clean (searchKeyPrefix pre t) \<Longrightarrow> clean (searchKeyPrefix pre t') \<Longrightarrow>
   searchCacheKey pre t q = searchCacheKey pre t' q' \<longleftrightarrow> t = t' \<and> q = q'"
  using clean_split [of "searchKeyPrefix pre t" "searchKeyPrefix pre t'" "''['' @ q @ '']''" "''['' @ q' @ '']''"]
  by (auto simp: searchCacheKey_def searchKeyPrefix_def)

lemma keys_differ [simp]: "primaryCacheKey pre t v \<noteq> searchCacheKey pre t' q"
  "searchCacheKey pre t' q \<noteq> primaryCacheKey pre t v"
  by (simp_all add: primaryCacheKey_def searchCacheKey_def primaryKeyPrefix_def searchKeyPrefix_def)

lemma keys_nonempty [simp]: "primaryCacheKey pre t v \<noteq> []" "searchCacheKey pre t q \<noteq> []"
  by (simp_all add: primaryCacheKey_def searchCacheKey_def primaryKeyPrefix_def searchKeyPrefix_def)

lemma under_keys:
  "clean (primaryKeyPrefix pre t) \<Longrightarrow> under (primaryKeyPrefix pre t) (primaryCacheKey pre t v)"
  "clean (searchKeyPrefix pre t) \<Longrightarrow> under (searchKeyPrefix pre t) (searchCacheKey pre t q)"
  by (auto simp: under_def primaryCacheKey_def searchCacheKey_def HasPrefix_iff)

lemma find_loop_none:
  "\<forall>e \<in> set es. clauseFindPrimaryCacheKey e name = [] \<Longrightarrow>
   fst (find_loop b name es m v) = None \<and> fst (snd (find_loop b name es m v)) = m"
  by (induction es arbitrary: v) (auto simp: Let_def)

lemma find_loop_same:
  "\<forall>e \<in> set es. clauseFindPrimaryCacheKey e name = k \<Longrightarrow> k \<noteq> [] \<Longrightarrow> es \<noteq> [] \<Longrightarrow>
   find_loop False name es m v = (None, insert k m, k)"
proof (induction es arbitrary: m v)
  case (Cons e es)
  then show ?case by (cases "es = []") (simp_all add: Let_def)
qed simp

lemma find_loop_first:
  "fst (find_loop True name es m v) = find (\<lambda>v. v \<noteq> []) (map (\<lambda>e. clauseFindPrimaryCacheKey e name) es)"
  by (induction es arbitrary: m v) (auto simp: Let_def)

section \<open>The cached database answers like the database\<close>

text \<open>Statements with conditions on the primary key only, all naming the same row, and
  statements with none; the others are looked at below.\<close>

definition pure_key :: "string \<Rightarrow> stmt \<Rightarrow> string \<Rightarrow> bool" where
  "pure_key name stm i \<longleftrightarrow> i \<noteq> [] \<and> (case st_where stm of None \<Rightarrow> False
     | Some es \<Rightarrow> es \<noteq> [] \<and> list_all (\<lambda>e. clauseFindPrimaryCacheKey e name = name @ ''='' @ i) es)"

definition no_key :: "string \<Rightarrow> stmt \<Rightarrow> bool" where
  "no_key name stm \<longleftrightarrow> (case st_where stm of None \<Rightarrow> True
     | Some es \<Rightarrow> list_all (\<lambda>e. clauseFindPrimaryCacheKey e name = []) es)"

definition clean_table :: "string \<Rightarrow> string \<Rightarrow> bool" where
  "clean_table pre t \<longleftrightarrow> clean (primaryKeyPrefix pre t) \<and> clean (searchKeyPrefix pre t)"

definition covered :: "cache_config \<Rightarrow> (string \<Rightarrow> string) \<Rightarrow> stmt \<Rightarrow> bool" where
  "covered p key_name stm \<longleftrightarrow> st_primary stm = Some [key_name (st_table stm)] \<and> key_name (st_table stm) \<noteq> [] \<and>
     st_value_struct stm \<and> st_raises stm \<and> clean_table (gc_prefix p) (st_table stm) \<and>
     (no_key (key_name (st_table stm)) stm \<or> (\<exists>i. pure_key (key_name (st_table stm)) stm i))"

text \<open>The row a write names, as the plugin sees it: by its conditions or by its destination.\<close>

definition named :: "('row, 'db) gc_ext \<Rightarrow> stmt \<Rightarrow> 'row \<Rightarrow> string option" where
  "named E stm dest =
     (if st_primary stm = None \<or> \<not> st_model_struct stm \<or> \<not> st_value_struct stm then None
      else let name = getPrimaryKeyName stm in
        if name = [] then None
        else case (case st_where stm of None \<Rightarrow> None
            | Some es \<Rightarrow> find (\<lambda>v. v \<noteq> []) (map (\<lambda>e. clauseFindPrimaryCacheKey e name) es)) of
          Some v \<Rightarrow> Some v
        | None \<Rightarrow> map_option (\<lambda>v. name @ ''='' @ v) (getPrimaryValue E stm dest))"

text \<open>A write that changes no more than the plugin is told: one table, and in it only the row
  the statement names, if it names one.\<close>

definition write_ok ::
  "cache_config \<Rightarrow> ('row, 'db) gc_ext \<Rightarrow> ('db \<Rightarrow> string \<Rightarrow> string \<Rightarrow> 'row option)
   \<Rightarrow> ('db \<Rightarrow> string \<Rightarrow> string \<Rightarrow> 'row option) \<Rightarrow> (string \<Rightarrow> string) \<Rightarrow> 'db \<Rightarrow> stmt \<Rightarrow> 'row \<Rightarrow> 'db \<Rightarrow> bool" where
  "write_ok p E row_of found key_name db stm dest db' \<longleftrightarrow> clean_table (gc_prefix p) (st_table stm) \<and>
     (\<forall>t. t \<noteq> st_table stm \<longrightarrow> row_of db' t = row_of db t \<and> found db' t = found db t) \<and>
     (\<forall>i v. row_of db' (st_table stm) i \<noteq> row_of db (st_table stm) i \<and> named E stm dest = Some v
        \<longrightarrow> v = key_name (st_table stm) @ ''='' @ i)"

text \<open>The database and the cache over a sequence of queries through the plugin, writes with
  their callbacks, and losses of cached entries.\<close>

inductive cached_run for S :: "'s store_ops" and ok :: "'s \<Rightarrow> bool" and p :: cache_config
  and E :: "('row, 'db) gc_ext" and row_of :: "'db \<Rightarrow> string \<Rightarrow> string \<Rightarrow> 'row option"
  and found :: "'db \<Rightarrow> string \<Rightarrow> string \<Rightarrow> 'row option" and key_name :: "string \<Rightarrow> string"
  and up :: "'db \<Rightarrow> bool" and fresh :: "'row \<Rightarrow> bool" and db0 :: 'db and s0 :: 's where
  no_step: "cached_run S ok p E row_of found key_name up fresh db0 s0 db0 s0"
| query_step: "cached_run S ok p E row_of found key_name up fresh db0 s0 db s \<Longrightarrow> covered p key_name stm \<Longrightarrow> up db \<Longrightarrow> fresh d \<Longrightarrow>
    cached_run S ok p E row_of found key_name up fresh db0 s0 db
      (qs_store (plugin_query p E S db stm \<lparr>qs_store = s, qs_dest = d, qs_rows = 0, qs_err = None\<rparr>))"
| write_step: "cached_run S ok p E row_of found key_name up fresh db0 s0 db s \<Longrightarrow>
    write_ok p E row_of found key_name db stm dest db' \<Longrightarrow>
    cached_run S ok p E row_of found key_name up fresh db0 s0 db' (afterUpdate p E S stm dest s)"
| lose_step: "cached_run S ok p E row_of found key_name up fresh db0 s0 db s \<Longrightarrow> ok s' \<Longrightarrow> view S s' \<subseteq>\<^sub>m view S s \<Longrightarrow>
    cached_run S ok p E row_of found key_name up fresh db0 s0 db s'"

lemma findPrimary_True:
  "findPrimaryCacheKey p stm True = (case (if getPrimaryKeyName stm = [] then None else case st_where stm of None \<Rightarrow> None
       | Some es \<Rightarrow> find (\<lambda>v. v \<noteq> []) (map (\<lambda>e. clauseFindPrimaryCacheKey e (getPrimaryKeyName stm)) es)) of
     None \<Rightarrow> [] | Some v \<Rightarrow> primaryCacheKey (gc_prefix p) (st_table stm) v)"
proof (cases "getPrimaryKeyName stm = [] \<or> st_where stm = None")
  case False
  then obtain es where es: "st_where stm = Some es" by auto
  let ?n = "getPrimaryKeyName stm"
  obtain r m v where l: "find_loop True ?n es {} [] = (r, m, v)" by (metis prod.exhaust)
  with find_loop_first [of ?n es "{}" "[]"]
  have r: "r = find (\<lambda>v. v \<noteq> []) (map (\<lambda>e. clauseFindPrimaryCacheKey e ?n) es)" by simp
  have "m = {}" if "r = None"
  proof -
    have "\<forall>e \<in> set es. clauseFindPrimaryCacheKey e ?n = []"
      using that by (simp add: r find_None_iff)
    from find_loop_none [OF this, of True "{}" "[]"] l show ?thesis by simp
  qed
  moreover have "r = None" if "es = []" using r that by simp
  moreover have "(if ?n = [] then None else case st_where stm of None \<Rightarrow> None
       | Some es \<Rightarrow> find (\<lambda>v. v \<noteq> []) (map (\<lambda>e. clauseFindPrimaryCacheKey e ?n) es)) = r"
    using False es r by simp
  ultimately show ?thesis
    using False es l by (cases r; cases "es = []")
      (simp_all add: findPrimaryCacheKey_def Let_def Suc_le_eq del: find_loop.simps)
qed (auto simp: findPrimaryCacheKey_def Let_def)

locale cached_db = cache_store S ok
  for S :: "'s store_ops" and ok :: "'s \<Rightarrow> bool" +
  fixes p :: cache_config and E :: "('row, 'db) gc_ext"
    and row_of :: "'db \<Rightarrow> string \<Rightarrow> string \<Rightarrow> 'row option"
    and found :: "'db \<Rightarrow> string \<Rightarrow> string \<Rightarrow> 'row option"
    and key_name :: "string \<Rightarrow> string"
    and up :: "'db \<Rightarrow> bool" and fresh :: "'row \<Rightarrow> bool" and norm :: "'row \<Rightarrow> 'row"
  assumes run_primary: "up db \<Longrightarrow> covered p key_name stm \<Longrightarrow> pure_key (key_name (st_table stm)) stm i \<Longrightarrow> fresh d \<Longrightarrow>
      db_run E db stm d = (case row_of db (st_table stm) i of
        None \<Rightarrow> \<lparr>r_dest = d, r_rows = 0, r_err = Some ErrRecordNotFound\<rparr>
      | Some r \<Rightarrow> \<lparr>r_dest = r, r_rows = 1, r_err = None\<rparr>)"
    and run_search: "up db \<Longrightarrow> covered p key_name stm \<Longrightarrow> no_key (key_name (st_table stm)) stm \<Longrightarrow> fresh d \<Longrightarrow>
      db_run E db stm d = (case found db (st_table stm) (st_sql stm) of
        None \<Rightarrow> \<lparr>r_dest = d, r_rows = 0, r_err = Some ErrRecordNotFound\<rparr>
      | Some r \<Rightarrow> \<lparr>r_dest = r, r_rows = 1, r_err = None\<rparr>)"
    and found_row: "found db t sq = Some r \<Longrightarrow> \<exists>i. row_id E r = Some i \<and> row_of db t i = Some r \<and>
      0 < to_uint64 E i \<and> uint_text E (to_uint64 E i) = i"
    and null_text: "to_uint64 E ''null'' = 0"
    and marshal_row: "row_of db t i = Some r \<Longrightarrow> \<exists>b. marshal E r = Inr b"
    and codec: "marshal E r = Inr b \<Longrightarrow> b \<noteq> nullValue \<and> b \<noteq> [] \<and> (d = r \<or> fresh d \<longrightarrow> unmarshal E b d = Inr (norm r))"
    and codec_again: "marshal E r = Inr b \<Longrightarrow> marshal E (norm r) = Inr b \<and> norm (norm r) = norm r"
begin

abbreviation pkey :: "string \<Rightarrow> string \<Rightarrow> string" where
  "pkey t i \<equiv> primaryCacheKey (gc_prefix p) t (key_name t @ CHR ''='' # i)"

definition valid :: "'db \<Rightarrow> string \<Rightarrow> bytes \<Rightarrow> bool" where
  "valid db k data \<longleftrightarrow>
     (\<forall>t i. clean_table (gc_prefix p) t \<and> k = pkey t i \<longrightarrow> (case row_of db t i of
        None \<Rightarrow> data = nullValue | Some r \<Rightarrow> marshal E r = Inr data)) \<and>
     (\<forall>t sq. clean_table (gc_prefix p) t \<and> k = searchCacheKey (gc_prefix p) t sq \<longrightarrow> (case found db t sq of
        None \<Rightarrow> data = nullValue | Some r \<Rightarrow> (\<exists>i. row_id E r = Some i \<and> data = str_bytes i)))"

definition cache_ok :: "'db \<Rightarrow> 's \<Rightarrow> bool" where
  "cache_ok db s \<longleftrightarrow> ok s \<and> (\<forall>k data. view S s k = Some data \<longrightarrow> valid db k data)"

lemma valid_pkey: "clean_table (gc_prefix p) t \<Longrightarrow> valid db (pkey t i) data \<longleftrightarrow>
   (case row_of db t i of None \<Rightarrow> data = nullValue | Some r \<Rightarrow> marshal E r = Inr data)"
  by (auto simp: valid_def clean_table_def primary_key_inj)

lemma valid_skey: "clean_table (gc_prefix p) t \<Longrightarrow> valid db (searchCacheKey (gc_prefix p) t sq) data \<longleftrightarrow>
   (case found db t sq of None \<Rightarrow> data = nullValue | Some r \<Rightarrow> (\<exists>i. row_id E r = Some i \<and> data = str_bytes i))"
  by (auto simp: valid_def clean_table_def search_key_inj)

lemma ok_after_set: "cache_ok db s \<Longrightarrow> valid db k data \<Longrightarrow> cache_ok db (so_set S k data ttl s)"
  using set_view by (fastforce simp: cache_ok_def ok_set)

lemma ok_after_get: "cache_ok db s \<Longrightarrow> so_get S k s = (r, s') \<Longrightarrow>
   cache_ok db s' \<and> (\<forall>data. r = Some data \<longrightarrow> valid db k data)"
  using get_view [of k s] ok_get [of s k] by (auto simp: cache_ok_def view_def) 

lemma str_bytes_eq [simp]: "str_bytes a = str_bytes b \<longleftrightarrow> a = b"
  by (metis bytes_str_bytes)

lemma key_of:
  assumes "covered p key_name stm"
  shows "pure_key (key_name (st_table stm)) stm i \<Longrightarrow> getCacheKey p stm = (pkey (st_table stm) i, True)"
    and "no_key (key_name (st_table stm)) stm \<Longrightarrow>
      getCacheKey p stm = (searchCacheKey (gc_prefix p) (st_table stm) (st_sql stm), False)"
proof -
  have name: "getPrimaryKeyName stm = key_name (st_table stm)" "key_name (st_table stm) \<noteq> []"
    using assms by (simp_all add: covered_def getPrimaryKeyName_def)
  {
    assume "pure_key (key_name (st_table stm)) stm i"
    then obtain es where es: "st_where stm = Some es" "es \<noteq> []"
      "\<forall>e \<in> set es. clauseFindPrimaryCacheKey e (key_name (st_table stm)) = key_name (st_table stm) @ ''='' @ i"
      by (auto simp: pure_key_def list_all_iff split: option.splits)
    from find_loop_same [OF es(3) _ es(2), of "{}" "[]"] name es
    show "getCacheKey p stm = (pkey (st_table stm) i, True)"
      by (simp add: getCacheKey_def findPrimaryCacheKey_def Let_def Suc_le_eq)
  next
    assume n: "no_key (key_name (st_table stm)) stm"
    have "findPrimaryCacheKey p stm False = []"
    proof (cases "st_where stm")
      case (Some es)
      with n have "\<forall>e \<in> set es. clauseFindPrimaryCacheKey e (key_name (st_table stm)) = []"
        by (simp add: no_key_def list_all_iff)
      from find_loop_none [OF this, of False "{}" "[]"] Some name show ?thesis
        by (auto simp: findPrimaryCacheKey_def Let_def split: prod.splits)
    qed (simp add: findPrimaryCacheKey_def Let_def)
    then show "getCacheKey p stm = (searchCacheKey (gc_prefix p) (st_table stm) (st_sql stm), False)"
      by (simp add: getCacheKey_def)
  }
qed

definition answer :: "'row \<Rightarrow> 'row option \<Rightarrow> 'row qresult" where
  "answer d r = (case r of None \<Rightarrow> \<lparr>r_dest = d, r_rows = 0, r_err = Some ErrRecordNotFound\<rparr>
     | Some r \<Rightarrow> \<lparr>r_dest = r, r_rows = 1, r_err = None\<rparr>)"

text \<open>A state that holds the answer \<open>r\<close> of the database for the destination \<open>d\<close>.\<close>

definition answered :: "'row \<Rightarrow> 'row option \<Rightarrow> ('row, 's) qstate \<Rightarrow> bool" where
  "answered d r q \<longleftrightarrow> (case r of
     None \<Rightarrow> qs_dest q = d \<and> qs_err q = Some ErrRecordNotFound
   | Some row \<Rightarrow> qs_dest q = row \<and> qs_err q = None \<and> qs_rows q = 1)"

lemma query_answer: "db_run E db stm (qs_dest q) = answer (qs_dest q) r \<Longrightarrow> qs_err q = None \<Longrightarrow>
   answered (qs_dest q) r (callbacks_Query E db stm q) \<and> qs_store (callbacks_Query E db stm q) = qs_store q"
  by (simp add: callbacks_Query_def answer_def answered_def Let_def split: option.split)

text \<open>Looking a row up under its key: the cache's answer is the database's as JSON keeps it, and
  a miss leaves everything but the store as it was.\<close>

lemma queryCachePk_ok:
  assumes "cache_ok db (qs_store q)" "qs_err q = None" "clean_table (gc_prefix p) t" "fresh (qs_dest q)"
  shows "case queryCachePk E S (pkey t i) q of (hit, q') \<Rightarrow> cache_ok db (qs_store q') \<and>
    (if hit then answered (qs_dest q) (map_option norm (row_of db t i)) (if qs_err q' \<noteq> None then q' else q'\<lparr>qs_rows := 1\<rparr>)
     else qs_dest q' = qs_dest q \<and> qs_err q' = None)"
proof -
  obtain r s where g: "so_get S (pkey t i) (qs_store q) = (r, s)" by fastforce
  from ok_after_get [OF assms(1) g] valid_pkey [OF assms(3)]
  have ok: "cache_ok db s" and v: "\<And>data. r = Some data \<Longrightarrow>
      (case row_of db t i of None \<Rightarrow> data = nullValue | Some row \<Rightarrow> marshal E row = Inr data)" by auto
  show ?thesis
  proof (cases r)
    case (Some data)
    with v [of data] ok g codec assms(2,4) show ?thesis
      by (cases "row_of db t i") (auto simp: queryCachePk_def Let_def answered_def)
  qed (use g ok assms(2) in \<open>simp add: queryCachePk_def\<close>)
qed

text \<open>Storing an answer under the key of its row.\<close>

lemma finish_ok:
  assumes "cache_ok db (qs_store q)" "answered d (row_of db t i) q" "clean_table (gc_prefix p) t"
  shows "\<exists>ttl data. valid db (pkey t i) data \<and>
    (if qs_err q = Some ErrRecordNotFound then data = nullValue \<and> ttl = 60
     else marshal E (qs_dest q) = Inr data \<and> ttl = gc_ttl p)"
proof (cases "row_of db t i")
  case None
  with assms show ?thesis by (simp add: answered_def valid_pkey)
next
  case (Some row)
  with marshal_row obtain b where "marshal E row = Inr b" by blast
  with Some assms show ?thesis by (simp add: answered_def valid_pkey)
qed

lemma answered_store [simp]: "answered d r (q\<lparr>qs_store := s\<rparr>) = answered d r q"
  by (simp add: answered_def split: option.split)

lemma setCache_ok:
  assumes c: "covered p key_name stm" and ok: "cache_ok db (qs_store q)"
    and a: "db_run E db stm d = answer d r" "answered d r q" and u: "up db" "fresh d"
  shows "cache_ok db (qs_store (setCache p E S stm q)) \<and> answered d r (setCache p E S stm q)"
proof -
  let ?t = "st_table stm" let ?n = "key_name ?t"
  have clean: "clean_table (gc_prefix p) ?t" and name: "getPrimaryKeyName stm = ?n" "?n \<noteq> []"
    using c by (simp_all add: covered_def getPrimaryKeyName_def)
  from c consider (pure) i where "pure_key ?n stm i" | (search) "no_key ?n stm"
    unfolding covered_def by blast
  then show ?thesis
  proof cases
    case (pure i)
    from run_primary [OF u(1) c pure u(2)] a(1) have r: "r = row_of db ?t i"
      by (auto simp: answer_def split: option.splits)
    from finish_ok [OF ok a(2) [unfolded r] clean] obtain ttl data where "valid db (pkey ?t i) data"
      "if qs_err q = Some ErrRecordNotFound then data = nullValue \<and> ttl = 60
       else marshal E (qs_dest q) = Inr data \<and> ttl = gc_ttl p" by blast
    with key_of(1) [OF c pure] ok_after_set [OF ok, of "pkey ?t i"] a(2) show ?thesis
      by (auto simp: setCache_def Let_def split: if_splits)
  next
    case search
    from run_search [OF u(1) c search u(2)] a(1) have r: "r = found db ?t (st_sql stm)"
      by (auto simp: answer_def split: option.splits)
    let ?sk = "searchCacheKey (gc_prefix p) ?t (st_sql stm)"
    show ?thesis
    proof (cases r)
      case None
      then have "valid db ?sk nullValue" using r by (simp add: valid_skey [OF clean])
      with None key_of(2) [OF c search] ok_after_set [OF ok] a(2) show ?thesis
        by (simp add: setCache_def Let_def answered_def)
    next
      case (Some row)
      with found_row r obtain i where i: "row_id E row = Some i" "row_of db ?t i = Some row" by metis
      from marshal_row [OF i(2)] obtain b where b: "marshal E row = Inr b" by blast
      have "found db ?t (st_sql stm) = Some row" using r Some by simp
      then have "valid db ?sk (str_bytes i)" using i(1) by (simp add: valid_skey [OF clean])
      moreover have "valid db (pkey ?t i) b" using i b by (simp add: valid_pkey [OF clean])
      moreover have "getPrimaryCacheKVFromDest E stm row = (i, ?n @ ''='' @ i)"
        using c i name by (simp add: getPrimaryCacheKVFromDest_def getPrimaryValue_def covered_def)
      ultimately show ?thesis
        using Some a(2) b key_of(2) [OF c search] ok_after_set [OF ok_after_set [OF ok]]
        by (simp add: setCache_def Let_def answered_def)
    qed
  qed
qed

lemma getCache_ok:
  assumes c: "covered p key_name stm" and ok: "cache_ok db (qs_store q)" and e: "qs_err q = None"
    and a: "db_run E db stm (qs_dest q) = answer (qs_dest q) r" and u: "up db" "fresh (qs_dest q)"
  shows "case getCache p E S stm q of (hit, q') \<Rightarrow> cache_ok db (qs_store q') \<and>
    (if hit then answered (qs_dest q) (map_option norm r) (if qs_err q' \<noteq> None then q' else q'\<lparr>qs_rows := 1\<rparr>)
     else qs_dest q' = qs_dest q \<and> qs_err q' = None)"
proof -
  let ?t = "st_table stm" let ?n = "key_name ?t"
  have clean: "clean_table (gc_prefix p) ?t" and name: "getPrimaryKeyName stm = ?n" "?n \<noteq> []"
    using c by (simp_all add: covered_def getPrimaryKeyName_def)
  from c consider (pure) i where "pure_key ?n stm i" | (search) "no_key ?n stm"
    unfolding covered_def by blast
  then show ?thesis
  proof cases
    case (pure i)
    from run_primary [OF u(1) c pure u(2)] a have r: "r = row_of db ?t i"
      by (auto simp: answer_def split: option.splits)
    have "getCache p E S stm q = queryCachePk E S (pkey ?t i) q"
      using key_of(1) [OF c pure] by (simp add: getCache_def)
    with queryCachePk_ok [OF ok e clean u(2), of i] show ?thesis unfolding r by (simp only:)
  next
    case search
    let ?sk = "searchCacheKey (gc_prefix p) ?t (st_sql stm)"
    from run_search [OF u(1) c search u(2)] a have r: "r = found db ?t (st_sql stm)"
      by (auto simp: answer_def split: option.splits)
    obtain x s where g: "so_get S ?sk (qs_store q) = (x, s)" by fastforce
    from ok_after_get [OF ok g] valid_skey [OF clean] r
    have oks: "cache_ok db s" and v: "\<And>data. x = Some data \<Longrightarrow>
      (case r of None \<Rightarrow> data = nullValue | Some row \<Rightarrow> \<exists>i. row_id E row = Some i \<and> data = str_bytes i)" by auto
    show ?thesis
    proof (cases x)
      case None
      with g oks e key_of(2) [OF c search] show ?thesis
        by (simp add: getCache_def queryCacheSearch_def)
    next
      case x: (Some data)
      show ?thesis
      proof (cases r)
        case None
        with v [OF x] g x oks key_of(2) [OF c search] show ?thesis
          by (simp add: getCache_def queryCacheSearch_def Let_def answered_def)
      next
        case (Some row)
        with v [OF x] obtain i where i: "row_id E row = Some i" "data = str_bytes i" by auto
        have "found db ?t (st_sql stm) = Some row" using r Some by simp
        from found_row [OF this] i(1) have x1: "0 < to_uint64 E i" "uint_text E (to_uint64 E i) = i"
          and row: "row_of db ?t i = Some row" by auto
        have "data \<noteq> nullValue" using i x1 null_text by (auto simp: nullValue_def)
        then have "getCache p E S stm q = queryCachePk E S (pkey ?t i) (q\<lparr>qs_store := s\<rparr>)"
          using g x i x1 name key_of(2) [OF c search] by (simp add: getCache_def queryCacheSearch_def Let_def)
        moreover obtain hit q' where "queryCachePk E S (pkey ?t i) (q\<lparr>qs_store := s\<rparr>) = (hit, q')" by fastforce
        ultimately show ?thesis
          using queryCachePk_ok [of db "q\<lparr>qs_store := s\<rparr>" ?t i] oks e clean row Some u(2)
          by (cases hit) (auto split: if_splits)
      qed
    qed
  qed
qed

lemma plugin_query_ok:
  assumes c: "covered p key_name stm" and ok: "cache_ok db (qs_store q)" and e: "qs_err q = None"
    and a: "db_run E db stm (qs_dest q) = answer (qs_dest q) r"
    and m: "\<And>row. r = Some row \<Longrightarrow> \<exists>b. marshal E row = Inr b" and u: "up db" "fresh (qs_dest q)"
  shows "cache_ok db (qs_store (plugin_query p E S db stm q)) \<and>
    answered (qs_dest q) (if st_no_cache stm then r else map_option norm r) (plugin_query p E S db stm q)"
proof -
  have s: "st_value_struct stm" "st_primary stm = Some [key_name (st_table stm)]" using c by (simp_all add: covered_def)
  have w: "cache_ok db (qs_store (queryWithCache p E S db stm q)) \<and>
    (answered (qs_dest q) r (queryWithCache p E S db stm q) \<or>
     answered (qs_dest q) (map_option norm r) (queryWithCache p E S db stm q))"
  proof -
    obtain hit q1 where g: "getCache p E S stm q = (hit, q1)" by fastforce
    with getCache_ok [OF c ok e a u] have ok1: "cache_ok db (qs_store q1)"
      and h: "if hit then answered (qs_dest q) (map_option norm r) (if qs_err q1 \<noteq> None then q1 else q1\<lparr>qs_rows := 1\<rparr>)
         else qs_dest q1 = qs_dest q \<and> qs_err q1 = None" by auto
    show ?thesis
    proof (cases hit)
      case True
      with g ok1 h s e show ?thesis by (auto simp: queryWithCache_def split: if_splits)
    next
      case False
      with h have q1: "qs_dest q1 = qs_dest q" "qs_err q1 = None" by auto
      let ?q2 = "callbacks_Query E db stm q1"
      have "answered (qs_dest q) r ?q2" "cache_ok db (qs_store ?q2)"
        using query_answer [of db stm q1 r] a q1 ok1 by auto
      from setCache_ok [OF c this(2) a this(1) u] show ?thesis
        using g False s e by (simp add: queryWithCache_def)
    qed
  qed
  show ?thesis
  proof (cases "st_no_cache stm")
    case True
    with query_answer [OF a e] ok s e show ?thesis by (simp add: plugin_query_def)
  next
    case False
    let ?q = "queryWithCache p E S db stm q"
    show ?thesis
    proof (cases r)
      case None
      with w False s e show ?thesis by (simp add: plugin_query_def Let_def answered_def)
    next
      case (Some row)
      then obtain b where b: "marshal E row = Inr b" using m by blast
      from codec_again [OF b] have n: "marshal E (norm row) = Inr b" "norm (norm row) = norm row" by auto
      from codec [OF b, of row] codec [OF n(1), of "norm row"] n w Some b False s e show ?thesis
        by (auto simp: plugin_query_def Let_def answered_def)
    qed
  qed
qed

lemma afterUpdate_view:
  assumes "ok s" "view S (afterUpdate p E S stm dest s) k = Some data" "clean_table (gc_prefix p) (st_table stm)"
  shows "view S s k = Some data \<and> \<not> under (searchKeyPrefix (gc_prefix p) (st_table stm)) k \<and>
    (case named E stm dest of None \<Rightarrow> \<not> under (primaryKeyPrefix (gc_prefix p) (st_table stm)) k
     | Some v \<Rightarrow> k \<noteq> primaryCacheKey (gc_prefix p) (st_table stm) v)"
proof -
  let ?t = "st_table stm" let ?pre = "gc_prefix p"
  let ?s = "so_drop S [searchKeyPrefix ?pre ?t] s"
  have ok: "ok ?s" by (rule ok_drop [OF assms(1)])
  have "afterUpdate p E S stm dest s = (case named E stm dest of
      None \<Rightarrow> so_drop S [primaryKeyPrefix ?pre ?t] ?s | Some v \<Rightarrow> so_del S (primaryCacheKey ?pre ?t v) ?s)"
    by (auto simp: afterUpdate_def afterDelete_def named_def findPrimary_True Let_def
        getPrimaryCacheKVFromDest_def getPrimaryValue_def getPrimaryKeyName_def split: option.splits if_splits)
  with assms(2) ok show ?thesis
    by (cases "named E stm dest") (auto dest!: drop_view del_view simp: assms(1))
qed

lemma afterUpdate_ok: "ok s \<Longrightarrow> ok (afterUpdate p E S stm dest s)"
  by (simp add: afterUpdate_def afterDelete_def Let_def ok_ops split: prod.split)

lemma write_keeps:
  assumes ok: "cache_ok db s" and w: "write_ok p E row_of found key_name db stm dest db'"
  shows "cache_ok db' (afterUpdate p E S stm dest s)"
proof -
  let ?t = "st_table stm"
  have ct: "clean_table (gc_prefix p) ?t" and oks: "ok s" using ok w by (simp_all add: write_ok_def cache_ok_def)
  have "valid db' k data" if v: "view S (afterUpdate p E S stm dest s) k = Some data" for k data
  proof -
    note d = afterUpdate_view [OF oks v ct]
    with ok have old: "valid db k data" by (simp add: cache_ok_def)
    have rows: "row_of db' t i = row_of db t i" if "clean_table (gc_prefix p) t" "k = pkey t i" for t i
    proof (rule ccontr)
      assume ne: "row_of db' t i \<noteq> row_of db t i"
      with w have t: "t = ?t" by (metis write_ok_def)
      show False
      proof (cases "named E stm dest")
        case None
        with d that t under_keys(1) [of "gc_prefix p" t] show False by (auto simp: clean_table_def)
      next
        case (Some v)
        with w ne t have "v = key_name ?t @ ''='' @ i" unfolding write_ok_def by blast
        with d that t Some show False by simp
      qed
    qed
    have founds: "found db' t sq = found db t sq" if "clean_table (gc_prefix p) t" "k = searchCacheKey (gc_prefix p) t sq" for t sq
      using w d that under_keys(2) [of "gc_prefix p" t] unfolding write_ok_def clean_table_def by metis
    show ?thesis
      unfolding valid_def
    proof (intro conjI allI impI)
      fix t i assume a: "clean_table (gc_prefix p) t \<and> k = pkey t i"
      with old rows [of t i] show "case row_of db' t i of None \<Rightarrow> data = nullValue | Some r \<Rightarrow> marshal E r = Inr data"
        unfolding valid_def by simp
    next
      fix t sq assume a: "clean_table (gc_prefix p) t \<and> k = searchCacheKey (gc_prefix p) t sq"
      with old founds [of t sq] show "case found db' t sq of None \<Rightarrow> data = nullValue
          | Some r \<Rightarrow> \<exists>i. row_id E r = Some i \<and> data = str_bytes i"
        unfolding valid_def by simp
    qed
  qed
  with afterUpdate_ok [OF oks] show ?thesis by (simp add: cache_ok_def)
qed

lemma db_answers:
  assumes "covered p key_name stm" "up db" "fresh d"
  shows "\<exists>r. db_run E db stm d = answer d r \<and> (\<forall>row. r = Some row \<longrightarrow> (\<exists>b. marshal E row = Inr b))"
proof -
  from assms(1) consider (pure) i where "pure_key (key_name (st_table stm)) stm i"
    | (search) "no_key (key_name (st_table stm)) stm" unfolding covered_def by blast
  then show ?thesis
  proof cases
    case (pure i)
    from run_primary [OF assms(2,1) pure assms(3)] marshal_row show ?thesis
      by (intro exI [of _ "row_of db (st_table stm) i"]) (simp add: answer_def)
  next
    case search
    have "\<exists>b. marshal E row = Inr b" if "found db (st_table stm) (st_sql stm) = Some row" for row
      using found_row [OF that] marshal_row by blast
    with run_search [OF assms(2,1) search assms(3)] show ?thesis
      by (intro exI [of _ "found db (st_table stm) (st_sql stm)"]) (simp add: answer_def)
  qed
qed

lemma run_cache_ok:
  "cached_run S ok p E row_of found key_name up fresh db0 s0 db s \<Longrightarrow> ok s0 \<Longrightarrow> view S s0 = Map.empty \<Longrightarrow> cache_ok db s"
proof (induction rule: cached_run.induct)
  case (query_step db s stm d)
  from db_answers [OF query_step.hyps(2-4)] obtain r where
    r: "db_run E db stm d = answer d r" "\<And>row. r = Some row \<Longrightarrow> \<exists>b. marshal E row = Inr b" by blast
  from plugin_query_ok [OF query_step.hyps(2), of db "\<lparr>qs_store = s, qs_dest = d, qs_rows = 0, qs_err = None\<rparr>" r] query_step r
  show ?case by simp
next
  case (write_step db s stm dest db')
  then show ?case by (simp add: write_keeps)
next
  case (lose_step db s s')
  then show ?case using map_leD [of "view S s'" "view S s"] by (auto simp: cache_ok_def)
qed (simp add: cache_ok_def)

lemma query_refines:
  assumes "cached_run S ok p E row_of found key_name up fresh db0 s0 db s" "ok s0" "view S s0 = Map.empty"
    and c: "covered p key_name stm" and u: "up db" "fresh d"
  shows "let q = plugin_query p E S db stm \<lparr>qs_store = s, qs_dest = d, qs_rows = 0, qs_err = None\<rparr>;
             r = db_run E db stm d
         in qs_err q = r_err r \<and>
            (case r_err r of
               None \<Rightarrow> qs_rows q = r_rows r \<and> qs_dest q = (if st_no_cache stm then r_dest r else norm (r_dest r))
             | Some _ \<Rightarrow> qs_dest q = d)"
proof -
  from db_answers [OF c u] obtain r where
    r: "db_run E db stm d = answer d r" "\<And>row. r = Some row \<Longrightarrow> \<exists>b. marshal E row = Inr b" by blast
  from plugin_query_ok [OF c, of db "\<lparr>qs_store = s, qs_dest = d, qs_rows = 0, qs_err = None\<rparr>" r]
    run_cache_ok [OF assms(1-3)] r u
  show ?thesis by (cases r; cases "st_no_cache stm") (simp_all add: Let_def answer_def answered_def)
qed

end


section \<open>Where the cache and the database part\<close>

text \<open>A key condition followed by one the plugin does not read: every id shares one cache key.\<close>

lemma last_condition_decides:
  "name \<noteq> [] \<Longrightarrow> i \<noteq> [] \<Longrightarrow> st_primary stm = Some [name] \<Longrightarrow>
   st_where stm = Some [CEq (Some name) i, COther] \<Longrightarrow>
   getCacheKey p stm = (primaryCacheKey (gc_prefix p) (st_table stm) [], True)"
  by (simp add: getCacheKey_def findPrimaryCacheKey_def getPrimaryKeyName_def clauseFindPrimaryCacheKey_def Let_def)

text \<open>In the other order the key is the row's own, and the other condition is forgotten.\<close>

lemma other_condition_forgotten:
  "name \<noteq> [] \<Longrightarrow> i \<noteq> [] \<Longrightarrow> st_primary stm = Some [name] \<Longrightarrow>
   st_where stm = Some [COther, CEq (Some name) i] \<Longrightarrow>
   getCacheKey p stm = (primaryCacheKey (gc_prefix p) (st_table stm) (name @ ''='' @ i), True)"
  by (simp add: getCacheKey_def findPrimaryCacheKey_def getPrimaryKeyName_def clauseFindPrimaryCacheKey_def Let_def)

text \<open>A failed query on a primary key fills the cache with whatever the destination holds.\<close>

lemma failed_query_is_cached:
  "qs_err q = Some (OtherError e) \<Longrightarrow> getCacheKey p stm = (key, True) \<Longrightarrow> marshal E (qs_dest q) = Inr b \<Longrightarrow>
   qs_store (setCache p E S stm q) = so_set S key b [gc_ttl p] (qs_store q)"
  by (simp add: setCache_def Let_def)

text \<open>Find reports no error for an absent row, and \<open>setCache\<close> does not look at the number of
  rows: the empty destination is stored as the row of that key, and a later query for the key
  takes it for a row.\<close>

lemma absent_row_is_cached:
  assumes "\<not> st_no_cache stm" "st_value_struct stm" "st_primary stm = Some fs" "getCacheKey p stm = (key, True)" "key \<noteq> []"
    and "so_get S key s = (None, s')" "db_run E db stm d = \<lparr>r_dest = d, r_rows = 0, r_err = None\<rparr>" "marshal E d = Inr b"
  shows "qs_store (plugin_query p E S db stm \<lparr>qs_store = s, qs_dest = d, qs_rows = 0, qs_err = None\<rparr>)
    = so_set S key b [gc_ttl p] s'"
  using assms by (simp add: plugin_query_def queryWithCache_def getCache_def queryCachePk_def callbacks_Query_def setCache_def Let_def)

lemma hit_is_one_row:
  assumes "st_value_struct stm" "st_primary stm = Some fs" "getCacheKey p stm = (key, True)" "key \<noteq> []"
    and "so_get S key s = (Some b, s')" "b \<noteq> nullValue" "unmarshal E b d = Inr row"
  shows "queryWithCache p E S db stm \<lparr>qs_store = s, qs_dest = d, qs_rows = 0, qs_err = None\<rparr>
    = \<lparr>qs_store = s', qs_dest = row, qs_rows = 1, qs_err = None\<rparr>"
  using assms by (simp add: queryWithCache_def getCache_def queryCachePk_def Let_def)

text \<open>A statement that names two rows has one of them dropped from the cache.\<close>

lemma first_of_two_rows_dropped:
  "name \<noteq> [] \<Longrightarrow> i \<noteq> [] \<Longrightarrow> st_primary stm = Some [name] \<Longrightarrow> st_model_struct stm \<Longrightarrow> st_value_struct stm \<Longrightarrow>
   st_where stm = Some [CEq (Some name) i, CEq (Some name) j] \<Longrightarrow>
   afterDelete p E S stm dest s = so_del S (primaryCacheKey (gc_prefix p) (st_table stm) (name @ ''='' @ i))
     (so_drop S [searchKeyPrefix (gc_prefix p) (st_table stm)] s)"
  by (simp add: afterDelete_def findPrimaryCacheKey_def getPrimaryKeyName_def clauseFindPrimaryCacheKey_def Let_def)

section \<open>A database to try it on\<close>

text \<open>Rows with a positive number and a value, of which JSON keeps the tens; ids are written in
  unary.\<close>

definition unary :: "nat \<Rightarrow> string" where "unary n = replicate n CHR ''x''"

definition demo_row_of :: "(nat \<times> nat) list \<Rightarrow> string \<Rightarrow> string \<Rightarrow> (nat \<times> nat) option" where
  "demo_row_of db t i = (if t = ''t'' then find (\<lambda>r. unary (fst r) = i) db else None)"

definition demo_found :: "(nat \<times> nat) list \<Rightarrow> string \<Rightarrow> string \<Rightarrow> (nat \<times> nat) option" where
  "demo_found db t sq = (if t = ''t'' then find (\<lambda>r. 0 < fst r) db else None)"

definition demo_gc :: "(nat \<times> nat, (nat \<times> nat) list) gc_ext" where
  "demo_gc = \<lparr>db_run = (\<lambda>db stm d.
       let v = (case st_where stm of Some (e # _) \<Rightarrow> clauseFindPrimaryCacheKey e ''id'' | _ \<Rightarrow> [])
       in case (if v = [] then demo_found db (st_table stm) (st_sql stm) else demo_row_of db (st_table stm) (drop 3 v)) of
            None \<Rightarrow> \<lparr>r_dest = d, r_rows = 0, r_err = Some ErrRecordNotFound\<rparr>
          | Some r \<Rightarrow> \<lparr>r_dest = r, r_rows = 1, r_err = None\<rparr>),
     row_id = (\<lambda>r. if fst r = 0 then None else Some (unary (fst r))),
     marshal = (\<lambda>r. Inr (replicate (fst r) 1 @ 0 # replicate (snd r div 10) 1)),
     unmarshal = (\<lambda>b _. Inr (length (takeWhile (\<lambda>x. x = 1) b), 10 * (length b - Suc (length (takeWhile (\<lambda>x. x = 1) b))))),
     to_uint64 = (\<lambda>s. if list_all (\<lambda>c. c = CHR ''x'') s then length s else 0), uint_text = unary\<rparr>"

definition demo_norm :: "nat \<times> nat \<Rightarrow> nat \<times> nat" where "demo_norm r = (fst r, 10 * (snd r div 10))"

definition demo_config :: cache_config where "demo_config = \<lparr>gc_prefix = ''d'', gc_ttl = 0\<rparr>"

lemma demo_found_row:
  "demo_found db t sq = Some r \<Longrightarrow> 0 < fst r \<and> demo_row_of db t (unary (fst r)) = Some r"
  by (induction db) (auto simp: demo_found_def demo_row_of_def unary_def split: if_splits)

lemma demo_codec_row:
  "unmarshal demo_gc (replicate a 1 @ 0 # replicate b 1) d = Inr (a, 10 * b)"
proof -
  have "takeWhile (\<lambda>x. x = 1) (replicate a 1 @ 0 # replicate b 1 :: bytes) = replicate a 1"
    by (induction a) auto
  then show ?thesis by (simp add: demo_gc_def)
qed

interpretation demo_db: cached_db "FreeStore_ops demo_free" "\<lambda>_. True" demo_config demo_gc demo_row_of demo_found "\<lambda>_. ''id''"
  "\<lambda>_. True" "\<lambda>d. d = (0, 0)" demo_norm
proof unfold_locales
  fix stm i d and db :: "(nat \<times> nat) list"
  assume "pure_key ''id'' stm i"
  then obtain e es where "st_where stm = Some (e # es)" "clauseFindPrimaryCacheKey e ''id'' = ''id='' @ i"
    by (auto simp: pure_key_def neq_Nil_conv split: option.splits)
  then show "db_run demo_gc db stm d = (case demo_row_of db (st_table stm) i of
        None \<Rightarrow> \<lparr>r_dest = d, r_rows = 0, r_err = Some ErrRecordNotFound\<rparr>
      | Some r \<Rightarrow> \<lparr>r_dest = r, r_rows = 1, r_err = None\<rparr>)"
    by (simp add: demo_gc_def)
next
  fix stm d and db :: "(nat \<times> nat) list"
  assume "no_key ''id'' stm"
  then show "db_run demo_gc db stm d = (case demo_found db (st_table stm) (st_sql stm) of
        None \<Rightarrow> \<lparr>r_dest = d, r_rows = 0, r_err = Some ErrRecordNotFound\<rparr>
      | Some r \<Rightarrow> \<lparr>r_dest = r, r_rows = 1, r_err = None\<rparr>)"
    by (auto simp: demo_gc_def no_key_def split: option.splits list.splits)
next
  fix db t sq r
  assume "demo_found db t sq = Some r"
  from demo_found_row [OF this] show "\<exists>i. row_id demo_gc r = Some i \<and> demo_row_of db t i = Some r \<and>
      0 < to_uint64 demo_gc i \<and> uint_text demo_gc (to_uint64 demo_gc i) = i"
    by (auto simp: demo_gc_def unary_def list_all_iff)
next
  fix r b d
  assume m: "marshal demo_gc r = Inr b"
  then have b: "b = replicate (fst r) 1 @ 0 # replicate (snd r div 10) 1" by (simp add: demo_gc_def)
  have "byte_of CHR ''n'' \<notin> {0, 1}" by (simp add: byte_of_def)
  then have "b \<noteq> nullValue" by (cases "fst r") (auto simp: b nullValue_def str_bytes_def)
  then show "b \<noteq> nullValue \<and> b \<noteq> [] \<and> (d = r \<or> d = (0, 0) \<longrightarrow> unmarshal demo_gc b d = Inr (demo_norm r))"
    using demo_codec_row b by (simp add: demo_norm_def)
qed (auto simp: demo_gc_def demo_norm_def)

definition demo_stmt :: stmt where
  "demo_stmt = \<lparr>st_table = ''t'', st_primary = Some [''id''], st_model_struct = True, st_value_struct = True,
     st_where = Some [CEq (Some ''id'') ''x''], st_sql = [], st_no_cache = False, st_raises = True\<rparr>"

lemma demo_clean: "clean_table ''d'' ''t''"
  by (simp add: clean_table_def clean_def primaryKeyPrefix_def searchKeyPrefix_def cache_separator_def
      strings_HasPrefix_def glob_free_def)

lemma demo_covered: "covered demo_config (\<lambda>_. ''id'') demo_stmt"
  using demo_clean
  by (auto simp: covered_def demo_config_def demo_stmt_def pure_key_def clauseFindPrimaryCacheKey_def Let_def)


end
