(* ===== verification/Token_Jwt.thy ===== *)
theory Token_Jwt
  imports Aes_Cbc Rpc_Message Kv_Store
begin

text \<open>
  The tokens of the RPC services (\<open>jwt/jwt.go\<close>) and their two stores (\<open>jwt/store.go\<close>): the
  map in memory, and Redis behind a cache in memory. The interface \<open>ItfTokenStore\<close> is the
  locale \<open>token_store\<close>. The clock (\<open>util.TimeNow\<close>) is the argument \<open>now\<close>, the 16 random
  bytes of an encryption are an argument, and a request shows the three places a token is looked
  for. The server is single-threaded here: the stores' locks are not modelled.
\<close>

section \<open>Tokens and their stores\<close>

record token =
  tk_id :: string
  tk_expires :: int
  tk_token :: string

definition token_expired :: "int \<Rightarrow> token \<Rightarrow> bool" where
  "token_expired now t \<longleftrightarrow> tk_expires t < now"

record 's token_ops =
  ts_set :: "int \<Rightarrow> string \<Rightarrow> token \<Rightarrow> 's \<Rightarrow> 's"
  ts_get :: "int \<Rightarrow> string \<Rightarrow> 's \<Rightarrow> token option \<times> 's"
  ts_del :: "int \<Rightarrow> string \<Rightarrow> 's \<Rightarrow> 's"
  ts_clear :: "int \<Rightarrow> 's \<Rightarrow> 's"

text \<open>What a token store promises for the keys and tokens it can hold: it finds what was set
  and not deleted, and the sweep removes nothing but expired tokens.\<close>

locale token_store =
  fixes T :: "'s token_ops" and ok :: "'s \<Rightarrow> bool" and tview :: "'s \<Rightarrow> string \<Rightarrow> token option"
    and good :: "string \<Rightarrow> bool" and storable :: "token \<Rightarrow> bool"
  assumes get_view: "ok s \<Longrightarrow> good k \<Longrightarrow> fst (ts_get T now k s) = tview s k"
    and get_keeps: "ok s \<Longrightarrow> good k \<Longrightarrow> good k' \<Longrightarrow> tview (snd (ts_get T now k s)) k' = tview s k'"
    and get_ok: "ok s \<Longrightarrow> good k \<Longrightarrow> ok (snd (ts_get T now k s))"
    and set_view: "ok s \<Longrightarrow> good k \<Longrightarrow> good k' \<Longrightarrow> storable t \<Longrightarrow>
      tview (ts_set T now k t s) k' = (if k' = k then Some t else tview s k')"
    and set_ok: "ok s \<Longrightarrow> good k \<Longrightarrow> storable t \<Longrightarrow> ok (ts_set T now k t s)"
    and del_view: "ok s \<Longrightarrow> good k \<Longrightarrow> good k' \<Longrightarrow>
      tview (ts_del T now k s) k' = (if k' = k then None else tview s k')"
    and del_ok: "ok s \<Longrightarrow> good k \<Longrightarrow> ok (ts_del T now k s)"
    and clear_le: "ok s \<Longrightarrow> good k \<Longrightarrow> tview (ts_clear T now s) k = Some t \<Longrightarrow> tview s k = Some t"
    and clear_keeps: "ok s \<Longrightarrow> good k \<Longrightarrow> tview s k = Some t \<Longrightarrow> \<not> token_expired now t \<Longrightarrow>
      tview (ts_clear T now s) k = Some t"
    and clear_ok: "ok s \<Longrightarrow> ok (ts_clear T now s)"

subsection \<open>defaultTokenStore\<close>

type_synonym default_tokens = "string \<Rightarrow> token option"

definition newDefaultTokenStore :: default_tokens where "newDefaultTokenStore = Map.empty"

definition Default_SetToken :: "string \<Rightarrow> token \<Rightarrow> default_tokens \<Rightarrow> default_tokens" where
  "Default_SetToken key t d = d(key \<mapsto> t)"

definition Default_GetToken :: "string \<Rightarrow> default_tokens \<Rightarrow> token option" where
  "Default_GetToken key d = d key"

definition Default_DelToken :: "string \<Rightarrow> default_tokens \<Rightarrow> default_tokens" where
  "Default_DelToken key d = d(key := None)"

definition Default_ClearExpiredToken :: "int \<Rightarrow> default_tokens \<Rightarrow> default_tokens" where
  "Default_ClearExpiredToken now d = (\<lambda>k. case d k of
     None \<Rightarrow> None | Some v \<Rightarrow> if token_expired now v then None else Some v)"

definition Default_ops :: "default_tokens token_ops" where
  "Default_ops = \<lparr>ts_set = (\<lambda>_. Default_SetToken), ts_get = (\<lambda>_ k d. (Default_GetToken k d, d)),
     ts_del = (\<lambda>_. Default_DelToken), ts_clear = Default_ClearExpiredToken\<rparr>"

lemmas Default_defs = Default_ops_def Default_SetToken_def Default_GetToken_def Default_DelToken_def
  Default_ClearExpiredToken_def

interpretation default_store: token_store Default_ops "\<lambda>_. True" "\<lambda>s. s" "\<lambda>_. True" "\<lambda>_. True"
  by unfold_locales (auto simp: Default_defs split: option.splits if_splits)

subsection \<open>RedisTokenStore\<close>

record ('r, 'f) redis_tokens =
  rt_store :: "'r redis_store"
  rt_mem :: 'f

text \<open>\<open>util.JsMarshal\<close> and \<open>util.Unmarshal\<close> of a token.\<close>

record token_codec =
  tc_marshal :: "token \<Rightarrow> bytes"
  tc_unmarshal :: "bytes \<Rightarrow> token option"

text \<open>The store reads the clock at every operation.\<close>

definition clock :: "int \<Rightarrow> ('r, 'f) redis_tokens \<Rightarrow> 'r redis_store" where
  "clock now r = (rt_store r)\<lparr>rs_now := now\<rparr>"

definition NewRedisTokenStore :: "'r \<Rightarrow> 'f \<Rightarrow> int \<Rightarrow> ('r, 'f) redis_tokens" where
  "NewRedisTokenStore c mem now = \<lparr>rt_store = NewRedisStore c (Some '':'') now, rt_mem = mem\<rparr>"

definition RedisTokens_Set ::
  "'r redis_ops \<Rightarrow> redis_codec \<Rightarrow> 'f freecache_ops \<Rightarrow> token_codec \<Rightarrow> int \<Rightarrow> string \<Rightarrow> token
   \<Rightarrow> ('r, 'f) redis_tokens \<Rightarrow> ('r, 'f) redis_tokens" where
  "RedisTokens_Set R C F J now key t r =
     (let data = tc_marshal J t in
      \<lparr>rt_store = RedisStore_Set R C key data [-1] (clock now r), rt_mem = FreeStore_Set F key data [-1] (rt_mem r)\<rparr>)"

definition RedisTokens_Get ::
  "'r redis_ops \<Rightarrow> redis_codec \<Rightarrow> 'f freecache_ops \<Rightarrow> token_codec \<Rightarrow> int \<Rightarrow> string
   \<Rightarrow> ('r, 'f) redis_tokens \<Rightarrow> token option \<times> ('r, 'f) redis_tokens" where
  "RedisTokens_Get R C F J now key r = (case FreeStore_Get F key (rt_mem r) of
     (Some data, mem) \<Rightarrow> (tc_unmarshal J data, r\<lparr>rt_mem := mem\<rparr>)
   | (None, mem) \<Rightarrow> (case RedisStore_Get R C key (clock now r) of
       (None, st) \<Rightarrow> (None, \<lparr>rt_store = st, rt_mem = mem\<rparr>)
     | (Some data, st) \<Rightarrow>
         (tc_unmarshal J data, \<lparr>rt_store = st, rt_mem = FreeStore_Set F key data [-1] mem\<rparr>)))"

definition RedisTokens_Del ::
  "'r redis_ops \<Rightarrow> 'f freecache_ops \<Rightarrow> int \<Rightarrow> string \<Rightarrow> ('r, 'f) redis_tokens \<Rightarrow> ('r, 'f) redis_tokens" where
  "RedisTokens_Del R F now key r =
     \<lparr>rt_store = RedisStore_Del R key (clock now r), rt_mem = FreeStore_Del F key (rt_mem r)\<rparr>"

definition RedisTokens_Clear ::
  "'r redis_ops \<Rightarrow> redis_codec \<Rightarrow> 'f freecache_ops \<Rightarrow> string \<Rightarrow> int \<Rightarrow> ('r, 'f) redis_tokens \<Rightarrow> ('r, 'f) redis_tokens" where
  "RedisTokens_Clear R C F innerJWTKey now r =
     \<lparr>rt_store = StoreGC R C innerJWTKey (clock now r), rt_mem = fc_clear F (rt_mem r)\<rparr>"

definition RedisTokens_ops ::
  "'r redis_ops \<Rightarrow> redis_codec \<Rightarrow> 'f freecache_ops \<Rightarrow> token_codec \<Rightarrow> string \<Rightarrow> ('r, 'f) redis_tokens token_ops" where
  "RedisTokens_ops R C F J innerJWTKey = \<lparr>ts_set = RedisTokens_Set R C F J, ts_get = RedisTokens_Get R C F J,
     ts_del = RedisTokens_Del R F, ts_clear = RedisTokens_Clear R C F innerJWTKey\<rparr>"

text \<open>The keys of tokens are those under one prefix that contain the separator; what lies under
  them has no expiry, and the cache in memory holds only what Redis holds.\<close>

definition token_key :: "string \<Rightarrow> string \<Rightarrow> bool" where
  "token_key pre k \<longleftrightarrow> strings_HasPrefix k (pre @ '':'')"

lemma token_key_split: "token_key pre k \<Longrightarrow> GetKeyFieldOrNot '':'' k \<noteq> None"
proof -
  assume "token_key pre k"
  then obtain t where k: "k = pre @ '':'' @ t" by (auto simp: token_key_def HasPrefix_iff)
  then have "strings_Index k '':'' \<noteq> None" using Index_None_append [of pre "'':''" t] by simp
  then obtain i where i: "strings_Index k '':'' = Some i" by blast
  have s: "split_on k '':'' = take i k # split_on (drop (i + length '':'') k) '':''"
    by (subst split_on.simps) (simp add: i)
  have "split_on (drop (i + length '':'') k) '':'' \<noteq> []" by (rule split_on_nonempty) simp
  with s have "\<not> length (split_on k '':'') < 2" by (cases "split_on (drop (i + length '':'') k) '':''") auto
  then show ?thesis by (simp add: GetKeyFieldOrNot_def strings_Split_def Let_def)
qed

locale redis_token_laws = redis_hash R C + freecache_laws F
  for R :: "'r redis_ops" and C :: redis_codec and F :: "'f freecache_ops" +
  fixes J :: token_codec and pre :: string
  assumes set_small: "fc_get F k (fc_set F k d t f) = None \<or> fc_get F k (fc_set F k d t f) = Some d"
begin

definition redis_ok :: "('r, 'f) redis_tokens \<Rightarrow> bool" where
  "redis_ok r \<longleftrightarrow> rs_separator (rt_store r) = '':'' \<and>
     (\<forall>key k f v d e. token_key pre key \<and> GetKeyFieldOrNot '':'' key = Some (k, f) \<and>
        HGet R k f (rs_client (rt_store r)) = Some v \<and> rv_dec C v = Some (d, e) \<longrightarrow> e \<le> 0) \<and>
     (\<forall>key d. token_key pre key \<and> fc_get F key (rt_mem r) = Some d \<longrightarrow> hview (rt_store r) key = Some d)"

definition redis_view :: "('r, 'f) redis_tokens \<Rightarrow> string \<Rightarrow> token option" where
  "redis_view r key = Option.bind (hview (rt_store r) key) (tc_unmarshal J)"

definition redis_storable :: "token \<Rightarrow> bool" where
  "redis_storable t \<longleftrightarrow> rv_enc C (tc_marshal J t) 0 \<noteq> None \<and> tc_unmarshal J (tc_marshal J t) = Some t"

lemma clock_fields [simp]: "rs_separator (clock now r) = rs_separator (rt_store r)"
  "rs_client (clock now r) = rs_client (rt_store r)" "rs_now (clock now r) = now"
  by (simp_all add: clock_def)

text \<open>Nothing under a token key expires, so the clock does not matter.\<close>

lemma clock_view:
  assumes "redis_ok r" "token_key pre key"
  shows "hview (clock now r) key = hview (rt_store r) key" "snd (RedisStore_Get R C key (clock now r)) = clock now r"
proof -
  have e: "\<not> isExpired n e" if "GetKeyFieldOrNot '':'' key = Some (k, f)" "HGet R k f (rs_client (rt_store r)) = Some v"
    "rv_dec C v = Some (d, e)" for k f v d e n using assms that unfolding redis_ok_def isExpired_def by fastforce
  have s: "rs_separator (rt_store r) = '':''" using assms(1) by (simp add: redis_ok_def)
  show "hview (clock now r) key = hview (rt_store r) key"
    using e by (simp add: hview_eq s split: option.split)
  show "snd (RedisStore_Get R C key (clock now r)) = clock now r"
    using e by (simp add: RedisStore_Get_def s split: option.split)
qed

lemma redis_ok_sep: "redis_ok r \<Longrightarrow> rs_separator (rt_store r) = '':''"
  by (simp add: redis_ok_def)

lemma mem_agrees: "redis_ok r \<Longrightarrow> token_key pre key \<Longrightarrow> fc_get F key (rt_mem r) = Some d \<Longrightarrow> hview (rt_store r) key = Some d"
  by (simp add: redis_ok_def)

text \<open>\<open>redis_ok\<close> is kept when the entries of the hash are old ones or have no expiry, and those
  in memory are in Redis.\<close>

lemma redis_okI:
  assumes "redis_ok r" "rs_separator st = '':''"
    and "\<And>k f v. HGet R k f (rs_client st) = Some v \<Longrightarrow>
      HGet R k f (rs_client (rt_store r)) = Some v \<or> (\<exists>d. rv_dec C v = Some (d, 0))"
    and "\<And>key d. token_key pre key \<Longrightarrow> fc_get F key mem = Some d \<Longrightarrow> hview st key = Some d"
  shows "redis_ok \<lparr>rt_store = st, rt_mem = mem\<rparr>"
  unfolding redis_ok_def
proof (intro conjI allI impI)
  fix key k f v d e
  assume a: "token_key pre key \<and> GetKeyFieldOrNot '':'' key = Some (k, f) \<and>
    HGet R k f (rs_client (rt_store \<lparr>rt_store = st, rt_mem = mem\<rparr>)) = Some v \<and> rv_dec C v = Some (d, e)"
  then have "HGet R k f (rs_client (rt_store r)) = Some v \<or> (\<exists>d. rv_dec C v = Some (d, 0))"
    using assms(3) [of k f v] by auto
  then show "e \<le> 0" using a assms(1) unfolding redis_ok_def by fastforce
qed (use assms(2,4) in auto)

lemma Get_redis:
  assumes "redis_ok r" "token_key pre k"
  shows "fst (RedisTokens_Get R C F J now k r) = redis_view r k \<and>
    redis_ok (snd (RedisTokens_Get R C F J now k r)) \<and>
    (\<forall>k'. token_key pre k' \<longrightarrow> redis_view (snd (RedisTokens_Get R C F J now k r)) k' = redis_view r k')"
proof (cases "fc_get F k (rt_mem r)")
  case (Some d)
  with mem_agrees [OF assms Some] assms(1) show ?thesis
    by (simp add: RedisTokens_Get_def FreeStore_Get_def redis_view_def)
next
  case None
  have g: "RedisStore_Get R C k (clock now r) = (hview (rt_store r) k, clock now r)"
    using clock_view [OF assms] by (metis prod.collapse)
  have view: "redis_view \<lparr>rt_store = clock now r, rt_mem = mem\<rparr> k' = redis_view r k'" if "token_key pre k'" for k' mem
    using clock_view [OF assms(1) that] by (simp add: redis_view_def)
  have ok: "redis_ok \<lparr>rt_store = clock now r, rt_mem = mem\<rparr>"
    if "\<And>key d. token_key pre key \<Longrightarrow> fc_get F key mem = Some d \<Longrightarrow> hview (rt_store r) key = Some d" for mem
    using redis_okI [OF assms(1), of "clock now r" mem] that clock_view(1) [OF assms(1)] redis_ok_sep [OF assms(1)] by simp
  show ?thesis
  proof (cases "hview (rt_store r) k")
    case hn: None
    with None g view ok mem_agrees [OF assms(1)] show ?thesis
      by (simp add: RedisTokens_Get_def FreeStore_Get_def redis_view_def)
  next
    case (Some d)
    have "hview (rt_store r) key = Some d'"
      if "token_key pre key" "fc_get F key (fc_set F k d (-1) (rt_mem r)) = Some d'" for key d'
      using get_set [OF that(2)] Some mem_agrees [OF assms(1) that(1)] by auto
    with None Some g view ok show ?thesis
      by (simp add: RedisTokens_Get_def FreeStore_Get_def FreeStore_Set_def redis_view_def)
  qed
qed

lemma set_forever:
  fixes now :: int
  assumes "redis_ok r" "token_key pre k" "rv_enc C d 0 \<noteq> None"
  defines "st \<equiv> RedisStore_Set R C k d [-1] (clock now r)"
  shows "hview st k = Some d" "token_key pre k' \<Longrightarrow> k' \<noteq> k \<Longrightarrow> hview st k' = hview (rt_store r) k'"
    "HGet R h f (rs_client st) = Some v \<Longrightarrow> HGet R h f (rs_client (rt_store r)) = Some v \<or> (\<exists>d. rv_dec C v = Some (d, 0))"
proof -
  have st: "st = RedisStore_Set R C k d [] (clock now r)" by (simp add: st_def RedisStore_Set_def)
  have sep: "rs_separator (clock now r) = '':''" using redis_ok_sep [OF assms(1)] by simp
  have kf: "GetKeyFieldOrNot (rs_separator (clock now r)) k \<noteq> None" "rs_separator (clock now r) \<noteq> []"
    using token_key_split [OF assms(2)] sep by simp_all
  have g: "hview st k = Some d \<and> (k' \<noteq> k \<longrightarrow> hview st k' = hview (clock now r) k')" for k'
    unfolding st by (rule set_get [OF kf(2,1)]) (use assms(3) in auto)
  show "hview st k = Some d" using g by blast
  show "hview st k' = hview (rt_store r) k'" if "token_key pre k'" "k' \<noteq> k"
    using g [of k'] that clock_view(1) [OF assms(1)] by simp
  obtain b where b: "rv_enc C d 0 = Some b" using assms(3) by auto
  show "HGet R h f (rs_client (rt_store r)) = Some v \<or> (\<exists>d. rv_dec C v = Some (d, 0))"
    if "HGet R h f (rs_client st) = Some v"
    using that codec [OF b] b unfolding st by (auto simp: RedisStore_Set_def hset split: option.splits if_splits)
qed

lemma Set_redis:
  assumes "redis_ok r" "token_key pre k" "redis_storable t"
  shows "redis_ok (RedisTokens_Set R C F J now k t r) \<and>
    (\<forall>k'. token_key pre k' \<longrightarrow> redis_view (RedisTokens_Set R C F J now k t r) k' = (if k' = k then Some t else redis_view r k'))"
proof -
  let ?d = "tc_marshal J t"
  have e: "rv_enc C ?d 0 \<noteq> None" "tc_unmarshal J ?d = Some t" using assms(3) by (simp_all add: redis_storable_def)
  note S = set_forever [where now = now, OF assms(1,2) e(1)]
  let ?st = "RedisStore_Set R C k ?d [-1] (clock now r)"
  have sep: "rs_separator ?st = '':''" using redis_ok_sep [OF assms(1)] by (simp add: Set_client)
  have mem: "hview ?st key = Some d" if "token_key pre key" "fc_get F key (fc_set F k ?d (-1) (rt_mem r)) = Some d" for key d
  proof (cases "key = k")
    case True
    with set_small [of k ?d "-1" "rt_mem r"] that(2) S(1) show ?thesis by simp
  next
    case False
    with get_set [OF that(2)] mem_agrees [OF assms(1) that(1)] S(2) [OF that(1) False] show ?thesis by simp
  qed
  have "redis_ok \<lparr>rt_store = ?st, rt_mem = fc_set F k ?d (-1) (rt_mem r)\<rparr>"
    using redis_okI [OF assms(1) sep S(3) mem] .
  then show ?thesis using S(1,2) e(2) by (simp add: RedisTokens_Set_def Let_def FreeStore_Set_def redis_view_def)
qed

lemma Del_redis:
  assumes "redis_ok r" "token_key pre k"
  shows "redis_ok (RedisTokens_Del R F now k r) \<and>
    (\<forall>k'. token_key pre k' \<longrightarrow> redis_view (RedisTokens_Del R F now k r) k' = (if k' = k then None else redis_view r k'))"
proof -
  let ?st = "RedisStore_Del R k (clock now r)"
  have sep: "rs_separator ?st = '':''" "rs_separator (clock now r) = '':''"
    using redis_ok_sep [OF assms(1)] by (simp_all add: Del_client)
  have v: "hview ?st k' = (if k' = k then None else hview (rt_store r) k')" if "token_key pre k'" for k'
  proof -
    have "hview ?st k' = hview (clock now r) k'" if "k' \<noteq> k"
    proof -
      have "GetKeyFieldOrNot '':'' k' = Some kf \<Longrightarrow> GetKeyFieldOrNot '':'' k \<noteq> Some kf" for kf
        using KeyField_inj [of "'':''"] that by blast
      then show ?thesis unfolding hview_eq by (auto simp: Del_client sep redis_ok_sep [OF assms(1)] split: option.split)
    qed
    with Del_drops [of "clock now r" k] sep(2) clock_view(1) [OF assms(1) that] show ?thesis by simp
  qed
  have "redis_ok \<lparr>rt_store = ?st, rt_mem = fc_del F k (rt_mem r)\<rparr>"
  proof (rule redis_okI [OF assms(1) sep(1)])
    show "hview ?st key = Some d" if "token_key pre key" "fc_get F key (fc_del F k (rt_mem r)) = Some d" for key d
      using get_del [OF that(2)] mem_agrees [OF assms(1) that(1)] v [OF that(1)] by simp
  qed (auto simp: Del_client split: if_splits)
  with v show ?thesis by (simp add: RedisTokens_Del_def FreeStore_Del_def redis_view_def)
qed

lemma gc_same:
  "hview (RedisStore_gc R C keys r) key = hview r key \<and> rs_separator (RedisStore_gc R C keys r) = rs_separator r"
proof -
  have f: "rs_separator (RedisStore_gc R C keys r) = rs_separator r \<and> rs_now (RedisStore_gc R C keys r) = rs_now r"
    by (induction keys arbitrary: r) (auto simp: Let_def split: prod.split)
  then show ?thesis
    by (auto simp: hview_eq gc_hget dead_def split: option.split)
qed

lemma Clear_redis:
  assumes "redis_ok r"
  shows "redis_ok (RedisTokens_Clear R C F p now r) \<and>
    (\<forall>k'. token_key pre k' \<longrightarrow> redis_view (RedisTokens_Clear R C F p now r) k' = redis_view r k')"
proof -
  let ?st = "StoreGC R C p (clock now r)"
  have "?st = RedisStore_gc R C (ScanKeys R p (clock now r)) (clock now r)"
    by (simp add: StoreGC_def Let_def)
  then obtain keys where st: "?st = RedisStore_gc R C keys (clock now r)" ..
  have v: "hview ?st k' = hview (rt_store r) k'" if "token_key pre k'" for k'
    using gc_same [where keys = keys and r = "clock now r" and key = k'] clock_view(1) [OF assms that] unfolding st by simp
  have "redis_ok \<lparr>rt_store = ?st, rt_mem = fc_clear F (rt_mem r)\<rparr>"
  proof (rule redis_okI [OF assms])
    show "rs_separator ?st = '':''" using gc_same [where keys = keys and r = "clock now r"] redis_ok_sep [OF assms] unfolding st by simp
    show "HGet R h f (rs_client (rt_store r)) = Some w \<or> (\<exists>d. rv_dec C w = Some (d, 0))"
      if "HGet R h f (rs_client ?st) = Some w" for h f w
      using that unfolding st by (auto simp: gc_hget split: option.splits if_splits)
  qed (simp add: get_clear)
  with v show ?thesis by (simp add: RedisTokens_Clear_def redis_view_def)
qed

end

sublocale redis_token_laws \<subseteq> redis_store: token_store "RedisTokens_ops R C F J pre" redis_ok redis_view "token_key pre" redis_storable
  using Get_redis Set_redis Del_redis Clear_redis by unfold_locales (auto simp: RedisTokens_ops_def)

text \<open>A Redis, a cache and a token codec to run it on.\<close>

definition demo_token_codec :: token_codec where
  "demo_token_codec = \<lparr>tc_marshal = (\<lambda>t. (if tk_expires t < 0 then 2 else 3) # replicate (nat \<bar>tk_expires t\<bar>) 1 @ 0 #
       replicate (length (tk_id t)) 1 @ 0 # str_bytes (tk_id t @ tk_token t)),
     tc_unmarshal = (\<lambda>b. let n = length (takeWhile (\<lambda>x. x = 1) (tl b)); r = drop (n + 2) b;
         m = length (takeWhile (\<lambda>x. x = 1) r); s = bytes_str (drop (m + 1) r)
       in Some \<lparr>tk_id = take m s, tk_expires = (if hd b = 2 then - int n else int n), tk_token = drop m s\<rparr>)\<rparr>"

lemma takeWhile_ones: "takeWhile (\<lambda>x. x = 1) (replicate n 1 @ 0 # r) = (replicate n 1 :: bytes)"
  by (induction n) auto

lemma demo_codec_token: "tc_unmarshal demo_token_codec (tc_marshal demo_token_codec t) = Some t"
  by (simp add: demo_token_codec_def Let_def takeWhile_ones)

interpretation demo_tokens: redis_token_laws demo_redis demo_codec demo_free demo_token_codec pre for pre
  by unfold_locales (simp add: demo_free_def)

lemma demo_storable: "demo_tokens.redis_storable t"
  by (simp add: demo_tokens.redis_storable_def demo_codec_token) (simp add: demo_codec_def)

section \<open>JWT\<close>

definition ErrorTokenMissing :: string where
  "ErrorTokenMissing =
     [CHR 0xE7, CHR 0xA6, CHR 0x81, CHR 0xE6, CHR 0xAD, CHR 0xA2, CHR 0xE8, CHR 0xAE, CHR 0xBF, CHR 0xE9, CHR 0x97, CHR 0xAE]"

definition ErrorTokenMalformed :: string where
  "ErrorTokenMalformed =
     [CHR 0xE4, CHR 0xBB, CHR 0xA4, CHR 0xE7, CHR 0x89, CHR 0x8C, CHR 0xE9, CHR 0x94, CHR 0x99, CHR 0xE8, CHR 0xAF, CHR 0xAF]"

definition ErrorTokenNotValidYet :: string where
  "ErrorTokenNotValidYet =
     [CHR 0xE4, CHR 0xBB, CHR 0xA4, CHR 0xE7, CHR 0x89, CHR 0x8C, CHR 0xE4, CHR 0xB8, CHR 0x8D, CHR 0xE5, CHR 0xAD, CHR 0x98, CHR 0xE5, CHR 0x9C, CHR 0xA8]"

definition ErrorTokenExpired :: string where
  "ErrorTokenExpired =
     [CHR 0xE4, CHR 0xBB, CHR 0xA4, CHR 0xE7, CHR 0x89, CHR 0x8C, CHR 0xE8, CHR 0xBF, CHR 0x87, CHR 0xE6, CHR 0x9C, CHR 0x9F]"

definition ErrorTokenInvalid :: string where
  "ErrorTokenInvalid =
     [CHR 0xE4, CHR 0xBB, CHR 0xA4, CHR 0xE7, CHR 0x89, CHR 0x8C, CHR 0xE6, CHR 0x97, CHR 0xA0, CHR 0xE6, CHR 0x95, CHR 0x88]"

definition innerJWTKey :: "string \<Rightarrow> string" where "innerJWTKey AppName = AppName @ '':jwt''"

definition innerJwtCryptoKey :: bytes where "innerJwtCryptoKey = take 16 (str_bytes ''FUXqWKtBONoR85Eb'')"

definition getJWTKey :: "string \<Rightarrow> string \<Rightarrow> string" where
  "getJWTKey AppName ident = innerJWTKey AppName @ '':'' @ ident"

text \<open>The errors of the encryption are dropped; the text is then empty.\<close>

definition generateToken :: "(aes_error, bytes) result \<Rightarrow> string \<Rightarrow> string" where
  "generateToken rand16 ident = (case AESCBCEncrypt rand16 innerJwtCryptoKey (str_bytes ident) [True] of
     Inl _ \<Rightarrow> [] | Inr v \<Rightarrow> bytes_str v)"

definition getIDFromToken :: "string \<Rightarrow> string" where
  "getIDFromToken tok = (case AESCBCDecrypt innerJwtCryptoKey (str_bytes tok) [True] of
     Inl _ \<Rightarrow> [] | Inr v \<Rightarrow> bytes_str v)"

text \<open>\<open>JWT\<close>, its store apart: the store is the state of the operations.\<close>

record jwt =
  jwt_app :: string
  jwt_expire :: int

definition lazyInit :: "jwt \<Rightarrow> 's option \<Rightarrow> 's \<Rightarrow> jwt \<times> 's" where
  "lazyInit j store newDefault =
     (if jwt_expire j = 0 then j\<lparr>jwt_expire := 3600 * 24 * 7\<rparr> else j,
      case store of None \<Rightarrow> newDefault | Some s \<Rightarrow> s)"

definition AfterLogin ::
  "'s token_ops \<Rightarrow> jwt \<Rightarrow> int \<Rightarrow> (aes_error, bytes) result \<Rightarrow> string \<Rightarrow> 's \<Rightarrow> token \<times> 's" where
  "AfterLogin T j now rand16 ident s =
     (let t = \<lparr>tk_id = ident, tk_expires = wrap64 (now + jwt_expire j), tk_token = generateToken rand16 ident\<rparr>
      in (t, ts_set T now (getJWTKey (jwt_app j) ident) t s))"

definition Logout :: "'s token_ops \<Rightarrow> jwt \<Rightarrow> int \<Rightarrow> string \<Rightarrow> 's \<Rightarrow> 's" where
  "Logout T j now ident s = ts_del T now (getJWTKey (jwt_app j) ident) s"

definition refreshToken :: "'s token_ops \<Rightarrow> jwt \<Rightarrow> int \<Rightarrow> token \<Rightarrow> 's \<Rightarrow> 's" where
  "refreshToken T j now t s =
     (if wrap64 (tk_expires t - now) > jwt_expire j sdiv 2 then s
      else ts_set T now (getJWTKey (jwt_app j) (tk_id t)) (t\<lparr>tk_expires := wrap64 (now + jwt_expire j)\<rparr>) s)"

text \<open>A request: the header \<open>Authorization\<close>, the URL parameter \<open>token\<close>, the header \<open>token\<close>
  (empty if absent). The values of the request's context that \<open>Verify\<close> sets.\<close>

record token_request =
  rq_authorization :: string
  rq_param :: string
  rq_token :: string

record 'u token_values =
  cv_token :: "string option"
  cv_user :: "'u option"

definition presented :: "token_request \<Rightarrow> string" where
  "presented rq =
     (let t = rq_authorization rq;
          t = (if t = [] then rq_param rq else t);
          t = (if t = [] then rq_token rq else t)
      in strings_ReplaceAll t ''Bearer '' [])"

definition Verify ::
  "'s token_ops \<Rightarrow> jwt \<Rightarrow> int \<Rightarrow> token_request \<Rightarrow> (string \<Rightarrow> (string, 'u) result) \<Rightarrow> 's
   \<Rightarrow> (rpc_error, 'u) result \<times> 'u token_values \<times> 's" where
  "Verify T j now rq call s =
     (let deny = (\<lambda>msg. Inl (NewError ErrAuthorization msg [])); tok = presented rq in
      if tok = [] then (deny ErrorTokenMissing, \<lparr>cv_token = None, cv_user = None\<rparr>, s)
      else let cv = \<lparr>cv_token = Some tok, cv_user = None\<rparr>; ident = getIDFromToken tok in
      if ident = [] then (deny ErrorTokenMalformed, cv, s)
      else case ts_get T now (getJWTKey (jwt_app j) ident) s of
        (None, s) \<Rightarrow> (deny ErrorTokenNotValidYet, cv, s)
      | (Some t, s) \<Rightarrow>
          if token_expired now t then (deny ErrorTokenExpired, cv, s)
          else if tk_token t \<noteq> tok then (deny ErrorTokenInvalid, cv, s)
          else case call (tk_id t) of
            Inl err \<Rightarrow> (deny err, cv, s)
          | Inr user \<Rightarrow> (Inr user, cv\<lparr>cv_user := Some user\<rparr>, refreshToken T j now t s))"

definition ClearExpired :: "'s token_ops \<Rightarrow> int \<Rightarrow> 's \<Rightarrow> 's" where
  "ClearExpired T now s = ts_clear T now s"

section \<open>Tokens carry their user\<close>

lemma crypto_key_ok: "aes_key_ok innerJwtCryptoKey"
  by (simp add: innerJwtCryptoKey_def aes_key_ok_def)

lemma token_id:
  assumes "length iv = 16" shows "getIDFromToken (generateToken (Inr iv) ident) = ident"
  using AESCBC_decrypts_own [OF crypto_key_ok assms, of "str_bytes ident" "[True]"]
  by (auto simp: generateToken_def getIDFromToken_def)

text \<open>The text of a token has no space, so nothing is cut out of it.\<close>

lemma token_no_space:
  assumes "length iv = 16" shows "CHR '' '' \<notin> set (generateToken (Inr iv) ident)"
proof -
  have "unat b \<noteq> 32" if "b \<in> set (b64_Encode src)" for b src
  proof -
    have "\<forall>x \<in> set (b64_sextets (map unat src)). x < 64"
      by (rule b64_sextets_small) (simp add: unat_byte_less)
    with that obtain n where "n < 64" "b = b64_digit n" by (auto simp: b64_Encode_def)
    with unat_b64_digit [of n] show ?thesis by (auto split: if_splits)
  qed
  then have no: "CHR '' '' \<notin> set (bytes_str (b64_Encode src))" for src
  proof -
    have "char_of_byte b \<noteq> CHR '' ''" if "b \<in> set (b64_Encode src)" for b
    proof
      assume "char_of_byte b = CHR '' ''"
      then have "b = byte_of CHR '' ''" using byte_of_char_of [of b] by metis
      then have "unat b = 32" by (simp add: byte_of_def)
      with \<open>\<And>src b. b \<in> set (b64_Encode src) \<Longrightarrow> unat b \<noteq> 32\<close> that show False by blast
    qed
    then show ?thesis unfolding bytes_str_def set_map by (metis imageE)
  qed
  from AESCBC_decrypts_own [OF crypto_key_ok assms, of "str_bytes ident" "[True]"] obtain ct where
    ct: "AESCBCEncrypt (Inr iv) innerJwtCryptoKey (str_bytes ident) [True] = Inr ct" by blast
  then obtain src where "ct = b64_Encode src"
    by (auto simp: AESCBCEncrypt_def crypto_key_ok crypto_encode_def OneBool_def base64Encode_def Let_def)
  with no ct show ?thesis by (simp add: generateToken_def)
qed

lemma Contains_set: "strings_Contains s (a @ c # b) \<Longrightarrow> c \<in> set s"
  by (auto simp: Contains_iff)

lemma ReplaceAll_head:
  assumes "old \<noteq> []" "\<not> strings_Contains t old" shows "strings_ReplaceAll (old @ t) old [] = t"
proof -
  have "strings_Index (old @ t) old = Some 0" using HasPrefix_append [of old t] by (cases "old @ t") (auto simp del: HasPrefix_append)
  then have "split_on (old @ t) old = [] # split_on t old"
    using assms(1) by (subst split_on.simps) simp
  then show ?thesis using assms by (simp add: strings_ReplaceAll_def split_on_absent)
qed

lemma presented_plain:
  assumes "CHR '' '' \<notin> set t" shows "strings_ReplaceAll t ''Bearer '' [] = t"
proof -
  have "\<not> strings_Contains t ''Bearer ''"
    using assms Contains_set [of t "''Bearer''" "CHR '' ''" "[]"] by auto
  then show ?thesis by (simp add: strings_ReplaceAll_def split_on_absent)
qed

section \<open>Sessions\<close>

text \<open>What a client can see of a run: for each operation, the user it let in, if any.\<close>

datatype 'u jwt_op =
    LoginOp string "(aes_error, bytes) result" | LogoutOp string
  | VerifyOp token_request "string \<Rightarrow> (string, 'u) result" | SweepOp

definition jwt_step :: "'s token_ops \<Rightarrow> jwt \<Rightarrow> int \<Rightarrow> 'u jwt_op \<Rightarrow> 's \<Rightarrow> 'u option \<times> 's" where
  "jwt_step T j now op s = (case op of
     LoginOp ident r \<Rightarrow> (None, snd (AfterLogin T j now r ident s))
   | LogoutOp ident \<Rightarrow> (None, Logout T j now ident s)
   | VerifyOp rq call \<Rightarrow> (case Verify T j now rq call s of
       (Inr u, _, s) \<Rightarrow> (Some u, s) | (Inl _, _, s) \<Rightarrow> (None, s))
   | SweepOp \<Rightarrow> (None, ClearExpired T now s))"

fun jwt_run :: "'s token_ops \<Rightarrow> jwt \<Rightarrow> (int \<times> 'u jwt_op) list \<Rightarrow> 's \<Rightarrow> 'u option list" where
  "jwt_run T j [] s = []"
| "jwt_run T j ((now, op) # evs) s = (case jwt_step T j now op s of (u, s) \<Rightarrow> u # jwt_run T j evs s)"

text \<open>The specification: one session per user, with its token and its end. There is no store,
  no sweep and no order of checks.\<close>

type_synonym sessions = "string \<Rightarrow> (string \<times> int) option"

definition session_step :: "jwt \<Rightarrow> int \<Rightarrow> 'u jwt_op \<Rightarrow> sessions \<Rightarrow> 'u option \<times> sessions" where
  "session_step j now op m = (case op of
     LoginOp ident r \<Rightarrow> (None, m(ident \<mapsto> (generateToken r ident, wrap64 (now + jwt_expire j))))
   | LogoutOp ident \<Rightarrow> (None, m(ident := None))
   | SweepOp \<Rightarrow> (None, m)
   | VerifyOp rq call \<Rightarrow>
       let tok = presented rq; ident = getIDFromToken tok in
       case m ident of
         Some (tok', e) \<Rightarrow>
           if ident \<noteq> [] \<and> tok' = tok \<and> now \<le> e then
             (case call ident of
                Inr u \<Rightarrow> (Some u, if wrap64 (e - now) > jwt_expire j sdiv 2 then m
                   else m(ident \<mapsto> (tok, wrap64 (now + jwt_expire j))))
              | Inl _ \<Rightarrow> (None, m))
           else (None, m)
       | None \<Rightarrow> (None, m))"

fun session_run :: "jwt \<Rightarrow> (int \<times> 'u jwt_op) list \<Rightarrow> sessions \<Rightarrow> 'u option list" where
  "session_run j [] m = []"
| "session_run j ((now, op) # evs) m = (case session_step j now op m of (u, m) \<Rightarrow> u # session_run j evs m)"

text \<open>Time does not run backwards; the tokens issued can be stored.\<close>

definition in_order :: "(int \<times> 'u jwt_op) list \<Rightarrow> bool" where
  "in_order evs \<longleftrightarrow> sorted (map fst evs)"

definition op_ok :: "(token \<Rightarrow> bool) \<Rightarrow> 'u jwt_op \<Rightarrow> bool" where
  "op_ok storable op \<longleftrightarrow> (case op of
     LoginOp ident r \<Rightarrow> \<forall>e. storable \<lparr>tk_id = ident, tk_expires = e, tk_token = generateToken r ident\<rparr> | _ \<Rightarrow> True)"

lemma no_token_no_id: "getIDFromToken [] = []"
  by (simp add: getIDFromToken_def AESCBCDecrypt_def crypto_decode_def OneBool_def base64Decode_def b64_Decode_def str_bytes_def)

lemma getJWTKey_inj [simp]: "getJWTKey a i = getJWTKey a i' \<longleftrightarrow> i = i'"
  by (simp add: getJWTKey_def)

context token_store
begin

definition sess_rel :: "jwt \<Rightarrow> int \<Rightarrow> 's \<Rightarrow> sessions \<Rightarrow> bool" where
  "sess_rel j now s m \<longleftrightarrow> ok s \<and>
     (\<forall>i t. tview s (getJWTKey (jwt_app j) i) = Some t \<longrightarrow> m i = Some (tk_token t, tk_expires t) \<and> tk_id t = i) \<and>
     (\<forall>i tok e. m i = Some (tok, e) \<longrightarrow>
        (now \<le> e \<longrightarrow> tview s (getJWTKey (jwt_app j) i) = Some \<lparr>tk_id = i, tk_expires = e, tk_token = tok\<rparr>) \<and>
        (\<forall>e'. storable \<lparr>tk_id = i, tk_expires = e', tk_token = tok\<rparr>))"

lemma rel_later: "sess_rel j now s m \<Longrightarrow> now \<le> now' \<Longrightarrow> sess_rel j now' s m"
  unfolding sess_rel_def by (meson order_trans)

lemma rel_set:
  assumes "sess_rel j now s m" "\<And>i. good (getJWTKey (jwt_app j) i)"
    "\<And>e. storable \<lparr>tk_id = i, tk_expires = e, tk_token = tok\<rparr>"
  shows "sess_rel j now (ts_set T now (getJWTKey (jwt_app j) i) \<lparr>tk_id = i, tk_expires = e, tk_token = tok\<rparr> s) (m(i \<mapsto> (tok, e)))"
    (is "sess_rel j now ?s _")
proof -
  have ok: "ok s" using assms(1) by (simp add: sess_rel_def)
  have v: "tview ?s (getJWTKey (jwt_app j) i') =
    (if i' = i then Some \<lparr>tk_id = i, tk_expires = e, tk_token = tok\<rparr> else tview s (getJWTKey (jwt_app j) i'))" for i'
    using set_view [OF ok assms(2,2,3)] by simp
  from assms(1,3) set_ok [OF ok assms(2,3)] show ?thesis unfolding sess_rel_def v by simp
qed

lemma rel_del:
  assumes "sess_rel j now s m" "\<And>i. good (getJWTKey (jwt_app j) i)"
  shows "sess_rel j now (ts_del T now (getJWTKey (jwt_app j) i) s) (m(i := None))"
    (is "sess_rel j now ?s _")
proof -
  have ok: "ok s" using assms(1) by (simp add: sess_rel_def)
  have v: "tview ?s (getJWTKey (jwt_app j) i') = (if i' = i then None else tview s (getJWTKey (jwt_app j) i'))" for i'
    using del_view [OF ok assms(2,2)] by simp
  from assms(1) del_ok [OF ok assms(2)] show ?thesis unfolding sess_rel_def v by simp
qed

lemma rel_clear:
  assumes "sess_rel j now s m" "\<And>i. good (getJWTKey (jwt_app j) i)"
  shows "sess_rel j now (ts_clear T now s) m"
proof -
  have ok: "ok s" using assms(1) by (simp add: sess_rel_def)
  note le = clear_le [OF ok assms(2)]
  have keeps: "tview (ts_clear T now s) (getJWTKey (jwt_app j) i) = Some \<lparr>tk_id = i', tk_expires = e, tk_token = tok\<rparr>"
    if "now \<le> e" "tview s (getJWTKey (jwt_app j) i) = Some \<lparr>tk_id = i', tk_expires = e, tk_token = tok\<rparr>" for i i' e tok
    using clear_keeps [OF ok assms(2) that(2)] that(1) by (simp add: token_expired_def)
  from assms(1) le keeps clear_ok [OF ok] show ?thesis unfolding sess_rel_def by blast
qed

lemma rel_get:
  assumes "sess_rel j now s m" "\<And>i. good (getJWTKey (jwt_app j) i)"
  shows "sess_rel j now (snd (ts_get T now (getJWTKey (jwt_app j) i) s)) m"
  using assms unfolding sess_rel_def by (simp add: get_keeps get_ok)

lemma rel_verify:
  assumes rel: "sess_rel j now s m" and good: "\<And>i. good (getJWTKey (jwt_app j) i)"
  shows "fst (jwt_step T j now (VerifyOp rq call) s) = fst (session_step j now (VerifyOp rq call) m) \<and>
    sess_rel j now (snd (jwt_step T j now (VerifyOp rq call) s)) (snd (session_step j now (VerifyOp rq call) m))"
proof -
  let ?tok = "presented rq" let ?i = "getIDFromToken ?tok"
  show ?thesis
  proof (cases "?tok = [] \<or> ?i = []")
    case True
    then have "?i = []" using no_token_no_id by auto
    with True rel show ?thesis
      by (auto simp: jwt_step_def session_step_def Verify_def Let_def split: option.splits)
  next
    case False
    let ?k = "getJWTKey (jwt_app j) ?i"
    obtain x s1 where g: "ts_get T now ?k s = (x, s1)" by fastforce
    have ok: "ok s" using rel by (simp add: sess_rel_def)
    have x: "x = tview s ?k" and rel1: "sess_rel j now s1 m"
      using get_view [OF ok good] rel_get [OF rel good] g by (metis fst_conv, metis snd_conv)
    show ?thesis
    proof (cases x)
      case None
      with x rel have "m ?i = Some (tok', e) \<Longrightarrow> \<not> now \<le> e" for tok' e
        unfolding sess_rel_def by fastforce
      with None g False rel1 show ?thesis
        by (auto simp: jwt_step_def session_step_def Verify_def Let_def split: option.split)
    next
      case (Some t)
      with x rel have m: "m ?i = Some (tk_token t, tk_expires t)" and i: "tk_id t = ?i"
        unfolding sess_rel_def by auto
      have st: "storable \<lparr>tk_id = ?i, tk_expires = e, tk_token = tk_token t\<rparr>" for e
        using rel m unfolding sess_rel_def by blast
      have t: "t\<lparr>tk_expires := e\<rparr> = \<lparr>tk_id = ?i, tk_expires = e, tk_token = tk_token t\<rparr>" for e
        using i by (metis token.surjective token.update_convs(2) unit.exhaust)
      have "sess_rel j now (ts_set T now ?k (t\<lparr>tk_expires := e\<rparr>) s1) (m(?i \<mapsto> (tk_token t, e)))" for e
        unfolding t by (rule rel_set [OF rel1 good st])
      with Some g False m i rel1 show ?thesis
        by (auto simp: jwt_step_def session_step_def Verify_def Let_def token_expired_def refreshToken_def split: sum.split)
    qed
  qed
qed

lemma rel_step:
  assumes rel: "sess_rel j now s m" and good: "\<And>i. good (getJWTKey (jwt_app j) i)" and op: "op_ok storable op"
  shows "fst (jwt_step T j now op s) = fst (session_step j now op m) \<and>
    sess_rel j now (snd (jwt_step T j now op s)) (snd (session_step j now op m))"
proof (cases op)
  case (LoginOp i r)
  with op have "storable \<lparr>tk_id = i, tk_expires = e, tk_token = generateToken r i\<rparr>" for e by (simp add: op_ok_def)
  from rel_set [OF rel good this] LoginOp show ?thesis
    by (simp add: jwt_step_def session_step_def AfterLogin_def Let_def)
next
  case (VerifyOp rq call)
  with rel_verify [OF rel good] show ?thesis by simp
qed (use rel_del [OF rel good] rel_clear [OF rel good] in
  \<open>simp_all add: jwt_step_def session_step_def Logout_def ClearExpired_def\<close>)

lemma run_sessions:
  assumes "\<And>i. good (getJWTKey (jwt_app j) i)"
  shows "sess_rel j n s m \<Longrightarrow> in_order evs \<Longrightarrow> \<forall>(now, op) \<in> set evs. n \<le> now \<and> op_ok storable op \<Longrightarrow>
    jwt_run T j evs s = session_run j evs m"
proof (induction evs arbitrary: n s m)
  case (Cons ev evs)
  obtain now op where ev: "ev = (now, op)" by fastforce
  from Cons.prems have rel: "sess_rel j now s m" and op: "op_ok storable op" using rel_later by (auto simp: ev)
  note r = rel_step [OF rel assms op]
  from Cons.prems have "in_order evs" "\<forall>(now', op) \<in> set evs. now \<le> now' \<and> op_ok storable op"
    by (auto simp: in_order_def ev)
  from Cons.IH [OF conjunct2 [OF r] this] r show ?case by (simp add: ev case_prod_unfold)
qed simp

end

lemma sessions_of_store:
  assumes "token_store T ok tview good storable" "\<And>i. good (getJWTKey (jwt_app j) i)"
    and "ok s0" "\<And>i. tview s0 (getJWTKey (jwt_app j) i) = None"
    and "in_order evs" "\<forall>(now, op) \<in> set evs. op_ok storable op"
  shows "jwt_run T j evs s0 = session_run j evs Map.empty"
proof (cases evs)
  case (Cons ev es)
  have "token_store.sess_rel ok tview storable j (fst ev) s0 Map.empty"
    using assms(3,4) by (simp add: token_store.sess_rel_def [OF assms(1)])
  moreover have "\<forall>(now, op) \<in> set evs. fst ev \<le> now \<and> op_ok storable op"
    using assms(5,6) by (auto simp: in_order_def Cons)
  ultimately show ?thesis by (rule token_store.run_sessions [OF assms(1,2) _ assms(5)])
qed simp

text \<open>C4: Every store that keeps the contract gives the same sessions: over any sequence of
  logins, logouts, requests with any token and sweeps, at times that do not run backwards, a
  request is let in exactly when the token it presents is the one of its user's last login, the
  user has not logged out since, the session has not ended, and the user callback agrees; and
  the session's end moves on exactly as the specification says.\<close>
theorem jwt_refines_sessions:
  assumes "token_store T ok tview good storable" "\<And>i. good (getJWTKey (jwt_app j) i)"
    and "ok s0" "\<And>i. tview s0 (getJWTKey (jwt_app j) i) = None"
    and "in_order evs" "\<forall>(now, op) \<in> set evs. op_ok storable op"
  shows "jwt_run T j evs s0 = session_run j evs Map.empty"
  by (rule sessions_of_store [OF assms])

text \<open>On the Redis store, with its cache in memory.\<close>
theorem jwt_refines_sessions_witness:
  "let T = RedisTokens_ops demo_redis demo_codec demo_free demo_token_codec (innerJWTKey ''app'');
       j = \<lparr>jwt_app = ''app'', jwt_expire = 100\<rparr>;
       rq = \<lparr>rq_authorization = generateToken (Inr (replicate 16 7)) ''ann'', rq_param = [], rq_token = []\<rparr>;
       evs = [(5, LoginOp ''ann'' (Inr (replicate 16 7))), (6, SweepOp), (105, VerifyOp rq (\<lambda>i. Inr i))]
   in jwt_run T j evs (NewRedisTokenStore [] [] 0) = [None, None, Some ''ann'']"
proof -
  let ?T = "RedisTokens_ops demo_redis demo_codec demo_free demo_token_codec (innerJWTKey ''app'')"
  let ?j = "\<lparr>jwt_app = ''app'', jwt_expire = 100\<rparr>" 
  let ?s0 = "NewRedisTokenStore [] [] 0 :: (demo_redis, (string \<times> bytes) list) redis_tokens"
  let ?tok = "generateToken (Inr (replicate 16 7)) ''ann''"
  let ?rq = "\<lparr>rq_authorization = ?tok, rq_param = [], rq_token = []\<rparr>"
  let ?evs = "[(5, LoginOp ''ann'' (Inr (replicate 16 7))), (6, SweepOp), (105, VerifyOp ?rq (\<lambda>i. Inr i))]"
  let ?pre = "innerJWTKey ''app''"
  have empty: "HGet demo_redis k f (rs_client (rt_store ?s0)) = None" "fc_get demo_free k (rt_mem ?s0) = None" for k f
    by (simp_all add: NewRedisTokenStore_def NewRedisStore_def demo_redis_def demo_free_def)
  have id: "getIDFromToken ?tok = ''ann''" by (rule token_id) simp
  then have ne: "?tok \<noteq> []" using no_token_no_id by auto
  have pres: "presented ?rq = ?tok"
    using presented_plain [OF token_no_space [of "replicate 16 7" "''ann''"]] ne by (simp add: presented_def)
  have "jwt_run ?T ?j ?evs ?s0 = session_run ?j ?evs Map.empty"
  proof (rule jwt_refines_sessions [OF demo_tokens.redis_store.token_store_axioms])
    show "token_key ?pre (getJWTKey (jwt_app ?j) i)" for i by (simp add: token_key_def getJWTKey_def HasPrefix_iff)
    show "demo_tokens.redis_ok ?pre ?s0"
      using empty unfolding demo_tokens.redis_ok_def by (simp add: NewRedisTokenStore_def NewRedisStore_def)
    show "demo_tokens.redis_view ?s0 (getJWTKey (jwt_app ?j) i) = None" for i
      using empty(1) by (simp only: demo_tokens.redis_view_def demo.hview_eq) (simp split: option.split)
    show "in_order ?evs" by (simp add: in_order_def)
    show "\<forall>(now, op) \<in> set ?evs. op_ok demo_tokens.redis_storable op"
      by (simp add: op_ok_def demo_storable)
  qed
  also have "session_run ?j ?evs Map.empty = [None, None, Some ''ann'']"
    by (simp add: session_step_def pres id wrap64_def Let_def)
  finally show ?thesis by (simp add: Let_def)
qed

section \<open>A user who is active stays logged in\<close>

text \<open>The events after a login of the user that leave the session alone: nobody logs the user
  in or out, and every request with its token comes at most half the lifetime after the one
  before (or the login) and is welcome to the callback.\<close>

fun active :: "int \<Rightarrow> string \<Rightarrow> string \<Rightarrow> int \<Rightarrow> (int \<times> 'u jwt_op) list \<Rightarrow> bool" where
  "active half i tok seen [] = True"
| "active half i tok seen ((now, op) # evs) = (seen \<le> now \<and> (case op of
     LoginOp i' _ \<Rightarrow> i' \<noteq> i \<and> active half i tok seen evs
   | LogoutOp i' \<Rightarrow> i' \<noteq> i \<and> active half i tok seen evs
   | SweepOp \<Rightarrow> active half i tok seen evs
   | VerifyOp rq call \<Rightarrow>
       if presented rq = tok then now - seen \<le> half \<and> is_ok (call i) \<and> active half i tok now evs
       else active half i tok seen evs))"

definition let_in :: "string \<Rightarrow> string \<Rightarrow> (int \<times> 'u jwt_op) list \<Rightarrow> 'u option list \<Rightarrow> bool" where
  "let_in i tok = list_all2 (\<lambda>(now, op) u. case op of
     VerifyOp rq call \<Rightarrow> presented rq = tok \<longrightarrow> u \<noteq> None \<and> call i = Inr (the u) | _ \<Rightarrow> True)"

lemma half_le: "0 \<le> x \<Longrightarrow> x sdiv 2 \<le> (x :: int)" "0 \<le> x \<Longrightarrow> 0 \<le> x sdiv (2 :: int)"
  by (cases "x = 0"; simp add: signed_divide_int_def)+

lemma active_let_in:
  assumes j: "0 \<le> jwt_expire j" and tok: "getIDFromToken tok = i" "i \<noteq> []"
  shows "active (jwt_expire j sdiv 2) i tok seen evs \<Longrightarrow> m i = Some (tok, e) \<Longrightarrow>
    seen + jwt_expire j sdiv 2 \<le> e \<Longrightarrow> 0 \<le> e \<Longrightarrow> e < 2 ^ 63 \<Longrightarrow>
    \<forall>(now, _) \<in> set evs. 0 \<le> now \<and> now + jwt_expire j < 2 ^ 63 \<Longrightarrow> let_in i tok evs (session_run j evs m)"
proof (induction evs arbitrary: seen m e)
  case (Cons ev evs)
  obtain now op where ev: "ev = (now, op)" by fastforce
  have half: "jwt_expire j sdiv 2 \<le> jwt_expire j" "0 \<le> jwt_expire j sdiv 2" using half_le [OF j] .
  from Cons.prems have now: "0 \<le> now" "now + jwt_expire j < 2 ^ 63" "seen \<le> now" by (auto simp: ev)
  have w: "wrap64 (now + jwt_expire j) = now + jwt_expire j" "wrap64 (e - now) = e - now"
    using now j Cons.prems(4,5) by (simp_all add: wrap64_id)
  note IH = Cons.IH [unfolded let_in_def]
  show ?case
  proof (cases "\<exists>rq call. op = VerifyOp rq call \<and> presented rq = tok")
    case True
    then obtain rq call where op: "op = VerifyOp rq call" "presented rq = tok" by blast
    from Cons.prems(1) op have a: "now - seen \<le> jwt_expire j sdiv 2" "is_ok (call i)"
      "active (jwt_expire j sdiv 2) i tok now evs" by (simp_all add: ev)
    then obtain u where u: "call i = Inr u" by (cases "call i") auto
    let ?m = "if e - now > jwt_expire j sdiv 2 then m else m(i \<mapsto> (tok, now + jwt_expire j))"
    have s: "session_step j now op m = (Some u, ?m)"
      using op u tok Cons.prems(2,3) a(1) w by (simp add: session_step_def Let_def)
    obtain e' where e': "?m i = Some (tok, e')" "now + jwt_expire j sdiv 2 \<le> e'" "0 \<le> e'" "e' < 2 ^ 63"
      using Cons.prems(2,4,5) half now j by (cases "e - now > jwt_expire j sdiv 2") auto
    from Cons.prems(6) Cons.IH [where seen = now and m = ?m and e = e'] a(3) e' s op u show ?thesis
      by (simp add: ev let_in_def)
  next
    case False
    obtain u m' where s: "session_step j now op m = (u, m')" by fastforce
    have "active (jwt_expire j sdiv 2) i tok seen evs"
      using Cons.prems(1) False by (auto simp: ev split: jwt_op.splits if_splits)
    moreover have "m' i = Some (tok, e)"
      using s Cons.prems(1,2) False tok
      by (auto simp: session_step_def ev Let_def split: jwt_op.splits option.splits if_splits sum.splits)
    ultimately have "let_in i tok evs (session_run j evs m')" using Cons.IH Cons.prems by auto
    with s False show ?thesis by (auto simp: ev let_in_def split: jwt_op.split)
  qed
qed (simp add: let_in_def)

lemma session_run_append:
  "\<exists>us m'. length us = length pre \<and> session_run j (pre @ evs) m = us @ session_run j evs m'"
proof (induction pre arbitrary: m)
  case Nil
  show ?case by (intro exI [of _ "[]"] exI [of _ m]) simp
next
  case (Cons ev pre)
  obtain now op where ev: "ev = (now, op)" by fastforce
  obtain u m1 where s: "session_step j now op m = (u, m1)" by fastforce
  from Cons.IH [of m1] obtain us m' where "length us = length pre" "session_run j (pre @ evs) m1 = us @ session_run j evs m'" by blast
  with s show ?case by (intro exI [of _ "u # us"] exI [of _ m']) (simp add: ev)
qed

text \<open>C11: A user who keeps using a session never loses it. Whatever happened before, after a login
  at time \<open>n0\<close> every request that presents the issued token is let in as that user, as long as
  nobody logs the user in or out, each of the user's requests comes at most half the lifetime
  after the one before, and the callback accepts them: other users, wrong tokens and sweeps do
  not matter, and there is no limit on how long this goes on.\<close>
theorem session_kept_alive:
  assumes "token_store T ok tview good storable" "\<And>i. good (getJWTKey (jwt_app j) i)"
    and "ok s0" "\<And>i. tview s0 (getJWTKey (jwt_app j) i) = None"
    and "in_order (pre @ (n0, LoginOp i (Inr iv)) # evs)"
    and "\<forall>(now, op) \<in> set (pre @ (n0, LoginOp i (Inr iv)) # evs). op_ok storable op"
    and "length iv = 16" "i \<noteq> []" "0 \<le> jwt_expire j"
    and "\<forall>(now, _) \<in> set ((n0, LoginOp i (Inr iv)) # evs). 0 \<le> now \<and> now + jwt_expire j < 2 ^ 63"
    and "active (jwt_expire j sdiv 2) i (generateToken (Inr iv) i) n0 evs"
  shows "let_in i (generateToken (Inr iv) i) evs
    (drop (length pre + 1) (jwt_run T j (pre @ (n0, LoginOp i (Inr iv)) # evs) s0))"
proof -
  let ?tok = "generateToken (Inr iv) i"
  have run: "jwt_run T j (pre @ (n0, LoginOp i (Inr iv)) # evs) s0 = session_run j (pre @ (n0, LoginOp i (Inr iv)) # evs) Map.empty"
    by (rule sessions_of_store [OF assms(1-6)])
  obtain us m where us: "length us = length pre"
    "session_run j (pre @ (n0, LoginOp i (Inr iv)) # evs) Map.empty = us @ session_run j ((n0, LoginOp i (Inr iv)) # evs) m"
    using session_run_append by blast
  let ?e = "n0 + jwt_expire j"
  have "wrap64 ?e = ?e" "?e < 2 ^ 63" "0 \<le> ?e" using assms(9,10) by (auto simp: wrap64_id)
  moreover have "n0 + jwt_expire j sdiv 2 \<le> ?e" using half_le [OF assms(9)] by simp
  ultimately have "let_in i ?tok evs (session_run j evs (m(i \<mapsto> (?tok, ?e))))"
    using active_let_in [OF assms(9) token_id [OF assms(7)] assms(8,11), of "m(i \<mapsto> (?tok, ?e))" ?e] assms(10) by simp
  then show ?thesis using us(1) \<open>wrap64 ?e = ?e\<close> unfolding run us(2) by (simp add: session_step_def)
qed

text \<open>Two requests, each half a lifetime after the one before, with a sweep between them.\<close>
theorem session_kept_alive_witness:
  "let j = \<lparr>jwt_app = ''app'', jwt_expire = 100\<rparr>; tok = generateToken (Inr (replicate 16 7)) ''ann'';
       rq = \<lparr>rq_authorization = [], rq_param = tok, rq_token = []\<rparr>;
       evs = [(55, VerifyOp rq (\<lambda>i. Inr i)), (101, SweepOp), (105, VerifyOp rq (\<lambda>i. Inr i))]
   in let_in ''ann'' tok evs (drop 1 (jwt_run Default_ops j
        ((5, LoginOp ''ann'' (Inr (replicate 16 7))) # evs) newDefaultTokenStore))"
proof -
  let ?tok = "generateToken (Inr (replicate 16 7)) ''ann''"
  let ?rq = "\<lparr>rq_authorization = [], rq_param = ?tok, rq_token = []\<rparr>"
  have "?tok \<noteq> []" using token_id [of "replicate 16 7" "''ann''"] no_token_no_id by auto
  then have "presented ?rq = ?tok"
    using presented_plain [OF token_no_space [of "replicate 16 7" "''ann''"]] by (simp add: presented_def)
  then show ?thesis
    using session_kept_alive [OF default_store.token_store_axioms, where j = "\<lparr>jwt_app = ''app'', jwt_expire = 100\<rparr>"
      and ?s0.0 = newDefaultTokenStore and pre = "[]" and ?n0.0 = 5 and i = "''ann''" and iv = "replicate 16 7"
      and evs = "[(55, VerifyOp ?rq (\<lambda>i. Inr i)), (101, SweepOp), (105, VerifyOp ?rq (\<lambda>i. Inr i))]"]
    by (simp add: Let_def newDefaultTokenStore_def in_order_def op_ok_def signed_divide_int_def)
qed

text \<open>A client may send its token in any of the three places, with the word \<open>Bearer\<close> or
  without it: the token that is checked is the one that was issued, and the user it names is the
  one who logged in.\<close>
theorem issued_token_presented:
  assumes "length iv = 16" "i \<noteq> []" "t \<in> {generateToken (Inr iv) i, ''Bearer '' @ generateToken (Inr iv) i}"
    and "rq \<in> {\<lparr>rq_authorization = t, rq_param = a, rq_token = b\<rparr>, \<lparr>rq_authorization = [], rq_param = t, rq_token = b\<rparr>,
      \<lparr>rq_authorization = [], rq_param = [], rq_token = t\<rparr>}"
  shows "presented rq = generateToken (Inr iv) i \<and> getIDFromToken (presented rq) = i"
proof -
  let ?tok = "generateToken (Inr iv) i"
  have ne: "?tok \<noteq> []" using token_id [OF assms(1), of i] no_token_no_id assms(2) by auto
  note plain = presented_plain [OF token_no_space [OF assms(1), of i]]
  have "strings_ReplaceAll (''Bearer '' @ ?tok) ''Bearer '' [] = ?tok"
    by (rule ReplaceAll_head) (use token_no_space [OF assms(1), of i] Contains_set [of ?tok "''Bearer''" "CHR '' ''" "[]"] in auto)
  with assms(3,4) plain ne have "presented rq = ?tok" by (auto simp: presented_def)
  with token_id [OF assms(1)] show ?thesis by simp
qed

theorem issued_token_presented_witness:
  "getIDFromToken (presented \<lparr>rq_authorization = [], rq_param = ''Bearer '' @ generateToken (Inr (replicate 16 7)) ''ann'',
     rq_token = ''x''\<rparr>) = ''ann''"
  by (rule conjunct2 [OF issued_token_presented [of "replicate 16 7" "''ann''" "''Bearer '' @ generateToken (Inr (replicate 16 7)) ''ann''"
    "\<lparr>rq_authorization = [], rq_param = ''Bearer '' @ generateToken (Inr (replicate 16 7)) ''ann'', rq_token = ''x''\<rparr>" "[]" "''x''"]])
    simp_all

section \<open>What the code leaves open\<close>

text \<open>A process that has a token in its memory does not ask Redis again: a logout in another
  process does not reach it.\<close>

lemma logout_elsewhere_not_seen:
  "fc_get F k (rt_mem r) = Some d \<Longrightarrow>
   fst (RedisTokens_Get R C F J now k (r\<lparr>rt_store := RedisStore_Del R k (clock now r)\<rparr>)) = tc_unmarshal J d"
  by (simp add: RedisTokens_Get_def FreeStore_Get_def)

text \<open>A user without an id can log in, but no request ever finds the session.\<close>

lemma empty_id_never_in: "getIDFromToken (presented rq) = [] \<Longrightarrow> fst (jwt_step T j now (VerifyOp rq call) s) = None"
  by (auto simp: jwt_step_def Verify_def Let_def)

end
