(* ===== verification/Md5.thy ===== *)
theory Md5
  imports Prelude Aes_Cbc
begin

text \<open>
  Go's \<open>crypto/md5\<close> (RFC 1321), whose sums name databases in the cache (\<open>mdb/db.go\<close>) and make up ids
  (\<open>util/crypto.go\<close>, \<open>util/uuid.go\<close>): padding, four rounds on 32-bit words with the low byte first.
\<close>

unbundle bit_operations_syntax

type_synonym md5_word = "32 word"

text \<open>The parts after the point of the sines of 1 to 64, as 32 bits.\<close>

definition md5_table :: "md5_word list" where
  "md5_table = [
     0xD76AA478, 0xE8C7B756, 0x242070DB, 0xC1BDCEEE, 0xF57C0FAF, 0x4787C62A, 0xA8304613, 0xFD469501,
     0x698098D8, 0x8B44F7AF, 0xFFFF5BB1, 0x895CD7BE, 0x6B901122, 0xFD987193, 0xA679438E, 0x49B40821,
     0xF61E2562, 0xC040B340, 0x265E5A51, 0xE9B6C7AA, 0xD62F105D, 0x02441453, 0xD8A1E681, 0xE7D3FBC8,
     0x21E1CDE6, 0xC33707D6, 0xF4D50D87, 0x455A14ED, 0xA9E3E905, 0xFCEFA3F8, 0x676F02D9, 0x8D2A4C8A,
     0xFFFA3942, 0x8771F681, 0x6D9D6122, 0xFDE5380C, 0xA4BEEA44, 0x4BDECFA9, 0xF6BB4B60, 0xBEBFBC70,
     0x289B7EC6, 0xEAA127FA, 0xD4EF3085, 0x04881D05, 0xD9D4D039, 0xE6DB99E5, 0x1FA27CF8, 0xC4AC5665,
     0xF4292244, 0x432AFF97, 0xAB9423A7, 0xFC93A039, 0x655B59C3, 0x8F0CCC92, 0xFFEFF47D, 0x85845DD1,
     0x6FA87E4F, 0xFE2CE6E0, 0xA3014314, 0x4E0811A1, 0xF7537E82, 0xBD3AF235, 0x2AD7D2BB, 0xEB86D391
     ]"

definition md5_shifts :: "nat list" where
  "md5_shifts = concat (map (\<lambda>r. concat (replicate 4 r)) [[7, 12, 17, 22], [5, 9, 14, 20], [4, 11, 16, 23], [6, 10, 15, 21]])"

definition rotl :: "nat \<Rightarrow> md5_word \<Rightarrow> md5_word" where
  "rotl n x = (push_bit n x OR drop_bit (32 - n) x)"

definition md5_pad :: "bytes \<Rightarrow> bytes" where
  "md5_pad m =
     (let z = (119 - length m mod 64) mod 64; bits = 8 * length m in
      m @ [0x80] @ replicate z 0 @ map (\<lambda>i. word_of_int (drop_bit (8 * i) (int bits))) [0..<8])"

fun le_words :: "bytes \<Rightarrow> md5_word list" where
  "le_words (a # b # c # d # r) =
     (ucast a OR push_bit 8 (ucast b) OR push_bit 16 (ucast c) OR push_bit 24 (ucast d)) # le_words r"
| "le_words _ = []"

text \<open>The function of a step and the word of the block that it takes.\<close>

definition md5_mix :: "nat \<Rightarrow> md5_word \<Rightarrow> md5_word \<Rightarrow> md5_word \<Rightarrow> md5_word" where
  "md5_mix i b c d =
     (if i < 16 then (b AND c) OR (NOT b AND d)
      else if i < 32 then (d AND b) OR (NOT d AND c)
      else if i < 48 then b XOR c XOR d
      else c XOR (b OR NOT d))"

definition md5_pick :: "nat \<Rightarrow> nat" where
  "md5_pick i = (if i < 16 then i else if i < 32 then (5 * i + 1) mod 16 else if i < 48 then (3 * i + 5) mod 16 else (7 * i) mod 16)"

definition md5_step :: "md5_word list \<Rightarrow> nat \<times> md5_word \<times> nat \<Rightarrow> md5_word \<times> md5_word \<times> md5_word \<times> md5_word
    \<Rightarrow> md5_word \<times> md5_word \<times> md5_word \<times> md5_word" where
  "md5_step x ikr h = (case ikr of (i, k, r) \<Rightarrow> case h of (a, b, c, d) \<Rightarrow>
     (d, b + rotl r (a + md5_mix i b c d + k + x ! md5_pick i), b, c))"

definition md5_block :: "bytes \<Rightarrow> md5_word \<times> md5_word \<times> md5_word \<times> md5_word \<Rightarrow> md5_word \<times> md5_word \<times> md5_word \<times> md5_word" where
  "md5_block blk h =
     (case fold (md5_step (le_words blk)) (zip [0..<64] (zip md5_table md5_shifts)) h of (a', b', c', d') \<Rightarrow>
      case h of (a, b, c, d) \<Rightarrow> (a + a', b + b', c + c', d + d'))"

fun md5_blocks :: "nat \<Rightarrow> bytes \<Rightarrow> md5_word \<times> md5_word \<times> md5_word \<times> md5_word \<Rightarrow> md5_word \<times> md5_word \<times> md5_word \<times> md5_word" where
  "md5_blocks 0 m h = h"
| "md5_blocks (Suc n) m h = md5_blocks n (drop 64 m) (md5_block (take 64 m) h)"

definition le_bytes :: "md5_word \<Rightarrow> bytes" where
  "le_bytes x = map (\<lambda>i. ucast (drop_bit (8 * i) x)) [0..<4]"

definition md5_Sum :: "bytes \<Rightarrow> bytes" where
  "md5_Sum m =
     (let p = md5_pad m in
      case md5_blocks (length p div 64) p (0x67452301, 0xEFCDAB89, 0x98BADCFE, 0x10325476) of (a, b, c, d) \<Rightarrow>
        concat (map le_bytes [a, b, c, d]))"

lemma length_md5_Sum: "length (md5_Sum m) = 16"
  by (simp add: md5_Sum_def le_bytes_def Let_def split: prod.split)

text \<open>The examples of RFC 1321 for the empty text and for \<open>abc\<close>.\<close>

lemma md5_examples:
  "bytes_str (hex_Encode (md5_Sum [])) = ''d41d8cd98f00b204e9800998ecf8427e''"
  "bytes_str (hex_Encode (md5_Sum (str_bytes ''abc''))) = ''900150983cd24fb0d6963f7d28e17f72''"
  by code_simp+

section \<open>As text\<close>

text \<open>\<open>Md5\<close> of \<open>mdb/db.go\<close> and \<open>MD5\<close> of \<open>util/crypto.go\<close>.\<close>

definition Md5 :: "bytes \<Rightarrow> string" where
  "Md5 b = bytes_str (hex_Encode (md5_Sum b))"

definition MD5 :: "string \<Rightarrow> string" where
  "MD5 s = (let b0 = md5_Sum (str_bytes s) in bytes_str (hex_Encode b0))"

lemma MD5_Md5: "MD5 s = Md5 (str_bytes s)"
  by (simp add: MD5_def Md5_def)

definition hex_char :: "char \<Rightarrow> bool" where
  "hex_char c \<longleftrightarrow> is_digit c \<or> 97 \<le> (of_char c :: nat) \<and> (of_char c :: nat) \<le> 102"

lemma hex_char_Encode: "list_all hex_char (bytes_str (hex_Encode b))"
proof -
  have "hex_char (char_of_byte (hex_digit n))" if "n < 16" for n
    using that by (auto simp: hex_char_def is_digit_def char_of_byte_def unat_hex_digit)
  moreover have "unat a div 16 < 16" for a :: byte using unat_byte_less [of a] by simp
  ultimately show ?thesis by (induction b) (auto simp: hex_Encode_def bytes_str_def)
qed

lemma length_hex_Encode: "length (hex_Encode b) = 2 * length b"
  by (induction b) (simp_all add: hex_Encode_def)

lemma Md5_shape: "length (Md5 b) = 32" "list_all hex_char (Md5 b)"
  by (simp_all add: Md5_def length_hex_Encode length_md5_Sum hex_char_Encode)

section \<open>Ids\<close>

text \<open>\<open>util/uuid.go\<close>. A UUID is given by the caller, or a new one; its text is the uuid package's.\<close>

definition getUUID :: "'u \<Rightarrow> 'u list \<Rightarrow> 'u" where
  "getUUID new vs = (case vs of v # _ \<Rightarrow> v | [] \<Rightarrow> new)"

definition UUIDString :: "('u \<Rightarrow> string) \<Rightarrow> 'u \<Rightarrow> 'u list \<Rightarrow> string" where
  "UUIDString str new vs = str (getUUID new vs)"

definition UUID16md5hex :: "('u \<Rightarrow> string) \<Rightarrow> 'u \<Rightarrow> 'u list \<Rightarrow> string" where
  "UUID16md5hex str new vs =
     (let b0 = md5_Sum (str_bytes (str (getUUID new vs)));
          b0 = drop 4 (take 12 b0)
      in strings_ToUpper (bytes_str (hex_Encode b0)))"

text \<open>The time is in the layout \<open>060102150405\<close> for the first and in seconds for the second.\<close>

definition GenUUID16 :: "string \<Rightarrow> ('u \<Rightarrow> string) \<Rightarrow> 'u \<Rightarrow> string \<Rightarrow> 'u list \<Rightarrow> string" where
  "GenUUID16 now str new sep vs = now @ sep @ UUID16md5hex str new vs"

definition GenUUID16unix :: "string \<Rightarrow> ('u \<Rightarrow> string) \<Rightarrow> 'u \<Rightarrow> string \<Rightarrow> 'u list \<Rightarrow> string" where
  "GenUUID16unix unix str new sep vs = unix @ sep @ UUID16md5hex str new vs"

text \<open>\<open>util/random.go\<close>, with the numbers that \<open>rand.Intn\<close> gives as a list, and \<open>util/nanoid.go\<close>, with
  \<open>MustGenerate\<close> of the nanoid package as an argument.\<close>

definition letters :: string where
  "letters = ''abcdefghijklmnopqrstuvwxyzABCDEFGHIJKLMNOPQRSTUVWXYZ'' @ ''0123456789''"

definition RandString :: "(nat \<Rightarrow> nat) \<Rightarrow> nat \<Rightarrow> string" where
  "RandString intn n = map (\<lambda>i. letters ! intn i) [0..<n]"

definition GenNanoid :: "(string \<Rightarrow> int \<Rightarrow> string) \<Rightarrow> int \<Rightarrow> string" where
  "GenNanoid generate n = generate ''0123456789ABCDEFGHIJKLMNOPQRSTUVWXYZabcdefghijklmnopqrstuvwxyz'' n"

definition GenNanoidNums :: "(string \<Rightarrow> int \<Rightarrow> string) \<Rightarrow> int list \<Rightarrow> string" where
  "GenNanoidNums generate ns = generate ''0123456789'' (case ns of n # _ \<Rightarrow> n | [] \<Rightarrow> 6)"

text \<open>\<open>FuncName\<close> of \<open>util/reflect.go\<close>: the last part of the runtime's name of a function, without the mark of a method
  value.\<close>

definition FuncName :: "string \<Rightarrow> string" where
  "FuncName name = (let sl = strings_Split name ''.'' in strings_ReplaceAll (last sl) ''-fm'' [])"

lemma UUID16_shape:
  "length (UUID16md5hex str new vs) = 16"
  "list_all (\<lambda>c. is_digit c \<or> is_upper c) (UUID16md5hex str new vs)"
proof -
  have "length (drop 4 (take 12 (md5_Sum b))) = 8" for b by (simp add: length_md5_Sum)
  then show "length (UUID16md5hex str new vs) = 16"
    by (simp add: UUID16md5hex_def Let_def length_hex_Encode)
  have "is_digit (char_upper c) \<or> is_upper (char_upper c)" if "hex_char c" for c
    using that by (auto simp: hex_char_def is_digit_def is_upper_def is_lower_def char_upper_def)
  then show "list_all (\<lambda>c. is_digit c \<or> is_upper c) (UUID16md5hex str new vs)"
    using hex_char_Encode by (auto simp: UUID16md5hex_def Let_def strings_ToUpper_def list_all_iff)
qed

lemma RandString_letters:
  "\<forall>i. intn i < 62 \<Longrightarrow> length (RandString intn n) = n \<and> set (RandString intn n) \<subseteq> set letters"
proof -
  have "length letters = 62" by (simp add: letters_def)
  then show "\<forall>i. intn i < 62 \<Longrightarrow> length (RandString intn n) = n \<and> set (RandString intn n) \<subseteq> set letters"
    by (auto simp: RandString_def)
qed

lemma FuncName_plain:
  "FuncName ''github.com/atcharles/glibs/giris.(*Captcha).Check-fm'' = ''Check''"
  by code_simp

end
