(* ===== verification/Db_Model.thy ===== *)
theory Db_Model
  imports Prelude Kv_Store Gorm_Cache Md5
begin

text \<open>
  The database handle (\<open>mdb/db.go\<close>, \<open>mdb/migrate.go\<close>): connection options and DSN, the
  registry of models, migration with its lock file, and the automatic deletion of old rows.

  gorm, the drivers and the SQL server are not part of the repository. A connection attempt and
  the schema of a model are arguments; what the deletions ask of the server is the record
  \<open>sql_ops\<close> with the laws \<open>sql_laws\<close>: the meaning of \<open>ORDER BY id LIMIT 1 OFFSET k\<close>,
  \<open>DELETE WHERE id < m\<close> and of the two counts.
\<close>

text \<open>A call ends by returning, by a panic, or by ending the process (\<open>log.Fatal\<close>).\<close>

datatype 'a outcome = Panics string | Fatal string | Returns 'a

definition bind_outcome :: "'a outcome \<Rightarrow> ('a \<Rightarrow> 'b outcome) \<Rightarrow> 'b outcome" where
  "bind_outcome r f = (case r of Panics e \<Rightarrow> Panics e | Fatal e \<Rightarrow> Fatal e | Returns x \<Rightarrow> f x)"

lemma bind_outcome_simps [simp]:
  "bind_outcome (Panics e) f = Panics e" "bind_outcome (Fatal e) f = Fatal e" "bind_outcome (Returns x) f = f x"
  by (simp_all add: bind_outcome_def)

lemma bind_outcome_Returns: "bind_outcome r f = Returns y \<longleftrightarrow> (\<exists>x. r = Returns x \<and> f x = Returns y)"
  by (cases r) auto

section \<open>Options and connection\<close>

record db_option =
  do_type :: string
  do_host :: string
  do_port :: string
  do_user :: string
  do_pwd :: string
  do_db :: string
  do_skip_cache :: bool
  do_cache_type :: string
  do_max_idle :: int
  do_max_open :: int
  do_max_lifetime :: int
  do_max_idle_time :: int
  do_skip_create :: bool

definition newline :: string where "newline = [CHR 0x0A]"

definition parseDSN :: "db_option \<Rightarrow> string outcome" where
  "parseDSN d =
     (if do_type d = ''mysql'' then
        Returns (do_user d @ '':'' @ do_pwd d @ ''@tcp('' @ do_host d @ '':'' @ do_port d @ '')/'' @ do_db d @
          ''?charset=utf8mb4&collation=utf8mb4_bin&timeout=5s&loc=Local&parseTime=True'')
      else if do_type d = ''pg'' \<or> do_type d = ''postgres'' then
        Returns (''host='' @ do_host d @ newline @ ''user='' @ do_user d @ newline @ ''password='' @ do_pwd d @ newline @
          ''dbname='' @ do_db d @ newline @ ''port='' @ do_port d @ newline @ ''sslmode=disable'' @ newline @
          ''TimeZone=Asia/Shanghai'')
      else Panics ''unknown db type'')"

datatype cache_kind = RedisCache nat | CCache | FreeCache

definition getCacheStore :: "db_option \<Rightarrow> cache_kind" where
  "getCacheStore d =
     (if do_cache_type d = ''redis'' then RedisCache 1
      else if do_cache_type d = ''cc'' then CCache else FreeCache)"

text \<open>The pool limits as \<open>dbInitiate\<close> leaves them in the options; durations in nanoseconds.\<close>

definition pool_options :: "db_option \<Rightarrow> db_option" where
  "pool_options d =
     (let max_open = (if do_max_open d \<le> 0 then 200 else do_max_open d);
          max_open = (if max_open \<ge> 2000 then 2000 else max_open);
          max_idle = (if do_max_idle d \<le> 0 then 50 else do_max_idle d);
          max_idle = (if max_idle \<ge> max_open then max_open sdiv 2 else max_idle);
          lifetime = (if do_max_lifetime d \<le> 0 then 30 else do_max_lifetime d);
          lifetime = (if lifetime \<ge> 3600 then 3600 else lifetime);
          idle_time = (if do_max_idle_time d \<le> 0 then 30 else do_max_idle_time d);
          idle_time = (if idle_time \<ge> lifetime then wrap64 (lifetime * 80) sdiv 100 else idle_time)
      in d\<lparr>do_max_idle := max_idle, do_max_open := max_open, do_max_lifetime := lifetime,
           do_max_idle_time := idle_time\<rparr>)"

record pool_conf =
  pc_open :: int
  pc_idle :: int
  pc_lifetime :: int
  pc_idle_time :: int

record 'c db_ext =
  dx_open :: "string \<Rightarrow> string \<Rightarrow> (string, 'c) result"
  dx_sql :: "'c \<Rightarrow> string option"
  dx_ping :: "'c \<Rightarrow> pool_conf \<Rightarrow> string option"
  dx_use :: "'c \<Rightarrow> cache_config \<Rightarrow> cache_kind \<Rightarrow> string option"

record 'c connection =
  cn_conn :: 'c
  cn_pool :: pool_conf
  cn_plugin :: "(cache_config \<times> cache_kind) option"

text \<open>The cache of a database has the sum of its DSN as prefix.\<close>

definition DSNMd5 :: "string \<Rightarrow> string" where
  "DSNMd5 dsn = Md5 (str_bytes dsn)"

definition dbInitiate :: "'c db_ext \<Rightarrow> db_option \<Rightarrow> (string, 'c connection) result outcome" where
  "dbInitiate E d = bind_outcome (parseDSN d) (\<lambda>dsn.
     case dx_open E (if do_type d = ''mysql'' then ''mysql'' else ''postgres'') dsn of
       Inl err \<Rightarrow> Returns (Inl err)
     | Inr c \<Rightarrow>
       case dx_sql E c of
         Some err \<Rightarrow> Returns (Inl err)
       | None \<Rightarrow>
         let o' = pool_options d;
             pool = \<lparr>pc_open = do_max_open o', pc_idle = do_max_idle o',
               pc_lifetime = wrap64 (do_max_lifetime o' * 1000000000),
               pc_idle_time = wrap64 (do_max_idle_time o' * 1000000000)\<rparr>
         in case dx_ping E c pool of
           Some err \<Rightarrow> Returns (Inl err)
         | None \<Rightarrow>
           if \<not> do_skip_cache d then
             let conf = NewPlugin (do_skip_cache d) \<lparr>gc_prefix = DSNMd5 dsn, gc_ttl = 60 * 10\<rparr>
             in case dx_use E c conf (getCacheStore d) of
                  Some err \<Rightarrow> Returns (Inl err)
                | None \<Rightarrow> Returns (Inr \<lparr>cn_conn = c, cn_pool = pool, cn_plugin = Some (conf, getCacheStore d)\<rparr>)
           else Returns (Inr \<lparr>cn_conn = c, cn_pool = pool, cn_plugin = None\<rparr>))"

text \<open>The regular expressions of \<open>openDefaultDB\<close>: a literal, one or more word characters, a
  literal; every match is replaced, from the left. The second literal does not start with a word
  character, so the greedy match is the only one.\<close>

definition is_word :: "char \<Rightarrow> bool" where
  "is_word c \<longleftrightarrow> is_upper c \<or> is_lower c \<or> is_digit c \<or> c = CHR ''_''"

function replace_words :: "string \<Rightarrow> string \<Rightarrow> string \<Rightarrow> string \<Rightarrow> string" where
  "replace_words pre suf new [] = []"
| "replace_words pre suf new (c # cs) =
     (let r = drop (length pre) (c # cs); w = takeWhile is_word r; t = dropWhile is_word r in
      if strings_HasPrefix (c # cs) pre \<and> w \<noteq> [] \<and> strings_HasPrefix t suf
      then new @ replace_words pre suf new (drop (length suf) t)
      else c # replace_words pre suf new cs)"
  by pat_completeness auto
termination
proof (relation "measure (\<lambda>(_, _, _, s). length s)", goal_cases)
  case (2 pre suf new c cs r w t)
  then have "length w + length t = length r" "w \<noteq> []" "length r \<le> length (c # cs)"
    by (metis length_append takeWhile_dropWhile_id, simp, simp)
  then show ?case by (cases w) auto
qed simp_all

definition default_dsn :: "db_option \<Rightarrow> string outcome" where
  "default_dsn d = bind_outcome (parseDSN d) (\<lambda>dsn.
     if do_type d = ''mysql'' then Returns (replace_words ''/'' ''?'' ''/mysql?'' dsn)
     else Returns (replace_words ''dbname='' [] ''dbname=postgres'' dsn))"

text \<open>The statements \<open>createDB\<close> and \<open>dropDB\<close> run on the maintenance database: the open call,
  the check for an existing database (\<open>dm_exists\<close>) and the execution.\<close>

record 'c admin_ext =
  dm_open :: "string \<Rightarrow> string \<Rightarrow> (string, 'c) result"
  dm_sql :: "'c \<Rightarrow> string option"
  dm_exists :: "'c \<Rightarrow> string \<Rightarrow> (string, int) result"
  dm_exec :: "'c \<Rightarrow> string \<Rightarrow> string option"

definition openDefaultDB :: "'c admin_ext \<Rightarrow> db_option \<Rightarrow> (string, 'c) result outcome" where
  "openDefaultDB E d = bind_outcome (default_dsn d) (\<lambda>dsn.
     Returns (dm_open E (if do_type d = ''mysql'' then ''mysql'' else ''postgres'') dsn))"

definition createDB :: "'c admin_ext \<Rightarrow> db_option \<Rightarrow> string option outcome" where
  "createDB E d = bind_outcome (openDefaultDB E d) (\<lambda>r. Returns (case r of
     Inl err \<Rightarrow> Some err
   | Inr c \<Rightarrow> (case dm_sql E c of Some err \<Rightarrow> Some err | None \<Rightarrow>
       if do_type d = ''mysql'' then dm_exec E c (''CREATE DATABASE IF NOT EXISTS '' @ do_db d @ '';'')
       else if do_type d = ''pg'' \<or> do_type d = ''postgres'' then
         (case dm_exists E c (do_db d) of
            Inl err \<Rightarrow> Some err
          | Inr cc \<Rightarrow> if cc > 0 then None else dm_exec E c (''CREATE DATABASE '' @ do_db d @ '';''))
       else None)))"

definition dropDB :: "'c admin_ext \<Rightarrow> db_option \<Rightarrow> string option outcome" where
  "dropDB E d = bind_outcome (openDefaultDB E d) (\<lambda>r. Returns (case r of
     Inl err \<Rightarrow> Some err
   | Inr c \<Rightarrow> (case dm_sql E c of Some err \<Rightarrow> Some err | None \<Rightarrow>
       dm_exec E c (''DROP DATABASE IF EXISTS '' @ do_db d @ '';''))))"

definition Initialize :: "'c db_ext \<Rightarrow> 'a admin_ext \<Rightarrow> db_option \<Rightarrow> 'c connection outcome" where
  "Initialize E A opt = bind_outcome (if do_skip_create opt then Returns None else createDB A opt) (\<lambda>e. case e of
     Some err \<Rightarrow> Fatal (''GormDB create database error: '' @ err)
   | None \<Rightarrow> bind_outcome (dbInitiate E opt) (\<lambda>r. case r of
       Inl err \<Rightarrow> Fatal (''GormDB initialize error: '' @ err)
     | Inr c \<Rightarrow> Returns c))"

section \<open>The registry of models\<close>

text \<open>\<open>g_open\<close>: whether the handle has a connection. The table of a model comes from
  \<open>schema.Parse\<close>, which may fail.\<close>

record 'm gormdb =
  g_open :: bool
  g_models :: "string \<Rightarrow> 'm option"
  g_views :: "string \<Rightarrow> 'm option"

definition NewGormDB :: "'m gormdb" where
  "NewGormDB = \<lparr>g_open = False, g_models = Map.empty, g_views = Map.empty\<rparr>"

definition CheckDBNil :: "'m gormdb \<Rightarrow> string option" where
  "CheckDBNil g = (if \<not> g_open g then Some ''database is nil'' else None)"

definition ModelTableName :: "('m \<Rightarrow> (string, string) result) \<Rightarrow> 'm \<Rightarrow> string outcome" where
  "ModelTableName parse m = (case parse m of Inl err \<Rightarrow> Panics err | Inr t \<Rightarrow> Returns t)"

definition GormDB_ModelTableName :: "('m \<Rightarrow> (string, string) result) \<Rightarrow> 'm gormdb \<Rightarrow> 'm \<Rightarrow> string outcome" where
  "GormDB_ModelTableName parse g m = (case CheckDBNil g of
     Some err \<Rightarrow> Panics err | None \<Rightarrow> ModelTableName parse m)"

definition RegModel :: "('m \<Rightarrow> (string, string) result) \<Rightarrow> 'm \<Rightarrow> 'm gormdb \<Rightarrow> 'm gormdb outcome" where
  "RegModel parse m g = bind_outcome (GormDB_ModelTableName parse g m) (\<lambda>t.
     Returns (if g_models g t = None then g\<lparr>g_models := (g_models g)(t \<mapsto> m)\<rparr> else g))"

definition RegViewModel :: "('m \<Rightarrow> (string, string) result) \<Rightarrow> 'm \<Rightarrow> 'm gormdb \<Rightarrow> 'm gormdb outcome" where
  "RegViewModel parse m g = bind_outcome (GormDB_ModelTableName parse g m) (\<lambda>t.
     Returns (if g_views g t = None then g\<lparr>g_views := (g_views g)(t \<mapsto> m)\<rparr> else g))"

text \<open>\<open>RegModelBus\<close>: the instances \<open>ObjectTagInstances\<close> finds, registered in order.\<close>

fun RegModelBus :: "('m \<Rightarrow> (string, string) result) \<Rightarrow> 'm list \<Rightarrow> 'm gormdb \<Rightarrow> 'm gormdb outcome" where
  "RegModelBus parse [] g = Returns g"
| "RegModelBus parse (m # ms) g = bind_outcome (RegModel parse m g) (RegModelBus parse ms)"

definition mergeModels :: "(string \<Rightarrow> 'm option) \<Rightarrow> (string \<Rightarrow> 'm option) \<Rightarrow> string \<Rightarrow> 'm option" where
  "mergeModels m1 m2 = m1 ++ m2"

text \<open>\<open>util.NewValue\<close> (a fresh zero value of the model's type) is \<open>fresh\<close>.\<close>

definition GetFindModel :: "('m \<Rightarrow> 'v) \<Rightarrow> 'm gormdb \<Rightarrow> string \<Rightarrow> (string, 'v) result" where
  "GetFindModel fresh g table =
     (if table = [] then Inl ''the table is empty''
      else case mergeModels (g_models g) (g_views g) table of
        Some v \<Rightarrow> Inr (fresh v) | None \<Rightarrow> Inl ''table's model isn't found'')"

definition GetModel :: "('m \<Rightarrow> 'v) \<Rightarrow> 'm gormdb \<Rightarrow> string \<Rightarrow> (string, 'v) result" where
  "GetModel fresh g table =
     (if table = [] then Inl ''the table is empty''
      else case g_models g table of
        Some v \<Rightarrow> Inr (fresh v) | None \<Rightarrow> Inl ''table's model isn't found'')"

definition ModelByTableName :: "('m \<Rightarrow> 'v) \<Rightarrow> 'm gormdb \<Rightarrow> string \<Rightarrow> (string, 'v) result" where
  "ModelByTableName fresh g table = (case CheckDBNil g of
     Some err \<Rightarrow> Inl err
   | None \<Rightarrow> (case g_models g table of
       None \<Rightarrow> Inl (''model '' @ table @ '' not found'') | Some m \<Rightarrow> Inr (fresh m)))"

section \<open>Migration\<close>

datatype 'm migrate_arg = NilArg | BoolArg bool | ModelArg 'm

text \<open>What migration asks of gorm and of the models: \<open>AutoMigrate\<close>, the initial rows of a model
  that has them (\<open>ItfModelInitializer\<close>), the number of rows of a table, the insertion.\<close>

record ('m, 'd, 'b) migrate_ext =
  mg_auto :: "'m list \<Rightarrow> 'd \<Rightarrow> string option \<times> 'd"
  mg_init :: "'m \<Rightarrow> ('d \<Rightarrow> (string, 'b option) result) option"
  mg_count :: "string \<Rightarrow> 'd \<Rightarrow> (string, int) result"
  mg_create :: "string \<Rightarrow> 'b \<Rightarrow> 'd \<Rightarrow> string option \<times> 'd"

definition initializeModel ::
  "('m, 'd, 'b) migrate_ext \<Rightarrow> ('m \<Rightarrow> (string, string) result) \<Rightarrow> 'm gormdb \<Rightarrow> 'm
   \<Rightarrow> ('d \<Rightarrow> (string, 'b option) result) \<Rightarrow> 'd \<Rightarrow> (string option \<times> 'd) outcome" where
  "initializeModel E parse g m init d = bind_outcome (GormDB_ModelTableName parse g m) (\<lambda>t. Returns (
     case init d of
       Inl err \<Rightarrow> (Some err, d)
     | Inr None \<Rightarrow> (None, d)
     | Inr (Some beans) \<Rightarrow> (case mg_count E t d of
         Inl err \<Rightarrow> (Some err, d)
       | Inr count \<Rightarrow> if count > 0 then (None, d) else mg_create E t beans d)))"

fun collect_args :: "'m migrate_arg list \<Rightarrow> bool \<Rightarrow> 'm list \<Rightarrow> bool \<times> 'm list" where
  "collect_args [] migrate models = (migrate, models)"
| "collect_args (NilArg # vs) migrate models = collect_args vs migrate models"
| "collect_args (BoolArg b # vs) migrate models = collect_args vs b models"
| "collect_args (ModelArg m # vs) migrate models = collect_args vs migrate (models @ [m])"

text \<open>
  A call may end the process, and what it did to the database stays; so the result is how the
  call ended, and the database.
\<close>

fun init_models ::
  "('m, 'd, 'b) migrate_ext \<Rightarrow> ('m \<Rightarrow> (string, string) result) \<Rightarrow> 'm gormdb \<Rightarrow> 'm list \<Rightarrow> 'd \<Rightarrow> unit outcome \<times> 'd" where
  "init_models E parse g [] d = (Returns (), d)"
| "init_models E parse g (m # ms) d = (case mg_init E m of
     None \<Rightarrow> init_models E parse g ms d
   | Some init \<Rightarrow> (case initializeModel E parse g m init d of
       Returns (Some err, d) \<Rightarrow> (Fatal (''ItfModelInitializer data error: '' @ err), d)
     | Returns (None, d) \<Rightarrow> init_models E parse g ms d
     | Panics e \<Rightarrow> (Panics e, d)
     | Fatal e \<Rightarrow> (Fatal e, d)))"

text \<open>\<open>createMigrateLockFile\<close>: the error of \<open>os.WriteFile\<close> is dropped; \<open>written\<close> says whether there was none.\<close>

definition createMigrateLockFile :: "bool \<Rightarrow> bool \<Rightarrow> bool" where
  "createMigrateLockFile written lock \<longleftrightarrow> written \<or> lock"

text \<open>\<open>MigrateModels\<close>: \<open>order\<close> gives the registered models in the order Go walks the map,
  \<open>globals\<close> and \<open>bus\<close> are the package's variables, \<open>lock\<close> says whether the lock file exists.\<close>

definition MigrateModels ::
  "('m, 'd, 'b) migrate_ext \<Rightarrow> bool \<Rightarrow> ('m \<Rightarrow> (string, string) result) \<Rightarrow> ((string \<Rightarrow> 'm option) \<Rightarrow> 'm list)
   \<Rightarrow> 'm list \<Rightarrow> 'm list option \<Rightarrow> 'm migrate_arg list \<Rightarrow> 'm gormdb \<Rightarrow> bool \<times> 'd \<Rightarrow> 'm gormdb outcome \<times> bool \<times> 'd" where
  "MigrateModels E written parse order globals bus v g st = (case st of (lock, d) \<Rightarrow>
     case collect_args v False [] of (migrate, models) \<Rightarrow>
     (case bind_outcome (RegModelBus parse (models @ globals) g) (\<lambda>g.
        case bus of None \<Rightarrow> Returns g | Some ms \<Rightarrow> RegModelBus parse ms g) of
       Panics e \<Rightarrow> (Panics e, lock, d)
     | Fatal e \<Rightarrow> (Fatal e, lock, d)
     | Returns g \<Rightarrow>
       (let models = order (g_models g) in
        if length models = 0 then (Returns g, lock, d)
        else if lock \<or> \<not> migrate then (Returns g, lock, d)
        else (case mg_auto E models d of
          (Some e, d) \<Rightarrow> (Fatal (''GormDB AutoMigrate models error: '' @ e), lock, d)
        | (None, d) \<Rightarrow> (case init_models E parse g models d of
            (Returns _, d) \<Rightarrow> (Returns g, createMigrateLockFile written lock, d)
          | (Panics e, d) \<Rightarrow> (Panics e, lock, d)
          | (Fatal e, d) \<Rightarrow> (Fatal e, lock, d))))))"

text \<open>Calls one after the other, of one process or of several: each with its own handle, models and
  flags, on the same lock file and database.\<close>

record ('m, 'd, 'b) migrate_call =
  mc_ext :: "('m, 'd, 'b) migrate_ext"
  mc_written :: bool
  mc_parse :: "'m \<Rightarrow> (string, string) result"
  mc_order :: "(string \<Rightarrow> 'm option) \<Rightarrow> 'm list"
  mc_globals :: "'m list"
  mc_bus :: "'m list option"
  mc_args :: "'m migrate_arg list"
  mc_db :: "'m gormdb"

definition migrate_call :: "('m, 'd, 'b) migrate_call \<Rightarrow> bool \<times> 'd \<Rightarrow> 'm gormdb outcome \<times> bool \<times> 'd" where
  "migrate_call c = MigrateModels (mc_ext c) (mc_written c) (mc_parse c) (mc_order c) (mc_globals c) (mc_bus c) (mc_args c) (mc_db c)"

definition migrate_calls :: "('m, 'd, 'b) migrate_call list \<Rightarrow> bool \<times> 'd \<Rightarrow> bool \<times> 'd" where
  "migrate_calls = fold (\<lambda>c st. snd (migrate_call c st))"

text \<open>\<open>CreateIfNotExists\<close>: the count ignores errors (it stays 0).\<close>

definition CreateIfNotExists :: "('d \<Rightarrow> int) \<Rightarrow> ('d \<Rightarrow> string option \<times> 'd) \<Rightarrow> 'd \<Rightarrow> string option \<times> 'd" where
  "CreateIfNotExists count create d = (if count d > 0 then (Some ''record exists'', d) else create d)"

section \<open>Automatic deletion\<close>

record args_tag =
  at_auto_delete :: bool
  at_save :: string
  at_val :: int

definition defaultModelArgs :: args_tag where
  "defaultModelArgs = \<lparr>at_auto_delete = False, at_save = ''days'', at_val = 90\<rparr>"

definition tag_entry :: "(string \<Rightarrow> int) \<Rightarrow> args_tag \<Rightarrow> string \<Rightarrow> args_tag" where
  "tag_entry to_int ret v =
     (if v = [] then ret
      else let kv = strings_Split (strings_TrimSpace v) '':''; k = kv ! 0 in
      if k = ''auto_delete'' \<or> k = ''autoDelete'' then ret\<lparr>at_auto_delete := True\<rparr>
      else if k = ''save'' then
        (if length kv < 2 then ret
         else let saveVal = strings_TrimSpace (kv ! 1);
                  ret = (if saveVal = ''count'' \<or> saveVal = ''days'' then ret\<lparr>at_save := saveVal\<rparr> else ret);
                  ret = (if saveVal = ''count'' then ret\<lparr>at_val := 100000\<rparr> else ret);
                  ret = (if saveVal = ''days'' then ret\<lparr>at_val := 90\<rparr> else ret)
              in if length kv > 2 then
                   let val = to_int (kv ! 2) in if val > 0 then ret\<lparr>at_val := val\<rparr> else ret
                 else ret)
      else ret)"

definition modelTagParse :: "(string \<Rightarrow> int) \<Rightarrow> string \<Rightarrow> args_tag option" where
  "modelTagParse to_int tag =
     (if tag = [] then None
      else Some (foldl (tag_entry to_int) defaultModelArgs (strings_Split tag '';'')))"

text \<open>Queries on the table of a model: the id at an offset in ascending order (0 if there is
  none), deletion below an id, the number of rows from the \<open>n\<close>-th newest on, and the number of
  rows created before a time.\<close>

record 'd sql_ops =
  sq_id_at :: "string \<Rightarrow> int \<Rightarrow> 'd \<Rightarrow> nat"
  sq_delete_below :: "string \<Rightarrow> nat \<Rightarrow> 'd \<Rightarrow> 'd"
  sq_count_from :: "string \<Rightarrow> int \<Rightarrow> 'd \<Rightarrow> int"
  sq_count_before :: "string \<Rightarrow> int \<Rightarrow> 'd \<Rightarrow> int"

fun batch_loop :: "'d sql_ops \<Rightarrow> string \<Rightarrow> int \<Rightarrow> int \<Rightarrow> int list \<Rightarrow> 'd \<Rightarrow> 'd" where
  "batch_loop Q t remain loopCount [] d = d"
| "batch_loop Q t remain loopCount (i # is) d =
     (let currentMaxID = sq_id_at Q t (if remain > 0 \<and> i = loopCount then remain else 1000) d in
      if currentMaxID \<le> 0 then d
      else batch_loop Q t remain loopCount is (sq_delete_below Q t currentMaxID d))"

definition BatchDeleteFromTop :: "'d sql_ops \<Rightarrow> string \<Rightarrow> int \<Rightarrow> 'd \<Rightarrow> 'd" where
  "BatchDeleteFromTop Q t count d =
     (if count \<le> 0 then d
      else let loopCount = count sdiv 1000; remain = count smod 1000;
               loopCount = (if remain > 0 then loopCount + 1 else loopCount)
           in batch_loop Q t remain loopCount [1..loopCount] d)"

definition deleteByCount :: "'d sql_ops \<Rightarrow> string \<Rightarrow> int \<Rightarrow> 'd \<Rightarrow> 'd" where
  "deleteByCount Q t saveCount d =
     (if saveCount \<le> 0 then d
      else let count = sq_count_from Q t saveCount d in
           if count \<le> 0 then d else BatchDeleteFromTop Q t count d)"

text \<open>\<open>midnight n\<close>: the start of the day \<open>n\<close> days ago.\<close>

definition deleteByDays :: "'d sql_ops \<Rightarrow> (int \<Rightarrow> int) \<Rightarrow> string \<Rightarrow> int \<Rightarrow> 'd \<Rightarrow> 'd" where
  "deleteByDays Q midnight t days d =
     (if days \<le> 0 then d
      else let days = days - 1; count = sq_count_before Q t (midnight days) d in
           if count \<le> 0 then d else BatchDeleteFromTop Q t count d)"

definition args_delete :: "'d sql_ops \<Rightarrow> (int \<Rightarrow> int) \<Rightarrow> args_tag \<Rightarrow> string \<Rightarrow> 'd \<Rightarrow> 'd" where
  "args_delete Q midnight a t d =
     (if \<not> at_auto_delete a then d
      else if at_save a = ''days'' then deleteByDays Q midnight t (at_val a) d
      else if at_save a = ''count'' then deleteByCount Q t (at_val a) d
      else d)"

text \<open>\<open>AutoDelete\<close> over the fields of the bus: the tag and the table of each.\<close>

fun AutoDelete :: "(string \<Rightarrow> int) \<Rightarrow> 'd sql_ops \<Rightarrow> (int \<Rightarrow> int) \<Rightarrow> (string \<times> string) list \<Rightarrow> 'd \<Rightarrow> 'd" where
  "AutoDelete to_int Q midnight [] d = d"
| "AutoDelete to_int Q midnight ((tag, t) # flds) d =
     AutoDelete to_int Q midnight flds (case modelTagParse to_int tag of
       None \<Rightarrow> d | Some a \<Rightarrow> args_delete Q midnight a t d)"

section \<open>Pool limits\<close>

text \<open>Whatever the configuration says, the pool is opened within its limits: 1 to 2000
  connections, fewer idle than open, a lifetime of 1 to 3600 seconds, and an idle time below the
  lifetime; values that are legal already are kept.\<close>
theorem pool_limits:
  "let d' = pool_options d in
     1 \<le> do_max_open d' \<and> do_max_open d' \<le> 2000 \<and>
     0 \<le> do_max_idle d' \<and> do_max_idle d' < do_max_open d' \<and>
     1 \<le> do_max_lifetime d' \<and> do_max_lifetime d' \<le> 3600 \<and>
     0 \<le> do_max_idle_time d' \<and> do_max_idle_time d' < do_max_lifetime d' \<and>
     (1 \<le> do_max_open d \<and> do_max_open d \<le> 2000 \<and> 1 \<le> do_max_idle d \<and> do_max_idle d < do_max_open d \<and>
      1 \<le> do_max_lifetime d \<and> do_max_lifetime d \<le> 3600 \<and> 1 \<le> do_max_idle_time d \<and>
      do_max_idle_time d < do_max_lifetime d \<longrightarrow> d' = d)"
proof -
  define op where "op = (if do_max_open d \<le> 0 then 200 else if do_max_open d \<ge> 2000 then 2000 else do_max_open d)"
  define li where "li = (if do_max_lifetime d \<le> 0 then 30 else if do_max_lifetime d \<ge> 3600 then 3600 else do_max_lifetime d)"
  have op: "1 \<le> op" "op \<le> 2000" by (simp_all add: op_def)
  have li: "1 \<le> li" "li \<le> 3600" by (simp_all add: li_def)
  have half: "0 \<le> op sdiv 2" "op sdiv 2 < op" using op(1) by (simp_all add: signed_divide_int_def)
  have part: "wrap64 (li * 80) = li * 80" "0 \<le> (li * 80) sdiv 100" "(li * 80) sdiv 100 < li"
    using li by (simp_all add: wrap64_id signed_divide_int_def)
  have idle: "0 \<le> (if x \<ge> op then op sdiv 2 else x) \<and> (if x \<ge> op then op sdiv 2 else x) < op" if "0 < x" for x
    using half that by auto
  have time: "0 \<le> (if x \<ge> li then (li * 80) sdiv 100 else x) \<and> (if x \<ge> li then (li * 80) sdiv 100 else x) < li" if "0 < x" for x
    using part that by auto
  have d': "pool_options d = d\<lparr>
      do_max_idle := (let x = if do_max_idle d \<le> 0 then 50 else do_max_idle d in if x \<ge> op then op sdiv 2 else x),
      do_max_open := op, do_max_lifetime := li,
      do_max_idle_time := (let x = if do_max_idle_time d \<le> 0 then 30 else do_max_idle_time d in
        if x \<ge> li then (li * 80) sdiv 100 else x)\<rparr>"
  proof -
    have "(let m = if do_max_open d \<le> 0 then 200 else do_max_open d in if m \<ge> 2000 then 2000 else m) = op"
      "(let l = if do_max_lifetime d \<le> 0 then 30 else do_max_lifetime d in if l \<ge> 3600 then 3600 else l) = li"
      by (simp_all add: op_def li_def Let_def)
    then show ?thesis unfolding pool_options_def Let_def by (simp only: part(1))
  qed
  have same: "do_max_open d = op" if "1 \<le> do_max_open d" "do_max_open d \<le> 2000" using that by (simp add: op_def)
  have same': "do_max_lifetime d = li" if "1 \<le> do_max_lifetime d" "do_max_lifetime d \<le> 3600" using that by (simp add: li_def)
  show ?thesis
    using op li idle [of "if do_max_idle d \<le> 0 then 50 else do_max_idle d"]
      time [of "if do_max_idle_time d \<le> 0 then 30 else do_max_idle_time d"] same same'
    unfolding d' Let_def by simp
qed

theorem pool_limits_witness:
  "let d = \<lparr>do_type = ''mysql'', do_host = [], do_port = [], do_user = [], do_pwd = [], do_db = [], do_skip_cache = True,
     do_cache_type = [], do_max_idle = 5, do_max_open = 10, do_max_lifetime = 60, do_max_idle_time = 30, do_skip_create = True\<rparr>
   in pool_options d = d"
  using pool_limits [of "\<lparr>do_type = ''mysql'', do_host = [], do_port = [], do_user = [], do_pwd = [], do_db = [], do_skip_cache = True,
     do_cache_type = [], do_max_idle = 5, do_max_open = 10, do_max_lifetime = 60, do_max_idle_time = 30, do_skip_create = True\<rparr>"]
  by (simp add: Let_def)

section \<open>The maintenance database\<close>

lemma Contains_Cons: "strings_Contains (c # s) p \<longleftrightarrow> strings_HasPrefix (c # s) p \<or> strings_Contains s p"
  by (simp add: strings_Contains_def)

lemma no_match: "\<not> strings_Contains s pre \<Longrightarrow> pre \<noteq> [] \<Longrightarrow> replace_words pre suf new s = s"
proof (induction s)
  case (Cons c s)
  then have "\<not> strings_HasPrefix (c # s) pre" "\<not> strings_Contains s pre" by (auto simp: Contains_Cons)
  with Cons show ?case by simp
qed simp

lemma match_head:
  assumes "pre \<noteq> []" "w \<noteq> []" "list_all is_word w" "rest = [] \<or> \<not> is_word (hd rest)" "strings_HasPrefix rest suf"
  shows "replace_words pre suf new (pre @ w @ rest) = new @ replace_words pre suf new (drop (length suf) rest)"
proof -
  obtain c cs where c: "pre @ w @ rest = c # cs" using assms(1) by (cases pre) auto
  have "takeWhile is_word (w @ rest) = w" "dropWhile is_word (w @ rest) = rest"
    using assms(3,4) by (cases rest; simp add: takeWhile_append dropWhile_append list_all_iff)+
  moreover have "strings_HasPrefix (c # cs) pre" "drop (length pre) (c # cs) = w @ rest" by (simp_all add: c [symmetric])
  ultimately have "replace_words pre suf new (c # cs) = new @ replace_words pre suf new (drop (length suf) rest)"
    using assms(2,5) by (subst replace_words.simps) (simp add: Let_def)
  then show ?thesis by (simp add: c)
qed

text \<open>A character outside the first literal stops a match.\<close>

lemma match_after:
  assumes "\<not> strings_Contains a pre" "c \<notin> set pre" "pre \<noteq> []"
  shows "replace_words pre suf new (a @ c # s) = a @ c # replace_words pre suf new s"
  using assms(1)
proof (induction a)
  case Nil
  have "\<not> strings_HasPrefix (c # s) pre" using assms(2,3) by (cases pre) (auto simp: HasPrefix_iff)
  then show ?case by simp
next
  case (Cons x a)
  have "\<not> strings_HasPrefix ((x # a) @ c # s) pre"
  proof
    assume "strings_HasPrefix ((x # a) @ c # s) pre"
    then obtain t where t: "(x # a) @ c # s = pre @ t" by (auto simp: HasPrefix_iff)
    from append_eq_append_conv2 [THEN iffD1, OF t]
    consider us where "x # a = pre @ us" | us where "pre = (x # a) @ us" "c # s = us @ t" by blast
    then show False
    proof cases
      case 1
      with Cons.prems show False by (auto simp: Contains_iff intro: exI [of _ "[]"])
    next
      case 2
      have "strings_Contains (x # a) (x # a)" by (auto simp: Contains_iff intro: exI [of _ "[]"])
      with 2 assms(2) Cons.prems show False by (cases us) auto
    qed
  qed
  moreover have "\<not> strings_Contains a pre" using Cons.prems by (auto simp: Contains_Cons)
  ultimately show ?case using Cons.IH by simp
qed

lemma skip_chars: "pre \<noteq> [] \<Longrightarrow> hd pre \<notin> set a \<Longrightarrow> replace_words pre suf new (a @ x) = a @ replace_words pre suf new x"
proof (induction a)
  case (Cons c a)
  then have "\<not> strings_HasPrefix (c # a @ x) pre" by (cases pre) (auto simp: HasPrefix_iff)
  with Cons show ?case by simp
qed simp

lemma match_line: "\<not> strings_Contains a ''dbname='' \<Longrightarrow>
   replace_words ''dbname='' suf new (a @ newline @ s) = a @ newline @ replace_words ''dbname='' suf new s"
  using match_after [of a "''dbname=''" "CHR 0x0A" suf new s] by (simp add: newline_def)

declare replace_words.simps(2) [simp del]

text \<open>\<open>createDB\<close> and \<open>dropDB\<close> never talk to the application's own database: if its name is made
  of word characters, and nothing before it in the DSN looks like the part that names it, the
  DSN they open is the one of the maintenance database, with everything else unchanged.\<close>
theorem default_dsn_maintenance:
  assumes "do_db d \<noteq> []" "list_all is_word (do_db d)"
    and "do_type d = ''mysql'' \<Longrightarrow> CHR ''/'' \<notin> set (do_user d @ do_pwd d @ do_host d @ do_port d)"
    and "do_type d \<noteq> ''mysql'' \<Longrightarrow> do_type d = ''pg'' \<or> do_type d = ''postgres''"
    and "do_type d \<noteq> ''mysql'' \<Longrightarrow> \<not> strings_Contains (''host='' @ do_host d @ newline @ ''user='' @ do_user d @ newline @
       ''password='' @ do_pwd d) ''dbname='' \<and> \<not> strings_Contains (do_port d) ''dbname=''"
  shows "default_dsn d = parseDSN (d\<lparr>do_db := if do_type d = ''mysql'' then ''mysql'' else ''postgres''\<rparr>)"
proof (cases "do_type d = ''mysql''")
  case True
  let ?a = "do_user d @ '':'' @ do_pwd d @ ''@tcp('' @ do_host d @ '':'' @ do_port d @ '')''"
  let ?t = "''?charset=utf8mb4&collation=utf8mb4_bin&timeout=5s&loc=Local&parseTime=True''"
  have slash: "CHR ''/'' \<notin> set ?a" using assms(3) [OF True] by simp
  have a: "replace_words ''/'' ''?'' ''/mysql?'' (?a @ x) = ?a @ replace_words ''/'' ''?'' ''/mysql?'' x" for x
    by (rule skip_chars) (use slash in simp_all)
  have "replace_words ''/'' ''?'' ''/mysql?'' (''/'' @ do_db d @ ?t) = ''/mysql?'' @ replace_words ''/'' ''?'' ''/mysql?'' (drop 1 ?t)"
    using match_head [of "''/''" "do_db d" ?t "''?''" "''/mysql?''"] assms(1,2)
    by (simp add: is_word_def is_upper_def is_lower_def is_digit_def strings_HasPrefix_def)
  moreover have "replace_words ''/'' ''?'' ''/mysql?'' (drop 1 ?t) = drop 1 ?t"
    using skip_chars [of "''/''" "drop 1 ?t" "''?''" "''/mysql?''" "[]"] by simp
  ultimately show ?thesis using a [of "''/'' @ do_db d @ ?t"] True by (simp add: default_dsn_def parseDSN_def)
next
  case False
  let ?r = "replace_words ''dbname='' [] ''dbname=postgres''"
  let ?a = "''host='' @ do_host d @ newline @ ''user='' @ do_user d @ newline @ ''password='' @ do_pwd d"
  let ?e = "''sslmode=disable'' @ newline @ ''TimeZone=Asia/Shanghai''"
  let ?p = "newline @ ''port='' @ do_port d @ newline @ ?e"
  have e: "?r ?e = ?e" by (rule no_match) (simp_all add: newline_def strings_Contains_def strings_HasPrefix_def)
  have "?r ((newline @ ''port='') @ do_port d @ newline @ ?e) = (newline @ ''port='') @ ?r (do_port d @ newline @ ?e)"
    by (rule skip_chars) (simp_all add: newline_def)
  moreover have "?r (do_port d @ newline @ ?e) = do_port d @ newline @ ?r ?e"
    by (rule match_line) (use assms(5) False in blast)
  ultimately have p: "?r ?p = ?p" unfolding e by (simp only: append_assoc)
  have m: "?r (''dbname='' @ do_db d @ ?p) = ''dbname=postgres'' @ ?r (drop (length ([] :: string)) ?p)"
    by (rule match_head) (use assms(1,2) in \<open>simp_all add: newline_def strings_HasPrefix_def is_word_def is_upper_def is_lower_def is_digit_def\<close>)
  have "?r (?a @ newline @ ''dbname='' @ do_db d @ ?p) = ?a @ newline @ ?r (''dbname='' @ do_db d @ ?p)"
    using match_line [of ?a "[]" "''dbname=postgres''" "''dbname='' @ do_db d @ ?p"] assms(5) False
    by (simp only: append_assoc) blast
  then have "?r (?a @ newline @ ''dbname='' @ do_db d @ ?p) = ?a @ newline @ ''dbname=postgres'' @ ?p" unfolding m list.size drop_0 p .
  with False assms(4) show ?thesis by (auto simp: default_dsn_def parseDSN_def)
qed

theorem default_dsn_maintenance_witness:
  "default_dsn \<lparr>do_type = ''mysql'', do_host = ''h'', do_port = ''3306'', do_user = ''root'', do_pwd = ''pw'', do_db = ''shop'',
     do_skip_cache = True, do_cache_type = [], do_max_idle = 0, do_max_open = 0, do_max_lifetime = 0, do_max_idle_time = 0,
     do_skip_create = False\<rparr> =
   Returns ''root:pw@tcp(h:3306)/mysql?charset=utf8mb4&collation=utf8mb4_bin&timeout=5s&loc=Local&parseTime=True''"
  using default_dsn_maintenance [of "\<lparr>do_type = ''mysql'', do_host = ''h'', do_port = ''3306'', do_user = ''root'', do_pwd = ''pw'',
     do_db = ''shop'', do_skip_cache = True, do_cache_type = [], do_max_idle = 0, do_max_open = 0, do_max_lifetime = 0,
     do_max_idle_time = 0, do_skip_create = False\<rparr>"]
  by (simp add: parseDSN_def is_word_def is_upper_def is_lower_def)

text \<open>A name with a hyphen is not matched: \<open>createDB\<close> then tries to connect to the database it is to
  create.\<close>

lemma hyphen_keeps_database:
  "default_dsn \<lparr>do_type = ''mysql'', do_host = ''h'', do_port = ''1'', do_user = ''u'', do_pwd = ''p'', do_db = ''my-shop'',
     do_skip_cache = s, do_cache_type = c, do_max_idle = a, do_max_open = b, do_max_lifetime = e, do_max_idle_time = f,
     do_skip_create = g\<rparr> =
   Returns ''u:p@tcp(h:1)/my-shop?charset=utf8mb4&collation=utf8mb4_bin&timeout=5s&loc=Local&parseTime=True''"
  by (simp add: default_dsn_def parseDSN_def replace_words.simps strings_HasPrefix_def Let_def is_word_def
      is_upper_def is_lower_def is_digit_def)

section \<open>What is deleted\<close>

text \<open>The server's answers: \<open>ids\<close> lists the ids of a table in ascending order.\<close>

definition sql_laws :: "'d sql_ops \<Rightarrow> (string \<Rightarrow> 'd \<Rightarrow> nat list) \<Rightarrow> bool" where
  "sql_laws Q ids \<longleftrightarrow>
     (\<forall>t d. sorted_wrt (<) (ids t d) \<and> 0 \<notin> set (ids t d)) \<and>
     (\<forall>t k d. sq_id_at Q t k d = (if 0 \<le> k \<and> k < int (length (ids t d)) then ids t d ! nat k else 0)) \<and>
     (\<forall>t t' m d. ids t' (sq_delete_below Q t m d) = (if t' = t then filter (\<lambda>i. m \<le> i) (ids t d) else ids t' d)) \<and>
     (\<forall>t n d. 0 \<le> n \<longrightarrow> sq_count_from Q t n d = int (length (ids t d) - nat n))"

lemma filter_from: "sorted_wrt (<) l \<Longrightarrow> k < length l \<Longrightarrow> filter (\<lambda>i. l ! k \<le> i) l = drop k (l :: nat list)"
proof (induction l arbitrary: k)
  case (Cons x l)
  show ?case
  proof (cases k)
    case 0
    with Cons.prems have "filter (\<lambda>i. x \<le> i) l = l" by (auto intro!: filter_True)
    with 0 show ?thesis by simp
  next
    case (Suc j)
    with Cons.prems have "x < l ! j" "sorted_wrt (<) l" "j < length l" by auto
    with Cons.IH [of j] Suc show ?thesis by simp
  qed
qed simp

text \<open>What one call leaves: all but the first \<open>count\<close> rows if there are more than that, and
  otherwise what lies behind the last full batch of a thousand.\<close>

definition left_after :: "nat \<Rightarrow> nat list \<Rightarrow> nat list" where
  "left_after c l = drop (if c < length l then c else 1000 * ((length l - 1) div 1000)) l"

lemma left_after_small: "length l \<le> 1000 \<Longrightarrow> length l \<le> c \<Longrightarrow> left_after c l = l"
  by (cases l) (auto simp: left_after_def)

lemma left_after_batch:
  assumes "1000 < length l" shows "left_after c (drop 1000 l) = left_after (1000 + c) l"
proof -
  have "(length l - 1) div 1000 = Suc ((length l - 1001) div 1000)" 
  proof -
    have "length l - 1 = 1000 + (length l - 1001)" using assms by simp
    then have "(length l - 1) div 1000 = (1000 + (length l - 1001)) div 1000" by (rule arg_cong)
    then show ?thesis by simp
  qed
  with assms show ?thesis by (auto simp: left_after_def add.commute)
qed

text \<open>One turn of the loop.\<close>

lemma batch_turn:
  assumes "sql_laws Q ids" "0 \<le> k"
  shows "if sq_id_at Q t k d = 0 then length (ids t d) \<le> nat k
     else nat k < length (ids t d) \<and> ids t (sq_delete_below Q t (sq_id_at Q t k d) d) = drop (nat k) (ids t d)"
proof (cases "nat k < length (ids t d)")
  case True
  then have "k < int (length (ids t d))" using assms(2) by simp
  then have i: "sq_id_at Q t k d = ids t d ! nat k" using assms by (simp add: sql_laws_def)
  moreover have "ids t d ! nat k \<noteq> 0" using assms(1) True nth_mem unfolding sql_laws_def by metis
  ultimately show ?thesis using assms(1) True filter_from [of "ids t d" "nat k"] by (simp add: sql_laws_def)
next
  case False
  with assms show ?thesis by (auto simp: sql_laws_def)
qed

lemma batch_loop_left:
  assumes "sql_laws Q ids" and r: "0 \<le> r" "r < 1000"
  defines "c j \<equiv> 1000 * j + (if 0 < r then nat r else 1000)"
  shows "ids t (batch_loop Q t r n [n - int j..n] d) = left_after (c j) (ids t d)"
proof (induction j arbitrary: d)
  case 0
  let ?k = "if 0 < r then r else 1000"
  have l: "[n - int 0..n] = [n]" by simp
  show ?case
    using batch_turn [OF assms(1), of ?k t d] r left_after_small [of "ids t d" "nat ?k"]
    unfolding l by (auto simp: Let_def left_after_def c_def split: if_splits)
next
  case (Suc j)
  have l: "[n - int (Suc j)..n] = (n - int (Suc j)) # [n - int j..n]" by (subst upto_rec1) auto
  note turn = batch_turn [OF assms(1), of 1000 t d]
  have c: "c (Suc j) = 1000 + c j" by (simp add: c_def)
  have step: "batch_loop Q t r n [n - int (Suc j)..n] d = (if sq_id_at Q t 1000 d = 0 then d
      else batch_loop Q t r n [n - int j..n] (sq_delete_below Q t (sq_id_at Q t 1000 d) d))"
    unfolding l by (simp add: Let_def)
  show ?case
  proof (cases "sq_id_at Q t 1000 d = 0")
    case True
    with turn have "length (ids t d) \<le> 1000" by simp
    with True left_after_small [of "ids t d" "1000 + c j"] show ?thesis unfolding step c by simp
  next
    case False
    with turn Suc left_after_batch [of "ids t d" "c j"] show ?thesis unfolding step c by simp
  qed
qed

lemma batch_loop_other:
  "sql_laws Q ids \<Longrightarrow> t' \<noteq> t \<Longrightarrow> ids t' (batch_loop Q t r n is d) = ids t' d"
  by (induction "is" arbitrary: d) (auto simp: Let_def sql_laws_def)

lemma batches_count:
  assumes "0 < (c :: int)"
  shows "nat c = 1000 * nat (c div 1000 + (if 0 < c mod 1000 then 1 else 0) - 1) + (if 0 < c mod 1000 then nat (c mod 1000) else 1000)"
proof -
  obtain q r where q: "c div 1000 = q" and r: "c mod 1000 = r" by blast
  have c: "c = 1000 * q + r" "0 \<le> r" "r < 1000" using q r by auto
  have "nat c = 1000 * nat (q + (if 0 < r then 1 else 0) - 1) + (if 0 < r then nat r else 1000)"
  proof (cases "0 < r")
    case True
    with assms c have "0 \<le> q" by linarith
    with True c show ?thesis by (simp add: nat_add_distrib nat_mult_distrib)
  next
    case False
    with assms c have "0 < q" by linarith
    with False c have "c = 1000 * (q - 1) + 1000" by (simp add: algebra_simps)
    with \<open>0 < q\<close> have "nat c = nat (1000 * (q - 1)) + 1000" by simp
    with False \<open>0 < q\<close> show ?thesis by (simp add: nat_mult_distrib)
  qed
  then show ?thesis unfolding q r .
qed

lemma BatchDelete_left:
  assumes "sql_laws Q ids"
  shows "ids t' (BatchDeleteFromTop Q t count d) = (if t' = t \<and> 0 < count then left_after (nat count) (ids t d) else ids t' d)"
proof (cases "0 < count")
  case True
  let ?r = "count smod 1000" let ?n = "count sdiv 1000 + (if 0 < ?r then 1 else 0)"
  have c: "?r = count mod 1000" "count sdiv 1000 = count div 1000"
    using True by (simp_all add: signed_modulo_int_def signed_divide_int_def)
  then have r: "0 \<le> ?r" "?r < 1000" by simp_all
  have n: "0 < ?n"
  proof (cases "0 < ?r")
    case False
    with r(1) have "?r = 0" by simp
    with c(1) mult_div_mod_eq [of 1000 count] have "count = 1000 * (count div 1000)" by simp
    with True have "0 < count div 1000" by linarith
    with False c show ?thesis by simp
  next
    case r: True
    have "0 \<le> count div 1000" using True by simp
    with r c show ?thesis by simp
  qed
  have B: "BatchDeleteFromTop Q t count d = batch_loop Q t ?r ?n [1..?n] d"
    using True by (simp add: BatchDeleteFromTop_def Let_def)
  have one: "?n - int (nat (?n - 1)) = 1" using n by simp
  have cnt: "nat count = 1000 * nat (?n - 1) + (if 0 < ?r then nat ?r else 1000)"
    unfolding c by (rule batches_count [OF True])
  have "ids t (BatchDeleteFromTop Q t count d) = left_after (nat count) (ids t d)"
    using batch_loop_left [OF assms r, of t ?n "nat (?n - 1)" d] unfolding one B cnt .
  with batch_loop_other [OF assms] True show ?thesis unfolding B by auto
qed (simp add: BatchDeleteFromTop_def)

text \<open>A batched deletion of the oldest \<open>count\<close> rows deletes exactly those when there are more
  rows than that; but when \<open>count\<close> covers the whole table, the rows behind the last full
  thousand stay. Other tables are not touched.\<close>
theorem BatchDeleteFromTop_left:
  assumes "sql_laws Q ids" "0 < count"
  shows "ids t (BatchDeleteFromTop Q t count d) = (if nat count < length (ids t d) then drop (nat count) (ids t d)
      else drop (1000 * ((length (ids t d) - 1) div 1000)) (ids t d)) \<and>
    (t' \<noteq> t \<longrightarrow> ids t' (BatchDeleteFromTop Q t count d) = ids t' d)"
  using BatchDelete_left [OF assms(1), of t t count d] BatchDelete_left [OF assms(1), of t' t count d] assms(2)
  by (simp add: left_after_def)

text \<open>A server with tables as lists of ids.\<close>

definition demo_sql :: "(string \<Rightarrow> nat set) sql_ops" where
  "demo_sql = \<lparr>sq_id_at = (\<lambda>t k d. let l = sorted_list_of_set {i \<in> d t. 0 < i \<and> i < 5000} in
       if 0 \<le> k \<and> k < int (length l) then l ! nat k else 0),
     sq_delete_below = (\<lambda>t m d. d(t := {i \<in> d t. m \<le> i})),
     sq_count_from = (\<lambda>t n d. int (card {i \<in> d t. 0 < i \<and> i < 5000} - nat n)),
     sq_count_before = (\<lambda>t x d. 0)\<rparr>"

definition demo_ids :: "string \<Rightarrow> (string \<Rightarrow> nat set) \<Rightarrow> nat list" where
  "demo_ids t d = sorted_list_of_set {i \<in> d t. 0 < i \<and> i < 5000}"

lemma filter_sorted_set: "finite A \<Longrightarrow> filter P (sorted_list_of_set A) = sorted_list_of_set {i \<in> A. P i}"
  by (rule sorted_distinct_set_unique) (auto simp: sorted_wrt_filter)

lemma demo_sql_laws: "sql_laws demo_sql demo_ids"
proof -
  have "{i. (i \<in> d t \<and> m \<le> i) \<and> 0 < i \<and> i < 5000} = {i \<in> {i \<in> d t. 0 < i \<and> i < 5000}. m \<le> i}" for m t and d :: "string \<Rightarrow> nat set"
    by auto
  moreover have strict_sorted: "sorted_wrt (<) (sorted_list_of_set A)" for A :: "nat set" by simp
  ultimately show ?thesis
    by (auto simp: sql_laws_def demo_sql_def demo_ids_def Let_def filter_sorted_set strict_sorted)
qed

text \<open>Two rows are asked for, three are there; then all three.\<close>
theorem BatchDeleteFromTop_left_witness:
  "demo_ids ''log'' (BatchDeleteFromTop demo_sql ''log'' 2 (\<lambda>_. {3, 5, 9})) = [9] \<and>
   demo_ids ''log'' (BatchDeleteFromTop demo_sql ''log'' 3 (\<lambda>_. {3, 5, 9})) = [3, 5, 9]"
proof -
  have "{i \<in> {3, 5, 9}. 0 < i \<and> i < 5000} = {3, 5, 9 :: nat}" by auto
  then have "demo_ids ''log'' (\<lambda>_. {3, 5, 9}) = [3, 5, 9]" by (simp add: demo_ids_def)
  with BatchDeleteFromTop_left [OF demo_sql_laws, of 2 "''log''" "\<lambda>_. {3, 5, 9}"]
    BatchDeleteFromTop_left [OF demo_sql_laws, of 3 "''log''" "\<lambda>_. {3, 5, 9}"] show ?thesis by simp
qed

lemma tag_valid:
  "case modelTagParse to_int tag of None \<Rightarrow> tag = [] | Some a \<Rightarrow>
     at_save a \<in> {''days'', ''count''} \<and> 0 < at_val a \<and>
     (at_auto_delete a \<longleftrightarrow> (\<exists>v \<in> set (strings_Split tag '';''). v \<noteq> [] \<and>
        strings_Split (strings_TrimSpace v) '':'' ! 0 \<in> {''auto_delete'', ''autoDelete''}))"
proof -
  have "at_save (foldl (tag_entry to_int) a vs) \<in> {''days'', ''count''} \<and> 0 < at_val (foldl (tag_entry to_int) a vs) \<and>
     (at_auto_delete (foldl (tag_entry to_int) a vs) \<longleftrightarrow> at_auto_delete a \<or> (\<exists>v \<in> set vs. v \<noteq> [] \<and>
        strings_Split (strings_TrimSpace v) '':'' ! 0 \<in> {''auto_delete'', ''autoDelete''}))"
    if "at_save a \<in> {''days'', ''count''}" "0 < at_val a" for a vs
    using that
  proof (induction vs arbitrary: a)
    case (Cons v vs)
    have "at_save (tag_entry to_int a v) \<in> {''days'', ''count''} \<and> 0 < at_val (tag_entry to_int a v)"
      using Cons.prems by (auto simp: tag_entry_def Let_def)
    moreover have "at_auto_delete (tag_entry to_int a v) \<longleftrightarrow> at_auto_delete a \<or>
       v \<noteq> [] \<and> strings_Split (strings_TrimSpace v) '':'' ! 0 \<in> {''auto_delete'', ''autoDelete''}"
      by (auto simp: tag_entry_def Let_def)
    ultimately show ?case using Cons.IH [of "tag_entry to_int a v"] by auto
  qed simp
  from this [of defaultModelArgs] show ?thesis
    by (auto simp: modelTagParse_def defaultModelArgs_def)
qed

text \<open>C28: Whatever the tag of a model says, what is parsed from it is a valid instruction: the kind is
  one of the two \<open>delete\<close> knows and the number is positive; nothing is deleted automatically
  unless one of the tag's entries asks for it.\<close>
theorem modelTagParse_valid:
  "case modelTagParse to_int tag of None \<Rightarrow> tag = [] | Some a \<Rightarrow>
     at_save a \<in> {''days'', ''count''} \<and> 0 < at_val a \<and>
     (at_auto_delete a \<longleftrightarrow> (\<exists>v \<in> set (strings_Split tag '';''). v \<noteq> [] \<and>
        strings_Split (strings_TrimSpace v) '':'' ! 0 \<in> {''auto_delete'', ''autoDelete''}))"
  by (rule tag_valid)

lemma deleteByCount_left:
  assumes "sql_laws Q ids" "0 < n"
  shows "ids t' (deleteByCount Q t n d) = (if t' = t then drop (length (ids t d) - nat n) (ids t d) else ids t' d)"
proof -
  obtain c where c: "length (ids t d) - nat n = c" by blast
  then have "sq_count_from Q t n d = int c" using assms by (simp add: sql_laws_def)
  moreover have "c < length (ids t d)" if "0 < c" using c assms(2) that by linarith
  ultimately show ?thesis
    using BatchDelete_left [OF assms(1), of t' t "int c" d] assms(2) unfolding c
    by (auto simp: deleteByCount_def Let_def left_after_def)
qed

lemma args_delete_other:
  assumes "sql_laws Q ids" "t' \<noteq> t \<or> \<not> at_auto_delete a" shows "ids t' (args_delete Q midnight a t d) = ids t' d"
  using assms BatchDelete_left [OF assms(1), of t' t]
  by (auto simp: args_delete_def deleteByDays_def deleteByCount_def Let_def)

lemma AutoDelete_other:
  assumes "sql_laws Q ids"
    and "\<forall>(tag', t'') \<in> set flds. t'' = t' \<longrightarrow> (case modelTagParse to_int tag' of None \<Rightarrow> True | Some b \<Rightarrow> \<not> at_auto_delete b)"
  shows "ids t' (AutoDelete to_int Q midnight flds d) = ids t' d"
  using assms(2)
proof (induction flds arbitrary: d)
  case (Cons f flds)
  obtain tag t where f: "f = (tag, t)" by fastforce
  have "ids t' (case modelTagParse to_int tag of None \<Rightarrow> d | Some a \<Rightarrow> args_delete Q midnight a t d) = ids t' d"
    using Cons.prems args_delete_other [OF assms(1)] by (auto simp: f split: option.splits)
  with Cons f show ?case by simp
qed simp

lemma AutoDelete_laws:
  assumes "sql_laws Q ids" "distinct (map snd flds)"
    and "(tag, t) \<in> set flds" "modelTagParse to_int tag = Some a" "at_auto_delete a" "at_save a = ''count''"
    and "\<forall>(tag', t'') \<in> set flds. t'' = t' \<longrightarrow> (case modelTagParse to_int tag' of None \<Rightarrow> True | Some b \<Rightarrow> \<not> at_auto_delete b)"
  shows "ids t (AutoDelete to_int Q midnight flds d) = drop (length (ids t d) - nat (at_val a)) (ids t d) \<and>
    ids t' (AutoDelete to_int Q midnight flds d) = ids t' d"
proof (rule conjI [OF _ AutoDelete_other [OF assms(1,7)]])
  have val: "0 < at_val a" using tag_valid [where to_int = to_int and tag = tag] assms(4) by simp
  from assms(2,3) show "ids t (AutoDelete to_int Q midnight flds d) = drop (length (ids t d) - nat (at_val a)) (ids t d)"
  proof (induction flds arbitrary: d)
    case (Cons f flds)
    show ?case
    proof (cases "f = (tag, t)")
      case True
      with Cons.prems have "\<forall>(tag', t'') \<in> set flds. t'' = t \<longrightarrow>
          (case modelTagParse to_int tag' of None \<Rightarrow> True | Some b \<Rightarrow> \<not> at_auto_delete b)" by force
      from AutoDelete_other [OF assms(1) this] True assms(4-6) deleteByCount_left [OF assms(1) val] show ?thesis
        by (simp add: args_delete_def)
    next
      case False
      obtain tag' t'' where f: "f = (tag', t'')" by fastforce
      with Cons.prems False have t: "t \<noteq> t''" "(tag, t) \<in> set flds" by force+
      have "ids t (case modelTagParse to_int tag' of None \<Rightarrow> d | Some a \<Rightarrow> args_delete Q midnight a t'' d) = ids t d"
        using args_delete_other [OF assms(1)] t(1) by (auto split: option.split)
      with Cons t f show ?thesis by simp
    qed
  qed simp
qed

text \<open>C13: Automatic deletion over a bus of models keeps the newest rows: a table whose tag saves by
  count has exactly the newest \<open>val\<close> rows left (all of them, if it has no more), and a table
  whose tag does not ask for deletion, or that is not on the bus, keeps every row.\<close>
theorem AutoDelete_keeps_newest:
  assumes "sql_laws Q ids" "distinct (map snd flds)"
    and "(tag, t) \<in> set flds" "modelTagParse to_int tag = Some a" "at_auto_delete a" "at_save a = ''count''"
    and "\<forall>(tag', t'') \<in> set flds. t'' = t' \<longrightarrow> (case modelTagParse to_int tag' of None \<Rightarrow> True | Some b \<Rightarrow> \<not> at_auto_delete b)"
  shows "ids t (AutoDelete to_int Q midnight flds d) = drop (length (ids t d) - nat (at_val a)) (ids t d) \<and>
    ids t' (AutoDelete to_int Q midnight flds d) = ids t' d"
  by (rule AutoDelete_laws [OF assms])

theorem AutoDelete_keeps_newest_witness:
  "let d = AutoDelete (\<lambda>s. if s = ''2'' then 2 else 0) demo_sql (\<lambda>n. n) [(''auto_delete;save:count:2'', ''log''), ([], ''usr'')] (\<lambda>_. {3, 5, 9})
   in demo_ids ''log'' d = [5, 9] \<and> demo_ids ''usr'' d = [3, 5, 9]"
proof -
  have "{i \<in> {3, 5, 9}. 0 < i \<and> i < 5000} = {3, 5, 9 :: nat}" by auto
  then have "demo_ids t (\<lambda>_. {3, 5, 9}) = [3, 5, 9]" for t by (simp add: demo_ids_def)
  moreover have "modelTagParse (\<lambda>s. if s = ''2'' then 2 else 0) ''auto_delete;save:count:2'' =
      Some \<lparr>at_auto_delete = True, at_save = ''count'', at_val = 2\<rparr>"
    by (simp add: modelTagParse_def tag_entry_def defaultModelArgs_def strings_Split_def split_on.simps strings_HasPrefix_def
        strings_TrimSpace_def is_space_def Let_def)
  moreover have "modelTagParse (\<lambda>s. if s = ''2'' then 2 else 0) [] = None" by (simp add: modelTagParse_def)
  ultimately show ?thesis
    using AutoDelete_keeps_newest [OF demo_sql_laws, of "[(''auto_delete;save:count:2'', ''log''), ([], ''usr'')]"
      "''auto_delete;save:count:2''" "''log''" "\<lambda>s. if s = ''2'' then 2 else 0" "\<lparr>at_auto_delete = True, at_save = ''count'', at_val = 2\<rparr>"
      "''usr''" "\<lambda>n. n" "\<lambda>_. {3, 5, 9}"]
    by (simp add: Let_def)
qed

section \<open>Registration and migration\<close>

lemma RegModel_Returns: "RegModel parse m g = Returns g' \<longleftrightarrow> g_open g \<and> (\<exists>t. parse m = Inr t \<and>
   g' = (if g_models g t = None then g\<lparr>g_models := (g_models g)(t \<mapsto> m)\<rparr> else g))"
  by (auto simp: RegModel_def GormDB_ModelTableName_def CheckDBNil_def ModelTableName_def bind_outcome_def
      split: option.splits sum.splits outcome.splits)

lemma RegModelBus_models:
  "RegModelBus parse ms g = Returns g' \<Longrightarrow>
   g_open g' = g_open g \<and> g_views g' = g_views g \<and>
   g_models g' = map_of (map (\<lambda>m. (projr (parse m), m)) ms) ++ g_models g \<and> (\<forall>m \<in> set ms. \<exists>t. parse m = Inr t)"
proof (induction ms arbitrary: g)
  case (Cons m ms)
  then obtain g1 where g1: "RegModel parse m g = Returns g1" "RegModelBus parse ms g1 = Returns g'"
    by (auto simp: bind_outcome_Returns)
  from g1(1) obtain t where t: "parse m = Inr t"
    "g1 = (if g_models g t = None then g\<lparr>g_models := (g_models g)(t \<mapsto> m)\<rparr> else g)" by (auto simp: RegModel_Returns)
  from Cons.IH [OF g1(2)] t show ?case by (cases "g_models g t") (auto simp: fun_eq_iff map_add_def split: option.splits)
qed simp

text \<open>What is registered is found. After a sequence of registrations the model of a table is the
  first one registered for it, and a view registered under the same name hides it from
  \<open>GetFindModel\<close> but not from \<open>GetModel\<close>; a table nobody registered is an error in both.\<close>
theorem registered_models_found:
  assumes "RegModelBus parse ms g = Returns g1" "g_models g = Map.empty" "g_views g = Map.empty"
    and "RegViewModel parse v g1 = Returns g2" "t \<noteq> []"
  shows "GetModel fresh g2 t = (case find (\<lambda>m. parse m = Inr t) ms of
      Some m \<Rightarrow> Inr (fresh m) | None \<Rightarrow> Inl ''table's model isn't found'') \<and>
    GetFindModel fresh g2 t = (if parse v = Inr t then Inr (fresh v) else GetModel fresh g2 t)"
proof -
  note bus = RegModelBus_models [OF assms(1)]
  have g2: "g_models g2 = g_models g1 \<and> (\<exists>t'. parse v = Inr t' \<and> g_views g2 = [t' \<mapsto> v])"
    using assms(3,4) bus by (auto simp: RegViewModel_def GormDB_ModelTableName_def CheckDBNil_def ModelTableName_def
        bind_outcome_def split: option.splits sum.splits outcome.splits)
  have "map_of (map (\<lambda>m. (projr (parse m), m)) ms) t = find (\<lambda>m. parse m = Inr t) ms"
    using conjunct2 [OF conjunct2 [OF conjunct2 [OF bus]]] by (induction ms) auto
  with bus g2 assms(2,5) show ?thesis
    by (auto simp: GetModel_def GetFindModel_def mergeModels_def map_add_def split: option.splits if_splits)
qed

theorem registered_models_found_witness:
  "let parse = (\<lambda>m. Inr (fst m)); g = \<lparr>g_open = True, g_models = Map.empty, g_views = Map.empty\<rparr> in
   case bind_outcome (RegModelBus parse [(''user'', 1 :: nat), (''log'', 2), (''user'', 3)] g) (RegViewModel parse (''log'', 4)) of
     Returns g2 \<Rightarrow> GetModel snd g2 ''user'' = Inr 1 \<and> GetFindModel snd g2 ''log'' = Inr 4 | _ \<Rightarrow> False"
proof -
  let ?p = "\<lambda>m :: string \<times> nat. Inr (fst m) :: (string, string) result"
  let ?g = "\<lparr>g_open = True, g_models = Map.empty, g_views = Map.empty\<rparr> :: (string \<times> nat) gormdb"
  obtain g1 where g1: "RegModelBus ?p [(''user'', 1), (''log'', 2), (''user'', 3)] ?g = Returns g1" "g_open g1"
    by (simp add: RegModel_def GormDB_ModelTableName_def CheckDBNil_def ModelTableName_def)
  obtain g2 where g2: "RegViewModel ?p (''log'', 4) g1 = Returns g2"
    using g1(2) by (simp add: RegViewModel_def GormDB_ModelTableName_def CheckDBNil_def ModelTableName_def)
  from registered_models_found [OF g1(1) _ _ g2, of "''user''" snd] registered_models_found [OF g1(1) _ _ g2, of "''log''" snd]
  show ?thesis using g1(1) g2 by (simp add: Let_def)
qed

text \<open>Migration and initial rows: a table with rows is never filled.\<close>

lemma initializeModel_full:
  "mg_count E t d = Inr c \<Longrightarrow> 0 < c \<Longrightarrow> parse m = Inr t \<Longrightarrow> initializeModel E parse g m init d = Returns (e, d') \<Longrightarrow> d' = d"
  by (auto simp: initializeModel_def GormDB_ModelTableName_def CheckDBNil_def ModelTableName_def split: sum.splits option.splits if_splits)

text \<open>
  Every call is one of three: it leaves lock and database alone; it migrates without an error, after which the lock
  exists if it could be written; or it ends the process after \<open>AutoMigrate\<close>, and there is no lock.
\<close>

lemma migrate_call_cases:
  assumes "migrate_call c (lock, d) = (out, lock1, d1)"
  shows "lock1 = lock \<and> d1 = d \<or>
    \<not> lock \<and> fst (collect_args (mc_args c) False []) \<and>
      (if \<exists>g. out = Returns g then lock1 = mc_written c else \<not> lock1)"
proof -
  obtain migrate ms where c: "collect_args (mc_args c) False [] = (migrate, ms)" by fastforce
  show ?thesis
  proof (cases "bind_outcome (RegModelBus (mc_parse c) (ms @ mc_globals c) (mc_db c)) (\<lambda>g.
        case mc_bus c of None \<Rightarrow> Returns g | Some ms \<Rightarrow> RegModelBus (mc_parse c) ms g)")
    case r: (Returns g)
    obtain e d2 where a: "mg_auto (mc_ext c) (mc_order c (g_models g)) d = (e, d2)" by fastforce
    obtain o2 d3 where i: "init_models (mc_ext c) (mc_parse c) g (mc_order c (g_models g)) d2 = (o2, d3)" by fastforce
    show ?thesis
      using assms unfolding migrate_call_def MigrateModels_def
      by (auto simp: c r a i Let_def createMigrateLockFile_def split: if_splits option.splits outcome.splits)
  qed (use assms in \<open>simp_all add: migrate_call_def MigrateModels_def c\<close>)
qed

lemma locked_calls: "migrate_calls cs (True, d) = (True, d)"
proof (induction cs)
  case (Cons c cs)
  obtain out lock1 d1 where m: "migrate_call c (True, d) = (out, lock1, d1)" by (cases "migrate_call c (True, d)") auto
  with migrate_call_cases [OF m] Cons show ?case by (simp add: migrate_calls_def)
qed (simp add: migrate_calls_def)

text \<open>C27: A call changes the database only if there is no lock file and its last flag is true. When it returns and the lock
  file could be written, no later call changes the database or removes the lock, whatever its handle, its
  models and flags, in this process or in others, returned from or not. When the call ends the process, or the file cannot
  be written, which is not reported, there is no lock, and a later call may migrate the database again.
\<close>

theorem migrated_once:
  assumes "migrate_call c (lock, d) = (out, lock1, d1)" "d1 \<noteq> d"
  shows "\<not> lock \<and> fst (collect_args (mc_args c) False []) \<and>
    lock1 = ((\<exists>g. out = Returns g) \<and> mc_written c) \<and>
    (lock1 \<longrightarrow> (\<forall>cs. migrate_calls cs (lock1, d1) = (True, d1)))"
proof -
  have "\<not> lock \<and> fst (collect_args (mc_args c) False []) \<and> (if \<exists>g. out = Returns g then lock1 = mc_written c else \<not> lock1)"
    using migrate_call_cases [OF assms(1)] assms(2) by blast
  then show ?thesis using locked_calls by (cases "\<exists>g. out = Returns g") auto
qed

text \<open>A database that counts its migrations: once with a lock that is written, twice without.\<close>

definition demo_migrate :: "bool \<Rightarrow> (string, nat, nat) migrate_call" where
  "demo_migrate w = \<lparr>mc_ext =
     \<lparr>mg_auto = (\<lambda>ms d. (None, d + 1)), mg_init = (\<lambda>_. None), mg_count = (\<lambda>_ _. Inr 0), mg_create = (\<lambda>_ b d. (None, d))\<rparr>,
     mc_written = w, mc_parse = Inr, mc_order = (\<lambda>f. if f ''user'' = None then [] else [''user'']), mc_globals = [], mc_bus = None,
     mc_args = [ModelArg ''user'', BoolArg True], mc_db = \<lparr>g_open = True, g_models = Map.empty, g_views = Map.empty\<rparr>\<rparr>"

lemma demo_migrate_call: "migrate_call (demo_migrate w) (False, n) =
  (Returns \<lparr>g_open = True, g_models = [''user'' \<mapsto> ''user''], g_views = Map.empty\<rparr>, w, n + 1)"
  by (simp add: migrate_call_def demo_migrate_def MigrateModels_def RegModel_def GormDB_ModelTableName_def CheckDBNil_def
      ModelTableName_def createMigrateLockFile_def Let_def)

theorem migrated_once_witness:
  "snd (migrate_call (demo_migrate True) (False, 0)) = (True, 1) \<and>
   migrate_calls (replicate 5 (demo_migrate True)) (True, 1) = (True, 1) \<and>
   snd (migrate_call (demo_migrate False) (False, 0)) = (False, 1) \<and> snd (migrate_call (demo_migrate False) (False, 1)) = (False, 2)"
proof -
  have "(0 :: nat) + 1 \<noteq> 0" by simp
  from migrated_once [OF demo_migrate_call [of True 0] this] have "migrate_calls (replicate 5 (demo_migrate True)) (True, 0 + 1) = (True, 0 + 1)"
    by blast
  then show ?thesis by (simp add: demo_migrate_call)
qed

end
