(* ===== verification/Crud.thy ===== *)
theory Crud
  imports Prelude "HOL-Library.Multiset"
begin

text \<open>
  The generic operations on tables (\<open>mdb/curd.go\<close>, \<open>mdb/finds.go\<close>): create, delete and update
  of a bean given as a JSON object, find by id, and paginated find.

  gorm and the server are arguments: a transaction that fails leaves the database as it was
  (\<open>transaction\<close>), the other calls are the fields of \<open>curd_ext\<close> and \<open>find_ext\<close>. The values of
  a request are a Go map: an association list in the order the map is walked.
\<close>

text \<open>\<open>j2rpc.NewError(code, text)\<close> or another error.\<close>

datatype curd_error = Coded int string | Plain string

section \<open>Create, delete, update\<close>

record ('b, 'v, 'd) curd_ext =
  cx_find_model :: "string \<Rightarrow> (string, 'b) result"
  cx_new :: "'b \<Rightarrow> 'b"
  cx_to_bean :: "(string \<times> 'v) list \<Rightarrow> 'b \<Rightarrow> (string, 'b) result"
  cx_to_uint64 :: "'v option \<Rightarrow> nat"
  cx_is_true :: "'v \<Rightarrow> bool"
  cx_merge :: "'b \<Rightarrow> 'b \<Rightarrow> (string, 'b) result"
  cx_copy_version :: "'b \<Rightarrow> 'b \<Rightarrow> 'b option"
  cx_user_field :: "'b \<Rightarrow> bool"
  cx_take :: "nat \<Rightarrow> 'b \<Rightarrow> 'd \<Rightarrow> (string, 'b) result"
  cx_create :: "'b \<Rightarrow> 'd \<Rightarrow> string option \<times> 'd"
  cx_delete :: "'b \<Rightarrow> nat \<Rightarrow> string \<Rightarrow> 'd \<Rightarrow> string option \<times> 'd"
  cx_update :: "'b \<Rightarrow> string \<Rightarrow> string list \<Rightarrow> 'd \<Rightarrow> string option \<times> 'd"

record ('b, 'v) curd_params =
  cp_table :: string
  cp_values :: "(string \<times> 'v) list"
  cp_where :: string
  cp_model :: "'b option"
  cp_before :: "('b \<Rightarrow> 'b) option"
  cp_check :: "('b \<Rightarrow> string option) option"
  cp_check_pair :: "('b \<Rightarrow> 'b \<Rightarrow> string option) option"

definition transaction :: "('d \<Rightarrow> string option \<times> 'd) \<Rightarrow> 'd \<Rightarrow> curd_error option \<times> 'd" where
  "transaction f d = (case f d of (Some e, _) \<Rightarrow> (Some (Plain e), d) | (None, d') \<Rightarrow> (None, d'))"

definition AddWhereCondition :: "string \<Rightarrow> ('b, 'v) curd_params \<Rightarrow> ('b, 'v) curd_params" where
  "AddWhereCondition cond c =
     (let w = strings_TrimSpace (cp_where c) in
      if w \<noteq> [] then c\<lparr>cp_where := w @ '' AND '' @ cond\<rparr> else c\<lparr>cp_where := cond\<rparr>)"

definition AddUserIDCondition ::
  "('b, 'v, 'd) curd_ext \<Rightarrow> (nat \<Rightarrow> string) \<Rightarrow> 'b \<Rightarrow> nat \<Rightarrow> ('b, 'v) curd_params \<Rightarrow> ('b, 'v) curd_params" where
  "AddUserIDCondition E show_nat bean userID c =
     (if cx_user_field E bean then AddWhereCondition (''user_id = '' @ show_nat userID) c else c)"

definition ValueIDUint64 :: "('b, 'v, 'd) curd_ext \<Rightarrow> (string \<times> 'v) list \<Rightarrow> nat option" where
  "ValueIDUint64 E vals =
     (let idv = map_of vals ''id''; ident = cx_to_uint64 E idv in
      if idv \<noteq> None \<and> ident \<noteq> 0 then Some ident else None)"

text \<open>The message \<open>id\<close> followed by the UTF-8 of the words for \<open>not given\<close>.\<close>

definition no_id :: curd_error where
  "no_id = Coded 400 (''id'' @ [CHR 0xE6, CHR 0x9C, CHR 0xAA, CHR 0xE6, CHR 0x8C, CHR 0x87, CHR 0xE5, CHR 0xAE, CHR 0x9A])"

definition get_bean :: "('b, 'v, 'd) curd_ext \<Rightarrow> ('b, 'v) curd_params \<Rightarrow> (string, 'b) result" where
  "get_bean E c = (case cp_model c of Some m \<Rightarrow> Inr m | None \<Rightarrow> cx_find_model E (cp_table c))"

definition before :: "('b, 'v) curd_params \<Rightarrow> 'b \<Rightarrow> 'b" where
  "before c b = (case cp_before c of None \<Rightarrow> b | Some f \<Rightarrow> f b)"

definition check :: "('b, 'v) curd_params \<Rightarrow> 'b \<Rightarrow> string option" where
  "check c b = (case cp_check c of None \<Rightarrow> None | Some f \<Rightarrow> f b)"

definition Create :: "('b, 'v, 'd) curd_ext \<Rightarrow> ('b, 'v) curd_params \<Rightarrow> 'd \<Rightarrow> curd_error option \<times> 'd" where
  "Create E c d = (case get_bean E c of
     Inl err \<Rightarrow> (Some (Plain err), d)
   | Inr bean \<Rightarrow> (case cx_to_bean E (cp_values c) bean of
       Inl err \<Rightarrow> (Some (Plain err), d)
     | Inr bean \<Rightarrow>
         let bean = before c bean in
         (case check c bean of Some err \<Rightarrow> (Some (Plain err), d) | None \<Rightarrow> transaction (cx_create E bean) d)))"

definition Delete :: "('b, 'v, 'd) curd_ext \<Rightarrow> ('b, 'v) curd_params \<Rightarrow> 'd \<Rightarrow> curd_error option \<times> 'd" where
  "Delete E c d = (case ValueIDUint64 E (cp_values c) of
     None \<Rightarrow> (Some no_id, d)
   | Some idv \<Rightarrow> (case get_bean E c of
       Inl err \<Rightarrow> (Some (Plain err), d)
     | Inr bean \<Rightarrow> (case cx_to_bean E (cp_values c) bean of
         Inl err \<Rightarrow> (Some (Plain err), d)
       | Inr bean \<Rightarrow> (case cx_take E idv bean d of
           Inl err \<Rightarrow> (Some (Coded 400 err), d)
         | Inr bean \<Rightarrow>
             let bean = before c bean in
             (case check c bean of
                Some err \<Rightarrow> (Some (Plain err), d)
              | None \<Rightarrow> transaction (cx_delete E bean idv (cp_where c)) d)))))"

text \<open>\<open>Update\<close>: with \<open>force_update\<close> the fields named in the request are written, and the
  version of the stored row is taken over; otherwise the request is merged into the stored row
  and every column is written.\<close>

definition finish_update :: "('b, 'v, 'd) curd_ext \<Rightarrow> ('b, 'v) curd_params \<Rightarrow> 'b \<Rightarrow> 'b \<Rightarrow> 'd \<Rightarrow> curd_error option \<times> 'd" where
  "finish_update E c oldVal newVal d =
     (case (case cp_check_pair c of None \<Rightarrow> None | Some f \<Rightarrow> f oldVal newVal) of
        Some err \<Rightarrow> (Some (Plain err), d)
      | None \<Rightarrow>
          (case map_of (cp_values c) ''force_update'' of
             Some v \<Rightarrow>
               if cx_is_true E v then
                 let vals = filter (\<lambda>(k, _). k \<noteq> ''id'' \<and> k \<noteq> ''force_update'') (cp_values c);
                     (newVal, fields) = (case cx_copy_version E oldVal newVal of
                        None \<Rightarrow> (newVal, []) | Some b \<Rightarrow> (b, [''version'']));
                     fields = fields @ map fst vals
                 in transaction (cx_update E newVal (cp_where c) fields) d
               else (case cx_merge E oldVal newVal of
                  Inl err \<Rightarrow> (Some (Plain err), d)
                | Inr oldVal \<Rightarrow> transaction (cx_update E oldVal (cp_where c) [''*'']) d)
           | None \<Rightarrow> (case cx_merge E oldVal newVal of
                Inl err \<Rightarrow> (Some (Plain err), d)
              | Inr oldVal \<Rightarrow> transaction (cx_update E oldVal (cp_where c) [''*'']) d)))"

definition Update :: "('b, 'v, 'd) curd_ext \<Rightarrow> ('b, 'v) curd_params \<Rightarrow> 'd \<Rightarrow> curd_error option \<times> 'd" where
  "Update E c d = (case ValueIDUint64 E (cp_values c) of
     None \<Rightarrow> (Some no_id, d)
   | Some idv \<Rightarrow> (case get_bean E c of
       Inl err \<Rightarrow> (Some (Plain err), d)
     | Inr model \<Rightarrow> (case cx_take E idv (cx_new E model) d of
         Inl err \<Rightarrow> (Some (Coded 400 err), d)
       | Inr oldVal \<Rightarrow> (case cx_to_bean E (cp_values c) (cx_new E model) of
           Inl err \<Rightarrow> (Some (Plain err), d)
         | Inr newVal \<Rightarrow> finish_update E c oldVal (before c newVal) d))))"

section \<open>Find\<close>

text \<open>A query of the find operations: table, condition, order, offset, limit.\<close>

record find_query =
  fq_table :: string
  fq_condition :: string
  fq_order :: string
  fq_offset :: int
  fq_limit :: int

text \<open>\<open>fx_after\<close>: the method \<open>ResultAfterFind\<close> of a row, if it has one; it may change the row.\<close>

record ('r, 'd) find_ext =
  fx_find_model :: "string \<Rightarrow> (string, 'r) result"
  fx_take :: "'r \<Rightarrow> string \<Rightarrow> nat \<Rightarrow> 'd \<Rightarrow> (curd_error, 'r) result"
  fx_not_found :: "curd_error \<Rightarrow> bool"
  fx_count :: "find_query \<Rightarrow> 'd \<Rightarrow> (string, int) result"
  fx_to_sql :: "find_query \<Rightarrow> string"
  fx_table_name :: "'r \<Rightarrow> string"
  fx_raw :: "string \<Rightarrow> 'd \<Rightarrow> (string, 'r list) result"
  fx_after :: "'r \<Rightarrow> (string, 'r) result option"

definition after_find :: "('r, 'd) find_ext \<Rightarrow> 'r \<Rightarrow> (string, 'r) result" where
  "after_find E r = (case fx_after E r of None \<Rightarrow> Inr r | Some x \<Rightarrow> x)"

text \<open>\<open>FindByID\<close>; the message of the 404 error is the UTF-8 of the words for \<open>data does not
  exist\<close>.\<close>

record 'r find_by_id =
  fi_table :: string
  fi_id :: nat
  fi_condition :: string
  fi_dest :: "'r option"

definition FindByID_AppendEqCondition :: "string \<Rightarrow> 'r find_by_id \<Rightarrow> 'r find_by_id" where
  "FindByID_AppendEqCondition str f =
     (if fi_condition f = [] then f\<lparr>fi_condition := str\<rparr> else f\<lparr>fi_condition := fi_condition f @ '' AND '' @ str\<rparr>)"

definition no_data :: curd_error where
  "no_data = Coded 404 [CHR 0xE6, CHR 0x95, CHR 0xB0, CHR 0xE6, CHR 0x8D, CHR 0xAE, CHR 0xE4, CHR 0xB8, CHR 0x8D, CHR 0xE5,
     CHR 0xAD, CHR 0x98, CHR 0xE5, CHR 0x9C, CHR 0xA8]"

definition FindByID :: "('r, 'd) find_ext \<Rightarrow> 'r find_by_id \<Rightarrow> 'd \<Rightarrow> (curd_error, 'r) result" where
  "FindByID E f d = (case (case fi_dest f of Some b \<Rightarrow> Inr b | None \<Rightarrow> fx_find_model E (fi_table f)) of
     Inl err \<Rightarrow> Inl (Plain err)
   | Inr bean \<Rightarrow> (case fx_take E bean (fi_condition f) (fi_id f) d of
       Inl err \<Rightarrow> Inl (if fx_not_found E err then no_data else err)
     | Inr bean \<Rightarrow> (case after_find E bean of Inl err \<Rightarrow> Inl (Plain err) | Inr bean \<Rightarrow> Inr bean)))"

definition defaultPageSize :: int where "defaultPageSize = 10"
definition maxPageSize :: int where "maxPageSize = 100"

record 'r find_params =
  fp_table :: string
  fp_condition :: string
  fp_order :: string
  fp_page_index :: int
  fp_page_size :: int
  fp_dest :: "'r option"

record pagination =
  pg_total :: int
  pg_size :: int
  pg_index :: int
  pg_pages :: int

definition FindParams_AppendEqCondition :: "string \<Rightarrow> 'r find_params \<Rightarrow> 'r find_params" where
  "FindParams_AppendEqCondition str f =
     (if fp_condition f = [] then f\<lparr>fp_condition := str\<rparr> else f\<lparr>fp_condition := fp_condition f @ '' AND '' @ str\<rparr>)"

text \<open>\<open>prepareTx\<close>: the normalised parameters; the query it starts has their table and condition.\<close>

definition prepareTx :: "'r find_params \<Rightarrow> 'r find_params" where
  "prepareTx f =
     (let f = (if fp_page_size f \<le> 0 then f\<lparr>fp_page_size := defaultPageSize\<rparr> else f);
          f = (if fp_page_size f > maxPageSize then f\<lparr>fp_page_size := maxPageSize\<rparr> else f)
      in if fp_order f = [] then f\<lparr>fp_order := ''id DESC''\<rparr> else f)"

text \<open>\<open>FindRecordsWithDB\<close>: the ids of the query joined with their rows.\<close>

definition records_sql :: "string \<Rightarrow> string \<Rightarrow> string list \<Rightarrow> string" where
  "records_sql table sql args =
     (let append = concat (map (\<lambda>v. if v \<noteq> [] then CHR 0x0A # v else []) args)
      in ''SELECT '' @ table @ ''.*'' @ CHR 0x0A # ''FROM ('' @ sql @ '') a'' @ CHR 0x0A # ''LEFT JOIN '' @ table @
         '' ON a.id='' @ table @ ''.id'' @ append @ '';'')"

definition FindRecordsWithDB :: "('r, 'd) find_ext \<Rightarrow> find_query \<Rightarrow> 'r \<Rightarrow> string list \<Rightarrow> 'd \<Rightarrow> (string, 'r list) result" where
  "FindRecordsWithDB E q val args d = fx_raw E (records_sql (fx_table_name E val) (fx_to_sql E q) args) d"

text \<open>\<open>FindRecords\<close> drops its further arguments.\<close>

definition FindRecords :: "('r, 'd) find_ext \<Rightarrow> find_query \<Rightarrow> 'r \<Rightarrow> string list \<Rightarrow> 'd \<Rightarrow> (string, 'r list) result" where
  "FindRecords E q val args d = FindRecordsWithDB E q val [] d"

fun after_all :: "('r, 'd) find_ext \<Rightarrow> 'r list \<Rightarrow> (string, 'r list) result" where
  "after_all E [] = Inr []"
| "after_all E (r # rs) = and_then (after_find E r) (\<lambda>r. and_then (after_all E rs) (\<lambda>rs. Inr (r # rs)))"

definition FindResultWithModel ::
  "('r, 'd) find_ext \<Rightarrow> 'r find_params \<Rightarrow> 'd \<Rightarrow> (string, 'r list \<times> pagination) result" where
  "FindResultWithModel E f d =
     (if fp_table f = [] then Inl ''params.Table is empty''
      else case (case fp_dest f of Some b \<Rightarrow> Inr b | None \<Rightarrow> fx_find_model E (fp_table f)) of
        Inl err \<Rightarrow> Inl err
      | Inr dest \<Rightarrow>
        let f = prepareTx f;
            q = \<lparr>fq_table = fp_table f, fq_condition = fp_condition f, fq_order = [], fq_offset = 0, fq_limit = 0\<rparr>
        in case fx_count E q d of
          Inl err \<Rightarrow> Inl err
        | Inr n \<Rightarrow>
          let pages = (if n > 0 then n sdiv fp_page_size f + (if n smod fp_page_size f > 0 then 1 else 0) else 0);
              index = (if fp_page_index f > 1 then fp_page_index f else 1);
              offset = (if fp_page_index f > 1 then wrap64 (wrap64 (fp_page_index f - 1) * fp_page_size f) else 0);
              q = q\<lparr>fq_order := fp_order f, fq_offset := offset, fq_limit := fp_page_size f\<rparr>;
              appendSq = (if length (fp_order f) > 0 then ''ORDER BY '' @ fp_order f else [])
          in case FindRecordsWithDB E q dest [appendSq] d of
               Inl err \<Rightarrow> Inl err
             | Inr rows \<Rightarrow> and_then (after_all E rows) (\<lambda>rows. Inr (rows,
                 \<lparr>pg_total = n, pg_size = fp_page_size f, pg_index = index, pg_pages = pages\<rparr>)))"

section \<open>Writes\<close>

lemma transaction_cases: "transaction f d = (e, d') \<Longrightarrow> (case e of Some _ \<Rightarrow> d' = d | None \<Rightarrow> f d = (None, d'))"
  by (auto simp: transaction_def split: prod.splits option.splits)

lemma Update_failed:
  assumes "Update E c d = (Some err, d')" shows "d' = d"
proof -
  have tr: "transaction f d = (Some err, d') \<Longrightarrow> d' = d" for f using transaction_cases [of f d "Some err" d'] by simp
  from assms show ?thesis
    by (auto simp: Update_def finish_update_def Let_def split: sum.splits option.splits if_splits dest!: tr)
qed

section \<open>Pages\<close>

text \<open>The server's answers for a request, of which the rows \<open>M\<close> meet the condition: their number, and the
  rows from an offset on (gorm leaves out an offset that is not positive), up to a limit, of \<^emph>\<open>some\<close>
  arrangement in which no row comes after one that its order puts later. Each query may arrange rows that the
  order does not tell apart in its own way.\<close>

definition arranged :: "('r \<Rightarrow> 'r \<Rightarrow> bool) \<Rightarrow> 'r list \<Rightarrow> 'r list \<Rightarrow> bool" where
  "arranged lt M rows \<longleftrightarrow> mset rows = mset M \<and> sorted_wrt (\<lambda>r q. \<not> lt q r) rows"

definition find_laws :: "('r, 'd) find_ext \<Rightarrow> 'd \<Rightarrow> 'r find_params \<Rightarrow> 'r \<Rightarrow> ('r \<Rightarrow> 'r \<Rightarrow> bool) \<Rightarrow> 'r list \<Rightarrow> bool" where
  "find_laws E d f dest lt M \<longleftrightarrow>
     fx_count E \<lparr>fq_table = fp_table f, fq_condition = fp_condition f, fq_order = [], fq_offset = 0, fq_limit = 0\<rparr> d =
       Inr (int (length M)) \<and>
     (\<forall>off l. 0 < l \<longrightarrow> (\<exists>rows. arranged lt M rows \<and> fx_raw E (records_sql (fx_table_name E dest)
         (fx_to_sql E \<lparr>fq_table = fp_table f, fq_condition = fp_condition f, fq_order = fp_order f, fq_offset = off, fq_limit = l\<rparr>)
         [''ORDER BY '' @ fp_order f]) d = Inr (take (nat l) (drop (nat off) rows))))"

text \<open>The order determines the arrangement when it tells any two rows apart, as the default \<open>id DESC\<close> does.\<close>

definition tells_apart :: "('r \<Rightarrow> 'r \<Rightarrow> bool) \<Rightarrow> 'r list \<Rightarrow> bool" where
  "tells_apart lt M \<longleftrightarrow> (\<forall>r \<in> set M. \<forall>q \<in> set M. r \<noteq> q \<longrightarrow> lt r q \<or> lt q r)"

lemma sorted_unique:
  "sorted_wrt P xs \<Longrightarrow> sorted_wrt P ys \<Longrightarrow> mset xs = mset ys \<Longrightarrow>
   (\<And>x y. x \<in> set xs \<Longrightarrow> y \<in> set xs \<Longrightarrow> P x y \<Longrightarrow> P y x \<Longrightarrow> x = y) \<Longrightarrow> xs = ys"
proof (induction xs arbitrary: ys)
  case (Cons x xs)
  then obtain y ys' where ys: "ys = y # ys'" by (cases ys) auto
  have s: "set ys = set (x # xs)" using Cons.prems(3) by (metis set_mset_mset)
  have "x = y"
  proof (rule ccontr)
    assume "x \<noteq> y"
    with s ys have "y \<in> set xs" "x \<in> set ys'" by auto
    with Cons.prems(1,2) ys have "P x y" "P y x" by auto
    with Cons.prems(4) \<open>y \<in> set xs\<close> \<open>x \<noteq> y\<close> show False by auto
  qed
  with Cons.prems ys have "xs = ys'" by (intro Cons.IH) auto
  with \<open>x = y\<close> ys show ?case by simp
qed simp

lemma arranged_unique: "tells_apart lt M \<Longrightarrow> arranged lt M xs \<Longrightarrow> arranged lt M ys \<Longrightarrow> xs = ys"
  unfolding arranged_def tells_apart_def by (rule sorted_unique [of "\<lambda>r q. \<not> lt q r"]) (auto dest: mset_eq_setD)

lemma find_laws_rows:
  assumes "find_laws E d f dest lt M" "tells_apart lt M"
  obtains rows where "arranged lt M rows" "length rows = length M"
    "\<And>off l. 0 < l \<Longrightarrow> fx_raw E (records_sql (fx_table_name E dest)
       (fx_to_sql E \<lparr>fq_table = fp_table f, fq_condition = fp_condition f, fq_order = fp_order f, fq_offset = off, fq_limit = l\<rparr>)
       [''ORDER BY '' @ fp_order f]) d = Inr (take (nat l) (drop (nat off) rows))"
proof -
  from assms(1) obtain rows where r: "arranged lt M rows" unfolding find_laws_def by (metis zero_less_one)
  moreover from r have "length rows = length M" unfolding arranged_def by (metis size_mset)
  moreover have "fx_raw E (records_sql (fx_table_name E dest)
       (fx_to_sql E \<lparr>fq_table = fp_table f, fq_condition = fp_condition f, fq_order = fp_order f, fq_offset = off, fq_limit = l\<rparr>)
       [''ORDER BY '' @ fp_order f]) d = Inr (take (nat l) (drop (nat off) rows))" if "0 < l" for off l
    using assms(1) that arranged_unique [OF assms(2) r] unfolding find_laws_def by metis
  ultimately show ?thesis by (rule that)
qed

definition page_rows :: "('r, 'd) find_ext \<Rightarrow> 'r find_params \<Rightarrow> 'd \<Rightarrow> nat \<Rightarrow> 'r list" where
  "page_rows E f d i = (case FindResultWithModel E (f\<lparr>fp_page_index := int i\<rparr>) d of Inl _ \<Rightarrow> [] | Inr (rows, _) \<Rightarrow> rows)"

lemma prepareTx_fields [simp]:
  "fp_table (prepareTx f) = fp_table f" "fp_condition (prepareTx f) = fp_condition f" "fp_page_index (prepareTx f) = fp_page_index f"
  "prepareTx (f\<lparr>fp_page_index := i\<rparr>) = (prepareTx f)\<lparr>fp_page_index := i\<rparr>" "fp_order (prepareTx f) \<noteq> []"
  by (simp_all add: prepareTx_def Let_def)

lemma prepareTx_size: "1 \<le> fp_page_size (prepareTx f) \<and> fp_page_size (prepareTx f) \<le> 100"
  by (simp add: prepareTx_def Let_def defaultPageSize_def maxPageSize_def)

lemma after_all_map: "\<forall>r \<in> set rs. after_find E r = Inr (g r) \<Longrightarrow> after_all E rs = Inr (map g rs)"
  by (induction rs) simp_all

lemma chunks: "concat (map (\<lambda>i. take s (drop (i * s) xs)) [0..<k]) = take (k * s) xs"
proof (induction k)
  case (Suc k)
  then show ?case using take_add [of "k * s" s xs] by (simp add: add.commute)
qed simp

text \<open>The number of pages, as the code computes it.\<close>

definition page_count :: "nat \<Rightarrow> nat \<Rightarrow> nat" where
  "page_count n s = n div s + (if 0 < n mod s then 1 else 0)"

lemma page_count_covers:
  assumes "0 < s" shows "n \<le> page_count n s * s"
proof -
  have n: "n = n div s * s + n mod s" by simp
  show ?thesis
  proof (cases "0 < n mod s")
    case True
    have "n mod s \<le> s" using assms mod_less_divisor [of s n] by simp
    with n have "n \<le> n div s * s + s" by linarith
    with True show ?thesis by (simp add: page_count_def algebra_simps)
  next
    case False
    then have e: "page_count n s = n div s" by (simp add: page_count_def)
    have "n = n div s * s" using n False by linarith
    then show ?thesis unfolding e by (rule eq_refl)
  qed
qed

lemma page_count_below:
  assumes "0 < s" "i < page_count n s" shows "i * s < n"
proof (cases "0 < n mod s")
  case True
  with assms have "i \<le> n div s" by (simp add: page_count_def)
  then have "i * s \<le> n div s * s" by (rule mult_le_mono1)
  also have "\<dots> < n" using True div_mult_mod_eq [of n s] by linarith
  finally show ?thesis .
next
  case False
  with assms have "i < n div s" by (simp add: page_count_def)
  then have "i * s < n div s * s" using assms(1) by (rule mult_less_mono1)
  also have "\<dots> \<le> n" by (rule div_times_less_eq_dividend)
  finally show ?thesis .
qed

lemma page_count_int: "0 < s \<Longrightarrow> 0 < n \<Longrightarrow> int n sdiv int s + (if 0 < int n smod int s then 1 else 0) = int (page_count n s)"
  by (simp add: page_count_def signed_divide_int_def signed_modulo_int_def flip: zdiv_int zmod_int)

lemma find_page:
  assumes "fp_table f \<noteq> []" "fp_dest f = Some dest" "\<forall>r \<in> set rows. after_find E r = Inr (g r)"
    and "fx_count E \<lparr>fq_table = fp_table f, fq_condition = fp_condition f, fq_order = [], fq_offset = 0, fq_limit = 0\<rparr> d =
       Inr (int (length rows))"
    and "length rows < 2 ^ 50" "1 \<le> i" "i \<le> length rows + 1"
    and raws: "\<And>off l. 0 < l \<Longrightarrow> fx_raw E (records_sql (fx_table_name E dest)
       (fx_to_sql E \<lparr>fq_table = fp_table f, fq_condition = fp_condition f, fq_order = fp_order (prepareTx f), fq_offset = off, fq_limit = l\<rparr>)
       [''ORDER BY '' @ fp_order (prepareTx f)]) d = Inr (take (nat l) (drop (nat off) rows))"
  defines "s \<equiv> nat (fp_page_size (prepareTx f))"
  shows "FindResultWithModel E (f\<lparr>fp_page_index := int i\<rparr>) d = Inr (map g (take s (drop ((i - 1) * s) rows)),
    \<lparr>pg_total = int (length rows), pg_size = int s, pg_index = int i, pg_pages = int (page_count (length rows) s)\<rparr>)"
proof -
  have size: "fp_page_size (prepareTx f) = int s" "0 < s" "s \<le> 100" using prepareTx_size [of f] by (auto simp: s_def)
  let ?off = "if int i > 1 then wrap64 (wrap64 (int i - 1) * int s) else 0"
  have "(int i - 1) * int s \<le> 2 ^ 50 * 100" using size(3) assms(5,7) by (intro mult_mono) auto
  then have w: "wrap64 (int i - 1) = int i - 1" "wrap64 ((int i - 1) * int s) = (int i - 1) * int s"
    using assms(5-7) by (auto intro!: wrap64_id simp: order_trans [of _ 0])
  have off: "nat ?off = (i - 1) * s"
    using assms(6) unfolding w by (auto simp: nat_mult_distrib nat_diff_distrib)
  have idx: "(if int i > 1 then int i else 1) = int i" using assms(6) by simp
  have pages: "(if int (length rows) > 0 then int (length rows) sdiv int s + (if 0 < int (length rows) smod int s then 1 else 0) else 0) =
      int (page_count (length rows) s)"
    using page_count_int [of s "length rows"] size(2) by (cases rows) (auto simp: page_count_def)
  note L = assms(4)
  from raws size(2) have raw: "fx_raw E (records_sql (fx_table_name E dest)
      (fx_to_sql E \<lparr>fq_table = fp_table f, fq_condition = fp_condition f, fq_order = fp_order (prepareTx f), fq_offset = ?off,
         fq_limit = int s\<rparr>) [''ORDER BY '' @ fp_order (prepareTx f)]) d = Inr (take s (drop ((i - 1) * s) rows))"
    unfolding off [symmetric] by simp
  have R: "FindRecordsWithDB E \<lparr>fq_table = fp_table f, fq_condition = fp_condition f, fq_order = fp_order (prepareTx f),
      fq_offset = ?off, fq_limit = int s\<rparr> dest [''ORDER BY '' @ fp_order (prepareTx f)] d = Inr (take s (drop ((i - 1) * s) rows))"
    unfolding FindRecordsWithDB_def by (rule raw)
  obtain h where h: "h = f\<lparr>fp_page_index := int i\<rparr>" by blast
  have G: "fp_table h = fp_table f" "fp_dest h = Some dest" "fp_table (prepareTx h) = fp_table f"
    "fp_condition (prepareTx h) = fp_condition f" "fp_order (prepareTx h) = fp_order (prepareTx f)"
    "fp_page_size (prepareTx h) = int s" "fp_page_index (prepareTx h) = int i"
    using assms(2) size(1) by (simp_all add: h)
  have "\<forall>r \<in> set (take s (drop ((i - 1) * s) rows)). after_find E r = Inr (g r)"
    using assms(3) by (auto dest!: in_set_takeD in_set_dropD)
  note after = after_all_map [OF this]
  have q: "q\<lparr>fq_order := a, fq_offset := b, fq_limit := c\<rparr> =
    \<lparr>fq_table = fq_table q, fq_condition = fq_condition q, fq_order = a, fq_offset = b, fq_limit = c\<rparr>" for q a b c by simp
  have "0 < length (fp_order (prepareTx f))" by simp
  then show ?thesis
    unfolding h [symmetric] FindResultWithModel_def Let_def
    by (simp only: assms(1) G q L R pages idx after find_query.simps
        option.case sum.case if_True if_False and_then_simps)
qed

text \<open>C15: The pages of a listing are a partition of its rows, for an order that tells any two of them apart (as the
  default \<open>id DESC\<close>): whatever page size a client asks for, a page has at most a hundred rows, the pages 1 to \<open>pages\<close>
  put together are all rows that meet the condition in that order, each exactly once and as its \<open>ResultAfterFind\<close>
  leaves it, and every page reports the same total, size and number of pages. The table does not change between the
  pages, and \<open>ResultAfterFind\<close>, where rows have it, fails for none. For an order with ties the server may arrange them
  differently for each page, and nothing of the kind holds (\<open>ties_repeat_rows\<close>).\<close>
theorem pages_partition_rows:
  assumes "fp_table f \<noteq> []" "fp_dest f = Some dest" "find_laws E d (prepareTx f) dest lt M" "tells_apart lt M"
    and "\<forall>r \<in> set M. after_find E r = Inr (g r)" and "length M < 2 ^ 50"
  shows "\<exists>s n rows. 1 \<le> s \<and> s \<le> 100 \<and> arranged lt M rows \<and> concat (map (page_rows E f d) [1..<Suc n]) = map g rows \<and>
    (\<forall>i. 1 \<le> i \<and> i \<le> n \<longrightarrow> page_rows E f d i \<noteq> [] \<and> length (page_rows E f d i) \<le> s \<and>
      (\<exists>rs. FindResultWithModel E (f\<lparr>fp_page_index := int i\<rparr>) d =
        Inr (rs, \<lparr>pg_total = int (length M), pg_size = int s, pg_index = int i, pg_pages = int n\<rparr>)))"
proof -
  obtain rows where r: "arranged lt M rows" "length rows = length M"
    "\<And>off l. 0 < l \<Longrightarrow> fx_raw E (records_sql (fx_table_name E dest)
       (fx_to_sql E \<lparr>fq_table = fp_table f, fq_condition = fp_condition f, fq_order = fp_order (prepareTx f), fq_offset = off, fq_limit = l\<rparr>)
       [''ORDER BY '' @ fp_order (prepareTx f)]) d = Inr (take (nat l) (drop (nat off) rows))"
    using find_laws_rows [OF assms(3,4)] by (metis prepareTx_fields(1,2))
  have g: "\<forall>r \<in> set rows. after_find E r = Inr (g r)" using r(1) assms(5) unfolding arranged_def by (metis mset_eq_setD)
  have c: "fx_count E \<lparr>fq_table = fp_table f, fq_condition = fp_condition f, fq_order = [], fq_offset = 0, fq_limit = 0\<rparr> d = Inr (int (length rows))"
    using assms(3) r(2) by (simp add: find_laws_def)
  have l: "length rows < 2 ^ 50" using assms(6) r(2) by simp
  let ?s = "nat (fp_page_size (prepareTx f))" let ?n = "page_count (length rows) ?s"
  have size: "1 \<le> ?s" "?s \<le> 100" using prepareTx_size [of f] by auto
  have "?n \<le> length rows + 1" by (cases "0 < length rows mod ?s") (simp_all add: page_count_def le_SucI)
  then have le: "i \<le> length rows + 1" if "i \<le> ?n" for i using that by linarith
  note page = find_page [OF assms(1,2) g c l _ _ r(3)]
  have rows: "page_rows E f d i = map g (take ?s (drop ((i - 1) * ?s) rows))" if "1 \<le> i" "i \<le> ?n" for i
    using page [OF that(1) le [OF that(2)]] by (simp add: page_rows_def)
  have "map (page_rows E f d) [1..<Suc ?n] = map (map g) (map (\<lambda>i. take ?s (drop (i * ?s) rows)) [0..<?n])"
    using rows by (intro nth_equalityI) (simp_all del: upt_Suc)
  then have "concat (map (page_rows E f d) [1..<Suc ?n]) = map g (concat (map (\<lambda>i. take ?s (drop (i * ?s) rows)) [0..<?n]))"
    by (simp add: map_concat del: upt_Suc)
  then have all: "concat (map (page_rows E f d) [1..<Suc ?n]) = map g rows"
    using chunks [of ?s rows ?n] page_count_covers [of ?s "length rows"] size by (simp del: upt_Suc)
  have ne: "page_rows E f d i \<noteq> []" if "1 \<le> i" "i \<le> ?n" for i
  proof -
    have "(i - 1) * ?s < length rows"
    proof -
      have "i - 1 < ?n" using that by simp
      then show ?thesis
        using page_count_below [where s = ?s and n = "length rows" and i = "i - 1"] size by simp
    qed
    then show ?thesis using rows [OF that] size by simp
  qed
  have "page_rows E f d i \<noteq> [] \<and> length (page_rows E f d i) \<le> ?s \<and>
      (\<exists>rs. FindResultWithModel E (f\<lparr>fp_page_index := int i\<rparr>) d =
        Inr (rs, \<lparr>pg_total = int (length M), pg_size = int ?s, pg_index = int i, pg_pages = int ?n\<rparr>))"
    if i: "1 \<le> i \<and> i \<le> ?n" for i
  proof -
    from i have a: "1 \<le> i" "i \<le> ?n" by auto
    have "length (page_rows E f d i) \<le> ?s" unfolding rows [OF a] by simp
    with ne [OF a] page [OF a(1) le [OF a(2)]] r(2) show ?thesis by auto
  qed
  with all size r(1) show ?thesis by blast
qed

text \<open>A table of numbers, in the order of the table; the query's offset and limit are its SQL, and \<open>ResultAfterFind\<close>
  adds ten.\<close>

definition demo_find :: "(nat, nat list) find_ext" where
  "demo_find = \<lparr>fx_find_model = (\<lambda>_. Inl ''none''), fx_take = (\<lambda>_ _ _ _. Inl (Plain ''none'')), fx_not_found = (\<lambda>_. True),
     fx_count = (\<lambda>q d. Inr (int (length d))),
     fx_to_sql = (\<lambda>q. replicate (nat (fq_offset q)) CHR ''o'' @ replicate (nat (fq_limit q)) CHR ''l''),
     fx_table_name = (\<lambda>_. ''t''),
     fx_raw = (\<lambda>s d. Inr (take (length (filter (\<lambda>c. c = CHR ''l'') (takeWhile (\<lambda>c. c \<noteq> CHR '')'') (drop 17 s))))
        (drop (length (filter (\<lambda>c. c = CHR ''o'') (takeWhile (\<lambda>c. c \<noteq> CHR '')'') (drop 17 s)))) d))),
     fx_after = (\<lambda>n. Some (Inr (n + 10)))\<rparr>"

definition demo_listing :: "nat find_params" where
  "demo_listing = \<lparr>fp_table = ''t'', fp_condition = [], fp_order = [], fp_page_index = 1, fp_page_size = 2, fp_dest = Some 0\<rparr>"

lemma demo_find_laws: "sorted d \<Longrightarrow> find_laws demo_find d (prepareTx demo_listing) 0 (<) d"
proof -
  have "takeWhile (\<lambda>c. c \<noteq> CHR '')'') (replicate a CHR ''o'' @ replicate b CHR ''l'' @ CHR '')'' # r) =
      replicate a CHR ''o'' @ replicate b CHR ''l''" for a b r
    by (induction a) (induction b, auto)
  moreover have "drop 17 (records_sql ''t'' (replicate a CHR ''o'' @ replicate b CHR ''l'') xs) =
      replicate a CHR ''o'' @ replicate b CHR ''l'' @ CHR '')'' # drop 18 (records_sql ''t'' [] xs)" for a b xs
    by (simp add: records_sql_def)
  moreover assume "sorted d"
  ultimately show ?thesis by (auto simp: find_laws_def demo_find_def arranged_def not_less intro!: exI [of _ d])
qed

theorem pages_partition_rows_witness:
  "\<exists>(s :: nat) n. s \<le> 100 \<and> concat (map (page_rows demo_find demo_listing [7, 8, 9]) [1..<Suc n]) = [17, 18, 19]"
proof -
  have "fp_table demo_listing \<noteq> []" "fp_dest demo_listing = Some 0" "tells_apart (<) [7, 8, 9 :: nat]"
    "\<forall>r \<in> set [7, 8, 9]. after_find demo_find r = Inr (r + 10)"
    by (auto simp: demo_listing_def demo_find_def after_find_def tells_apart_def)
  from pages_partition_rows [OF this(1,2) demo_find_laws this(3,4)] obtain s :: nat and n rows where
    p: "s \<le> 100" "arranged (<) [7, 8, 9] rows" "concat (map (page_rows demo_find demo_listing [7, 8, 9]) [1..<Suc n]) = map (\<lambda>r. r + 10) rows"
    by (auto simp del: upt_Suc)
  have "arranged (<) [7, 8, 9] [7, 8, 9 :: nat]" by (simp add: arranged_def)
  with arranged_unique [OF \<open>tells_apart (<) [7, 8, 9]\<close> p(2)] have "rows = [7, 8, 9]" by blast
  with p show ?thesis by (intro exI [of _ s] exI [of _ n]) (simp del: upt_Suc)
qed

text \<open>With ties the laws allow a page to repeat rows of the page before and another row never to be shown.\<close>

lemma ties_repeat_rows:
  "arranged (\<lambda>_ _. False) [1, 2, 3] [1, 2, 3 :: nat]" "arranged (\<lambda>_ _. False) [1, 2, 3] [3, 1, 2 :: nat]"
  "take 2 (drop 0 [1, 2, 3 :: nat]) @ take 2 (drop 2 [3, 1, 2]) = [1, 2, 2]"
  by (simp_all add: arranged_def)

section \<open>What the code leaves open\<close>

text \<open>The condition that restricts a request to its user is joined without parentheses: with a
  condition \<open>a OR b\<close> of the client, \<open>AND\<close> binds only \<open>b\<close>.\<close>

lemma user_condition_joined:
  "cx_user_field E bean \<Longrightarrow> cp_where c = ''a=1 OR b=1'' \<Longrightarrow>
   cp_where (AddUserIDCondition E show_nat bean u c) = ''a=1 OR b=1 AND user_id = '' @ show_nat u"
  by (simp add: AddUserIDCondition_def AddWhereCondition_def strings_TrimSpace_def is_space_def Let_def)

end
