(* ===== verification/Version_Lock.thy ===== *)
theory Version_Lock
  imports Prelude
begin

text \<open>
  The version column of the models (\<open>mdb/version.go\<close>): what is written into it on creation, and
  how an update is turned into one that asks for the version its object was read with and
  raises it.

  The statement object and the meaning of its conditions are gorm's. A statement is the part of
  it the code reads and writes; what a list of conditions selects is an argument with the laws
  \<open>where_laws\<close>, and \<open>gorm_where\<close> writes gorm's documented rules out: conditions are joined by
  \<open>AND\<close>, one that came from \<open>Or\<close> by \<open>OR\<close>, and a list that begins with the latter is
  rearranged.
\<close>

section \<open>The version type\<close>

text \<open>A field of type \<open>*Version\<close>, nil or not, or \<open>Version\<close>: the number and whether it is valid; or a field of
  another type, and whether it is zero.\<close>

datatype version_field = VNil | VPtr int bool | VStruct int bool | VOther bool

fun field_zero :: "version_field \<Rightarrow> bool" where
  "field_zero VNil = True"
| "field_zero (VPtr n ok) = False"
| "field_zero (VStruct n ok) = (n = 0 \<and> \<not> ok)"
| "field_zero (VOther z) = z"

fun isVersionValue :: "version_field \<Rightarrow> int \<times> bool" where
  "isVersionValue (VPtr n ok) = (n, True)"
| "isVersionValue (VStruct n ok) = (n, True)"
| "isVersionValue _ = (1, False)"

text \<open>gorm sets the field by its \<open>Scan\<close>: the number is valid then.\<close>

fun field_Set :: "int \<Rightarrow> version_field \<Rightarrow> version_field" where
  "field_Set n (VStruct _ _) = VStruct n True"
| "field_Set n (VOther _) = VOther (n = 0)"
| "field_Set n _ = VPtr n True"

definition setVersionColumn :: "version_field \<Rightarrow> version_field" where
  "setVersionColumn f =
     (let value = (if \<not> field_zero f then (let (v, ok) = isVersionValue f in if ok then v else 1) else 1)
      in field_Set value f)"

text \<open>The value the statement creates: one object, several, or something else.\<close>

datatype create_value = ManyRows "version_field list" | OneRow version_field | NoRow

fun Create_ModifyStatement :: "create_value \<Rightarrow> create_value" where
  "Create_ModifyStatement (ManyRows fs) = ManyRows (map setVersionColumn fs)"
| "Create_ModifyStatement (OneRow f) = OneRow (setVersionColumn f)"
| "Create_ModifyStatement NoRow = NoRow"

text \<open>The value given to the database driver; \<open>None\<close> is SQL's null.\<close>

fun Version_Value :: "int \<times> bool \<Rightarrow> int option" where
  "Version_Value (n, ok) = (if \<not> ok then None else Some n)"

section \<open>Update statements\<close>

datatype 'r cond = Cond "'r \<Rightarrow> bool" | EqVersion int | OrCond "'r cond list" | AndCond "'r cond list"

record 'x schema_field =
  sf_name :: string
  sf_auto_update :: int
  sf_updatable :: bool
  sf_value :: 'x
  sf_zero :: bool

datatype 'x dest = DStruct "'x schema_field list" | DMap "(string \<times> 'x) list"

text \<open>\<open>us_set_version\<close>: whether the statement sets the version to its successor.\<close>

record ('r, 'x) update_stmt =
  us_enabled :: bool
  us_where :: "'r cond list option"
  us_unscoped :: bool
  us_version :: version_field
  us_dest :: "'x dest"
  us_selected :: "string \<Rightarrow> bool option"
  us_restricted :: bool
  us_skip_hooks :: bool
  us_set_version :: bool

definition single_or :: "'r cond \<Rightarrow> bool" where
  "single_or e = (case e of OrCond es \<Rightarrow> length es = 1 | _ \<Rightarrow> False)"

definition wrap_or :: "'r cond list option \<Rightarrow> 'r cond list option" where
  "wrap_or w = (case w of
       None \<Rightarrow> None
     | Some es \<Rightarrow> if length es > 1 \<and> list_ex single_or es then Some [AndCond es] else Some es)"

definition add_where :: "'r cond \<Rightarrow> 'r cond list option \<Rightarrow> 'r cond list option" where
  "add_where e w = (case w of None \<Rightarrow> Some [e] | Some es \<Rightarrow> Some (es @ [e]))"

text \<open>The columns of a struct that are written; \<open>vname\<close> is the version column.\<close>

fun dest_columns :: "('r, 'x) update_stmt \<Rightarrow> string \<Rightarrow> 'x schema_field list \<Rightarrow> (string \<times> 'x) list" where
  "dest_columns s vname [] = []"
| "dest_columns s vname (f # fs) =
     (let rest = dest_columns s vname fs in
      if sf_name f = vname then rest
      else if sf_name f = [] then rest
      else if (us_selected s (sf_name f) = Some True) \<or>
              (us_selected s (sf_name f) = None \<and> (\<not> us_restricted s \<or> \<not> us_skip_hooks s))
      then if sf_auto_update f > 0 then rest
           else if (us_selected s (sf_name f) \<noteq> None \<or> \<not> sf_zero f) \<and> sf_updatable f
           then (sf_name f, sf_value f) # rest else rest
      else rest)"

definition Update_ModifyStatement :: "string \<Rightarrow> ('r, 'x) update_stmt \<Rightarrow> ('r, 'x) update_stmt" where
  "Update_ModifyStatement vname s =
     (if us_enabled s then s
      else
        let s = s\<lparr>us_where := wrap_or (us_where s)\<rparr>;
            s = (if \<not> us_unscoped s \<and> \<not> field_zero (us_version s) \<and> snd (isVersionValue (us_version s))
                 then s\<lparr>us_where := add_where (EqVersion (fst (isVersionValue (us_version s)))) (us_where s)\<rparr> else s);
            s = (case us_dest s of DStruct fs \<Rightarrow> s\<lparr>us_dest := DMap (dest_columns s vname fs)\<rparr> | DMap _ \<Rightarrow> s)
        in s\<lparr>us_set_version := True, us_enabled := True\<rparr>)"

section \<open>What a statement does to the table\<close>

record 'x vrow =
  vr_cols :: "string \<Rightarrow> 'x option"
  vr_version :: int

type_synonym 'x row_conds = "'x vrow cond list"

text \<open>Lists that begin with a condition from \<open>Or\<close> are left out of the laws, alone or in parentheses.\<close>

fun starts_with_or :: "'r cond list \<Rightarrow> bool" where
  "starts_with_or [] = False"
| "starts_with_or (e # es) = single_or e"

fun plain_group :: "'r cond \<Rightarrow> bool" where
  "plain_group (AndCond es) = (\<not> starts_with_or es)"
| "plain_group _ = True"

text \<open>What conditions select: a list without \<open>OR\<close> is a conjunction, \<open>And\<close> puts its list in parentheses.\<close>

locale where_laws =
  fixes sem :: "'x row_conds \<Rightarrow> 'x vrow \<Rightarrow> bool"
  assumes sem_and: "\<not> list_ex single_or es \<Longrightarrow> list_all plain_group es \<Longrightarrow> sem es r \<longleftrightarrow> (\<forall>e \<in> set es. sem [e] r)"
    and sem_paren: "\<not> starts_with_or es \<Longrightarrow> list_all plain_group es \<Longrightarrow> sem [AndCond es] r \<longleftrightarrow> sem es r"
    and sem_version: "sem [EqVersion v] r \<longleftrightarrow> vr_version r = v"

definition run_update :: "('x row_conds \<Rightarrow> 'x vrow \<Rightarrow> bool) \<Rightarrow> ('x vrow, 'x) update_stmt \<Rightarrow> (nat \<Rightarrow> 'x vrow option) \<Rightarrow> nat \<Rightarrow> 'x vrow option" where
  "run_update sem s db = (\<lambda>i. case db i of
       None \<Rightarrow> None
     | Some r \<Rightarrow>
       if sem (case us_where s of None \<Rightarrow> [] | Some es \<Rightarrow> es) r
       then Some \<lparr>vr_cols = vr_cols r ++ map_of (case us_dest s of DMap m \<Rightarrow> m | DStruct fs \<Rightarrow> map (\<lambda>f. (sf_name f, sf_value f)) fs),
                  vr_version = vr_version r + (if us_set_version s then 1 else 0)\<rparr>
       else Some r)"

text \<open>The rows it writes, which the server reports as affected.\<close>

definition hits :: "('x row_conds \<Rightarrow> 'x vrow \<Rightarrow> bool) \<Rightarrow> ('x vrow, 'x) update_stmt \<Rightarrow> (nat \<Rightarrow> 'x vrow option) \<Rightarrow> nat \<Rightarrow> bool" where
  "hits sem s db i \<longleftrightarrow> (\<exists>r. db i = Some r \<and> sem (case us_where s of None \<Rightarrow> [] | Some es \<Rightarrow> es) r)"

text \<open>An update of an object that carries a version, with conditions that do not begin with an \<open>Or\<close>.\<close>

definition versioned :: "('x vrow, 'x) update_stmt \<Rightarrow> int \<Rightarrow> bool" where
  "versioned s v \<longleftrightarrow> \<not> us_enabled s \<and> \<not> us_unscoped s \<and>
     \<not> field_zero (us_version s) \<and> isVersionValue (us_version s) = (v, True) \<and>
     (case us_where s of None \<Rightarrow> True | Some es \<Rightarrow> \<not> starts_with_or es \<and> list_all plain_group es)"

context where_laws
begin

lemma sem_Nil [simp]: "sem [] r"
  using sem_and [of "[]"] by simp

lemma sem_snoc:
  assumes "\<not> list_ex single_or es" "list_all plain_group es"
  shows "sem (es @ [EqVersion v]) r \<longleftrightarrow> sem es r \<and> vr_version r = v"
proof -
  have "\<not> list_ex single_or (es @ [EqVersion v])" "list_all plain_group (es @ [EqVersion v])"
    using assms by (simp_all add: single_or_def)
  then show ?thesis using sem_and [of "es @ [EqVersion v]" r] sem_and [OF assms, of r] by (auto simp: sem_version)
qed

text \<open>The conditions of the statement are kept, and the version is asked for besides.\<close>

lemma modified_where:
  assumes "versioned s v"
  shows "sem (the (us_where (Update_ModifyStatement vname s))) r \<longleftrightarrow>
    sem (case us_where s of None \<Rightarrow> [] | Some es \<Rightarrow> es) r \<and> vr_version r = v"
    and "us_where (Update_ModifyStatement vname s) \<noteq> None"
    and "us_set_version (Update_ModifyStatement vname s)"
proof -
  let ?es = "case us_where s of None \<Rightarrow> [] | Some es \<Rightarrow> es"
  have w: "us_where (Update_ModifyStatement vname s) = Some ((if length ?es > 1 \<and> list_ex single_or ?es then [AndCond ?es] else ?es) @ [EqVersion v])"
    using assms by (auto simp: versioned_def Update_ModifyStatement_def Let_def wrap_or_def add_where_def split: option.splits dest.splits)
  have es: "\<not> starts_with_or ?es" "list_all plain_group ?es" using assms by (auto simp: versioned_def split: option.splits)
  have "sem ((if length ?es > 1 \<and> list_ex single_or ?es then [AndCond ?es] else ?es) @ [EqVersion v]) r \<longleftrightarrow> sem ?es r \<and> vr_version r = v"
  proof (cases "length ?es > 1 \<and> list_ex single_or ?es")
    case True
    then show ?thesis using sem_snoc [of "[AndCond ?es]" v r] es by (simp add: sem_paren single_or_def)
  next
    case False
    then have "\<not> list_ex single_or ?es" using es(1) by (cases ?es; cases "tl ?es") auto
    with False es(2) show ?thesis using sem_snoc by auto
  qed
  with w show "sem (the (us_where (Update_ModifyStatement vname s))) r \<longleftrightarrow> sem ?es r \<and> vr_version r = v"
    and "us_where (Update_ModifyStatement vname s) \<noteq> None" by simp_all
  show "us_set_version (Update_ModifyStatement vname s)"
    using assms by (simp add: versioned_def Update_ModifyStatement_def Let_def split: dest.splits)
qed

lemma modified_hits:
  assumes "versioned s v"
  shows "hits sem (Update_ModifyStatement vname s) db i \<longleftrightarrow>
    (\<exists>r. db i = Some r \<and> sem (case us_where s of None \<Rightarrow> [] | Some es \<Rightarrow> es) r \<and> vr_version r = v)"
  using modified_where [OF assms, of vname] by (auto simp: hits_def)

lemma modified_version:
  assumes "versioned s v" and "run_update sem (Update_ModifyStatement vname s) db i = Some r'"
  shows "\<exists>r. db i = Some r \<and> vr_version r' = vr_version r + (if hits sem (Update_ModifyStatement vname s) db i then 1 else 0)"
  using assms(2) modified_where(3) [OF assms(1), of vname] by (auto simp: run_update_def hits_def split: option.splits if_splits)

end

lemma unhit_row: "\<not> hits sem s db i \<Longrightarrow> run_update sem s db i = db i"
  by (auto simp: run_update_def hits_def split: option.splits)

section \<open>gorm's conditions\<close>

text \<open>The conditions of a list, from the left, given what holds of the part since the last \<open>OR\<close>.\<close>

fun cond_holds :: "'x vrow cond \<Rightarrow> 'x vrow \<Rightarrow> bool"
and joined :: "bool \<Rightarrow> 'x vrow cond list \<Rightarrow> 'x vrow \<Rightarrow> bool" where
  "cond_holds (Cond p) r = p r"
| "cond_holds (EqVersion v) r = (vr_version r = v)"
| "cond_holds (OrCond es) r = list_ex (\<lambda>e. cond_holds e r) es"
| "cond_holds (AndCond es) r = (case es of [] \<Rightarrow> True | e # es \<Rightarrow> joined (cond_holds e r) es r)"
| "joined acc [] r = acc"
| "joined acc (e # es) r = (if single_or e then acc \<or> joined (cond_holds e r) es r else joined (acc \<and> cond_holds e r) es r)"

text \<open>A list that begins with conditions from \<open>Or\<close> has the first of them swapped with the first other one.\<close>

definition swap_first :: "'r cond list \<Rightarrow> 'r cond list" where
  "swap_first es = (let k = length (takeWhile single_or es) in
     if 0 < k \<and> k < length es then es[0 := es ! k, k := es ! 0] else es)"

definition gorm_where :: "'x row_conds \<Rightarrow> 'x vrow \<Rightarrow> bool" where
  "gorm_where es r =
     (let es = (case es of [AndCond es'] \<Rightarrow> es' | _ \<Rightarrow> es)
      in case swap_first es of [] \<Rightarrow> True | e # es \<Rightarrow> joined (cond_holds e r) es r)"

lemma swap_first_plain: "\<not> starts_with_or es \<Longrightarrow> swap_first es = es"
  by (cases es) (simp_all add: swap_first_def)

lemma joined_and: "\<not> list_ex single_or es \<Longrightarrow> joined acc es r \<longleftrightarrow> acc \<and> (\<forall>e \<in> set es. cond_holds e r)"
  by (induction es arbitrary: acc) auto

lemma gorm_where_single: "\<not> single_or e \<Longrightarrow> plain_group e \<Longrightarrow> gorm_where [e] r \<longleftrightarrow> cond_holds e r"
  by (cases e) (auto simp: gorm_where_def swap_first_plain split: list.splits)

lemma gorm_where_plain:
  "\<not> starts_with_or es \<Longrightarrow> list_all plain_group es \<Longrightarrow>
    gorm_where es r \<longleftrightarrow> (case es of [] \<Rightarrow> True | e # es \<Rightarrow> joined (cond_holds e r) es r)"
  by (cases es; cases "hd es"; cases "tl es") (auto simp: gorm_where_def swap_first_plain split: list.splits)

interpretation gorm: where_laws gorm_where
proof
  fix es :: "'a row_conds" and r
  assume es: "\<not> list_ex single_or es" "list_all plain_group es"
  then have h: "\<not> starts_with_or es" by (cases es) auto
  have "gorm_where [e] r \<longleftrightarrow> cond_holds e r" if "e \<in> set es" for e
    using es that by (intro gorm_where_single) (auto simp: list_ex_iff list_all_iff)
  then show "gorm_where es r \<longleftrightarrow> (\<forall>e \<in> set es. gorm_where [e] r)"
    unfolding gorm_where_plain [OF h es(2)] using es by (cases es) (auto simp: joined_and)
next
  fix es :: "'a row_conds" and r
  assume "\<not> starts_with_or es" "list_all plain_group es"
  then show "gorm_where [AndCond es] r \<longleftrightarrow> gorm_where es r"
    by (simp add: gorm_where_plain [of es]) (simp add: gorm_where_def swap_first_plain)
next
  fix v and r :: "'a vrow"
  show "gorm_where [EqVersion v] r \<longleftrightarrow> vr_version r = v"
    by (simp add: gorm_where_def swap_first_def single_or_def)
qed

section \<open>Properties\<close>

text \<open>The updates of objects read with version \<open>v\<close> among a sequence of updates that write row \<open>i\<close>; each
  update carries the version its object was read with.\<close>

fun written_at ::
  "('x row_conds \<Rightarrow> 'x vrow \<Rightarrow> bool) \<Rightarrow> string \<Rightarrow> (('x vrow, 'x) update_stmt \<times> int) list \<Rightarrow> (nat \<Rightarrow> 'x vrow option) \<Rightarrow> nat \<Rightarrow> int \<Rightarrow> nat" where
  "written_at sem vname [] db i v = 0"
| "written_at sem vname ((s, w) # ss) db i v =
     (let m = Update_ModifyStatement vname s in
      (if w = v \<and> hits sem m db i then 1 else 0) + written_at sem vname ss (run_update sem m db) i v)"

context where_laws
begin

lemma passed_version:
  assumes "\<forall>(s, w) \<in> set ss. versioned s w" and "case db i of None \<Rightarrow> True | Some r \<Rightarrow> v < vr_version r"
  shows "written_at sem vname ss db i v = 0"
  using assms
proof (induction ss arbitrary: db)
  case (Cons sw ss)
  obtain s w where sw: "sw = (s, w)" by (cases sw)
  with Cons.prems have s: "versioned s w" by simp
  have "case run_update sem (Update_ModifyStatement vname s) db i of None \<Rightarrow> True | Some r \<Rightarrow> v < vr_version r"
    using modified_version [OF s, of vname db i] Cons.prems(2) by (fastforce split: option.splits)
  moreover have "\<not> (w = v \<and> hits sem (Update_ModifyStatement vname s) db i)"
    using modified_hits [OF s, of vname db i] Cons.prems(2) by (auto split: option.splits)
  ultimately show ?case using Cons by (simp add: sw Let_def)
qed simp

lemma one_write:
  assumes "\<forall>(s, w) \<in> set ss. versioned s w"
  shows "written_at sem vname ss db i v \<le> 1"
  using assms
proof (induction ss arbitrary: db)
  case (Cons sw ss)
  obtain s w where sw: "sw = (s, w)" by (cases sw)
  with Cons.prems have s: "versioned s w" by simp
  let ?m = "Update_ModifyStatement vname s"
  show ?case
  proof (cases "w = v \<and> hits sem ?m db i")
    case True
    then have "case run_update sem ?m db i of None \<Rightarrow> True | Some r \<Rightarrow> v < vr_version r"
      using modified_version [OF s, of vname db i] modified_hits [OF s, of vname db i]
      by (fastforce split: option.splits)
    with True show ?thesis using passed_version [where ss = ss and db = "run_update sem ?m db" and i = i and v = v] Cons.prems by (simp add: sw Let_def)
  next
    case False
    with Cons show ?thesis by (auto simp: sw Let_def)
  qed
qed simp

end

text \<open>C2: No update is lost: in any sequence of updates, each made of an object with the version it was read
  with, every version of a row is overwritten at most once. An update writes a row exactly when the row meets the
  update's own conditions and still has the version the object was read with, and then raises the version by one.\<close>

theorem no_lost_update:
  assumes "where_laws sem" and "\<forall>(s, w) \<in> set ((s0, v) # ss). versioned s w"
  shows "written_at sem vname ((s0, v) # ss) db i v' \<le> 1 \<and>
    (let m = Update_ModifyStatement vname s0; db' = run_update sem m db in
     if \<exists>r. db i = Some r \<and> sem (case us_where s0 of None \<Rightarrow> [] | Some es \<Rightarrow> es) r \<and> vr_version r = v
     then hits sem m db i \<and> map_option vr_version (db' i) = Some (v + 1)
     else \<not> hits sem m db i \<and> db' i = db i)"
proof -
  have s: "versioned s0 v" using assms(2) by simp
  note h = where_laws.modified_hits [OF assms(1) s, of vname db i]
  let ?m = "Update_ModifyStatement vname s0"
  have "map_option vr_version (run_update sem ?m db i) = Some (v + 1)" if "hits sem ?m db i"
    using that h where_laws.modified_where(3) [OF assms(1) s, of vname] by (auto simp: run_update_def hits_def)
  then show ?thesis
    using where_laws.one_write [OF assms(1,2)] h unhit_row [of sem ?m db i] unfolding Let_def by presburger
qed

definition demo_update :: "version_field \<Rightarrow> int vrow cond list option \<Rightarrow> (string \<times> int) list \<Rightarrow> (int vrow, int) update_stmt" where
  "demo_update v w m = \<lparr>us_enabled = False, us_where = w, us_unscoped = False, us_version = v, us_dest = DMap m,
     us_selected = (\<lambda>_. None), us_restricted = False, us_skip_hooks = False, us_set_version = False\<rparr>"

definition demo_row :: "int vrow" where
  "demo_row = \<lparr>vr_cols = [''n'' \<mapsto> 1], vr_version = 3\<rparr>"

lemma demo_versioned: "versioned (demo_update (VPtr v True) None m) v"
  by (simp add: versioned_def demo_update_def)

text \<open>Two users update what they read at version 3: the second update writes nothing.\<close>

lemma no_lost_update_witness:
  "written_at gorm_where ''version'' [(demo_update (VPtr 3 True) None [(''n'', 5)], 3), (demo_update (VPtr 3 True) None [(''n'', 7)], 3)]
     [7 \<mapsto> demo_row] 7 3 \<le> 1 \<and>
   map_option vr_version (run_update gorm_where (Update_ModifyStatement ''version'' (demo_update (VPtr 3 True) None [(''n'', 5)]))
     [7 \<mapsto> demo_row] 7) = Some 4"
  using no_lost_update [OF gorm.where_laws_axioms, of "demo_update (VPtr 3 True) None [(''n'', 5)]" 3
      "[(demo_update (VPtr 3 True) None [(''n'', 7)], 3)]" "''version''" "[7 \<mapsto> demo_row]" 7 3]
  by (simp add: demo_versioned) (simp add: demo_row_def demo_update_def Let_def)

text \<open>Conditions that begin with \<open>Or\<close>, which the code leaves as they are when there is only one:
  the version is one of two alternatives, so a row of another version is overwritten.\<close>

lemma leading_or_escapes:
  "hits gorm_where (Update_ModifyStatement ''version'' (demo_update (VPtr 2 True) (Some [OrCond [Cond (\<lambda>r. vr_cols r ''n'' = Some 1)]]) [(''n'', 5)]))
     [7 \<mapsto> demo_row] 7"
  by (simp add: hits_def demo_update_def demo_row_def Update_ModifyStatement_def Let_def wrap_or_def add_where_def single_or_def
      gorm_where_def swap_first_def)

text \<open>An object whose version is not loaded is written without asking for a version.\<close>

lemma without_version:
  assumes "field_zero (us_version s)" "\<not> us_enabled s" "us_where s = None"
  shows "us_where (Update_ModifyStatement vname s) = None"
  using assms by (simp add: Update_ModifyStatement_def Let_def wrap_or_def split: dest.splits)

text \<open>Creation gives every row a version: the one it carries, or 1.\<close>

lemma created_version:
  assumes "\<forall>z. f \<noteq> VOther z"
  shows "isVersionValue (setVersionColumn f) = (if field_zero f then 1 else fst (isVersionValue f), True) \<and>
    \<not> (field_zero f \<and> field_zero (setVersionColumn f))"
  using assms by (cases f) (auto simp: setVersionColumn_def)

text \<open>A struct never writes the version column itself.\<close>

lemma dest_without_version: "vname \<notin> fst ` set (dest_columns s vname fs)"
  by (induction fs) (auto simp: Let_def)

end
