(* ===== verification/Util_Data.thy ===== *)
theory Util_Data
  imports Aes_Cbc
begin

text \<open>
  Small data operations of package \<open>util\<close>: merging beans through JSON (\<open>util/map.go\<close>), passwords
  (\<open>util/crypto.go\<close>), uploads (\<open>util/upload.go\<close>), slices, error groups and the hex form of JSON
  (\<open>util/slice.go\<close>, \<open>util/error.go\<close>, \<open>util/json_help.go\<close>).

  \<open>encoding/json\<close> is an argument where a whole value is written; for the merge of beans it is the part
  that the code relies on: which fields are written, and what a number becomes on the way through
  \<open>interface{}\<close>. The cipher of package \<open>goutil\<close> is an argument with the laws \<open>goutil_aes\<close>.
\<close>

section \<open>Merging beans\<close>

text \<open>A bean type: the JSON names of its fields, which of them have \<open>omitempty\<close>, and which values are
  empty. What a value becomes when it is read into \<open>interface{}\<close> and back is \<open>bt_trip\<close>; a value may not
  fit in its field any more (\<open>None\<close>).\<close>

record 'v bean_type =
  bt_fields :: "string list"
  bt_omitempty :: "string \<Rightarrow> bool"
  bt_empty :: "'v \<Rightarrow> bool"
  bt_trip :: "'v \<Rightarrow> 'v option"

type_synonym 'v bean = "string \<Rightarrow> 'v"
type_synonym 'v gomap = "string \<Rightarrow> 'v option"

definition Bean2Map :: "'v bean_type \<Rightarrow> 'v bean \<Rightarrow> 'v gomap" where
  "Bean2Map T b k = (if k \<in> set (bt_fields T) \<and> \<not> (bt_omitempty T k \<and> bt_empty T (b k)) then Some (b k) else None)"

definition MergeMap :: "'v gomap \<Rightarrow> 'v gomap \<Rightarrow> 'v gomap" where
  "MergeMap target source = target ++ source"

text \<open>A value that does not fit is passed over and makes the error; the fields after it are still written.\<close>

fun read_fields :: "'v bean_type \<Rightarrow> 'v gomap \<Rightarrow> string list \<Rightarrow> 'v bean \<Rightarrow> 'v bean \<times> bool" where
  "read_fields T m [] b = (b, True)"
| "read_fields T m (k # ks) b = (case m k of
       None \<Rightarrow> read_fields T m ks b
     | Some v \<Rightarrow> (case bt_trip T v of
           Some w \<Rightarrow> read_fields T m ks (b(k := w))
         | None \<Rightarrow> (fst (read_fields T m ks b), False)))"

definition ToBean :: "'v bean_type \<Rightarrow> 'v gomap \<Rightarrow> 'v bean \<Rightarrow> 'v bean \<times> bool" where
  "ToBean T m b = read_fields T m (bt_fields T) b"

definition MergeBean :: "'v bean_type \<Rightarrow> 'v bean \<Rightarrow> 'v bean \<Rightarrow> 'v bean \<times> bool" where
  "MergeBean T target source = ToBean T (MergeMap (Bean2Map T target) (Bean2Map T source)) target"

lemma read_fields_value:
  "distinct ks \<Longrightarrow> fst (read_fields T m ks b) k =
     (if k \<in> set ks then case m k of None \<Rightarrow> b k | Some v \<Rightarrow> (case bt_trip T v of None \<Rightarrow> b k | Some w \<Rightarrow> w) else b k)"
  by (induction ks arbitrary: b) (auto split: option.splits)

lemma read_fields_ok: "snd (read_fields T m ks b) \<longleftrightarrow> (\<forall>k \<in> set ks. \<forall>v. m k = Some v \<longrightarrow> bt_trip T v \<noteq> None)"
  by (induction ks arbitrary: b) (auto split: option.splits)

text \<open>The value a field is merged from: the source's unless it is left out, then the target's unless that is
  left out.\<close>

definition written :: "'v bean_type \<Rightarrow> 'v bean \<Rightarrow> string \<Rightarrow> bool" where
  "written T b k \<longleftrightarrow> \<not> (bt_omitempty T k \<and> bt_empty T (b k))"

definition merged_from :: "'v bean_type \<Rightarrow> 'v bean \<Rightarrow> 'v bean \<Rightarrow> string \<Rightarrow> 'v option" where
  "merged_from T target source k =
     (if written T source k then Some (source k) else if written T target k then Some (target k) else None)"

lemma merged_map:
  "k \<in> set (bt_fields T) \<Longrightarrow> MergeMap (Bean2Map T target) (Bean2Map T source) k = merged_from T target source k"
  by (auto simp: MergeMap_def Bean2Map_def merged_from_def written_def map_add_def)

text \<open>Every field of the merged bean is the source's, unless it has \<open>omitempty\<close> and is empty there, when
  it stays the target's; the value has gone through \<open>interface{}\<close> on the way. The merge fails exactly
  when a value does not come back from there.\<close>

theorem MergeBean_fields:
  assumes "distinct (bt_fields T)"
  shows "(\<forall>k. fst (MergeBean T target source) k =
       (if k \<in> set (bt_fields T)
        then case merged_from T target source k of None \<Rightarrow> target k
             | Some v \<Rightarrow> (case bt_trip T v of None \<Rightarrow> target k | Some w \<Rightarrow> w)
        else target k)) \<and>
     (snd (MergeBean T target source) \<longleftrightarrow>
       (\<forall>k \<in> set (bt_fields T). \<forall>v. merged_from T target source k = Some v \<longrightarrow> bt_trip T v \<noteq> None))"
  by (auto simp: MergeBean_def ToBean_def read_fields_value [OF assms] read_fields_ok merged_map)

text \<open>Without \<open>omitempty\<close> an empty field of the source empties the target's.\<close>

definition demo_bean_type :: "int bean_type" where
  "demo_bean_type = \<lparr>bt_fields = [''id'', ''age'', ''score''], bt_omitempty = (\<lambda>k. k = ''id''), bt_empty = (\<lambda>v. v = 0),
     bt_trip = (\<lambda>v. Some v)\<rparr>"

lemma demo_merge:
  "fst (MergeBean demo_bean_type (\<lambda>k. 5) (\<lambda>k. 0)) ''id'' = 5"
  "fst (MergeBean demo_bean_type (\<lambda>k. 5) (\<lambda>k. 0)) ''age'' = 0"
  by code_simp+

theorem MergeBean_fields_witness:
  "fst (MergeBean demo_bean_type (\<lambda>k. 5) (\<lambda>k. if k = ''score'' then 9 else 0)) ''score'' = 9 \<and>
   snd (MergeBean demo_bean_type (\<lambda>k. 5) (\<lambda>k. if k = ''score'' then 9 else 0))"
proof -
  have "distinct (bt_fields demo_bean_type)" by (simp add: demo_bean_type_def)
  from MergeBean_fields [OF this, of "\<lambda>k. 5" "\<lambda>k. if k = ''score'' then 9 else 0"] show ?thesis
    by (simp add: merged_from_def written_def demo_bean_type_def)
qed

text \<open>A number beyond \<open>2 ^ 53\<close> is not the same after \<open>interface{}\<close>, where it is a floating-point number: the
  merge changes fields that the source does not mention.\<close>

lemma MergeBean_rounds:
  assumes "distinct (bt_fields T)" "''id'' \<in> set (bt_fields T)" "bt_trip T (2 ^ 53 + 1) = Some (2 ^ 53)"
    "bt_omitempty T ''id''" "bt_empty T (0 :: int)" "\<not> bt_empty T (2 ^ 53 + 1)"
  shows "fst (MergeBean T (\<lambda>k. 2 ^ 53 + 1) (\<lambda>k. 0)) ''id'' = 2 ^ 53"
proof -
  have "merged_from T (\<lambda>k. 2 ^ 53 + 1) (\<lambda>k. 0) ''id'' = Some (2 ^ 53 + 1)"
    using assms(4-6) by (simp add: merged_from_def written_def)
  then show ?thesis using assms(2,3)
    by (simp add: MergeBean_def ToBean_def read_fields_value [OF assms(1)] merged_map)
qed

section \<open>Passwords\<close>

record goutil_cipher =
  gc_encrypt :: "bytes \<Rightarrow> bytes \<Rightarrow> bytes"
  gc_decrypt :: "bytes \<Rightarrow> bytes \<Rightarrow> (string, bytes) result"

record Crypto =
  crypto_key :: string

definition TrimKey :: "string \<Rightarrow> string" where
  "TrimKey k = strings_TrimSpace (strings_ReplaceAll k ''-'' [])"

text \<open>\<open>SetInnerCrypto\<close>: a key of fewer than 32 bytes panics.\<close>

definition SetInnerCrypto :: "string \<Rightarrow> Crypto option" where
  "SetInnerCrypto k = (if length (TrimKey k) < 32 then None else Some \<lparr>crypto_key = take 32 (TrimKey k)\<rparr>)"

definition Crypto_Key :: "Crypto \<Rightarrow> string \<times> Crypto" where
  "Crypto_Key c = (let k = TrimKey (crypto_key c) in (k, c\<lparr>crypto_key := k\<rparr>))"

definition Crypto_Encrypt :: "goutil_cipher \<Rightarrow> Crypto \<Rightarrow> string \<Rightarrow> string" where
  "Crypto_Encrypt G c val = bytes_str (gc_encrypt G (str_bytes (fst (Crypto_Key c))) (str_bytes val))"

definition Crypto_Decrypt :: "goutil_cipher \<Rightarrow> Crypto \<Rightarrow> string \<Rightarrow> (string, string) result" where
  "Crypto_Decrypt G c ciphertext =
     and_then (gc_decrypt G (str_bytes (fst (Crypto_Key c))) (str_bytes ciphertext)) (\<lambda>v. Inr (bytes_str v))"

definition EncryptPassword :: "goutil_cipher \<Rightarrow> Crypto \<Rightarrow> string \<Rightarrow> string" where
  "EncryptPassword G inner p = strings_ToUpper (Crypto_Encrypt G inner p)"

definition DecryptPassword :: "goutil_cipher \<Rightarrow> Crypto \<Rightarrow> string \<Rightarrow> (string, string) result" where
  "DecryptPassword G inner p = Crypto_Decrypt G inner (strings_ToLower p)"

definition CheckPassword :: "goutil_cipher \<Rightarrow> Crypto \<Rightarrow> string \<Rightarrow> string \<Rightarrow> string option" where
  "CheckPassword G inner p c = (case DecryptPassword G inner c of
       Inl err \<Rightarrow> Some err
     | Inr s \<Rightarrow> if s \<noteq> p then Some ''password error'' else None)"

text \<open>What the code relies on in the cipher: with a key of a legal length it decrypts what it encrypted, and its
  text is hex with small letters, so that it survives being written in capitals.\<close>

locale goutil_aes =
  fixes G :: goutil_cipher
  assumes decrypts: "length key \<in> {16, 24, 32} \<Longrightarrow> gc_decrypt G key (gc_encrypt G key val) = Inr val"
    and small_hex: "length key \<in> {16, 24, 32} \<Longrightarrow> bytes_ToLower (bytes_ToUpper (gc_encrypt G key val)) = gc_encrypt G key val"
begin

lemma password_back:
  assumes "length (TrimKey (crypto_key inner)) \<in> {16, 24, 32}"
  shows "DecryptPassword G inner (EncryptPassword G inner p) = Inr p"
proof -
  let ?k = "str_bytes (TrimKey (crypto_key inner))"
  have l: "length ?k \<in> {16, 24, 32}" using assms by simp
  have "str_bytes (strings_ToLower (strings_ToUpper (bytes_str c))) = bytes_ToLower (bytes_ToUpper c)" for c
    by (simp add: bytes_ToLower_def bytes_ToUpper_def)
  with decrypts [OF l] small_hex [OF l] show ?thesis
    by (simp add: DecryptPassword_def EncryptPassword_def Crypto_Decrypt_def Crypto_Encrypt_def Crypto_Key_def Let_def)
qed

lemma password_checked:
  assumes "length (TrimKey (crypto_key inner)) \<in> {16, 24, 32}"
  shows "CheckPassword G inner p (EncryptPassword G inner q) = None \<longleftrightarrow> p = q"
  by (auto simp: CheckPassword_def password_back [OF assms])

end

text \<open>A cipher of this kind: AES in CBC mode with a fixed block in front, and hex.\<close>

definition hex_cipher :: goutil_cipher where
  "hex_cipher = \<lparr>gc_encrypt = (\<lambda>key val. hex_Encode (cbc_encrypt key (replicate 16 0) (pkcs5Padding val 16))),
     gc_decrypt = (\<lambda>key c. case hex_Decode c of
         Inl e \<Rightarrow> Inl ''hex'' | Inr d \<Rightarrow> (case pkcs5UnPadding (cbc_decrypt key (replicate 16 0) d) of Inl e \<Rightarrow> Inl ''padding'' | Inr v \<Rightarrow> Inr v))\<rparr>"

interpretation hex: goutil_aes hex_cipher
proof
  fix key val :: bytes
  assume "length key \<in> {16, 24, 32}"
  then have "aes_key_ok key" by (simp add: aes_key_ok_def)
  moreover have "length (pkcs5Padding val 16) mod 16 = 0"
  proof -
    have "(l + (16 - l mod 16)) mod 16 = 0" for l :: nat by presburger
    then show ?thesis by (simp only: pkcs5_pad_len)
  qed
  ultimately have "cbc_decrypt key (replicate 16 0) (cbc_encrypt key (replicate 16 0) (pkcs5Padding val 16)) = pkcs5Padding val 16"
    by (intro cbc_roundtrip) simp_all
  then show "gc_decrypt hex_cipher key (gc_encrypt hex_cipher key val) = Inr val"
    by (simp add: hex_cipher_def hex_Decode_Encode pkcs5_unpad_pad pkcs5_pad_len)
  show "bytes_ToLower (bytes_ToUpper (gc_encrypt hex_cipher key val)) = gc_encrypt hex_cipher key val"
    by (simp add: hex_cipher_def lower_upper_hex_Encode)
qed

lemma password_with_set_key:
  assumes "SetInnerCrypto k = Some inner" "\<not> strings_Contains (crypto_key inner) ''-''" "strings_TrimSpace (crypto_key inner) = crypto_key inner"
  shows "CheckPassword hex_cipher inner p (EncryptPassword hex_cipher inner q) = None \<longleftrightarrow> p = q"
proof -
  have "length (crypto_key inner) = 32" using assms(1) by (auto simp: SetInnerCrypto_def split: if_splits)
  moreover have "TrimKey (crypto_key inner) = crypto_key inner"
    using assms(2,3) by (simp add: TrimKey_def strings_ReplaceAll_def split_on_absent)
  ultimately show ?thesis by (intro hex.password_checked) simp
qed

section \<open>Uploads\<close>

record upload_request =
  ur_present :: bool
  ur_filename :: string
  ur_size :: int
  ur_opens :: bool
  ur_data :: bytes
  ur_copied :: nat

record upload_files =
  uf_content :: "string \<Rightarrow> bytes option"
  uf_writable :: bool

datatype upload_error = NoFile | ErrorFileIsTooLarge | ErrorFileIsNotImage | OpenError | CreateError | CopyError

text \<open>\<open>filepath.Ext\<close>: from the last point of the last part of the path.\<close>

definition filepath_Ext :: "string \<Rightarrow> string" where
  "filepath_Ext name =
     (let r = takeWhile (\<lambda>c. c \<noteq> CHR ''.'' \<and> c \<noteq> CHR ''/'') (rev name)
      in case drop (length r) (rev name) of
           c # _ \<Rightarrow> if c = CHR ''.'' then CHR ''.'' # rev r else [] | [] \<Rightarrow> [])"

definition fileIsImage :: "string \<Rightarrow> bool" where
  "fileIsImage name \<longleftrightarrow> strings_ToLower (filepath_Ext name) \<in> {''.png'', ''.jpg'', ''.jpeg'', ''.gif''}"

text \<open>The day's directory; its texts are digits.\<close>

definition filePathNameFunc :: "string \<times> string \<times> string \<Rightarrow> string \<Rightarrow> string" where
  "filePathNameFunc day fileName = (case day of (y, m, d) \<Rightarrow> y @ ''/'' @ m @ ''/'' @ d @ ''/'' @ fileName)"

text \<open>Writing without truncation: what an old file has beyond the new data stays.\<close>

definition write_over :: "bytes \<Rightarrow> bytes option \<Rightarrow> bytes" where
  "write_over data old = data @ drop (length data) (case old of None \<Rightarrow> [] | Some b \<Rightarrow> b)"

definition Upload ::
  "string \<times> string \<times> string \<Rightarrow> string \<Rightarrow> upload_request \<Rightarrow> upload_files \<Rightarrow> string \<times> upload_error option \<times> upload_files" where
  "Upload day uuid r fs =
     (if \<not> ur_present r then ([], Some NoFile, fs)
      else if ur_size r > 2 ^ 20 * 2 then ([], Some ErrorFileIsTooLarge, fs)
      else if \<not> fileIsImage (ur_filename r) then ([], Some ErrorFileIsNotImage, fs)
      else let path = filePathNameFunc day (strings_ToUpper uuid @ filepath_Ext (ur_filename r)) in
        if \<not> ur_opens r then (path, Some OpenError, fs)
        else if \<not> uf_writable fs then (path, Some CreateError, fs)
        else let done = take (ur_copied r) (ur_data r);
                 fs = fs\<lparr>uf_content := (uf_content fs)(path \<mapsto> write_over done (uf_content fs path))\<rparr>
             in (path, if ur_copied r < length (ur_data r) then Some CopyError else None, fs))"

text \<open>The extension cannot leave the directory: it has no slash.\<close>

lemma Ext_no_slash: "CHR ''/'' \<notin> set (filepath_Ext name)"
  by (auto simp: filepath_Ext_def Let_def split: list.splits dest: set_takeWhileD)

lemma Upload_accepted:
  assumes "Upload day uuid r fs = (path, None, fs')" "uf_content fs path = None"
  shows "path = filePathNameFunc day (strings_ToUpper uuid @ filepath_Ext (ur_filename r)) \<and> ur_size r \<le> 2 ^ 21 \<and>
    fileIsImage (ur_filename r) \<and> uf_content fs' = (uf_content fs)(path \<mapsto> ur_data r)"
  using assms by (auto simp: Upload_def Let_def write_over_def split: if_splits)

text \<open>Errors before the copy leave every file as it was; a copy that breaks off leaves a part of the file.\<close>

lemma Upload_refused:
  "Upload day uuid r fs = (path, Some e, fs') \<Longrightarrow> e \<noteq> CopyError \<Longrightarrow> fs' = fs"
  by (auto simp: Upload_def Let_def split: if_splits)

section \<open>Slices, error groups, JSON in hex\<close>

primrec Slice_Find_from :: "nat \<Rightarrow> ('a \<Rightarrow> nat \<Rightarrow> bool) \<Rightarrow> 'a list \<Rightarrow> 'a option" where
  "Slice_Find_from i p [] = None"
| "Slice_Find_from i p (x # xs) = (if p x i then Some x else Slice_Find_from (Suc i) p xs)"

definition Slice_Find :: "'a list \<Rightarrow> ('a \<Rightarrow> nat \<Rightarrow> bool) \<Rightarrow> 'a option" where
  "Slice_Find s p = Slice_Find_from 0 p s"

primrec FindIndex_from :: "nat \<Rightarrow> ('a \<Rightarrow> nat \<Rightarrow> bool) \<Rightarrow> 'a list \<Rightarrow> int" where
  "FindIndex_from i p [] = - 1"
| "FindIndex_from i p (x # xs) = (if p x i then int i else FindIndex_from (Suc i) p xs)"

definition Slice_FindIndex :: "'a list \<Rightarrow> ('a \<Rightarrow> nat \<Rightarrow> bool) \<Rightarrow> int" where
  "Slice_FindIndex s p = FindIndex_from 0 p s"

text \<open>\<open>MustFind\<close> panics (\<open>None\<close>) when nothing is found.\<close>

definition Slice_MustFind :: "'a list \<Rightarrow> ('a \<Rightarrow> nat \<Rightarrow> bool) \<Rightarrow> 'a option" where
  "Slice_MustFind s p = Slice_Find s p"

primrec Slice_Contains :: "'a list \<Rightarrow> 'a \<Rightarrow> bool" where
  "Slice_Contains [] x = False"
| "Slice_Contains (n # a) x = (if x = n then True else Slice_Contains a x)"

lemma Contains_member: "Slice_Contains a x \<longleftrightarrow> x \<in> set a"
  by (induction a) auto

lemma FindIndex_range: "FindIndex_from i p s = - 1 \<or> int i \<le> FindIndex_from i p s"
proof (induction s arbitrary: i)
  case (Cons x s)
  from Cons.IH [of "Suc i"] show ?case by auto
qed simp

lemma Find_at_index:
  "Slice_Find_from i p s = (if FindIndex_from i p s < 0 then None else Some (s ! nat (FindIndex_from i p s - int i)))"
proof (induction s arbitrary: i)
  case (Cons x s)
  show ?case
  proof (cases "p x i")
    case False
    have "nat (FindIndex_from (Suc i) p s - int i) = Suc (nat (FindIndex_from (Suc i) p s - int (Suc i)))"
      if "0 \<le> FindIndex_from (Suc i) p s" using that FindIndex_range [of "Suc i" p s] by auto
    with False Cons.IH [of "Suc i"] show ?thesis by simp
  qed simp
qed simp

text \<open>\<open>NewGroupError\<close>: nil errors are dropped, and nothing is left of nothing.\<close>

definition NewGroupError :: "string option list \<Rightarrow> string list option" where
  "NewGroupError errs = (let e = map the (filter (\<lambda>e. e \<noteq> None) errs) in if length e = 0 then None else Some e)"

definition errorGroup_Error :: "string list \<Rightarrow> string" where
  "errorGroup_Error e = strings_Join e '',''"

lemma NewGroupError_None: "NewGroupError errs = None \<longleftrightarrow> (\<forall>e \<in> set errs. e = None)"
  by (auto simp: NewGroupError_def Let_def filter_empty_conv)

definition JsMarshalHex :: "('a \<Rightarrow> (string, bytes) result) \<Rightarrow> 'a \<Rightarrow> (string, bytes) result" where
  "JsMarshalHex marshal val = and_then (marshal val) (\<lambda>b. Inr (hex_Encode b))"

definition JsUnmarshalHex :: "(bytes \<Rightarrow> (string, 'a) result) \<Rightarrow> bytes \<Rightarrow> (string, 'a) result" where
  "JsUnmarshalHex unmarshal data = (case hex_Decode data of Inl e \<Rightarrow> Inl ''hex'' | Inr b \<Rightarrow> unmarshal b)"

lemma JsHex_roundtrip:
  "marshal v = Inr b \<Longrightarrow> unmarshal b = Inr v \<Longrightarrow> and_then (JsMarshalHex marshal v) (JsUnmarshalHex unmarshal) = Inr v"
  by (simp add: JsMarshalHex_def JsUnmarshalHex_def hex_Decode_Encode)

text \<open>The same in base64; \<open>decodes\<close> is what reading the JSON text gives.\<close>

definition JSONMarshalToBase64 :: "('a \<Rightarrow> (string, bytes) result) \<Rightarrow> 'a \<Rightarrow> (string, bytes) result" where
  "JSONMarshalToBase64 marshal v = (case marshal v of Inl e \<Rightarrow> Inl e | Inr bts \<Rightarrow> Inr (b64_Encode bts))"

definition JSONUnmarshalFromBase64 :: "(bytes \<Rightarrow> (string, 'a) result) \<Rightarrow> bytes \<Rightarrow> (string, 'a) result" where
  "JSONUnmarshalFromBase64 unmarshal data = (case b64_Decode data of Inl e \<Rightarrow> Inl ''base64'' | Inr bts \<Rightarrow> unmarshal bts)"

lemma JSONBase64_roundtrip:
  "marshal v = Inr b \<Longrightarrow> unmarshal b = Inr v \<Longrightarrow>
    and_then (JSONMarshalToBase64 marshal v) (JSONUnmarshalFromBase64 unmarshal) = Inr v"
  by (simp add: JSONMarshalToBase64_def JSONUnmarshalFromBase64_def b64_Decode_Encode)

text \<open>JSON as text; errors of \<open>JsMarshal\<close> are dropped, and the text is empty then.\<close>

definition JsMarshal :: "('a \<Rightarrow> (string, bytes) result) \<Rightarrow> 'a \<Rightarrow> bytes" where
  "JsMarshal marshal v = (case marshal v of Inl e \<Rightarrow> [] | Inr b \<Rightarrow> b)"

definition JSONDump :: "('a \<Rightarrow> (string, bytes) result) \<Rightarrow> ('a \<Rightarrow> (string, bytes) result) \<Rightarrow> 'a \<Rightarrow> bool option list \<Rightarrow> string" where
  "JSONDump marshal marshal_indent v args =
     (let indent = (case args of Some b # _ \<Rightarrow> b | _ \<Rightarrow> False)
      in if indent then bytes_str (JsMarshal marshal_indent v) else bytes_str (JsMarshal marshal v))"

definition MarshalToString :: "('a \<Rightarrow> (string, bytes) result) \<Rightarrow> ('a \<Rightarrow> (string, bytes) result) \<Rightarrow> 'a \<Rightarrow> bool option list \<Rightarrow> (string, string) result" where
  "MarshalToString marshal marshal_indent v args =
     (case (if length args > 0 \<and> args ! 0 = Some True then marshal_indent v else marshal v) of
        Inl e \<Rightarrow> Inl e | Inr data \<Rightarrow> Inr (bytes_str data))"

lemma dump_is_text:
  "MarshalToString marshal indent v args = Inr t \<Longrightarrow> JSONDump marshal indent v args = t"
  by (cases args rule: list.exhaust; cases "hd args") (auto simp: MarshalToString_def JSONDump_def JsMarshal_def split: sum.splits if_splits)

definition TrimByteSliceSpace :: "bytes \<Rightarrow> bytes" where
  "TrimByteSliceSpace data = filter (\<lambda>b. b \<notin> {32, 9, 10, 11, 12, 13}) data"

end
