(* ===== verification/Row_Update.thy ===== *)
theory Row_Update
  imports Crud Util_Data Version_Lock
begin

text \<open>
  An update from the request to the table: \<open>CurdParams.Update\<close> (\<open>mdb/curd.go\<close>) with \<open>MergeBean\<close>
  (\<open>util/map.go\<close>) for the merge into the stored row and the version column (\<open>mdb/version.go\<close>) in the
  statement that \<open>Updates\<close> runs. The theories of the three parts take each other's part as an argument;
  here they are put together.

  A bean is its fields by JSON name, which are also its columns; the table has its rows by id. The version
  is the field \<open>version\<close>, whose value stands for a number by \<open>rx_version\<close>. The fields with gorm's
  \<open>AutoUpdateTime\<close>, as the \<open>UpdatedAt\<close> of \<open>BaseModel\<close>, are those of \<open>rx_auto\<close>; \<open>rx_now\<close> is the time
  of the statement.
\<close>

record 'v row_ext =
  rx_type :: "'v bean_type"
  rx_zero :: "'v bean"
  rx_to_uint64 :: "'v option \<Rightarrow> nat"
  rx_is_true :: "'v \<Rightarrow> bool"
  rx_version :: "'v \<Rightarrow> int"
  rx_number :: "int \<Rightarrow> 'v"
  rx_where :: "string \<Rightarrow> 'v vrow \<Rightarrow> bool"
  rx_auto :: "string \<Rightarrow> bool"
  rx_now :: 'v

type_synonym 'v row_table = "nat \<Rightarrow> 'v vrow option"

text \<open>\<open>Take\<close> fills a bean with a row.\<close>

definition bean_of :: "'v row_ext \<Rightarrow> 'v vrow \<Rightarrow> 'v bean" where
  "bean_of R r = (\<lambda>k. if k = ''version'' then rx_number R (vr_version r)
     else case vr_cols r k of Some v \<Rightarrow> v | None \<Rightarrow> rx_zero R k)"

text \<open>The statement of \<open>tx.Model(b).Where(c.Where).Select(flds).Updates(b)\<close>: \<open>"*"\<close> selects the columns of all fields. A
  condition given as text is one condition, in parentheses when it has an \<open>OR\<close> in it. gorm asks for
  the id of the model in the end, after the clauses of the fields.\<close>

definition selects :: "'v row_ext \<Rightarrow> string list \<Rightarrow> string \<Rightarrow> bool" where
  "selects R flds k \<longleftrightarrow> k \<in> set flds \<or> ''*'' \<in> set flds \<and> k \<in> set (bt_fields (rx_type R))"

definition update_statement :: "'v row_ext \<Rightarrow> 'v bean \<Rightarrow> string \<Rightarrow> string list \<Rightarrow> ('v vrow, 'v) update_stmt" where
  "update_statement R b w flds =
     \<lparr>us_enabled = False, us_where = (if w \<noteq> [] then Some [Cond (rx_where R w)] else None), us_unscoped = False,
      us_version = VPtr (rx_version R (b ''version'')) True,
      us_dest = DStruct (map (\<lambda>k. \<lparr>sf_name = k, sf_auto_update = (if rx_auto R k then 1 else 0), sf_updatable = True, sf_value = b k,
        sf_zero = bt_empty (rx_type R) (b k)\<rparr>) (bt_fields (rx_type R))),
      us_selected = (\<lambda>k. if selects R flds k then Some True else None), us_restricted = (''*'' \<notin> set flds),
      us_skip_hooks = False, us_set_version = False\<rparr>"

text \<open>The version's clause turns the bean into a map without the \<open>AutoUpdateTime\<close> fields. Of the map, gorm writes
  what is selected; and it writes the time of the statement into the \<open>AutoUpdateTime\<close> fields that are not in the
  map, selected or not.\<close>

definition gorm_columns :: "'v row_ext \<Rightarrow> string list \<Rightarrow> (string \<times> 'v) list \<Rightarrow> (string \<times> 'v) list" where
  "gorm_columns R flds cols = filter (\<lambda>(k, v). selects R flds k) cols @ map (\<lambda>k. (k, rx_now R))
     (filter (\<lambda>k. rx_auto R k \<and> k \<noteq> ''version'' \<and> k \<notin> fst ` set cols) (bt_fields (rx_type R)))"

definition Updates :: "'v row_ext \<Rightarrow> 'v bean \<Rightarrow> string \<Rightarrow> string list \<Rightarrow> 'v row_table \<Rightarrow> 'v row_table" where
  "Updates R b w flds =
     (let s = Update_ModifyStatement ''version'' (update_statement R b w flds);
          s = (case us_dest s of DMap cols \<Rightarrow> s\<lparr>us_dest := DMap (gorm_columns R flds cols)\<rparr> | DStruct _ \<Rightarrow> s);
          s = s\<lparr>us_set_version := us_set_version s \<and> selects R flds ''version''\<rparr>
      in run_update gorm_where (s\<lparr>us_where := add_where (Cond (\<lambda>r. vr_cols r ''id'' = Some (b ''id''))) (us_where s)\<rparr>))"

definition bean_result :: "'v bean \<times> bool \<Rightarrow> (string, 'v bean) result" where
  "bean_result r = (case r of (b, True) \<Rightarrow> Inr b | (b, False) \<Rightarrow> Inl ''json'')"

definition row_curd :: "'v row_ext \<Rightarrow> ('v bean, 'v, 'v row_table) curd_ext" where
  "row_curd R =
     \<lparr>cx_find_model = (\<lambda>t. Inr (rx_zero R)), cx_new = (\<lambda>_. rx_zero R),
      cx_to_bean = (\<lambda>vals b. bean_result (ToBean (rx_type R) (map_of vals) b)),
      cx_to_uint64 = rx_to_uint64 R, cx_is_true = rx_is_true R,
      cx_merge = (\<lambda>old new. bean_result (MergeBean (rx_type R) old new)),
      cx_copy_version = (\<lambda>old new. Some (new(''version'' := old ''version''))), cx_user_field = (\<lambda>_. False),
      cx_take = (\<lambda>i b d. case d i of None \<Rightarrow> Inl ''record not found'' | Some r \<Rightarrow> Inr (bean_of R r)),
      cx_create = (\<lambda>b d. (None, d(rx_to_uint64 R (Some (b ''id'')) \<mapsto> \<lparr>vr_cols = (\<lambda>k. if k \<in> set (bt_fields (rx_type R)) - {''version''} then Some (b k) else None), vr_version = 1\<rparr>))),
      cx_delete = (\<lambda>b i w d. (None, case d i of Some r \<Rightarrow> if w = [] \<or> rx_where R w r then d(i := None) else d | None \<Rightarrow> d)),
      cx_update = (\<lambda>b w flds d. (None, Updates R b w flds d))\<rparr>"

section \<open>What the update statement does\<close>

text \<open>The rows of the table carry their id, and different ids are different values.\<close>

definition ids_ok :: "'v row_table \<Rightarrow> bool" where
  "ids_ok d \<longleftrightarrow> (\<forall>i r. d i = Some r \<longrightarrow> vr_cols r ''id'' \<noteq> None) \<and>
     (\<forall>i j r q. d i = Some r \<longrightarrow> d j = Some q \<longrightarrow> vr_cols r ''id'' = vr_cols q ''id'' \<longrightarrow> i = j)"

lemma dest_selected:
  "[] \<notin> set ks \<Longrightarrow> us_selected s = (\<lambda>k. if P k then Some True else None) \<Longrightarrow>
   filter (\<lambda>(k, v). P k) (dest_columns s v (map (\<lambda>k. \<lparr>sf_name = k, sf_auto_update = (if a k then 1 else 0), sf_updatable = True, sf_value = b k, sf_zero = z k\<rparr>) ks)) =
   map (\<lambda>k. (k, b k)) (filter (\<lambda>k. k \<noteq> v \<and> \<not> a k \<and> P k) ks)"
  by (induction ks) (auto simp: Let_def)

lemma dest_no_auto:
  "a k \<Longrightarrow> k \<notin> fst ` set (dest_columns s v (map (\<lambda>k. \<lparr>sf_name = k, sf_auto_update = (if a k then 1 else 0), sf_updatable = True, sf_value = b k, sf_zero = z k\<rparr>) ks))"
  by (induction ks) (auto simp: Let_def)

text \<open>The row written: the selected columns of the bean, the time of the statement where gorm keeps it, and the
  next version.\<close>

definition written_row :: "'v row_ext \<Rightarrow> string list \<Rightarrow> 'v bean \<Rightarrow> 'v vrow \<Rightarrow> 'v vrow" where
  "written_row R flds b r = \<lparr>vr_cols = (\<lambda>k. if k \<in> set (bt_fields (rx_type R)) - {''version''} \<and> rx_auto R k then Some (rx_now R)
       else if k \<in> set (bt_fields (rx_type R)) - {''version''} \<and> selects R flds k then Some (b k) else vr_cols r k),
     vr_version = vr_version r + 1\<rparr>"

lemma columns_map: "map_of (map (\<lambda>k. (k, b k)) ks) = (\<lambda>k. if k \<in> set ks then Some (b k) else None)"
  by (induction ks) (auto simp: fun_eq_iff)

lemma modified_statement:
  fixes R :: "'v row_ext"
  assumes "[] \<notin> set (bt_fields (rx_type R))"
    and s: "s = Update_ModifyStatement ''version'' (update_statement R b w flds)"
  shows "us_where s = Some ((if w \<noteq> [] then [Cond (rx_where R w)] else []) @ [EqVersion (rx_version R (b ''version''))])"
    and "\<exists>cols. us_dest s = DMap cols \<and> vr_cols r ++ map_of (gorm_columns R flds cols) = vr_cols (written_row R flds b r)"
    and "us_set_version s"
proof -
  let ?fs = "map (\<lambda>k. \<lparr>sf_name = k, sf_auto_update = (if rx_auto R k then 1 else 0), sf_updatable = True, sf_value = b k,
        sf_zero = bt_empty (rx_type R) (b k)\<rparr>) (bt_fields (rx_type R))"
  let ?t = "(update_statement R b w flds)\<lparr>us_where := us_where s\<rparr>"
  obtain t :: "('v vrow, 'v) update_stmt" where t: "us_selected t = (\<lambda>k. if selects R flds k then Some True else None)"
      "us_dest s = DMap (dest_columns t ''version'' ?fs)"
    by (rule that [of ?t]) (simp_all add: s Update_ModifyStatement_def update_statement_def Let_def wrap_or_def add_where_def)
  note f = dest_selected [OF assms(1) t(1), of "''version''" "rx_auto R" b "\<lambda>k. bt_empty (rx_type R) (b k)"]
  have n: "rx_auto R k \<Longrightarrow> k \<notin> fst ` set (dest_columns t ''version'' ?fs)" for k by (rule dest_no_auto)
  have "vr_cols r ++ map_of (gorm_columns R flds (dest_columns t ''version'' ?fs)) = vr_cols (written_row R flds b r)"
  proof -
    have "filter (\<lambda>k. rx_auto R k \<and> k \<noteq> ''version'' \<and> k \<notin> fst ` set (dest_columns t ''version'' ?fs)) (bt_fields (rx_type R)) =
      filter (\<lambda>k. rx_auto R k \<and> k \<noteq> ''version'') (bt_fields (rx_type R))" using n by (intro filter_cong) auto
    then show ?thesis unfolding gorm_columns_def f
      by (auto simp: columns_map written_row_def map_add_def fun_eq_iff)
  qed
  with t(2) show "\<exists>cols. us_dest s = DMap cols \<and> vr_cols r ++ map_of (gorm_columns R flds cols) = vr_cols (written_row R flds b r)" by blast
qed (simp_all add: s Update_ModifyStatement_def update_statement_def Let_def wrap_or_def add_where_def)

text \<open>The conditions of that statement are joined by \<open>AND\<close>.\<close>

lemma update_conditions:
  "gorm_where ((if w \<noteq> [] then [Cond p] else []) @ [EqVersion v, Cond q]) r \<longleftrightarrow> (w = [] \<or> p r) \<and> vr_version r = v \<and> q r"
proof -
  let ?es = "(if w \<noteq> [] then [Cond p] else []) @ [EqVersion v, Cond q]"
  have "\<not> list_ex single_or ?es" "list_all plain_group ?es" by (simp_all add: single_or_def)
  from gorm.sem_and [OF this, of r] show ?thesis by (auto simp: gorm_where_single single_or_def)
qed

lemma Updates_row:
  assumes "[] \<notin> set (bt_fields (rx_type R))" "selects R flds ''version''"
  shows "Updates R b w flds d i = (case d i of None \<Rightarrow> None | Some r \<Rightarrow>
    if (w = [] \<or> rx_where R w r) \<and> vr_version r = rx_version R (b ''version'') \<and> vr_cols r ''id'' = Some (b ''id'')
    then Some (written_row R flds b r) else Some r)"
proof -
  let ?q = "\<lambda>r. vr_cols r ''id'' = Some (b ''id'')" let ?s = "Update_ModifyStatement ''version'' (update_statement R b w flds)"
  have conds: "gorm_where ((if w \<noteq> [] then [Cond (rx_where R w)] else []) @ [EqVersion v] @ [Cond ?q]) r \<longleftrightarrow>
    (w = [] \<or> rx_where R w r) \<and> vr_version r = v \<and> ?q r" for v r
    using update_conditions [of w "rx_where R w" v ?q r] by simp
  note m = modified_statement [OF assms(1) refl, of b w flds]
  show ?thesis
  proof (cases "d i")
    case (Some r)
    obtain cols where c: "us_dest ?s = DMap cols" "vr_cols r ++ map_of (gorm_columns R flds cols) = vr_cols (written_row R flds b r)"
      using m(2) [of r] by blast
    show ?thesis
      using Some conds [of "rx_version R (b ''version'')" r] c(2) assms(2)
      by (simp add: Updates_def Let_def run_update_def m(1,3) c(1) add_where_def) (auto simp: written_row_def)
  next
    case None
    from m(2) obtain cols where "us_dest ?s = DMap cols" by blast
    with None show ?thesis by (simp add: Updates_def Let_def run_update_def)
  qed
qed

text \<open>One row has the id, so one row at most is written.\<close>

lemma Updates_one:
  assumes "[] \<notin> set (bt_fields (rx_type R))" "selects R flds ''version''" "ids_ok d" "d i = Some r" "vr_cols r ''id'' = Some (b ''id'')"
  shows "Updates R b w flds d = (if (w = [] \<or> rx_where R w r) \<and> vr_version r = rx_version R (b ''version'')
    then d(i \<mapsto> written_row R flds b r) else d)"
proof -
  have other: "vr_cols q ''id'' \<noteq> Some (b ''id'')" if "d j = Some q" "j \<noteq> i" for j q
    using assms(3-5) that unfolding ids_ok_def by metis
  have "Updates R b w flds d j = (if (w = [] \<or> rx_where R w r) \<and> vr_version r = rx_version R (b ''version'')
    then d(i \<mapsto> written_row R flds b r) else d) j" for j
    using other [of j] by (cases "j = i") (auto simp: Updates_row [OF assms(1,2)] assms(4,5) split: option.split)
  then show ?thesis by (simp add: fun_eq_iff)
qed

section \<open>The whole update\<close>

text \<open>The row that a request comes to: the stored one merged with what the request gives.\<close>

definition request_row :: "'v row_ext \<Rightarrow> ('v bean, 'v) curd_params \<Rightarrow> 'v vrow \<Rightarrow> 'v bean option" where
  "request_row R c r =
     (case ToBean (rx_type R) (map_of (cp_values c)) (rx_zero R) of
        (new, True) \<Rightarrow> (case MergeBean (rx_type R) (bean_of R r) (before c new) of (b, True) \<Rightarrow> Some b | _ \<Rightarrow> None)
      | _ \<Rightarrow> None)"

lemma Update_row_curd:
  assumes "ValueIDUint64 (row_curd R) (cp_values c) = Some i" and "d i = Some r"
    and "map_of (cp_values c) ''force_update'' = None" and "cp_check_pair c = None"
    and "request_row R c r = Some b"
  shows "Update (row_curd R) c d = (None, Updates R b (cp_where c) [''*''] d)"
  using assms by (auto simp: Update_def finish_update_def row_curd_def get_bean_def request_row_def bean_result_def
      transaction_def split: option.splits prod.splits bool.splits)

lemma force_row_curd:
  assumes "ValueIDUint64 (row_curd R) (cp_values c) = Some i" and "d i = Some r"
    and "map_of (cp_values c) ''force_update'' = Some v" "rx_is_true R v" and "cp_check_pair c = None"
    and "ToBean (rx_type R) (map_of (cp_values c)) (rx_zero R) = (new, True)"
  shows "Update (row_curd R) c d = (None, Updates R ((before c new)(''version'' := rx_number R (vr_version r))) (cp_where c)
    (''version'' # map fst (filter (\<lambda>(k, _). k \<noteq> ''id'' \<and> k \<noteq> ''force_update'') (cp_values c))) d)"
  using assms by (auto simp: Update_def finish_update_def row_curd_def get_bean_def bean_result_def bean_of_def
      transaction_def split: option.splits prod.splits bool.splits)



definition demo_rows :: "int row_ext" where
  "demo_rows = \<lparr>rx_type = \<lparr>bt_fields = [''id'', ''age'', ''updated_at'', ''version''],
       bt_omitempty = (\<lambda>k. k = ''version'' \<or> k = ''updated_at''), bt_empty = (\<lambda>v. v = 0), bt_trip = Some\<rparr>,
     rx_zero = (\<lambda>_. 0), rx_to_uint64 = (\<lambda>v. case v of Some n \<Rightarrow> nat n | None \<Rightarrow> 0), rx_is_true = (\<lambda>v. v = 1),
     rx_version = (\<lambda>v. v), rx_number = (\<lambda>v. v), rx_where = (\<lambda>w r. True), rx_auto = (\<lambda>k. k = ''updated_at''), rx_now = 88\<rparr>"

definition demo_request :: "int \<Rightarrow> (int bean, int) curd_params" where
  "demo_request v = \<lparr>cp_table = ''users'', cp_values = [(''id'', 2), (''age'', 9), (''version'', v)], cp_where = [], cp_model = None,
     cp_before = None, cp_check = None, cp_check_pair = None\<rparr>"

definition stored_row :: "int vrow" where
  "stored_row = \<lparr>vr_cols = [''id'' \<mapsto> 2, ''age'' \<mapsto> 5, ''updated_at'' \<mapsto> 77], vr_version = 3\<rparr>"

lemma demo_request_row: "request_row demo_rows (demo_request v) stored_row =
  Some (\<lambda>k. if k = ''version'' then if v = 0 then 3 else v else if k = ''updated_at'' then 77
    else if k = ''age'' then 9 else if k = ''id'' then 2 else 0)"
proof -
  let ?new = "(\<lambda>k. 0)(''id'' := 2, ''age'' := 9, ''version'' := v)" and ?old = "bean_of demo_rows stored_row"
  have old: "?old ''id'' = 2" "?old ''age'' = 5" "?old ''updated_at'' = 77" "?old ''version'' = 3"
    "k \<notin> {''id'', ''age'', ''updated_at'', ''version''} \<Longrightarrow> ?old k = 0" for k
    by (simp_all add: bean_of_def demo_rows_def stored_row_def)
  have T: "bt_fields (rx_type demo_rows) = [''id'', ''age'', ''updated_at'', ''version'']"
    "bt_omitempty (rx_type demo_rows) = (\<lambda>k. k = ''version'' \<or> k = ''updated_at'')"
    "bt_empty (rx_type demo_rows) = (\<lambda>v. v = 0)" "bt_trip (rx_type demo_rows) = (\<lambda>v. Some v)" "rx_zero demo_rows = (\<lambda>_. 0)"
    by (simp_all add: demo_rows_def)
  have "ToBean (rx_type demo_rows) (map_of (cp_values (demo_request v))) (rx_zero demo_rows) = (?new, True)"
    by (simp add: ToBean_def T demo_request_def)
  moreover have "MergeBean (rx_type demo_rows) ?old ?new =
    (?old(''id'' := 2, ''age'' := 9, ''updated_at'' := 77, ''version'' := if v = 0 then 3 else v), True)"
    by (simp add: MergeBean_def ToBean_def T MergeMap_def Bean2Map_def map_add_def old)
  moreover have "?old(''id'' := 2, ''age'' := 9, ''updated_at'' := 77, ''version'' := n) =
    (\<lambda>k. if k = ''version'' then n else if k = ''updated_at'' then 77 else if k = ''age'' then 9 else if k = ''id'' then 2 else 0)" for n
    by (auto simp: fun_eq_iff old)
  ultimately show ?thesis by (cases "v = 0") (simp_all add: request_row_def before_def, simp_all add: demo_request_def)
qed


text \<open>A forced request sets the age to zero and leaves the name.\<close>

definition named_rows :: "int row_ext" where
  "named_rows = demo_rows\<lparr>rx_type := (rx_type demo_rows)\<lparr>bt_fields := [''id'', ''age'', ''height'', ''updated_at'', ''version'']\<rparr>\<rparr>"

definition forced_request :: "(int bean, int) curd_params" where
  "forced_request = \<lparr>cp_table = ''users'', cp_values = [(''id'', 2), (''force_update'', 1), (''age'', 0)], cp_where = [], cp_model = None,
     cp_before = None, cp_check = None, cp_check_pair = None\<rparr>"


end
