(* ===== verification/Iris_Jwt.thy ===== *)
theory Iris_Jwt
  imports Prelude Rpc_Message Kv_Store Token_Jwt
begin

text \<open>
  The tokens of the web server (\<open>giris/jwt.go\<close>): one Redis hash with a field per user, a cache in
  memory in front of it, and a token that is replaced when half of its lifetime is over.

  The cipher of package \<open>goutil\<close> (with its random bytes), the JSON of tokens and the clock are
  arguments; Redis and the cache are those of theory \<open>Kv_Store\<close>. A token and a request are the
  records of theory \<open>Token_Jwt\<close>: the Go types have the same fields.
\<close>

definition Iris_ErrorTokenExpired :: string where
  "Iris_ErrorTokenExpired =
     [CHR 0xE4, CHR 0xBB, CHR 0xA4, CHR 0xE7, CHR 0x89, CHR 0x8C, CHR 0xE5, CHR 0xB7, CHR 0xB2, CHR 0xE8, CHR 0xBF, CHR 0x87, CHR 0xE6, CHR 0x9C, CHR 0x9F]"

definition Iris_ErrorTokenNotValidYet :: string where
  "Iris_ErrorTokenNotValidYet =
     [CHR 0xE4, CHR 0xBB, CHR 0xA4, CHR 0xE7, CHR 0x89, CHR 0x8C, CHR 0xE4, CHR 0xB8, CHR 0x8D, CHR 0xE5, CHR 0xAD, CHR 0x98, CHR 0xE5, CHR 0x9C, CHR 0xA8]"

definition Iris_ErrorTokenMalformed :: string where
  "Iris_ErrorTokenMalformed =
     [CHR 0xE9, CHR 0x94, CHR 0x99, CHR 0xE8, CHR 0xAF, CHR 0xAF, CHR 0xE7, CHR 0x9A, CHR 0x84, CHR 0xE4, CHR 0xBB, CHR 0xA4, CHR 0xE7, CHR 0x89, CHR 0x8C]"

definition Iris_ErrorTokenInvalid :: string where
  "Iris_ErrorTokenInvalid =
     [CHR 0xE4, CHR 0xBB, CHR 0xA4, CHR 0xE7, CHR 0x89, CHR 0x8C, CHR 0xE5, CHR 0xB7, CHR 0xB2, CHR 0xE5, CHR 0xA4, CHR 0xB1, CHR 0xE6, CHR 0x95, CHR 0x88]"

definition Iris_ErrorTokenMissing :: string where
  "Iris_ErrorTokenMissing =
     [CHR 0xE9, CHR 0x9D, CHR 0x9E, CHR 0xE6, CHR 0xB3, CHR 0x95, CHR 0xE8, CHR 0xAE, CHR 0xBF, CHR 0xE9, CHR 0x97, CHR 0xAE]"

text \<open>\<open>json.Unmarshal\<close> into a token that has some fields already, with the error if there is one.\<close>

record 'x iris_ext =
  ix_encrypt :: "'x \<Rightarrow> string \<Rightarrow> string"
  ix_decrypt :: "string \<Rightarrow> (string, string) result"
  ix_marshal :: "token \<Rightarrow> bytes"
  ix_unmarshal :: "bytes \<Rightarrow> token \<Rightarrow> string option \<times> token"
  ix_hset_err :: "string option"

record iris_jwt =
  ij_app :: string
  ij_expire :: int

record ('r, 's) iris_state =
  is_redis :: 'r
  is_mem :: 's

definition iris_lazyInit :: "iris_jwt \<Rightarrow> iris_jwt" where
  "iris_lazyInit j = (if ij_expire j = 0 then j\<lparr>ij_expire := 3600 * 24 * 30\<rparr> else j)"

definition iris_key :: "iris_jwt \<Rightarrow> string" where "iris_key j = ij_app j @ '':jwt''"

definition memeKey :: "iris_jwt \<Rightarrow> token \<Rightarrow> string" where
  "memeKey j t = iris_key j @ '':'' @ tk_id t"

definition iris_generateToken :: "'x iris_ext \<Rightarrow> 'x \<Rightarrow> string \<Rightarrow> string" where
  "iris_generateToken E x ident = strings_ToUpper (ix_encrypt E x ident)"

definition auth_error :: "string \<Rightarrow> go_error" where "auth_error msg = RpcErr (NewError ErrAuthorization msg [])"

definition parseToken :: "'x iris_ext \<Rightarrow> string \<Rightarrow> (go_error, token) result" where
  "parseToken E str = (case ix_decrypt E (strings_ToLower str) of
     Inl _ \<Rightarrow> Inl (auth_error Iris_ErrorTokenMalformed)
   | Inr ident \<Rightarrow> Inr \<lparr>tk_id = ident, tk_expires = 0, tk_token = []\<rparr>)"

text \<open>\<open>toRedis\<close>: the error of the write, the token as it is afterwards, and the stores.\<close>

definition toRedis ::
  "'x iris_ext \<Rightarrow> 'r redis_ops \<Rightarrow> 's store_ops \<Rightarrow> iris_jwt \<Rightarrow> int \<Rightarrow> 'x \<Rightarrow> token \<Rightarrow> bool \<Rightarrow> ('r, 's) iris_state
   \<Rightarrow> string option \<times> token \<times> ('r, 's) iris_state" where
  "toRedis E R S j now x t isRefresh s =
     (let j = iris_lazyInit j;
          t = (if tk_token t = [] \<or> isRefresh then t\<lparr>tk_token := iris_generateToken E x (tk_id t)\<rparr> else t);
          t = t\<lparr>tk_expires := wrap64 (now + ij_expire j)\<rparr>;
          storedString = ix_marshal E t
      in case ix_hset_err E of
           Some err \<Rightarrow> (Some err, t, s)
         | None \<Rightarrow> (None, t, \<lparr>is_redis = HSet R (iris_key j) (tk_id t) (bytes_str storedString) (is_redis s),
             is_mem = so_set S (memeKey j t) (ix_marshal E t) [ij_expire j] (is_mem s)\<rparr>))"

text \<open>The read of the stored token inside \<open>fromRedis\<close>: its error does not stop the caller.\<close>

definition readStored ::
  "'x iris_ext \<Rightarrow> 'r redis_ops \<Rightarrow> 's store_ops \<Rightarrow> iris_jwt \<Rightarrow> token \<Rightarrow> ('r, 's) iris_state
   \<Rightarrow> go_error option \<times> token \<times> ('r, 's) iris_state" where
  "readStored E R S j t s = (case so_get S (memeKey j t) (is_mem s) of
     (Some v, mem) \<Rightarrow> (case ix_unmarshal E v t of
        (err, t) \<Rightarrow> (map_option PlainErr err, t, s\<lparr>is_mem := mem\<rparr>))
   | (None, mem) \<Rightarrow>
       let s = s\<lparr>is_mem := mem\<rparr>;
           storedString = (case HGet R (iris_key j) (tk_id t) (is_redis s) of None \<Rightarrow> [] | Some v \<Rightarrow> v)
       in if storedString = [] then (Some (auth_error Iris_ErrorTokenNotValidYet), t, s)
          else case ix_unmarshal E (str_bytes storedString) t of
            (Some _, t) \<Rightarrow> (Some (auth_error Iris_ErrorTokenMalformed), t, s)
          | (None, t) \<Rightarrow> (None, t, s\<lparr>is_mem := so_set S (memeKey j t) (ix_marshal E t) [60] (is_mem s)\<rparr>))"

definition fromRedis ::
  "'x iris_ext \<Rightarrow> 'r redis_ops \<Rightarrow> 's store_ops \<Rightarrow> iris_jwt \<Rightarrow> int \<Rightarrow> 'x \<Rightarrow> string \<Rightarrow> ('r, 's) iris_state
   \<Rightarrow> (go_error, token) result \<times> ('r, 's) iris_state" where
  "fromRedis E R S j now x tokenStr s =
     (let j = iris_lazyInit j in
      case parseToken E tokenStr of
        Inl err \<Rightarrow> (Inl err, s)
      | Inr t \<Rightarrow> (case readStored E R S j t s of
          (err, t, s) \<Rightarrow>
            if tokenStr \<noteq> tk_token t then (Inl (auth_error Iris_ErrorTokenInvalid), s)
            else if token_expired now t then (Inl (auth_error Iris_ErrorTokenExpired), s)
            else if now > wrap64 (tk_expires t - ij_expire j sdiv 2) then
              (case toRedis E R S j now x t True s of
                 (Some e, t, s) \<Rightarrow> (Inl (PlainErr e), s)
               | (None, t, s) \<Rightarrow> (Inr t, s))
            else (case err of Some e \<Rightarrow> (Inl e, s) | None \<Rightarrow> (Inr t, s))))"

definition iris_AfterLogin ::
  "'x iris_ext \<Rightarrow> 'r redis_ops \<Rightarrow> 's store_ops \<Rightarrow> iris_jwt \<Rightarrow> int \<Rightarrow> 'x \<Rightarrow> string \<Rightarrow> ('r, 's) iris_state
   \<Rightarrow> string option \<times> token \<times> ('r, 's) iris_state" where
  "iris_AfterLogin E R S j now x ident s =
     toRedis E R S j now x \<lparr>tk_id = ident, tk_expires = 0, tk_token = []\<rparr> False s"

definition iris_Logout :: "'r redis_ops \<Rightarrow> iris_jwt \<Rightarrow> string \<Rightarrow> ('r, 's) iris_state \<Rightarrow> ('r, 's) iris_state" where
  "iris_Logout R j ident s = s\<lparr>is_redis := HDel R (iris_key j) [ident] (is_redis s)\<rparr>"

definition iris_Verify ::
  "'x iris_ext \<Rightarrow> 'r redis_ops \<Rightarrow> 's store_ops \<Rightarrow> iris_jwt \<Rightarrow> int \<Rightarrow> 'x \<Rightarrow> token_request
   \<Rightarrow> (string \<Rightarrow> (string, 'u) result) \<Rightarrow> ('r, 's) iris_state
   \<Rightarrow> (go_error, 'u) result \<times> 'u token_values \<times> ('r, 's) iris_state" where
  "iris_Verify E R S j now x rq call s =
     (let tok = presented rq in
      if tok = [] then (Inl (auth_error Iris_ErrorTokenMissing), \<lparr>cv_token = None, cv_user = None\<rparr>, s)
      else case fromRedis E R S j now x tok s of
        (Inl err, s) \<Rightarrow> (Inl err, \<lparr>cv_token = None, cv_user = None\<rparr>, s)
      | (Inr t, s) \<Rightarrow> (case call (tk_id t) of
          Inl err \<Rightarrow> (Inl (auth_error err), \<lparr>cv_token = Some tok, cv_user = None\<rparr>, s)
        | Inr user \<Rightarrow> (Inr user, \<lparr>cv_token = Some tok, cv_user = Some user\<rparr>, s)))"

text \<open>\<open>ClearExpiredFunc\<close>: the fields whose value is no token or an expired one are deleted.\<close>

definition ClearExpiredFunc ::
  "'x iris_ext \<Rightarrow> 'r redis_ops \<Rightarrow> iris_jwt \<Rightarrow> int \<Rightarrow> ('r, 's) iris_state \<Rightarrow> ('r, 's) iris_state" where
  "ClearExpiredFunc E R j now s =
     (let key = iris_key j;
          st = HScanCallback R key (\<lambda>k v st. case ix_unmarshal E (str_bytes v) \<lparr>tk_id = [], tk_expires = 0, tk_token = []\<rparr> of
                 (err, t) \<Rightarrow> if err \<noteq> None \<or> token_expired now t then HDeleter_call R key [k] st else st)
               (is_redis s) ([], is_redis s)
      in s\<lparr>is_redis := snd (HDeleter_call R key [] st)\<rparr>)"

definition QueueClearExpiredPattern :: "string \<Rightarrow> string" where
  "QueueClearExpiredPattern app = app @ '':jwt:clear_expired''"

section \<open>The first half of a token's life\<close>

text \<open>What the operations rely on: the cipher is undone from the lower-cased text, and JSON of a token is
  read back into a token that has no fields or its id only, if its texts are \<open>safe\<close>, that is UTF-8 (JSON replaces
  other bytes), which issued tokens are.\<close>

definition iris_laws :: "'x iris_ext \<Rightarrow> (string \<Rightarrow> bool) \<Rightarrow> bool" where
  "iris_laws E safe \<longleftrightarrow>
     (\<forall>x i. ix_decrypt E (strings_ToLower (iris_generateToken E x i)) = Inr i \<and> iris_generateToken E x i \<noteq> [] \<and>
       safe (iris_generateToken E x i)) \<and>
     (\<forall>t. safe (tk_id t) \<and> safe (tk_token t) \<longrightarrow>
       (\<forall>i \<in> {[], tk_id t}. ix_unmarshal E (ix_marshal E t) \<lparr>tk_id = i, tk_expires = 0, tk_token = []\<rparr> = (None, t)) \<and>
       ix_marshal E t \<noteq> [])"

text \<open>The hash and the cache have tokens of this package only, each under its own id.\<close>

definition entry :: "'x iris_ext \<Rightarrow> (string \<Rightarrow> bool) \<Rightarrow> string \<Rightarrow> bytes \<Rightarrow> bool" where
  "entry E safe f d \<longleftrightarrow> (\<exists>t. d = ix_marshal E t \<and> tk_id t = f \<and> safe f \<and> safe (tk_token t))"

definition stored :: "'x iris_ext \<Rightarrow> (string \<Rightarrow> bool) \<Rightarrow> 'r redis_ops \<Rightarrow> 's store_ops \<Rightarrow> iris_jwt \<Rightarrow> ('r, 's) iris_state \<Rightarrow> bool" where
  "stored E safe R S j s \<longleftrightarrow>
     (\<forall>f v. HGet R (iris_key j) f (is_redis s) = Some v \<longrightarrow> (\<exists>d. v = bytes_str d \<and> entry E safe f d)) \<and>
     (\<forall>t d. view S (is_mem s) (memeKey j t) = Some d \<longrightarrow> entry E safe (tk_id t) d)"

text \<open>The stores hold the token \<open>t\<close> of its user: Redis does, and the cache does or has lost it.\<close>

definition holds :: "'x iris_ext \<Rightarrow> 'r redis_ops \<Rightarrow> 's store_ops \<Rightarrow> ('s \<Rightarrow> bool) \<Rightarrow> iris_jwt \<Rightarrow> token \<Rightarrow> ('r, 's) iris_state \<Rightarrow> bool" where
  "holds E R S ok j t s \<longleftrightarrow> ok (is_mem s) \<and>
     HGet R (iris_key j) (tk_id t) (is_redis s) = Some (bytes_str (ix_marshal E t)) \<and>
     (\<forall>d. view S (is_mem s) (memeKey j t) = Some d \<longrightarrow> d = ix_marshal E t)"

lemma lazy_key [simp]: "iris_key (iris_lazyInit j) = iris_key j" "memeKey (iris_lazyInit j) t = memeKey j t"
  "iris_lazyInit (iris_lazyInit j) = iris_lazyInit j"
  by (simp_all add: iris_lazyInit_def iris_key_def memeKey_def)

lemma memeKey_id: "memeKey j \<lparr>tk_id = tk_id t, tk_expires = a, tk_token = b\<rparr> = memeKey j t"
  by (simp add: memeKey_def)

lemma memeKey_inj: "memeKey j t = memeKey j t' \<longleftrightarrow> tk_id t = tk_id t'"
  by (simp add: memeKey_def)

lemma entry_read:
  assumes "iris_laws E safe" "entry E safe f d"
  shows "\<exists>t. ix_unmarshal E d \<lparr>tk_id = f, tk_expires = 0, tk_token = []\<rparr> = (None, t) \<and> d = ix_marshal E t \<and> tk_id t = f \<and> safe f \<and>
    safe (tk_token t) \<and> d \<noteq> []"
  using assms unfolding iris_laws_def entry_def by blast

lemma bytes_str_Nil: "bytes_str b = [] \<longleftrightarrow> b = []"
  by (metis length_0_conv length_bytes_str)

text \<open>What a token of some id and the stores are after a read: a stored token, or one of which only the id is known.\<close>

lemma readStored_any:
  assumes laws: "iris_laws E safe" "cache_store S ok" and s: "stored E safe R S j s" "holds E R S ok j t s"
    and r: "readStored E R S j \<lparr>tk_id = f, tk_expires = 0, tk_token = []\<rparr> s = (err, t', s')"
  shows "stored E safe R S j s' \<and> holds E R S ok j t s' \<and> tk_id t' = f \<and>
    (tk_token t' = [] \<or> safe f \<and> safe (tk_token t')) \<and> (f = tk_id t \<and> safe f \<and> safe (tk_token t) \<longrightarrow> t' = t \<and> err = None)"
proof -
  let ?t0 = "\<lparr>tk_id = f, tk_expires = 0, tk_token = []\<rparr>"
  note h = s(2) [unfolded holds_def] and st = s(1) [unfolded stored_def]
  obtain v mem where g: "so_get S (memeKey j ?t0) (is_mem s) = (v, mem)" by fastforce
  then have v: "v = view S (is_mem s) (memeKey j ?t0)" by (simp add: view_def)
  have mem: "ok mem" and keep: "view S mem k = Some d \<Longrightarrow> view S (is_mem s) k = Some d" for k d
    using cache_store.ok_get [OF laws(2), of "is_mem s" "memeKey j ?t0"] cache_store.get_view [OF laws(2), of "memeKey j ?t0" "is_mem s" k d]
      h g by auto
  have same: "\<lbrakk>f = tk_id t \<and> safe f \<and> safe (tk_token t); ix_unmarshal E (ix_marshal E t) ?t0 = (None, t1)\<rbrakk> \<Longrightarrow> t1 = t" for t1
    using laws(1) unfolding iris_laws_def by (metis insertCI prod.inject)
  have mk: "memeKey j ?t0 = memeKey j t" if "f = tk_id t" using that by (simp add: memeKey_def)
  have m1: "stored E safe R S j (s\<lparr>is_mem := mem\<rparr>)" "holds E R S ok j t (s\<lparr>is_mem := mem\<rparr>)"
    using st h mem keep by (simp_all add: stored_def holds_def)
  show ?thesis
  proof (cases v)
    case (Some d)
    with st v have "entry E safe f d" by (metis token.select_convs(1))
    from entry_read [OF laws(1) this] obtain t1 where t1:
      "ix_unmarshal E d ?t0 = (None, t1)" "tk_id t1 = f" "safe f" "safe (tk_token t1)" by blast
    with r g Some have e: "err = None" "t' = t1" "s' = s\<lparr>is_mem := mem\<rparr>" by (simp_all add: readStored_def)
    moreover have "d = ix_marshal E t" if "f = tk_id t" using that h v Some mk by metis
    ultimately show ?thesis using t1 m1 same by auto
  next
    case None
    show ?thesis
    proof (cases "HGet R (iris_key j) f (is_redis s)")
      case n: None
      with r g None have "t' = ?t0" "s' = s\<lparr>is_mem := mem\<rparr>" by (simp_all add: readStored_def)
      moreover have "f \<noteq> tk_id t" using n h by auto
      ultimately show ?thesis using m1 by simp
    next
      case h2: (Some w)
      with st obtain d where d: "w = bytes_str d" "entry E safe f d" by blast
      from entry_read [OF laws(1) d(2)] obtain t1 where t1:
        "ix_unmarshal E d ?t0 = (None, t1)" "d = ix_marshal E t1" "tk_id t1 = f" "safe f" "safe (tk_token t1)" "d \<noteq> []" by blast
      let ?mem = "so_set S (memeKey j t1) d [60] mem"
      have e: "err = None \<and> t' = t1 \<and> s' = s\<lparr>is_mem := ?mem\<rparr>"
        using r g None h2 d(1) t1 by (auto simp: readStored_def Let_def bytes_str_Nil)
      have ok': "ok ?mem" by (rule cache_store.ok_set [OF laws(2) mem])
      have sv: "k' = memeKey j t1 \<and> d' = d \<or> view S (is_mem s) k' = Some d'" if "view S ?mem k' = Some d'" for k' d'
        using cache_store.set_view [OF laws(2) mem that] keep by blast
      have own: "d = ix_marshal E t" if "f = tk_id t"
        using that h h2 d(1) by simp (metis str_bytes_str)
      have "stored E safe R S j s'"
        using st e d(2) t1(3) unfolding stored_def by (auto dest!: sv simp: memeKey_inj)
      moreover have "holds E R S ok j t s'"
        using h e ok' own t1(3) unfolding holds_def by (auto dest!: sv simp: memeKey_inj)
      ultimately show ?thesis using e t1 same own by auto
    qed
  qed
qed

lemma toRedis_result:
  assumes "iris_laws E safe" "safe (tk_id t)" "safe (tk_token t)" "toRedis E R S j now x t f s = (None, t', s')"
  shows "tk_id t' = tk_id t \<and> tk_expires t' = wrap64 (now + ij_expire (iris_lazyInit j)) \<and> safe (tk_token t') \<and>
    tk_token t' = (if tk_token t = [] \<or> f then iris_generateToken E x (tk_id t) else tk_token t) \<and>
    s' = \<lparr>is_redis = HSet R (iris_key j) (tk_id t) (bytes_str (ix_marshal E t')) (is_redis s),
      is_mem = so_set S (memeKey j t) (ix_marshal E t') [ij_expire (iris_lazyInit j)] (is_mem s)\<rparr>"
  using assms by (auto simp: toRedis_def iris_laws_def memeKey_def Let_def split: option.splits if_splits)

lemma toRedis_stored:
  assumes "iris_laws E safe" "redis_hash R C" "cache_store S ok" "ok (is_mem s)" "stored E safe R S j s"
    and "safe (tk_id t)" "safe (tk_token t)" "toRedis E R S j now x t f s = (None, t', s')"
  shows "stored E safe R S j s'"
proof -
  note r = toRedis_result [OF assms(1,6,7,8)]
  have e: "entry E safe (tk_id t) (ix_marshal E t')" using r assms(6) unfolding entry_def by blast
  have "view S (is_mem s') (memeKey j k) = Some d \<Longrightarrow> entry E safe (tk_id k) d" for k d
    using cache_store.set_view [OF assms(3,4), of "memeKey j t" "ix_marshal E t'" "[ij_expire (iris_lazyInit j)]" "memeKey j k" d]
      r e assms(5) by (auto simp: stored_def memeKey_inj)
  with r e assms(5) show ?thesis by (auto simp: stored_def redis_hash.hset [OF assms(2)])
qed

text \<open>Writing the token of another user leaves this one.\<close>

lemma toRedis_other:
  assumes "iris_laws E safe" "redis_hash R C" "cache_store S ok" "holds E R S ok j t s" "stored E safe R S j s"
    and "safe (tk_id t2)" "safe (tk_token t2)" "tk_id t2 \<noteq> tk_id t" "toRedis E R S j now x t2 f s = (err, t', s')"
  shows "holds E R S ok j t s' \<and> stored E safe R S j s'"
proof (cases err)
  case None
  have ok: "ok (is_mem s)" using assms(4) by (simp add: holds_def)
  have w: "toRedis E R S j now x t2 f s = (None, t', s')" using assms(9) None by simp
  note r = toRedis_result [OF assms(1,6,7) w]
  have "view S (is_mem s) (memeKey j t) = Some d" if "view S (is_mem s') (memeKey j t) = Some d" for d
    using cache_store.set_view [OF assms(3) ok, of "memeKey j t2" "ix_marshal E t'" "[ij_expire (iris_lazyInit j)]" "memeKey j t" d]
      r that assms(8) by (auto simp: memeKey_inj)
  moreover have "ok (is_mem s')" using r cache_store.ok_set [OF assms(3) ok] by simp
  ultimately have "holds E R S ok j t s'"
    using assms(4,8) r by (simp add: holds_def redis_hash.hset [OF assms(2)])
  with toRedis_stored [OF assms(1-3) ok assms(5-7) w] show ?thesis by simp
next
  case (Some e)
  then have "s' = s" using assms(9) by (auto simp: toRedis_def Let_def split: option.splits)
  with assms(4,5) show ?thesis by simp
qed

lemma parse_own: "iris_laws E safe \<Longrightarrow> parseToken E (iris_generateToken E x i) = Inr \<lparr>tk_id = i, tk_expires = 0, tk_token = []\<rparr>"
  by (simp add: parseToken_def iris_laws_def)

text \<open>Whatever text is presented, the user's token stays; it is good itself.\<close>

lemma fromRedis_any:
  assumes laws: "iris_laws E safe" "redis_hash R C" "cache_store S ok"
    and s: "holds E R S ok j t s" "stored E safe R S j s"
    and t: "safe (tk_id t)" "tk_token t = iris_generateToken E x0 (tk_id t)"
    and now: "\<not> token_expired now t" "now \<le> wrap64 (tk_expires t - ij_expire (iris_lazyInit j) sdiv 2)"
    and tok: "tok \<noteq> []" and r: "fromRedis E R S j now x tok s = (res, s')"
  shows "holds E R S ok j t s' \<and> stored E safe R S j s' \<and> (tok = tk_token t \<longrightarrow> res = Inr t)"
proof (cases "parseToken E tok")
  case (Inl e)
  have "tok \<noteq> tk_token t" using Inl t(2) parse_own [OF laws(1)] by (metis sum.distinct(1))
  with Inl r s show ?thesis by (simp add: fromRedis_def Let_def)
next
  case (Inr t0)
  define f where "f = tk_id t0"
  let ?j = "iris_lazyInit j"
  have t0: "t0 = \<lparr>tk_id = f, tk_expires = 0, tk_token = []\<rparr>"
    using Inr by (auto simp: f_def parseToken_def split: sum.splits)
  have safe: "safe (tk_token t)" using laws(1) t(2) by (simp add: iris_laws_def)
  have h: "holds E R S ok ?j t s" "stored E safe R S ?j s" using s by (simp_all add: holds_def stored_def)
  obtain err t1 s1 where r1: "readStored E R S ?j t0 s = (err, t1, s1)" by (metis prod_cases3)
  note a = readStored_any [OF laws(1,3) h(2,1) r1 [unfolded t0]]
  have h1: "holds E R S ok j t s1" "stored E safe R S j s1" using a by (simp_all add: holds_def stored_def)
  have own: "t1 = t \<and> err = None" if "tok = tk_token t"
  proof -
    have "t0 = \<lparr>tk_id = tk_id t, tk_expires = 0, tk_token = []\<rparr>" using that Inr parse_own [OF laws(1), of x0 "tk_id t"] t(2) by simp
    then have "f = tk_id t" by (simp add: f_def)
    with a t(1) safe show ?thesis by simp
  qed
  show ?thesis
  proof (cases "tok = tk_token t1 \<and> \<not> token_expired now t1 \<and> now > wrap64 (tk_expires t1 - ij_expire ?j sdiv 2)")
    case True
    then have s2: "safe (tk_id t1)" "safe (tk_token t1)" using a tok by auto
    have "tk_id t1 \<noteq> tk_id t" using a t(1) safe True now by auto
    obtain e t2 s2 where w: "toRedis E R S ?j now x t1 True s1 = (e, t2, s2)" by (metis prod_cases3)
    have j: "holds E R S ok ?j t s1" "stored E safe R S ?j s1" using h1 by (simp_all add: holds_def stored_def)
    note oo = toRedis_other [OF laws j s2 \<open>tk_id t1 \<noteq> tk_id t\<close> w]
    have "s' = s2" using r Inr r1 True w by (auto simp: fromRedis_def Let_def split: option.splits)
    moreover have "tok \<noteq> tk_token t" using own \<open>tk_id t1 \<noteq> tk_id t\<close> by auto
    ultimately show ?thesis using oo by (simp add: holds_def stored_def)
  next
    case False
    then have "s' = s1" using r Inr r1 by (auto simp: fromRedis_def Let_def split: option.splits if_splits)
    moreover have "res = Inr t" if "tok = tk_token t"
      using that own [OF that] r Inr r1 now by (auto simp: fromRedis_def Let_def)
    ultimately show ?thesis using h1 by simp
  qed
qed

subsection \<open>Runs\<close>

text \<open>What the server does, each at its time: a request that presents some token or none, the login and the logout of a
  user, and the sweep. A request is answered.\<close>

datatype 'x iris_op = IrisVerify 'x token_request | IrisLogin 'x string | IrisLogout string | IrisClear

fun iris_step ::
  "'x iris_ext \<Rightarrow> 'r redis_ops \<Rightarrow> 's store_ops \<Rightarrow> iris_jwt \<Rightarrow> (string \<Rightarrow> (string, 'u) result) \<Rightarrow> int \<Rightarrow> 'x iris_op
   \<Rightarrow> ('r, 's) iris_state \<Rightarrow> (go_error, 'u) result option \<times> ('r, 's) iris_state" where
  "iris_step E R S j call now (IrisVerify x rq) s = (case iris_Verify E R S j now x rq call s of (r, _, s) \<Rightarrow> (Some r, s))"
| "iris_step E R S j call now (IrisLogin x ident) s = (None, snd (snd (iris_AfterLogin E R S j now x ident s)))"
| "iris_step E R S j call now (IrisLogout ident) s = (None, iris_Logout R j ident s)"
| "iris_step E R S j call now IrisClear s = (None, ClearExpiredFunc E R j now s)"

fun iris_run ::
  "'x iris_ext \<Rightarrow> 'r redis_ops \<Rightarrow> 's store_ops \<Rightarrow> iris_jwt \<Rightarrow> (string \<Rightarrow> (string, 'u) result)
   \<Rightarrow> (int \<times> 'x iris_op) list \<Rightarrow> ('r, 's) iris_state \<Rightarrow> (go_error, 'u) result option list" where
  "iris_run E R S j call [] s = []"
| "iris_run E R S j call ((now, p) # ps) s = (case iris_step E R S j call now p s of
     (r, s) \<Rightarrow> r # iris_run E R S j call ps s)"

text \<open>The operation does not end the token of user \<open>i\<close>: it is no login and no logout of \<open>i\<close>.\<close>

definition spares :: "(string \<Rightarrow> bool) \<Rightarrow> string \<Rightarrow> 'x iris_op \<Rightarrow> bool" where
  "spares safe i p \<longleftrightarrow> (case p of IrisLogin _ k \<Rightarrow> k \<noteq> i \<and> safe k | IrisLogout k \<Rightarrow> k \<noteq> i | _ \<Rightarrow> True)"

text \<open>The sweep is the collector of \<open>Kv_Store\<close> with tokens as values.\<close>

definition token_dead :: "'x iris_ext \<Rightarrow> int \<Rightarrow> string \<Rightarrow> bool" where
  "token_dead E now v \<longleftrightarrow> (case ix_unmarshal E (str_bytes v) \<lparr>tk_id = [], tk_expires = 0, tk_token = []\<rparr> of
     (err, t) \<Rightarrow> err \<noteq> None \<or> token_expired now t)"

definition token_sweep :: "'x iris_ext \<Rightarrow> int \<Rightarrow> redis_codec" where
  "token_sweep E now = \<lparr>rv_enc = (\<lambda>_ _. None), rv_dec = (\<lambda>v. if token_dead E now v then None else Some ([], 0))\<rparr>"

lemma ClearExpired_hget:
  assumes "redis_hash R C"
  shows "HGet R k f (is_redis (ClearExpiredFunc E R j now s)) = (case HGet R k f (is_redis s) of
    None \<Rightarrow> None | Some v \<Rightarrow> if k = iris_key j \<and> token_dead E now v then None else Some v)"
    "is_mem (ClearExpiredFunc E R j now s) = is_mem s"
proof -
  have "redis_hash R (token_sweep E now)"
    using assms unfolding redis_hash_def by (simp add: token_sweep_def)
  note g = redis_hash.gc_key [OF this]
  have cb: "(\<lambda>k v st. case ix_unmarshal E (str_bytes v) \<lparr>tk_id = [], tk_expires = 0, tk_token = []\<rparr> of
      (err, t) \<Rightarrow> if err \<noteq> None \<or> token_expired now t then HDeleter_call R (iris_key j) [k] st else st) =
    gc_field R (token_sweep E now) now (iris_key j)"
    by (auto simp: fun_eq_iff gc_field_def token_sweep_def token_dead_def isExpired_def split: prod.splits)
  have d: "dead (token_sweep E now) now v = token_dead E now v" for v
    by (simp add: dead_def token_sweep_def isExpired_def)
  show "HGet R k f (is_redis (ClearExpiredFunc E R j now s)) = (case HGet R k f (is_redis s) of
      None \<Rightarrow> None | Some v \<Rightarrow> if k = iris_key j \<and> token_dead E now v then None else Some v)"
    unfolding ClearExpiredFunc_def Let_def cb using g [of k f "iris_key j" now "is_redis s"] by (simp add: d split: option.split)
  show "is_mem (ClearExpiredFunc E R j now s) = is_mem s" by (simp add: ClearExpiredFunc_def Let_def)
qed

lemma iris_step_keeps:
  assumes laws: "iris_laws E safe" "redis_hash R C" "cache_store S ok"
    and s: "holds E R S ok j t s" "stored E safe R S j s"
    and t: "safe (tk_id t)" "tk_token t = iris_generateToken E x0 (tk_id t)"
    and now: "\<not> token_expired now t" "now \<le> wrap64 (tk_expires t - ij_expire (iris_lazyInit j) sdiv 2)"
    and p: "spares safe (tk_id t) p" and r: "iris_step E R S j call now p s = (res, s')"
  shows "holds E R S ok j t s' \<and> stored E safe R S j s' \<and>
    (\<forall>x rq u. p = IrisVerify x rq \<and> presented rq = tk_token t \<and> call (tk_id t) = Inr u \<longrightarrow> res = Some (Inr u))"
proof (cases p)
  case (IrisVerify x rq)
  have ne: "tk_token t \<noteq> []" using laws(1) unfolding iris_laws_def t(2) by blast
  show ?thesis
  proof (cases "presented rq = []")
    case True
    then have "s' = s" using r IrisVerify by (simp add: iris_Verify_def Let_def)
    with s True ne IrisVerify show ?thesis by simp
  next
    case False
    obtain q s1 where f: "fromRedis E R S j now x (presented rq) s = (q, s1)" by fastforce
    from fromRedis_any [OF laws s t now False f] r False IrisVerify f show ?thesis
      by (auto simp: iris_Verify_def Let_def split: sum.splits)
  qed
next
  case (IrisLogin x k)
  obtain err t' s2 where w: "toRedis E R S j now x \<lparr>tk_id = k, tk_expires = 0, tk_token = []\<rparr> False s = (err, t', s2)" by (metis prod_cases3)
  show ?thesis
  proof (cases err)
    case (Some e)
    then have "s2 = s" using w by (auto simp: toRedis_def Let_def split: option.splits)
    with s r w IrisLogin show ?thesis by (simp add: iris_AfterLogin_def)
  next
    case None
    define t2 where "t2 = \<lparr>tk_id = k, tk_expires = 0, tk_token = iris_generateToken E x k\<rparr>"
    have "toRedis E R S j now x t2 False s = (err, t', s2)"
      using w laws(1) by (simp add: toRedis_def t2_def iris_laws_def Let_def)
    moreover have "safe (tk_id t2)" "safe (tk_token t2)" "tk_id t2 \<noteq> tk_id t"
      using p laws(1) IrisLogin by (simp_all add: spares_def t2_def iris_laws_def)
    ultimately show ?thesis using toRedis_other [OF laws s, of t2 now x False err t' s2] r w IrisLogin by (simp add: iris_AfterLogin_def)
  qed
next
  case (IrisLogout k)
  with r p s show ?thesis
    by (auto simp: iris_Logout_def spares_def holds_def stored_def redis_hash.hdel [OF laws(2)] split: if_splits)
next
  case IrisClear
  have "safe (tk_token t)" using laws(1) t(2) by (simp add: iris_laws_def)
  then have "\<not> token_dead E now (bytes_str (ix_marshal E t))"
    using laws(1) t(1) now(1) by (simp add: token_dead_def iris_laws_def)
  with IrisClear r s show ?thesis
    by (auto simp: holds_def stored_def ClearExpired_hget [OF laws(2)] split: option.splits if_splits)
qed

lemma first_half_run:
  assumes laws: "iris_laws E safe" "redis_hash R C" "cache_store S ok"
    and t: "safe (tk_id t)" "tk_token t = iris_generateToken E x0 (tk_id t)" and call: "call (tk_id t) = Inr u"
  shows "\<lbrakk>holds E R S ok j t s; stored E safe R S j s;
    \<forall>(now, p) \<in> set ps. spares safe (tk_id t) p \<and> \<not> token_expired now t \<and> now \<le> wrap64 (tk_expires t - ij_expire (iris_lazyInit j) sdiv 2);
    n < length ps; ps ! n = (now, IrisVerify y rq); presented rq = tk_token t\<rbrakk> \<Longrightarrow>
    iris_run E R S j call ps s ! n = Some (Inr u)"
proof (induction ps arbitrary: s n)
  case (Cons q ps)
  obtain now' p where q: "q = (now', p)" by (cases q) auto
  obtain res s' where r: "iris_step E R S j call now' p s = (res, s')" by fastforce
  from Cons.prems(3) have c: "\<not> token_expired now' t" "now' \<le> wrap64 (tk_expires t - ij_expire (iris_lazyInit j) sdiv 2)"
    "spares safe (tk_id t) p" by (simp_all add: q)
  note k = iris_step_keeps [OF laws Cons.prems(1,2) t c r]
  have run: "iris_run E R S j call (q # ps) s = res # iris_run E R S j call ps s'" by (simp add: q r)
  show ?case
  proof (cases n)
    case 0
    with Cons.prems(5,6) k call show ?thesis unfolding run by (simp add: q)
  next
    case (Suc m)
    with Cons.IH [of s' m] k Cons.prems(3-6) show ?thesis unfolding run by simp
  qed
qed simp

text \<open>C29: For the first half of its lifetime a token is good, whatever the cache in memory loses and whatever happens meanwhile,
  as long as its user neither logs in again, which replaces it, nor logs out: in any run of requests with any tokens,
  logins and logouts of other users and sweeps, every request that presents the token issued at login is let in as its user.
  Redis answers throughout, and the names of the users are UTF-8.\<close>

theorem iris_token_first_half:
  assumes "iris_laws E safe" "redis_hash R K" "ccache_laws C" "stored E safe R (CCStore_ops C) j s" "safe i"
    and "iris_AfterLogin E R (CCStore_ops C) j n0 x i s = (None, t, s1)"
    and "0 < ij_expire j" "0 \<le> n0" "n0 + ij_expire j < 2 ^ 63" "call i = Inr u"
    and "\<forall>(now, p) \<in> set ps. spares safe i p \<and> now \<le> n0 + ij_expire j - ij_expire j sdiv 2"
    and "n < length ps" "ps ! n = (now, IrisVerify y rq)" "presented rq = tk_token t"
  shows "iris_run E R (CCStore_ops C) j call ps s1 ! n = Some (Inr u)"
proof -
  let ?S = "CCStore_ops C" let ?t0 = "\<lparr>tk_id = i, tk_expires = 0, tk_token = iris_generateToken E x i\<rparr>"
  have S: "cache_store ?S (\<lambda>_. True)" by (rule ccache_laws.cc_store [OF assms(3)])
  have j: "iris_lazyInit j = j" using assms(7) by (simp add: iris_lazyInit_def)
  have w: "toRedis E R ?S j n0 x ?t0 False s = (None, t, s1)"
    using assms(1,6) by (simp add: iris_AfterLogin_def toRedis_def iris_laws_def Let_def)
  have s0: "safe (tk_id ?t0)" "safe (tk_token ?t0)" using assms(1,5) by (simp_all add: iris_laws_def)
  note r = toRedis_result [OF assms(1) s0 w]
  then have t: "tk_id t = i" "tk_expires t = n0 + ij_expire j" "tk_token t = iris_generateToken E x (tk_id t)"
    using j wrap64_id [of "n0 + ij_expire j"] assms(7-9) by simp_all
  have h: "holds E R ?S (\<lambda>_. True) j t s1"
    using r ccache_laws.set_fresh [OF assms(3)] t(1)
    by (simp add: holds_def redis_hash.hset [OF assms(2)] memeKey_def)
  have st: "stored E safe R ?S j s1" by (rule toRedis_stored [OF assms(1,2) S TrueI assms(4) s0 w])
  have half: "0 \<le> ij_expire j sdiv 2" "ij_expire j sdiv 2 \<le> ij_expire j" using half_le assms(7) by simp_all
  then have "wrap64 (tk_expires t - ij_expire j sdiv 2) = n0 + ij_expire j - ij_expire j sdiv 2"
    using t(2) assms(7-9) by (intro trans [OF wrap64_id]) auto
  moreover have "\<not> token_expired now t" if "now \<le> n0 + ij_expire j - ij_expire j sdiv 2" for now
    using that half t(2) by (simp add: token_expired_def)
  ultimately have ps: "\<forall>(now, p) \<in> set ps. spares safe (tk_id t) p \<and> \<not> token_expired now t \<and>
      now \<le> wrap64 (tk_expires t - ij_expire (iris_lazyInit j) sdiv 2)"
    using assms(11) t(1) j by auto
  have sc: "safe (tk_id t)" "call (tk_id t) = Inr u" using t(1) assms(5,10) by simp_all
  show ?thesis
    using first_half_run [of E safe R K ?S "\<lambda>_. True" t x call u j s1 ps n now y rq] assms(1,2,12-14) S sc t(3) h st ps by blast
qed

text \<open>A cipher that writes the text in hexadecimal digits behind a zero.\<close>

definition demo_iris :: "unit iris_ext" where
  "demo_iris = \<lparr>ix_encrypt = (\<lambda>_ i. CHR ''0'' # bytes_str (hex_Encode (str_bytes i))),
     ix_decrypt = (\<lambda>s. case hex_Decode (str_bytes (tl s)) of Inl _ \<Rightarrow> Inl ''bad'' | Inr b \<Rightarrow> Inr (bytes_str b)),
     ix_marshal = tc_marshal demo_token_codec,
     ix_unmarshal = (\<lambda>b t0. case tc_unmarshal demo_token_codec b of None \<Rightarrow> (Some ''bad'', t0) | Some t \<Rightarrow> (None, t)),
     ix_hset_err = None\<rparr>"

lemma demo_iris_laws: "iris_laws demo_iris (\<lambda>_. True)"
proof -
  have "strings_ToLower (strings_ToUpper (bytes_str (hex_Encode b))) = bytes_str (hex_Encode b)" for b
    using lower_upper_hex_Encode [of b] by (simp add: bytes_ToLower_def bytes_ToUpper_def) (metis bytes_str_bytes)
  then have "ix_decrypt demo_iris (strings_ToLower (iris_generateToken demo_iris x i)) = Inr i" for x i
    by (simp add: demo_iris_def iris_generateToken_def hex_Decode_Encode strings_ToLower_def strings_ToUpper_def)
  moreover have "iris_generateToken demo_iris x i \<noteq> []" for x i
    by (simp add: demo_iris_def iris_generateToken_def strings_ToUpper_def)
  moreover have "ix_unmarshal demo_iris (ix_marshal demo_iris t) t0 = (None, t)" for t t0
    by (simp add: demo_iris_def demo_codec_token)
  moreover have "ix_marshal demo_iris t \<noteq> []" for t by (simp add: demo_iris_def demo_token_codec_def)
  ultimately show ?thesis by (simp add: iris_laws_def)
qed

text \<open>Another user logs in, makes a request and logs out, and a sweep runs; the token is good before and after.\<close>

theorem iris_token_first_half_witness:
  "let j = \<lparr>ij_app = ''app'', ij_expire = 100\<rparr>; S = CCStore_ops demo_cc;
       (e, t, s) = iris_AfterLogin demo_iris demo_redis S j 5 () ''ann'' \<lparr>is_redis = [], is_mem = []\<rparr>;
       rq = \<lparr>rq_authorization = tk_token t, rq_param = [], rq_token = []\<rparr>;
       rs = iris_run demo_iris demo_redis S j (\<lambda>i. Inr i)
        [(6, IrisLogin () ''bob''), (30, IrisVerify () rq), (31, IrisVerify () (rq\<lparr>rq_authorization := ''0626F62''\<rparr>)),
         (40, IrisClear), (41, IrisLogout ''bob''), (55, IrisVerify () rq)] s
   in rs ! 1 = Some (Inr ''ann'') \<and> rs ! 5 = Some (Inr ''ann'')"
proof -
  let ?j = "\<lparr>ij_app = ''app'', ij_expire = 100\<rparr>" let ?S = "CCStore_ops demo_cc"
  let ?s0 = "\<lparr>is_redis = [], is_mem = []\<rparr> :: (demo_redis, (string \<times> bytes) list) iris_state"
  obtain e t s where l: "iris_AfterLogin demo_iris demo_redis ?S ?j 5 () ''ann'' ?s0 = (e, t, s)"
    by (cases "iris_AfterLogin demo_iris demo_redis ?S ?j 5 () ''ann'' ?s0") auto
  then have e: "e = None" and tok: "tk_token t = iris_generateToken demo_iris () ''ann''"
    by (auto simp: iris_AfterLogin_def toRedis_def demo_iris_def Let_def)
  let ?rq = "\<lparr>rq_authorization = tk_token t, rq_param = [], rq_token = []\<rparr>"
  let ?ps = "[(6 :: int, IrisLogin () ''bob''), (30, IrisVerify () ?rq), (31, IrisVerify () (?rq\<lparr>rq_authorization := ''0626F62''\<rparr>)),
         (40, IrisClear), (41, IrisLogout ''bob''), (55, IrisVerify () ?rq)]"
  have "CHR '' '' \<notin> set (tk_token t)" unfolding tok by code_simp
  then have pr: "presented ?rq = tk_token t" using presented_plain [of "tk_token t"]
    by (cases "tk_token t = []") (simp_all add: presented_def Let_def)
  have st: "stored demo_iris (\<lambda>_. True) demo_redis ?S ?j ?s0"
    by (simp add: stored_def demo_redis_def view_def CCStore_ops_def CCStore_Get_def demo_cc_def)
  have ps: "\<forall>(now, p) \<in> set ?ps. spares (\<lambda>_. True) ''ann'' p \<and> now \<le> 5 + ij_expire ?j - ij_expire ?j sdiv 2"
    by (simp add: spares_def signed_divide_int_def)
  have "iris_run demo_iris demo_redis ?S ?j (\<lambda>i. Inr i) ?ps s ! n = Some (Inr ''ann'')"
    if "n < length ?ps" "?ps ! n = (now, IrisVerify () ?rq)" for n now
    by (rule iris_token_first_half [OF demo_iris_laws demo.redis_hash_axioms demo_cc.ccache_laws_axioms st TrueI l [unfolded e] _ _ _ refl ps
        that pr]) simp_all
  from this [of 1 30] this [of 5 55] show ?thesis unfolding l Let_def prod.case by simp
qed

section \<open>What the code leaves open\<close>

text \<open>In the second half of its life a token is good for one request: that request replaces it, and the
  client, which is not told the new one, is turned away with the old one.\<close>

lemma second_half_replaces:
  assumes laws: "iris_laws E safe" "redis_hash R C" "cache_store S ok"
    and fresh: "\<And>m k d l v. ok m \<Longrightarrow> view S (so_set S k d l m) k = Some v \<Longrightarrow> v = d"
    and s: "holds E R S ok j t s" "stored E safe R S j s"
    and t: "safe (tk_id t)" "tk_token t = iris_generateToken E x0 (tk_id t)" "\<not> token_expired now t"
    and now: "now > wrap64 (tk_expires t - ij_expire (iris_lazyInit j) sdiv 2)" "ix_hset_err E = None"
    and new: "iris_generateToken E x (tk_id t) \<noteq> tk_token t"
  shows "\<exists>t' s'. fromRedis E R S j now x (tk_token t) s = (Inr t', s') \<and> tk_id t' = tk_id t \<and>
    (\<forall>now' y. fst (fromRedis E R S j now' y (tk_token t) s') = Inl (auth_error Iris_ErrorTokenInvalid))"
proof -
  let ?j = "iris_lazyInit j" let ?t0 = "\<lparr>tk_id = tk_id t, tk_expires = 0, tk_token = []\<rparr>"
  have safe: "safe (tk_token t)" using laws(1) t(2) by (simp add: iris_laws_def)
  have p: "parseToken E (tk_token t) = Inr ?t0" unfolding t(2) by (rule parse_own [OF laws(1)])
  have read: "\<exists>s'. readStored E R S ?j ?t0 z = (None, u, s') \<and> holds E R S ok ?j u s' \<and> stored E safe R S ?j s'"
    if "holds E R S ok ?j u z" "stored E safe R S ?j z" "tk_id u = tk_id t" "safe (tk_token u)" for u z
  proof -
    obtain err t1 s1 where r: "readStored E R S ?j ?t0 z = (err, t1, s1)" by (metis prod_cases3)
    from readStored_any [OF laws(1,3) that(2,1) r] that(3,4) t(1) show ?thesis by (simp add: r)
  qed
  have h: "holds E R S ok ?j t s" "stored E safe R S ?j s" using s by (simp_all add: holds_def stored_def)
  from read [OF h refl safe] obtain s1 where s1: "readStored E R S ?j ?t0 s = (None, t, s1)"
    "holds E R S ok ?j t s1" "stored E safe R S ?j s1" by blast
  obtain t' s' where w: "toRedis E R S ?j now x t True s1 = (None, t', s')"
    using now(2) by (simp add: toRedis_def Let_def)
  note r = toRedis_result [OF laws(1) t(1) safe w]
  have ok: "ok (is_mem s1)" using s1(2) by (simp add: holds_def)
  have "stored E safe R S ?j s'" by (rule toRedis_stored [OF laws ok s1(3) t(1) safe w])
  moreover have "holds E R S ok ?j t' s'"
    using r fresh [OF ok] cache_store.ok_set [OF laws(3) ok]
    by (simp add: holds_def redis_hash.hset [OF laws(2)] memeKey_def)
  ultimately obtain s2 where "readStored E R S ?j ?t0 s' = (None, t', s2)" using read [of t' s'] r by blast
  then have "fst (fromRedis E R S j now' y (tk_token t) s') = Inl (auth_error Iris_ErrorTokenInvalid)" for now' y
    using p r new by (simp add: fromRedis_def Let_def)
  moreover have "fromRedis E R S j now x (tk_token t) s = (Inr t', s')"
    using p s1(1) t(3) now(1) w by (simp add: fromRedis_def Let_def)
  ultimately show ?thesis using r by blast
qed

text \<open>A logout does not reach the cache in memory: while it holds the token, requests are let in.\<close>

lemma logout_keeps_memory:
  assumes "so_get S (memeKey j t) (is_mem s) = (Some (ix_marshal E t), mem)" "iris_laws E safe" "safe (tk_id t)"
    and "tk_token t = iris_generateToken E x0 (tk_id t)" "\<not> token_expired now t"
    and "now \<le> wrap64 (tk_expires t - ij_expire (iris_lazyInit j) sdiv 2)"
  shows "fst (fromRedis E R S j now x (tk_token t) (iris_Logout R j (tk_id t) s)) = Inr t"
proof -
  have "parseToken E (tk_token t) = Inr \<lparr>tk_id = tk_id t, tk_expires = 0, tk_token = []\<rparr>"
    unfolding assms(4) by (rule parse_own [OF assms(2)])
  moreover have "ix_unmarshal E (ix_marshal E t) \<lparr>tk_id = tk_id t, tk_expires = 0, tk_token = []\<rparr> = (None, t)"
    using assms(2-4) by (simp add: iris_laws_def)
  ultimately show ?thesis
    using assms(1,5,6) by (simp add: fromRedis_def readStored_def iris_Logout_def memeKey_id Let_def)
qed

text \<open>Whatever the reason, a token that does not match what is stored is reported as invalid: that the
  store has no entry, or one that is no token, is never said.\<close>

lemma reasons_overwritten:
  assumes "parseToken E tok = Inr t0" "readStored E R S (iris_lazyInit j) t0 s = (Some err, t, s1)" "tok \<noteq> tk_token t"
  shows "fst (fromRedis E R S j now x tok s) = Inl (auth_error Iris_ErrorTokenInvalid)"
  using assms by (simp add: fromRedis_def Let_def)

end
