(* ===== verification/Config.thy ===== *)
theory Config
  imports Prelude Db_Model
begin

text \<open>
  The settings of the process (\<open>config/config.go\<close>): defaults, the configuration file, and the
  temporary file through which \<open>SetValue\<close> reaches the next start.

  The settings object is package \<open>viper\<close>'s and an argument: \<open>viper_ops\<close> has the calls the code
  makes, \<open>viper_laws\<close> what they are documented to do (an explicitly set value comes before the
  file, the file before the defaults). Files are a map from names to contents; any operation on
  them may be made to fail. Keys are dotted paths in lower case of single values.
\<close>

section \<open>Files and viper\<close>

datatype file_op = OpStat string | OpRename string string | OpWrite string | OpRead string

record 'b file_sys =
  fs_files :: "string \<Rightarrow> 'b option"
  fs_fault :: "file_op \<Rightarrow> string option"

datatype stat = Found | NotExist | StatErr string

definition os_Stat :: "string \<Rightarrow> 'b file_sys \<Rightarrow> stat" where
  "os_Stat f fs = (case fs_fault fs (OpStat f) of
       Some e \<Rightarrow> StatErr e
     | None \<Rightarrow> if fs_files fs f = None then NotExist else Found)"

definition os_Rename :: "string \<Rightarrow> string \<Rightarrow> 'b file_sys \<Rightarrow> string option \<times> 'b file_sys" where
  "os_Rename a b fs = (case fs_fault fs (OpRename a b) of
       Some e \<Rightarrow> (Some e, fs)
     | None \<Rightarrow> (case fs_files fs a of
           None \<Rightarrow> (Some ''no such file or directory'', fs)
         | Some x \<Rightarrow> (None, fs\<lparr>fs_files := (fs_files fs)(a := None, b := Some x)\<rparr>)))"

definition file_write :: "string \<Rightarrow> 'b \<Rightarrow> 'b file_sys \<Rightarrow> string option \<times> 'b file_sys" where
  "file_write f x fs = (case fs_fault fs (OpWrite f) of
       Some e \<Rightarrow> (Some e, fs)
     | None \<Rightarrow> (None, fs\<lparr>fs_files := (fs_files fs)(f := Some x)\<rparr>))"

definition file_read :: "string \<Rightarrow> 'b file_sys \<Rightarrow> (string, 'b) result" where
  "file_read f fs = (case fs_fault fs (OpRead f) of
       Some e \<Rightarrow> Inl e
     | None \<Rightarrow> (case fs_files fs f of None \<Rightarrow> Inl ''no such file or directory'' | Some x \<Rightarrow> Inr x))"

datatype cval = CStr string | CInt int | CBool bool

type_synonym settings = "string \<Rightarrow> cval option"

text \<open>Reading and writing take the file's name: its extension gives the format.\<close>

record ('v, 'b) viper_ops =
  vi_new :: 'v
  vi_default :: "string \<Rightarrow> cval \<Rightarrow> 'v \<Rightarrow> 'v"
  vi_set :: "string \<Rightarrow> cval \<Rightarrow> 'v \<Rightarrow> 'v"
  vi_merge :: "settings \<Rightarrow> 'v \<Rightarrow> string option \<times> 'v"
  vi_all :: "'v \<Rightarrow> settings"
  vi_get :: "'v \<Rightarrow> string \<Rightarrow> cval option"
  vi_read :: "string \<Rightarrow> 'b \<Rightarrow> 'v \<Rightarrow> string option \<times> 'v"
  vi_write :: "string \<Rightarrow> 'v \<Rightarrow> 'b"
  vi_sub :: "'v \<Rightarrow> string \<Rightarrow> 'v option"
  vi_to_string :: "cval \<Rightarrow> string"
  vi_to_int :: "cval \<Rightarrow> int"
  vi_to_bool :: "cval \<Rightarrow> bool"

definition GetString :: "('v, 'b) viper_ops \<Rightarrow> 'v \<Rightarrow> string \<Rightarrow> string" where
  "GetString V v k = (case vi_get V v k of None \<Rightarrow> [] | Some x \<Rightarrow> vi_to_string V x)"

definition GetInt :: "('v, 'b) viper_ops \<Rightarrow> 'v \<Rightarrow> string \<Rightarrow> int" where
  "GetInt V v k = (case vi_get V v k of None \<Rightarrow> 0 | Some x \<Rightarrow> vi_to_int V x)"

definition GetBool :: "('v, 'b) viper_ops \<Rightarrow> 'v \<Rightarrow> string \<Rightarrow> bool" where
  "GetBool V v k = (case vi_get V v k of None \<Rightarrow> False | Some x \<Rightarrow> vi_to_bool V x)"

text \<open>\<open>filepath.Ext\<close>: from the last dot of the last element.\<close>

definition filepath_Ext :: "string \<Rightarrow> string" where
  "filepath_Ext f =
     (let r = takeWhile (\<lambda>c. c \<noteq> CHR ''/'') (rev f) in
      if CHR ''.'' \<in> set r then rev (takeWhile (\<lambda>c. c \<noteq> CHR ''.'') r @ ''.'') else [])"

section \<open>The configuration\<close>

text \<open>The entries of a Go map, in any order; each key occurs once.\<close>

type_synonym defaults = "(string \<times> cval) list"

definition globalDefaults :: defaults where
  "globalDefaults =
     [(''app.name'', CStr ''glibs''), (''app.host'', CStr ''127.0.0.1''), (''app.debug'', CBool True),
      (''app.runtimes'', CInt 0), (''app.log_level'', CStr ''debug''),
      (''server.host'', CStr '':80''), (''server.pprof_port'', CStr '':81''),
      (''server.concurrent_limit'', CInt 1000), (''server.debug'', CBool True), (''server.crypto'', CStr ''''),
      (''db.type'', CStr ''''), (''db.host'', CStr ''''), (''db.db'', CStr ''''), (''db.user'', CStr ''''),
      (''db.port'', CStr ''''), (''db.pwd'', CStr ''''), (''db.debug'', CBool True), (''db.skip_cache'', CBool False),
      (''db.cache_type'', CStr ''mem''), (''db.max_idle_conns'', CInt 10), (''db.max_open_conns'', CInt 200),
      (''db.max_lifetime_seconds'', CInt 60), (''db.max_idle_time_seconds'', CInt 30),
      (''redis.host'', CStr ''''), (''redis.port'', CStr ''''), (''redis.db'', CInt 0), (''redis.pwd'', CStr ''''),
      (''emq.host'', CStr ''''), (''emq.port'', CStr ''''), (''emq.super_username'', CStr ''''),
      (''emq.super_password'', CStr '''')]"

definition MergeGlobalDefaults :: "defaults \<Rightarrow> defaults \<Rightarrow> defaults" where
  "MergeGlobalDefaults m g = fold (\<lambda>(k, v). AList.update k v) m g"

text \<open>Before \<open>Load\<close> there is no settings object; using it then is a nil dereference, the
  value \<open>None\<close> below.\<close>

record 'v config =
  cf_v :: "'v option"
  cf_file :: string
  cf_before :: "('v \<Rightarrow> 'v) option"

definition AppDebug :: "('v, 'b) viper_ops \<Rightarrow> 'v config \<Rightarrow> bool option" where
  "AppDebug V c = map_option (\<lambda>v. GetBool V v ''app.debug'') (cf_v c)"

definition DBDebug :: "('v, 'b) viper_ops \<Rightarrow> 'v config \<Rightarrow> bool option" where
  "DBDebug V c = map_option (\<lambda>v. GetBool V v ''db.debug'') (cf_v c)"

definition AppName :: "('v, 'b) viper_ops \<Rightarrow> string \<Rightarrow> 'v config \<Rightarrow> string option" where
  "AppName V util_AppName c = map_option (\<lambda>v.
     let appName = GetString V v ''app.name'';
         appName = (if appName = [] then util_AppName else appName)
     in if appName = [] then ''glibs'' else appName) (cf_v c)"

text \<open>The method stores the default name in the object; \<open>root\<close> is \<open>util.RootDir()\<close>.\<close>

definition GetConfigFile :: "string \<Rightarrow> 'v config \<Rightarrow> string \<times> 'v config" where
  "GetConfigFile root c =
     (let f = (if cf_file c = [] then root @ ''/data/conf.toml'' else cf_file c)
      in (f, c\<lparr>cf_file := f\<rparr>))"

definition SetConfigFile :: "string \<Rightarrow> 'v config \<Rightarrow> 'v config" where
  "SetConfigFile f c = c\<lparr>cf_file := f\<rparr>"

definition SetViper :: "'v \<Rightarrow> 'v config \<Rightarrow> 'v config" where
  "SetViper v c = c\<lparr>cf_v := Some v\<rparr>"

definition tempConfigFile :: "string \<Rightarrow> string" where
  "tempConfigFile name = name @ ''_temp.toml''"

text \<open>Any other error of \<open>Stat\<close> counts as a file that exists.\<close>

definition tempExists :: "string \<Rightarrow> 'b file_sys \<Rightarrow> bool" where
  "tempExists name fs \<longleftrightarrow> os_Stat (tempConfigFile name) fs \<noteq> NotExist"

definition swapTempConfigFile :: "string \<Rightarrow> 'b file_sys \<Rightarrow> 'b file_sys" where
  "swapTempConfigFile name fs =
     (if \<not> tempExists name fs then fs else snd (os_Rename (tempConfigFile name) name fs))"

definition writeDefaultConfigIfNotExists ::
  "('v, 'b) viper_ops \<Rightarrow> string \<Rightarrow> 'v config \<Rightarrow> 'b file_sys \<Rightarrow> string option \<times> 'v config \<times> 'b file_sys" where
  "writeDefaultConfigIfNotExists V root c fs =
     (let (f, c) = GetConfigFile root c in
      case os_Stat f fs of
        NotExist \<Rightarrow> (case cf_v c of
            None \<Rightarrow> (Some ''nil pointer'', c, fs)
          | Some v \<Rightarrow> let (e, fs) = file_write f (vi_write V f v) fs in (e, c, fs))
      | StatErr e \<Rightarrow> (Some e, c, fs)
      | Found \<Rightarrow> (None, c, fs))"

definition load ::
  "('v, 'b) viper_ops \<Rightarrow> string \<Rightarrow> defaults \<Rightarrow> 'v config \<Rightarrow> 'b file_sys \<Rightarrow> string option \<times> 'v config \<times> 'b file_sys" where
  "load V root defs c fs =
     (let (f, c) = GetConfigFile root c;
          fs = swapTempConfigFile f fs;
          v = fold (\<lambda>(k, x). vi_default V k x) defs (vi_new V);
          v = (case cf_before c of None \<Rightarrow> v | Some b \<Rightarrow> b v);
          c = c\<lparr>cf_v := Some v\<rparr>;
          (e, c, fs) = writeDefaultConfigIfNotExists V root c fs
      in if e \<noteq> None then (e, c, fs)
         else case file_read f fs of
           Inl e \<Rightarrow> (Some e, c, fs)
         | Inr b \<Rightarrow> let (e, v) = vi_read V f b v in (e, c\<lparr>cf_v := Some v\<rparr>, fs))"

text \<open>\<open>Load\<close> ends the process on an error.\<close>

definition constructor ::
  "('v, 'b) viper_ops \<Rightarrow> string \<Rightarrow> defaults \<Rightarrow> 'v config \<Rightarrow> 'b file_sys \<Rightarrow> ('v config \<times> 'b file_sys) outcome" where
  "constructor V root defs c fs =
     (let (e, c, fs) = load V root defs c fs in
      case e of Some msg \<Rightarrow> Fatal msg | None \<Rightarrow> Returns (c, fs))"

text \<open>The errors of the merge and of the write are only logged.\<close>

definition Write2tempCall ::
  "('v, 'b) viper_ops \<Rightarrow> string \<Rightarrow> ('v \<Rightarrow> 'v) \<Rightarrow> 'v config \<Rightarrow> 'b file_sys \<Rightarrow> ('v config \<times> 'b file_sys) option" where
  "Write2tempCall V root fn c fs = map_option (\<lambda>cv.
     let v = fn (snd (vi_merge V (vi_all V cv) (vi_new V)));
         (f, c) = GetConfigFile root c;
         t = tempConfigFile f
     in (c, snd (file_write t (vi_write V t v) fs))) (cf_v c)"

definition SetValue ::
  "('v, 'b) viper_ops \<Rightarrow> string \<Rightarrow> string \<Rightarrow> cval \<Rightarrow> 'v config \<Rightarrow> 'b file_sys \<Rightarrow> ('v config \<times> 'b file_sys) option" where
  "SetValue V root k val = Write2tempCall V root (vi_set V k val)"

text \<open>The watcher of package \<open>viper\<close> reads the changed file again, then calls the function
  \<open>load\<close> registered, which writes the temporary file with nothing changed.\<close>

definition ConfigChanged ::
  "('v, 'b) viper_ops \<Rightarrow> string \<Rightarrow> 'v config \<Rightarrow> 'b file_sys \<Rightarrow> ('v config \<times> 'b file_sys) option" where
  "ConfigChanged V root c fs =
     (let (f, c) = GetConfigFile root c;
          c = (case (cf_v c, file_read f fs) of
                 (Some v, Inr b) \<Rightarrow> c\<lparr>cf_v := Some (snd (vi_read V f b v))\<rparr>
               | _ \<Rightarrow> c)
      in Write2tempCall V root (\<lambda>v. v) c fs)"

section \<open>Laws\<close>

text \<open>What \<open>viper\<close> documents. Three layers: explicitly set values, the configuration file, the
  defaults; \<open>decode\<close> is what a file of a name holds, if it can be read.\<close>

locale viper_laws =
  fixes V :: "('v, 'b) viper_ops" and K :: "string set"
    and over :: "'v \<Rightarrow> settings" and conf :: "'v \<Rightarrow> settings" and dflt :: "'v \<Rightarrow> settings"
    and decode :: "string \<Rightarrow> 'b \<Rightarrow> settings option"
  assumes new_is: "over (vi_new V) = Map.empty" "conf (vi_new V) = Map.empty" "dflt (vi_new V) = Map.empty"
    and default_is: "k \<in> K \<Longrightarrow> over (vi_default V k x v) = over v" "k \<in> K \<Longrightarrow> conf (vi_default V k x v) = conf v"
      "k \<in> K \<Longrightarrow> dflt (vi_default V k x v) = (dflt v)(k \<mapsto> x)"
    and set_is: "k \<in> K \<Longrightarrow> over (vi_set V k x v) = (over v)(k \<mapsto> x)" "k \<in> K \<Longrightarrow> conf (vi_set V k x v) = conf v"
      "k \<in> K \<Longrightarrow> dflt (vi_set V k x v) = dflt v"
    and merge_is: "dom m \<subseteq> K \<Longrightarrow> over (snd (vi_merge V m v)) = over v"
      "dom m \<subseteq> K \<Longrightarrow> conf (snd (vi_merge V m v)) = conf v ++ m"
      "dom m \<subseteq> K \<Longrightarrow> dflt (snd (vi_merge V m v)) = dflt v"
    and read_is: "decode f b = Some m \<Longrightarrow> fst (vi_read V f b v) = None"
      "decode f b = Some m \<Longrightarrow> over (snd (vi_read V f b v)) = over v"
      "decode f b = Some m \<Longrightarrow> conf (snd (vi_read V f b v)) = m"
      "decode f b = Some m \<Longrightarrow> dflt (snd (vi_read V f b v)) = dflt v"
    and unreadable: "decode f b = None \<Longrightarrow> fst (vi_read V f b v) \<noteq> None"
    and all_is: "vi_all V v = dflt v ++ conf v ++ over v"
    and all_keys: "dom (vi_all V v) \<subseteq> K"
    and get_is: "k \<in> K \<Longrightarrow> vi_get V v k = vi_all V v k"
    and written: "filepath_Ext g = filepath_Ext f \<Longrightarrow> decode f (vi_write V g v) = Some (vi_all V v)"
begin

lemma with_defaults:
  assumes "fst ` set defs \<subseteq> K"
  shows "over (fold (\<lambda>(k, x). vi_default V k x) defs v) = over v"
    and "conf (fold (\<lambda>(k, x). vi_default V k x) defs v) = conf v"
    and "dflt (fold (\<lambda>(k, x). vi_default V k x) defs v) = fold (\<lambda>(k, x) m. m(k \<mapsto> x)) defs (dflt v)"
  using assms by (induction defs arbitrary: v) (auto simp: default_is)

text \<open>The settings with one value replaced, as \<open>Write2tempCall\<close> builds them.\<close>

lemma rewritten:
  assumes "dom m \<subseteq> K"
  shows "vi_all V (snd (vi_merge V m (vi_new V))) = m"
    and "k \<in> K \<Longrightarrow> vi_all V (vi_set V k x (snd (vi_merge V m (vi_new V)))) = m(k \<mapsto> x)"
  using assms by (simp_all add: all_is merge_is set_is new_is)

end

section \<open>What the settings mean across starts\<close>

text \<open>The values in use, those of the file, and those the next start will take.\<close>

record config_spec =
  sp_cur :: settings
  sp_disk :: "settings option"
  sp_next :: "settings option"

datatype 'b config_op = OpSet string cval | OpEdit 'b | OpRestart

definition default_settings :: "defaults \<Rightarrow> settings" where
  "default_settings defs = fold (\<lambda>(k, x) m. m(k \<mapsto> x)) defs Map.empty"

definition starting :: "defaults \<Rightarrow> settings option \<Rightarrow> settings option \<Rightarrow> config_spec" where
  "starting defs disk nxt =
     (let d = (case nxt of Some m \<Rightarrow> m | None \<Rightarrow> (case disk of Some m \<Rightarrow> m | None \<Rightarrow> default_settings defs))
      in \<lparr>sp_cur = default_settings defs ++ d, sp_disk = Some d, sp_next = None\<rparr>)"

fun spec_step :: "defaults \<Rightarrow> ('b \<Rightarrow> settings option) \<Rightarrow> 'b config_op \<Rightarrow> config_spec \<Rightarrow> config_spec" where
  "spec_step defs dec (OpSet k x) s = s\<lparr>sp_next := Some ((sp_cur s)(k \<mapsto> x))\<rparr>"
| "spec_step defs dec (OpEdit b) s =
     (let c = default_settings defs ++ the (dec b) in s\<lparr>sp_cur := c, sp_disk := dec b, sp_next := Some c\<rparr>)"
| "spec_step defs dec OpRestart s = starting defs (sp_disk s) (sp_next s)"

text \<open>The same on the code: a value is set, a user saves the file (the watcher fires), the
  process starts again.\<close>

fun config_step ::
  "('v, 'b) viper_ops \<Rightarrow> string \<Rightarrow> defaults \<Rightarrow> string \<Rightarrow> 'b config_op \<Rightarrow> 'v config \<times> 'b file_sys \<Rightarrow> ('v config \<times> 'b file_sys) option" where
  "config_step V root defs f (OpSet k x) (c, fs) = SetValue V root k x c fs"
| "config_step V root defs f (OpEdit b) (c, fs) = ConfigChanged V root c (snd (file_write f b fs))"
| "config_step V root defs f OpRestart (c, fs) =
     (case constructor V root defs \<lparr>cf_v = None, cf_file = f, cf_before = None\<rparr> fs of
        Returns r \<Rightarrow> Some r | _ \<Rightarrow> None)"

fun config_run ::
  "('v, 'b) viper_ops \<Rightarrow> string \<Rightarrow> defaults \<Rightarrow> string \<Rightarrow> 'b config_op list \<Rightarrow> 'v config \<times> 'b file_sys \<Rightarrow> ('v config \<times> 'b file_sys) option" where
  "config_run V root defs f [] s = Some s"
| "config_run V root defs f (op # ops) s =
     (case config_step V root defs f op s of None \<Rightarrow> None | Some s \<Rightarrow> config_run V root defs f ops s)"

definition config_op_ok :: "string set \<Rightarrow> ('b \<Rightarrow> settings option) \<Rightarrow> 'b config_op \<Rightarrow> bool" where
  "config_op_ok K dec op = (case op of OpSet k x \<Rightarrow> k \<in> K | OpEdit b \<Rightarrow> dec b \<noteq> None | OpRestart \<Rightarrow> True)"

lemma temp_ext: "filepath_Ext (tempConfigFile f) = ''.toml''"
  by (simp add: filepath_Ext_def tempConfigFile_def Let_def)

lemma temp_other: "tempConfigFile f \<noteq> f"
  by (simp add: tempConfigFile_def)

context viper_laws
begin

definition config_rel :: "defaults \<Rightarrow> string \<Rightarrow> 'v config \<times> 'b file_sys \<Rightarrow> config_spec \<Rightarrow> bool" where
  "config_rel defs f s sp \<longleftrightarrow> (case s of (c, fs) \<Rightarrow>
     (\<exists>v. cf_v c = Some v \<and> sp_cur sp = vi_all V v \<and> over v = Map.empty \<and> dflt v = default_settings defs) \<and>
     cf_file c = f \<and> cf_before c = None \<and> fs_fault fs = (\<lambda>_. None) \<and>
     map_option (decode f) (fs_files fs f) = map_option Some (sp_disk sp) \<and>
     map_option (decode f) (fs_files fs (tempConfigFile f)) = map_option Some (sp_next sp))"

lemma set_related:
  assumes r: "config_rel defs f s sp" and k: "k \<in> K" and ext: "filepath_Ext f = ''.toml''" and f: "f \<noteq> []"
  shows "\<exists>s'. config_step V root defs f (OpSet k x) s = Some s' \<and> config_rel defs f s' (spec_step defs dec (OpSet k x) sp)"
proof -
  obtain c fs where s: "s = (c, fs)" by (cases s)
  have e: "filepath_Ext (tempConfigFile f) = filepath_Ext f" by (simp add: temp_ext ext)
  show ?thesis using r k f written [OF e]
    by (auto simp: s config_rel_def SetValue_def Write2tempCall_def GetConfigFile_def file_write_def Let_def
        rewritten all_keys temp_other temp_other [symmetric])
qed

lemma edit_related:
  assumes r: "config_rel defs f s sp" and b: "decode f b = Some m" and ext: "filepath_Ext f = ''.toml''" and f: "f \<noteq> []"
  shows "\<exists>s'. config_step V root defs f (OpEdit b) s = Some s' \<and> config_rel defs f s' (spec_step defs (decode f) (OpEdit b) sp)"
proof -
  obtain c fs v where s: "s = (c, fs)" and v: "cf_v c = Some v" "over v = Map.empty" "dflt v = default_settings defs"
    using r by (cases s) (auto simp: config_rel_def)
  have e: "filepath_Ext (tempConfigFile f) = filepath_Ext f" by (simp add: temp_ext ext)
  have all: "vi_all V (snd (vi_read V f b v)) = default_settings defs ++ m"
    using v b by (simp add: all_is read_is)
  then have dom: "dom (default_settings defs ++ m) \<subseteq> K" using all_keys [of "snd (vi_read V f b v)"] by simp
  show ?thesis using r f written [OF e] b all v rewritten(1) [OF dom]
    by (auto simp: s config_rel_def ConfigChanged_def Write2tempCall_def GetConfigFile_def file_write_def file_read_def Let_def
          temp_other temp_other [symmetric] read_is)
qed

text \<open>A start: the waiting file, if there is one, replaces the configuration file; without
  either, the defaults are written.\<close>

lemma load_related:
  assumes c: "cf_file c = f" "cf_before c = None" and fs: "fs_fault fs = (\<lambda>_. None)"
    and disk: "map_option (decode f) (fs_files fs f) = map_option Some d"
    and nxt: "map_option (decode f) (fs_files fs (tempConfigFile f)) = map_option Some n"
    and defs: "fst ` set defs \<subseteq> K" and f: "f \<noteq> []"
  shows "\<exists>c' fs'. constructor V root defs c fs = Returns (c', fs') \<and> config_rel defs f (c', fs') (starting defs d n)"
proof -
  let ?v = "fold (\<lambda>(k, x). vi_default V k x) defs (vi_new V)"
  let ?fs = "swapTempConfigFile f fs"
  let ?m = "case n of Some m \<Rightarrow> m | None \<Rightarrow> (case d of Some m \<Rightarrow> m | None \<Rightarrow> default_settings defs)"
  have v: "over ?v = Map.empty" "conf ?v = Map.empty" "dflt ?v = default_settings defs"
    by (simp_all add: with_defaults [OF defs] new_is default_settings_def)
  have all: "vi_all V ?v = default_settings defs" by (simp add: all_is v)
  have sw: "fs_fault ?fs = (\<lambda>_. None)" "fs_files ?fs (tempConfigFile f) = None"
    "map_option (decode f) (fs_files ?fs f) = map_option Some (case n of Some m \<Rightarrow> Some m | None \<Rightarrow> d)"
    using fs nxt disk by (auto simp: swapTempConfigFile_def tempExists_def os_Stat_def os_Rename_def temp_other temp_other [symmetric] split: option.splits)
  define fs' where "fs' = (if fs_files ?fs f = None then ?fs\<lparr>fs_files := (fs_files ?fs)(f \<mapsto> vi_write V f ?v)\<rparr> else ?fs)"
  define b where "b = the (fs_files fs' f)"
  have b: "fs_files fs' f = Some b" "decode f b = Some ?m"
    using sw(3) written [OF refl, of f ?v] by (auto simp: fs'_def b_def all split: option.splits)
  have "constructor V root defs c fs = Returns (c\<lparr>cf_v := Some (snd (vi_read V f b ?v))\<rparr>, fs')"
    using c sw(1) f b read_is(1) [OF b(2), of ?v]
    by (cases "vi_read V f b ?v")
       (auto simp: constructor_def load_def writeDefaultConfigIfNotExists_def GetConfigFile_def os_Stat_def file_write_def file_read_def
          Let_def fs'_def split: option.splits if_splits)
  moreover have "fs_fault fs' = (\<lambda>_. None)" "fs_files fs' (tempConfigFile f) = None"
    using sw by (simp_all add: fs'_def temp_other)
  ultimately show ?thesis
    using c b by (auto simp: config_rel_def starting_def Let_def all_is [of "snd _"] read_is v)
qed

lemma run_related:
  assumes "config_rel defs f s sp" and "fst ` set defs \<subseteq> K" and "f \<noteq> []" and "filepath_Ext f = ''.toml''"
    and "list_all (config_op_ok K (decode f)) ops"
  shows "\<exists>s'. config_run V root defs f ops s = Some s' \<and> config_rel defs f s' (fold (spec_step defs (decode f)) ops sp)"
  using assms
proof (induction ops arbitrary: s sp)
  case (Cons op ops)
  obtain c fs where s: "s = (c, fs)" by (cases s)
  have "\<exists>s'. config_step V root defs f op s = Some s' \<and> config_rel defs f s' (spec_step defs (decode f) op sp)"
  proof (cases op)
    case (OpSet k x)
    then show ?thesis using set_related [OF Cons.prems(1)] Cons.prems by (simp add: config_op_ok_def)
  next
    case (OpEdit b)
    then show ?thesis using edit_related [OF Cons.prems(1)] Cons.prems by (auto simp: config_op_ok_def)
  next
    case OpRestart
    then show ?thesis
      using load_related [of "\<lparr>cf_v = None, cf_file = f, cf_before = None\<rparr>" f fs "sp_disk sp" "sp_next sp" defs root] Cons.prems
      by (auto simp: s config_rel_def)
  qed
  then show ?case using Cons by fastforce
qed auto

lemma started_run:
  assumes "fst ` set defs \<subseteq> K" and "f \<noteq> []" and "filepath_Ext f = ''.toml''"
    and "list_all (config_op_ok K (decode f)) ops" and fs: "fs_fault fs = (\<lambda>_. None)"
    and disk: "map_option (decode f) (fs_files fs f) = map_option Some (sp_disk sp)"
    and nxt: "map_option (decode f) (fs_files fs (tempConfigFile f)) = map_option Some (sp_next sp)"
  obtains c' fs' v where "config_run V root defs f (OpRestart # ops) (c, fs) = Some (c', fs')"
    and "cf_v c' = Some v" and "vi_all V v = sp_cur (fold (spec_step defs (decode f)) (OpRestart # ops) sp)"
proof -
  let ?c = "\<lparr>cf_v = None, cf_file = f, cf_before = None\<rparr>"
  obtain c1 fs1 where 1: "constructor V root defs ?c fs = Returns (c1, fs1)"
    "config_rel defs f (c1, fs1) (starting defs (sp_disk sp) (sp_next sp))"
    using load_related [of ?c f fs _ _ defs root, OF _ _ fs disk nxt assms(1,2)] by force
  obtain s' where "config_run V root defs f ops (c1, fs1) = Some s'"
    "config_rel defs f s' (fold (spec_step defs (decode f)) ops (starting defs (sp_disk sp) (sp_next sp)))"
    using run_related [OF 1(2) assms(1-4)] by blast
  moreover obtain c' fs' where "s' = (c', fs')" by (cases s')
  ultimately obtain v where "cf_v c' = Some v"
    "sp_cur (fold (spec_step defs (decode f)) ops (starting defs (sp_disk sp) (sp_next sp))) = vi_all V v"
    "config_run V root defs f (OpRestart # ops) (c, fs) = Some (c', fs')"
    using 1(1) by (auto simp: config_rel_def)
  then show ?thesis by (intro that [of c' fs' v]) simp_all
qed

end

text \<open>The settings in use always have every default, and starting does not change them.\<close>

lemma spec_defaults:
  "dom (default_settings defs) \<subseteq> dom (sp_cur (fold (spec_step defs dec) (OpRestart # ops) sp))"
proof -
  have "dom (default_settings defs) \<subseteq> dom (sp_cur (spec_step defs dec op sp))"
    if "dom (default_settings defs) \<subseteq> dom (sp_cur sp) \<or> op = OpRestart" for op :: "'a config_op" and sp
    using that by (cases op) (auto simp: starting_def Let_def)
  then have "dom (default_settings defs) \<subseteq> dom (sp_cur (fold (spec_step defs dec) ops sp))"
    if "dom (default_settings defs) \<subseteq> dom (sp_cur sp)" for sp
    using that by (induction ops arbitrary: sp) auto
  then show ?thesis by (simp add: starting_def Let_def)
qed

lemma map_add_covered: "dom m \<subseteq> dom n \<Longrightarrow> m ++ n = n"
  by (fastforce simp: map_add_def fun_eq_iff split: option.splits)

lemma spec_set_restart:
  assumes "dom (default_settings defs) \<subseteq> dom (sp_cur sp)"
  shows "sp_cur (fold (spec_step defs dec) [OpSet k x, OpRestart] sp) = (sp_cur sp)(k \<mapsto> x)"
  using assms by (auto simp: starting_def Let_def map_add_covered subset_insertI2)

section \<open>A concrete settings object\<close>

record layers =
  ly_over :: settings
  ly_conf :: settings
  ly_dflt :: settings

definition demo_viper :: "(layers, string \<times> settings) viper_ops" where
  "demo_viper =
     \<lparr>vi_new = \<lparr>ly_over = Map.empty, ly_conf = Map.empty, ly_dflt = Map.empty\<rparr>,
      vi_default = (\<lambda>k x v. v\<lparr>ly_dflt := (ly_dflt v)(k \<mapsto> x)\<rparr>),
      vi_set = (\<lambda>k x v. v\<lparr>ly_over := (ly_over v)(k \<mapsto> x)\<rparr>),
      vi_merge = (\<lambda>m v. (None, v\<lparr>ly_conf := ly_conf v ++ m\<rparr>)),
      vi_all = (\<lambda>v. ly_dflt v ++ ly_conf v ++ ly_over v),
      vi_get = (\<lambda>v. ly_dflt v ++ ly_conf v ++ ly_over v),
      vi_read = (\<lambda>f b v. if fst b = filepath_Ext f then (None, v\<lparr>ly_conf := snd b\<rparr>) else (Some ''parsing config'', v)),
      vi_write = (\<lambda>f v. (filepath_Ext f, ly_dflt v ++ ly_conf v ++ ly_over v)),
      vi_sub = (\<lambda>v k. Some \<lparr>ly_over = Map.empty,
        ly_conf = (\<lambda>s. (ly_dflt v ++ ly_conf v ++ ly_over v) (k @ ''.'' @ s)), ly_dflt = Map.empty\<rparr>),
      vi_to_string = (\<lambda>x. case x of CStr s \<Rightarrow> s | CInt n \<Rightarrow> [] | CBool b \<Rightarrow> if b then ''true'' else ''false''),
      vi_to_int = (\<lambda>x. case x of CStr s \<Rightarrow> 0 | CInt n \<Rightarrow> n | CBool b \<Rightarrow> if b then 1 else 0),
      vi_to_bool = (\<lambda>x. case x of CStr s \<Rightarrow> s = ''true'' | CInt n \<Rightarrow> n \<noteq> 0 | CBool b \<Rightarrow> b)\<rparr>"

definition demo_decode :: "string \<Rightarrow> string \<times> settings \<Rightarrow> settings option" where
  "demo_decode f b = (if fst b = filepath_Ext f then Some (snd b) else None)"

interpretation demo_viper: viper_laws demo_viper UNIV ly_over ly_conf ly_dflt demo_decode
  by unfold_locales (auto simp: demo_viper_def demo_decode_def split: if_splits)

section \<open>Properties\<close>

text \<open>C9: The settings over the whole life of an installation: in any sequence of starts, values
  set by the program and edits of the file by a user, no step fails and every key reads what the
  specification says (the values in use, those of the file, those waiting for the next start);
  for a TOML file, readable edits and a disk without faults.\<close>

theorem config_refines:
  assumes "viper_laws V K over conf dflt decode" and "fst ` set defs \<subseteq> K"
    and "f \<noteq> []" and "filepath_Ext f = ''.toml''" and "list_all (config_op_ok K (decode f)) ops"
    and "fs_fault fs = (\<lambda>_. None)"
    and "map_option (decode f) (fs_files fs f) = map_option Some (sp_disk sp)"
    and "map_option (decode f) (fs_files fs (tempConfigFile f)) = map_option Some (sp_next sp)"
  shows "\<exists>c' fs' v. config_run V root defs f (OpRestart # ops) (c, fs) = Some (c', fs') \<and> cf_v c' = Some v \<and>
    (\<forall>k \<in> K. vi_get V v k = sp_cur (fold (spec_step defs (decode f)) (OpRestart # ops) sp) k)"
  using viper_laws.started_run [OF assms] viper_laws.get_is [OF assms(1)] by metis

text \<open>A value the program sets is what the key reads after the next start, and every other
  key reads what it read before, whatever happened since the installation.\<close>

theorem setting_survives_restart:
  assumes "viper_laws V K over conf dflt decode" and "fst ` set defs \<subseteq> K"
    and "f \<noteq> []" and "filepath_Ext f = ''.toml''" and "list_all (config_op_ok K (decode f)) ops"
    and "fs_fault fs = (\<lambda>_. None)" and "k \<in> K"
    and "map_option (decode f) (fs_files fs f) = map_option Some d"
    and "map_option (decode f) (fs_files fs (tempConfigFile f)) = map_option Some n"
  shows "\<exists>c1 fs1 v1 c2 fs2 v2. config_run V root defs f (OpRestart # ops) (c, fs) = Some (c1, fs1) \<and> cf_v c1 = Some v1 \<and>
    config_run V root defs f (OpRestart # ops @ [OpSet k x, OpRestart]) (c, fs) = Some (c2, fs2) \<and> cf_v c2 = Some v2 \<and>
    vi_get V v2 k = Some x \<and> (\<forall>k' \<in> K - {k}. vi_get V v2 k' = vi_get V v1 k')"
proof -
  let ?sp = "\<lparr>sp_cur = Map.empty, sp_disk = d, sp_next = n\<rparr>" and ?ops = "ops @ [OpSet k x, OpRestart]"
  have ok: "list_all (config_op_ok K (decode f)) ?ops" using assms by (simp add: config_op_ok_def)
  have d: "map_option (decode f) (fs_files fs f) = map_option Some (sp_disk ?sp)"
    "map_option (decode f) (fs_files fs (tempConfigFile f)) = map_option Some (sp_next ?sp)" using assms by simp_all
  obtain c1 fs1 v1 where 1: "config_run V root defs f (OpRestart # ops) (c, fs) = Some (c1, fs1)" "cf_v c1 = Some v1"
    "vi_all V v1 = sp_cur (fold (spec_step defs (decode f)) (OpRestart # ops) ?sp)"
    using viper_laws.started_run [OF assms(1-6) d] by metis
  obtain c2 fs2 v2 where 2: "config_run V root defs f (OpRestart # ?ops) (c, fs) = Some (c2, fs2)" "cf_v c2 = Some v2"
    "vi_all V v2 = sp_cur (fold (spec_step defs (decode f)) (OpRestart # ?ops) ?sp)"
    using viper_laws.started_run [OF assms(1-4) ok assms(6) d] by metis
  have "vi_all V v2 = (vi_all V v1)(k \<mapsto> x)"
    using spec_set_restart [OF spec_defaults [of defs "decode f" ops ?sp], of "decode f" k x] 1(3) 2(3) by simp
  then show ?thesis using 1 2 assms(7) viper_laws.get_is [OF assms(1)]
    by (intro exI [of _ c1] exI [of _ fs1] exI [of _ v1] exI [of _ c2] exI [of _ fs2] exI [of _ v2]) auto
qed

lemma setting_survives_restart_witness:
  "\<exists>c1 fs1 v1 c2 fs2 v2.
    config_run demo_viper ''/srv'' globalDefaults ''/srv/conf.toml'' (OpRestart # [OpSet ''app.name'' (CStr ''shop'')])
      (\<lparr>cf_v = None, cf_file = [], cf_before = None\<rparr>, \<lparr>fs_files = Map.empty, fs_fault = (\<lambda>_. None)\<rparr>) = Some (c1, fs1) \<and> cf_v c1 = Some v1 \<and>
    config_run demo_viper ''/srv'' globalDefaults ''/srv/conf.toml''
      (OpRestart # [OpSet ''app.name'' (CStr ''shop'')] @ [OpSet ''db.type'' (CStr ''pg''), OpRestart])
      (\<lparr>cf_v = None, cf_file = [], cf_before = None\<rparr>, \<lparr>fs_files = Map.empty, fs_fault = (\<lambda>_. None)\<rparr>) = Some (c2, fs2) \<and> cf_v c2 = Some v2 \<and>
    vi_get demo_viper v2 ''db.type'' = Some (CStr ''pg'') \<and>
    (\<forall>k' \<in> UNIV - {''db.type''}. vi_get demo_viper v2 k' = vi_get demo_viper v1 k')"
  by (rule setting_survives_restart [OF demo_viper.viper_laws_axioms, where d = None and n = None])
     (simp_all add: filepath_Ext_def config_op_ok_def)

lemma config_refines_witness:
  "\<exists>c' fs' v. config_run demo_viper ''/srv'' globalDefaults ''/srv/conf.toml''
      (OpRestart # [OpSet ''app.name'' (CStr ''shop''), OpEdit (''.toml'', [''db.type'' \<mapsto> CStr ''pg'']), OpRestart])
      (\<lparr>cf_v = None, cf_file = [], cf_before = None\<rparr>, \<lparr>fs_files = Map.empty, fs_fault = (\<lambda>_. None)\<rparr>) = Some (c', fs') \<and> cf_v c' = Some v \<and>
    (\<forall>k \<in> UNIV. vi_get demo_viper v k = sp_cur (fold (spec_step globalDefaults (demo_decode ''/srv/conf.toml''))
      (OpRestart # [OpSet ''app.name'' (CStr ''shop''), OpEdit (''.toml'', [''db.type'' \<mapsto> CStr ''pg'']), OpRestart])
      \<lparr>sp_cur = Map.empty, sp_disk = None, sp_next = None\<rparr>) k)"
  by (rule config_refines [OF demo_viper.viper_laws_axioms])
     (simp_all add: filepath_Ext_def config_op_ok_def demo_decode_def)

text \<open>Two values set in one run of the process: the second call starts from the settings in use
  and not from the waiting file, so the first value is gone at the next start.\<close>

lemma second_SetValue_drops_first:
  assumes "viper_laws V K over conf dflt decode" and "fst ` set defs \<subseteq> K"
    and "f \<noteq> []" and "filepath_Ext f = ''.toml''" and "fs_fault fs = (\<lambda>_. None)" and "a \<in> K" "b \<in> K" "a \<noteq> b"
    and "fs_files fs = Map.empty"
  shows "\<exists>c' fs' v. config_run V root defs f [OpRestart, OpSet a x, OpSet b y, OpRestart] (c, fs) = Some (c', fs') \<and>
    cf_v c' = Some v \<and> vi_get V v a = default_settings defs a \<and> vi_get V v b = Some y"
proof -
  have ok: "list_all (config_op_ok K (decode f)) [OpSet a x, OpSet b y, OpRestart]" using assms by (simp add: config_op_ok_def)
  let ?sp = "\<lparr>sp_cur = Map.empty, sp_disk = None, sp_next = None\<rparr>"
  obtain c' fs' v where "config_run V root defs f (OpRestart # [OpSet a x, OpSet b y, OpRestart]) (c, fs) = Some (c', fs')"
    "cf_v c' = Some v" "vi_all V v = sp_cur (fold (spec_step defs (decode f)) (OpRestart # [OpSet a x, OpSet b y, OpRestart]) ?sp)"
    by (rule viper_laws.started_run [OF assms(1-4) ok assms(5), where sp = ?sp]) (simp_all add: assms)
  then show ?thesis using assms(6-8) viper_laws.get_is [OF assms(1)]
    by (intro exI [of _ c'] exI [of _ fs'] exI [of _ v]) (auto simp: starting_def map_add_def Let_def split: option.splits)
qed

end
