(* ===== verification/Lazy_Handles.thy ===== *)
theory Lazy_Handles
  imports Prelude
begin

text \<open>
  Handles made on first use: the Redis clients per database (\<open>mdb/redisv9.go\<close>), the log writers
  per name (\<open>util/logger.go\<close>) and the values of \<open>LoadSingle\<close> (\<open>util/singleton.go\<close>).

  The first two look under a read lock and, when nothing is there, make the handle under the
  write lock without looking again. A call is therefore two steps, and other calls may come in
  between; \<open>lazy_step\<close> is the relation of all interleavings. The third holds its lock
  throughout and is one step. A handle has a serial number: two handles made are two handles.
\<close>

section \<open>Calls in any interleaving\<close>

text \<open>\<open>lr_waiting\<close>: the threads between the two locks and the key they ask for; \<open>lr_got\<close>: who
  got which handle for which key.\<close>

record ('s, 'k, 'r) lazy_run =
  lr_state :: 's
  lr_waiting :: "(nat \<times> 'k) list"
  lr_got :: "(nat \<times> 'k \<times> 'r) list"

inductive lazy_step ::
  "('k \<Rightarrow> 's \<Rightarrow> 'r option) \<Rightarrow> ('k \<Rightarrow> 's \<Rightarrow> 'r \<times> 's) \<Rightarrow> ('s \<Rightarrow> 's) \<Rightarrow> ('s, 'k, 'r) lazy_run \<Rightarrow> ('s, 'k, 'r) lazy_run \<Rightarrow> bool"
  for check create close where
  hit: "check k (lr_state s) = Some r \<Longrightarrow>
    lazy_step check create close s (s\<lparr>lr_got := lr_got s @ [(t, k, r)]\<rparr>)"
| miss: "check k (lr_state s) = None \<Longrightarrow>
    lazy_step check create close s (s\<lparr>lr_waiting := lr_waiting s @ [(t, k)]\<rparr>)"
| make: "(t, k) \<in> set (lr_waiting s) \<Longrightarrow> create k (lr_state s) = (r, st) \<Longrightarrow>
    lazy_step check create close s
      (s\<lparr>lr_state := st, lr_waiting := remove1 (t, k) (lr_waiting s), lr_got := lr_got s @ [(t, k, r)]\<rparr>)"
| closes: "lazy_step check create close s (s\<lparr>lr_state := close (lr_state s)\<rparr>)"

definition lazy_reach ::
  "('k \<Rightarrow> 's \<Rightarrow> 'r option) \<Rightarrow> ('k \<Rightarrow> 's \<Rightarrow> 'r \<times> 's) \<Rightarrow> ('s \<Rightarrow> 's) \<Rightarrow> 's \<Rightarrow> ('s, 'k, 'r) lazy_run \<Rightarrow> bool" where
  "lazy_reach check create close st =
     (lazy_step check create close)\<^sup>*\<^sup>* \<lparr>lr_state = st, lr_waiting = [], lr_got = []\<rparr>"

text \<open>A caller alone: both steps of the call at once.\<close>

definition lazy_call :: "('k \<Rightarrow> 's \<Rightarrow> 'r option) \<Rightarrow> ('k \<Rightarrow> 's \<Rightarrow> 'r \<times> 's) \<Rightarrow> 'k \<Rightarrow> 's \<Rightarrow> 'r \<times> 's" where
  "lazy_call check create k s = (case check k s of Some r \<Rightarrow> (r, s) | None \<Rightarrow> create k s)"

text \<open>What the two operations promise: handles fit their keys, making one leaves the others, and no
  handle is made twice.\<close>

locale lazy_store =
  fixes check :: "'k \<Rightarrow> 's \<Rightarrow> 'r option" and create :: "'k \<Rightarrow> 's \<Rightarrow> 'r \<times> 's" and close :: "'s \<Rightarrow> 's"
    and ok :: "'s \<Rightarrow> bool" and fits :: "'s \<Rightarrow> 'k \<Rightarrow> 'r \<Rightarrow> bool" and serial :: "'r \<Rightarrow> nat" and made :: "'s \<Rightarrow> nat"
  assumes check_fits: "ok s \<Longrightarrow> check k s = Some r \<Longrightarrow> fits s k r \<and> serial r < made s"
    and create_fits: "ok s \<Longrightarrow> create k s = (r, s') \<Longrightarrow> fits s' k r \<and> serial r = made s \<and> made s' = Suc (made s)"
    and create_ok: "ok s \<Longrightarrow> create k s = (r, s') \<Longrightarrow> ok s'"
    and create_there: "ok s \<Longrightarrow> create k s = (r, s') \<Longrightarrow> check k' s' = (if k' = k then Some r else check k' s)"
    and fits_create: "create k s = (r, s') \<Longrightarrow> fits s' = fits s"
    and close_keeps: "ok s \<Longrightarrow> ok (close s) \<and> fits (close s) = fits s \<and> made (close s) = made s"
begin

definition all_fit :: "('s, 'k, 'r) lazy_run \<Rightarrow> bool" where
  "all_fit s \<longleftrightarrow> ok (lr_state s) \<and> (\<forall>(t, k, r) \<in> set (lr_got s). fits (lr_state s) k r \<and> serial r < made (lr_state s))"

lemma step_fits: "lazy_step check create close s s' \<Longrightarrow> all_fit s \<Longrightarrow> all_fit s' \<and> fits (lr_state s') = fits (lr_state s)"
proof (induction rule: lazy_step.induct)
  case (make t k s r st)
  then have "ok (lr_state s)" by (simp add: all_fit_def)
  from make create_fits [OF this make(2)] create_ok [OF this make(2)] fits_create [OF make(2)]
  show ?case by (fastforce simp: all_fit_def)
qed (auto simp: all_fit_def check_fits close_keeps dest: check_fits)

lemma reach_fits:
  assumes "lazy_reach check create close st s" "ok st"
  shows "all_fit s \<and> fits (lr_state s) = fits st"
  using assms(1) unfolding lazy_reach_def
proof (induction rule: rtranclp_induct)
  case base
  then show ?case using assms(2) by (simp add: all_fit_def)
next
  case (step y z)
  then show ?case using step_fits by fastforce
qed

lemma call_again:
  assumes "ok s" "lazy_call check create k s = (r, s')"
  shows "lazy_call check create k s' = (r, s') \<and> fits s' k r \<and>
    (\<forall>k'. k' \<noteq> k \<longrightarrow> check k' s' = check k' s)"
  using assms check_fits create_fits create_there
  by (cases "check k s") (auto simp: lazy_call_def)

end

section \<open>Redis clients\<close>

record redis_options =
  ro_addr :: string
  ro_username :: string
  ro_password :: string
  ro_db :: int

definition RedisOptions_Copy :: "redis_options \<Rightarrow> redis_options" where
  "RedisOptions_Copy r = \<lparr>ro_addr = ro_addr r, ro_username = ro_username r, ro_password = ro_password r, ro_db = ro_db r\<rparr>"

record redis_client =
  rc_options :: redis_options
  rc_pool_fifo :: bool
  rc_min_idle :: nat
  rc_max_idle :: nat
  rc_serial :: nat

text \<open>Without options, \<open>GetClient\<close> ends the process; \<open>rv_closed\<close> records the clients closed.\<close>

record redis_v9 =
  rv_opt :: redis_options
  rv_m :: "int \<Rightarrow> redis_client option"
  rv_made :: nat
  rv_closed :: "nat set"

text \<open>A client that answers the first ping; otherwise the process ends.\<close>

definition getRedisClient :: "redis_options \<Rightarrow> nat \<Rightarrow> redis_client" where
  "getRedisClient opt n = \<lparr>rc_options = opt, rc_pool_fifo = True, rc_min_idle = 2, rc_max_idle = 100, rc_serial = n\<rparr>"

definition GetClient_look :: "int \<Rightarrow> redis_v9 \<Rightarrow> redis_client option" where
  "GetClient_look db r = rv_m r db"

definition GetClient_make :: "int \<Rightarrow> redis_v9 \<Rightarrow> redis_client \<times> redis_v9" where
  "GetClient_make db r =
     (let opt = (RedisOptions_Copy (rv_opt r))\<lparr>ro_db := db\<rparr>; c = getRedisClient opt (rv_made r)
      in (c, r\<lparr>rv_m := (rv_m r)(db \<mapsto> c), rv_made := Suc (rv_made r)\<rparr>))"

text \<open>\<open>GetClient()\<close> without a database takes number 0.\<close>

definition GetClient :: "int option \<Rightarrow> redis_v9 \<Rightarrow> redis_client \<times> redis_v9" where
  "GetClient dbs = lazy_call GetClient_look GetClient_make (case dbs of None \<Rightarrow> 0 | Some db \<Rightarrow> db)"

definition RedisV9_Close :: "redis_v9 \<Rightarrow> redis_v9" where
  "RedisV9_Close r = r\<lparr>rv_m := Map.empty, rv_closed := rv_closed r \<union> {rc_serial c |c db. rv_m r db = Some c}\<rparr>"

text \<open>The map is replaced, whatever was in it.\<close>

definition RedisV9_Initialize :: "redis_options \<Rightarrow> redis_v9 \<Rightarrow> redis_v9" where
  "RedisV9_Initialize opt r = snd (GetClient (Some (ro_db opt)) (r\<lparr>rv_opt := opt, rv_m := Map.empty\<rparr>))"

definition redis_fits :: "redis_v9 \<Rightarrow> int \<Rightarrow> redis_client \<Rightarrow> bool" where
  "redis_fits r db c \<longleftrightarrow> rc_options c = (rv_opt r)\<lparr>ro_db := db\<rparr>"

definition redis_v9_ok :: "redis_v9 \<Rightarrow> bool" where
  "redis_v9_ok r \<longleftrightarrow> (\<forall>db c. rv_m r db = Some c \<longrightarrow> redis_fits r db c \<and> rc_serial c < rv_made r)"

lemmas redis_defs = GetClient_look_def GetClient_make_def RedisV9_Close_def redis_fits_def redis_v9_ok_def getRedisClient_def
  RedisOptions_Copy_def Let_def

interpretation redis_clients: lazy_store GetClient_look GetClient_make RedisV9_Close redis_v9_ok redis_fits rc_serial rv_made
  by unfold_locales (auto simp: redis_defs fun_eq_iff less_Suc_eq split: if_splits)

section \<open>Log writers\<close>

text \<open>\<open>filepath.Join\<close> on Unix: empty parts in front are dropped, the rest is joined and cleaned (no empty or \<open>.\<close>
  parts, \<open>..\<close> taken up as far as possible).\<close>

fun clean_parts :: "bool \<Rightarrow> string list \<Rightarrow> string list \<Rightarrow> string list" where
  "clean_parts rooted done [] = rev done"
| "clean_parts rooted done (e # es) =
     (if e = [] \<or> e = ''.'' then clean_parts rooted done es
      else if e = ''..'' then
        (case done of
           d # ds \<Rightarrow> if d \<noteq> ''..'' then clean_parts rooted ds es else clean_parts rooted (e # done) es
         | [] \<Rightarrow> if rooted then clean_parts rooted [] es else clean_parts rooted [e] es)
      else clean_parts rooted (e # done) es)"

definition filepath_Clean :: "string \<Rightarrow> string" where
  "filepath_Clean p =
     (let rooted = strings_HasPrefix p ''/'';
          out = (if rooted then ''/'' else []) @ strings_Join (clean_parts rooted [] (strings_Split p ''/'')) ''/''
      in if out = [] then ''.'' else out)"

definition filepath_Join :: "string list \<Rightarrow> string" where
  "filepath_Join es = (case dropWhile (\<lambda>e. e = []) es of [] \<Rightarrow> [] | es \<Rightarrow> filepath_Clean (strings_Join es ''/''))"

definition log_file :: "string \<Rightarrow> string \<Rightarrow> string" where
  "log_file root name = filepath_Join [root, ''logs'', name @ ''.log'']"

lemma Index_slash: "CHR ''/'' \<notin> set x \<Longrightarrow> strings_Index (x @ CHR ''/'' # r) ''/'' = Some (length x)"
  by (induction x) (auto simp: strings_HasPrefix_def)

lemma Index_no_slash: "CHR ''/'' \<notin> set x \<Longrightarrow> strings_Index x ''/'' = None"
  by (induction x) (auto simp: strings_HasPrefix_def)

lemma split_parts: "xs \<noteq> [] \<Longrightarrow> \<forall>x \<in> set xs. CHR ''/'' \<notin> set x \<Longrightarrow> split_on (strings_Join xs ''/'') ''/'' = xs"
proof (induction xs)
  case (Cons x xs)
  show ?case
  proof (cases xs)
    case Nil
    with Cons.prems show ?thesis by (simp add: split_on.simps [of x] Index_no_slash)
  next
    case (Cons y ys)
    with Cons.IH Cons.prems show ?thesis
      by (simp add: split_on.simps [of "x @ CHR ''/'' # strings_Join (y # ys) ''/''"] Index_slash)
  qed
qed simp

lemma clean_plain: "\<forall>e \<in> set es. e \<notin> {[], ''.'', ''..''} \<Longrightarrow> clean_parts r ds es = rev ds @ es"
  by (induction es arbitrary: ds) auto

text \<open>For a root that is clean and a name without a slash nothing is cleaned away.\<close>

lemma log_file_plain:
  assumes "root = CHR ''/'' # strings_Join es ''/''" "es \<noteq> []" "\<forall>e \<in> set es. e \<notin> {[], ''.'', ''..''} \<and> CHR ''/'' \<notin> set e"
    and "CHR ''/'' \<notin> set name"
  shows "log_file root name = root @ ''/logs/'' @ name @ ''.log''"
proof -
  let ?l = "name @ ''.log''" let ?ps = "es @ [''logs'', ?l]"
  have j: "strings_Join ?ps ''/'' = strings_Join es ''/'' @ ''/logs/'' @ ?l"
    using assms(2) Join_snoc [of "es @ [''logs'']" ?l "''/''"] Join_snoc [of es "''logs''" "''/''"] by simp
  define p where "p = root @ ''/logs/'' @ ?l"
  have p: "p = strings_Join ([] # ?ps) ''/''" using j assms(1,2) by (simp add: p_def Join_Cons)
  have "split_on p ''/'' = [] # ?ps" unfolding p using assms(3,4) by (intro split_parts) auto
  then have s: "strings_Split p ''/'' = [] # ?ps" by (simp only: strings_Split_def)
  have "length ?l \<noteq> length ''.''" "length ?l \<noteq> length ''..''" by simp_all
  then have "?l \<notin> {[], ''.'', ''..''}" by auto
  then have c: "clean_parts True [] ([] # ?ps) = ?ps"
    using assms(3) clean_plain [of ?ps True "[]"] by auto
  have h: "strings_HasPrefix p ''/''" using assms(1) by (simp add: p_def strings_HasPrefix_def)
  have "p = ''/'' @ strings_Join ?ps ''/''" using p by (simp add: Join_Cons)
  moreover have "filepath_Clean p = ''/'' @ strings_Join ?ps ''/''"
    unfolding filepath_Clean_def Let_def s eqTrueI [OF h] if_True c by simp
  ultimately have "filepath_Clean (root @ ''/logs/'' @ ?l) = root @ ''/logs/'' @ ?l" by (simp only: p_def)
  then show ?thesis using assms(1) by (simp add: log_file_def filepath_Join_def)
qed

record log_writer =
  lw_file :: string
  lw_max_size :: nat
  lw_max_backups :: nat
  lw_max_age :: nat
  lw_serial :: nat

record log_writers =
  lm_m :: "string \<Rightarrow> log_writer option"
  lm_made :: nat
  lm_closed :: "nat set"

definition newLumberJackWriter :: "string \<Rightarrow> nat \<Rightarrow> log_writer" where
  "newLumberJackWriter name n = \<lparr>lw_file = name, lw_max_size = 2, lw_max_backups = 5, lw_max_age = 3, lw_serial = n\<rparr>"

definition GetLogWriter_look :: "string \<Rightarrow> log_writers \<Rightarrow> log_writer option" where
  "GetLogWriter_look name l = lm_m l name"

definition GetLogWriter_make :: "string \<Rightarrow> string \<Rightarrow> log_writers \<Rightarrow> log_writer \<times> log_writers" where
  "GetLogWriter_make root name l =
     (let w = newLumberJackWriter (log_file root name) (lm_made l)
      in (w, l\<lparr>lm_m := (lm_m l)(name \<mapsto> w), lm_made := Suc (lm_made l)\<rparr>))"

text \<open>The writers are closed but stay in the map.\<close>

definition logWriterMap_Close :: "log_writers \<Rightarrow> log_writers" where
  "logWriterMap_Close l = l\<lparr>lm_closed := lm_closed l \<union> {lw_serial w |w name. lm_m l name = Some w}\<rparr>"

text \<open>\<open>GetLogWriter\<close> of the package: no name is the standard output (\<open>None\<close>).\<close>

definition GetLogWriter :: "string \<Rightarrow> string \<Rightarrow> log_writers \<Rightarrow> log_writer option \<times> log_writers" where
  "GetLogWriter root logName l =
     (if logName = [] then (None, l)
      else let (w, l) = lazy_call GetLogWriter_look (GetLogWriter_make root) logName l in (Some w, l))"

definition log_fits :: "string \<Rightarrow> log_writers \<Rightarrow> string \<Rightarrow> log_writer \<Rightarrow> bool" where
  "log_fits root l name w \<longleftrightarrow> lw_file w = log_file root name"

definition log_writers_ok :: "string \<Rightarrow> log_writers \<Rightarrow> bool" where
  "log_writers_ok root l \<longleftrightarrow> (\<forall>name w. lm_m l name = Some w \<longrightarrow> log_fits root l name w \<and> lw_serial w < lm_made l)"

lemmas log_defs = GetLogWriter_look_def GetLogWriter_make_def logWriterMap_Close_def log_fits_def log_writers_ok_def
  newLumberJackWriter_def Let_def

interpretation log_handles: lazy_store GetLogWriter_look "GetLogWriter_make root" logWriterMap_Close "log_writers_ok root"
    "log_fits root" lw_serial lm_made for root
  by unfold_locales (auto simp: log_defs fun_eq_iff less_Suc_eq split: if_splits)

section \<open>Single instances\<close>

text \<open>The whole call holds the lock; \<open>newFunc\<close> is called when the key is new.\<close>

definition singleInstance_load :: "string \<Rightarrow> ('w \<Rightarrow> 'a \<times> 'w) \<Rightarrow> (string \<Rightarrow> 'a option) \<times> 'w \<Rightarrow> 'a \<times> (string \<Rightarrow> 'a option) \<times> 'w" where
  "singleInstance_load key newFunc s =
     (let (m, w) = s in case m key of
        Some v \<Rightarrow> (v, m, w)
      | None \<Rightarrow> (let (v, w) = newFunc w in (v, m(key \<mapsto> v), w)))"

text \<open>However often it is loaded and whatever else is loaded in between, a key has the value of its first load.\<close>

lemma single_instance:
  assumes "singleInstance_load key f s = (v, s1)" and "fst s2 key = fst s1 key"
  shows "singleInstance_load key g s2 = (v, s2)"
  using assms by (auto simp: singleInstance_load_def Let_def split: prod.splits option.splits)

section \<open>Properties\<close>

definition logWriterMapInstance :: log_writers where
  "logWriterMapInstance = \<lparr>lm_m = Map.empty, lm_made = 0, lm_closed = {}\<rparr>"

lemma redis_clients_fit:
  assumes "lazy_reach GetClient_look GetClient_make RedisV9_Close (RedisV9_Initialize opt r) s"
  shows "(\<forall>(t, db, c) \<in> set (lr_got s). rc_options c = opt\<lparr>ro_db := db\<rparr>) \<and>
    (let (c, r1) = GetClient dbs (lr_state s) in
       rc_options c = opt\<lparr>ro_db := (case dbs of None \<Rightarrow> 0 | Some db \<Rightarrow> db)\<rparr> \<and> GetClient dbs r1 = (c, r1))"
proof -
  let ?r = "RedisV9_Initialize opt r"
  have "redis_v9_ok ?r" "rv_opt ?r = opt"
    by (auto simp: RedisV9_Initialize_def GetClient_def lazy_call_def redis_defs split: if_splits)
  then have f: "redis_fits ?r = (\<lambda>db c. rc_options c = opt\<lparr>ro_db := db\<rparr>)" and "redis_v9_ok ?r"
    by (simp_all add: redis_fits_def fun_eq_iff)
  from redis_clients.reach_fits [OF assms this(2)] f
  have s: "redis_clients.all_fit s" "redis_fits (lr_state s) = (\<lambda>db c. rc_options c = opt\<lparr>ro_db := db\<rparr>)" by auto
  obtain c r1 where c: "GetClient dbs (lr_state s) = (c, r1)" by (cases "GetClient dbs (lr_state s)")
  have "redis_v9_ok (lr_state s)" using s(1) by (simp add: redis_clients.all_fit_def)
  from redis_clients.call_again [OF this c [unfolded GetClient_def]]
  have "GetClient dbs r1 = (c, r1)" "redis_fits r1 (case dbs of None \<Rightarrow> 0 | Some db \<Rightarrow> db) c" by (simp_all add: GetClient_def)
  moreover have "rv_opt r1 = rv_opt (lr_state s)"
    using c by (auto simp: GetClient_def lazy_call_def GetClient_make_def Let_def split: option.splits)
  ultimately have "rc_options c = opt\<lparr>ro_db := (case dbs of None \<Rightarrow> 0 | Some db \<Rightarrow> db)\<rparr>" "GetClient dbs r1 = (c, r1)"
    using s(2) by (auto simp: redis_fits_def fun_eq_iff)
  with s c show ?thesis by (auto simp: redis_clients.all_fit_def)
qed

lemma log_writers_fit:
  assumes "lazy_reach GetLogWriter_look (GetLogWriter_make root) logWriterMap_Close logWriterMapInstance s"
  shows "(\<forall>(t, name, w) \<in> set (lr_got s). lw_file w = log_file root name) \<and>
    (let (w, l1) = GetLogWriter root name (lr_state s) in
       (case w of None \<Rightarrow> name = [] | Some f \<Rightarrow> name \<noteq> [] \<and> lw_file f = log_file root name) \<and>
       GetLogWriter root name l1 = (w, l1))"
proof -
  have "log_writers_ok root logWriterMapInstance" by (simp add: log_defs logWriterMapInstance_def)
  from log_handles.reach_fits [OF assms this] have s: "log_handles.all_fit root s" by simp
  then have ok: "log_writers_ok root (lr_state s)" by (simp add: log_handles.all_fit_def)
  obtain f l1 where c: "lazy_call GetLogWriter_look (GetLogWriter_make root) name (lr_state s) = (f, l1)" by fastforce
  from log_handles.call_again [OF ok c] s c show ?thesis
    by (auto simp: GetLogWriter_def log_handles.all_fit_def log_fits_def)
qed

text \<open>C33: Whatever other goroutines ask for and close in between, each call of \<open>GetClient\<close> gets a
  client that is connected with the handle's options to the database it asked for, and each call of \<open>GetLogWriter\<close> a
  writer of the file of its name; a goroutine that runs alone gets the same client, and the same writer, at every
  call until the handles are closed.\<close>

theorem clients_fit:
  assumes "lazy_reach GetClient_look GetClient_make RedisV9_Close (RedisV9_Initialize opt r) s"
    and "lazy_reach GetLogWriter_look (GetLogWriter_make root) logWriterMap_Close logWriterMapInstance sl"
  shows "((\<forall>(t, db, c) \<in> set (lr_got s). rc_options c = opt\<lparr>ro_db := db\<rparr>) \<and>
    (let (c, r1) = GetClient dbs (lr_state s) in
       rc_options c = opt\<lparr>ro_db := (case dbs of None \<Rightarrow> 0 | Some db \<Rightarrow> db)\<rparr> \<and> GetClient dbs r1 = (c, r1))) \<and>
    ((\<forall>(t, name, w) \<in> set (lr_got sl). lw_file w = log_file root name) \<and>
    (let (w, l1) = GetLogWriter root name (lr_state sl) in
       (case w of None \<Rightarrow> name = [] | Some f \<Rightarrow> name \<noteq> [] \<and> lw_file f = log_file root name) \<and>
       GetLogWriter root name l1 = (w, l1)))"
  by (rule conjI [OF redis_clients_fit [OF assms(1)] log_writers_fit [OF assms(2)]])

text \<open>Two goroutines that ask for a new database at the same time get two clients; the first of
  them is no longer in the map, so \<open>Close\<close> never closes it.\<close>

lemma two_clients_made:
  assumes "rv_m r db = None" and "redis_v9_ok r"
  shows "\<exists>s c1 c2. lazy_reach GetClient_look GetClient_make RedisV9_Close r s \<and>
    lr_got s = [(1, db, c1), (2, db, c2)] \<and> rc_serial c1 \<noteq> rc_serial c2 \<and>
    rc_serial c1 \<notin> rv_closed (RedisV9_Close (lr_state s)) - rv_closed r"
proof -
  let ?step = "lazy_step GetClient_look GetClient_make RedisV9_Close"
  let ?s0 = "\<lparr>lr_state = r, lr_waiting = [], lr_got = []\<rparr>"
  let ?c = "\<lambda>n. getRedisClient ((RedisOptions_Copy (rv_opt r))\<lparr>ro_db := db\<rparr>) n"
  let ?r1 = "r\<lparr>rv_m := (rv_m r)(db \<mapsto> ?c (rv_made r)), rv_made := Suc (rv_made r)\<rparr>"
  let ?r2 = "?r1\<lparr>rv_m := (rv_m ?r1)(db \<mapsto> ?c (rv_made ?r1)), rv_made := Suc (rv_made ?r1)\<rparr>"
  let ?s1 = "?s0\<lparr>lr_waiting := [(1, db)]\<rparr>" and ?s2 = "?s0\<lparr>lr_waiting := [(1, db), (2, db)]\<rparr>"
  let ?s3 = "\<lparr>lr_state = ?r1, lr_waiting = [(2, db)], lr_got = [(1, db, ?c (rv_made r))]\<rparr>"
  let ?s4 = "\<lparr>lr_state = ?r2, lr_waiting = [], lr_got = [(1, db, ?c (rv_made r)), (2, db, ?c (Suc (rv_made r)))]\<rparr>"
  have "?step ?s0 ?s1" "?step ?s1 ?s2"
    using miss [of GetClient_look db ?s0 GetClient_make RedisV9_Close 1] miss [of GetClient_look db ?s1 GetClient_make RedisV9_Close 2] assms(1)
    by (simp_all add: GetClient_look_def)
  moreover have "?step ?s2 ?s3"
    using make [of 1 db ?s2 GetClient_make "?c (rv_made r)" ?r1 GetClient_look RedisV9_Close] by (simp add: GetClient_make_def Let_def)
  moreover have "?step ?s3 ?s4"
    using make [of 2 db ?s3 GetClient_make "?c (Suc (rv_made r))" ?r2 GetClient_look RedisV9_Close] by (simp add: GetClient_make_def Let_def)
  ultimately have reach: "lazy_reach GetClient_look GetClient_make RedisV9_Close r ?s4"
    unfolding lazy_reach_def by (meson converse_rtranclp_into_rtranclp rtranclp.rtrancl_refl)
  have "rc_serial c \<noteq> rv_made r" if "rv_m r db' = Some c" for db' c
    using assms(2) that unfolding redis_v9_ok_def by (metis less_irrefl)
  then have "rv_made r \<notin> rv_closed (RedisV9_Close ?r2) - rv_closed r"
    by (auto simp: RedisV9_Close_def getRedisClient_def split: if_splits)
       (metis n_not_Suc_n redis_client.select_convs(5), metis)
  then show ?thesis
    by (intro exI [of _ ?s4] exI [of _ "?c (rv_made r)"] exI [of _ "?c (Suc (rv_made r))"] conjI reach)
       (simp_all add: getRedisClient_def)
qed

definition demo_redis_v9 :: redis_v9 where
  "demo_redis_v9 = \<lparr>rv_opt = \<lparr>ro_addr = [], ro_username = [], ro_password = [], ro_db = 0\<rparr>, rv_m = Map.empty, rv_made = 0, rv_closed = {}\<rparr>"

definition demo_options :: redis_options where
  "demo_options = \<lparr>ro_addr = ''localhost:6379'', ro_username = [], ro_password = ''pw'', ro_db = 2\<rparr>"

theorem clients_fit_witness:
  "(let (c, r1) = GetClient (Some 5) (RedisV9_Initialize demo_options demo_redis_v9) in
     rc_options c = demo_options\<lparr>ro_db := 5\<rparr> \<and> GetClient (Some 5) r1 = (c, r1)) \<and>
   (let (w, l1) = GetLogWriter ''/r'' ''sql'' logWriterMapInstance in
     map_option lw_file w = Some ''/r/logs/sql.log'' \<and> GetLogWriter ''/r'' ''sql'' l1 = (w, l1))"
proof -
  have f: "log_file ''/r'' ''sql'' = ''/r/logs/sql.log''" by code_simp
  show ?thesis
    using clients_fit [where opt = demo_options and r = demo_redis_v9 and dbs = "Some 5"
      and s = "\<lparr>lr_state = RedisV9_Initialize demo_options demo_redis_v9, lr_waiting = [], lr_got = []\<rparr>"
      and root = "''/r''" and name = "''sql''" and sl = "\<lparr>lr_state = logWriterMapInstance, lr_waiting = [], lr_got = []\<rparr>"]
    by (auto simp: lazy_reach_def f split: option.splits)
qed

end
