(* ===== verification/Boot.thy ===== *)
theory Boot
  imports Prelude Db_Model Config Lazy_Handles "HOL-Library.Multiset"
begin

text \<open>
  The start of the process (\<open>boot/boot.go\<close>): the arguments of \<open>LoadConfig\<close>, the options of the
  database and of Redis from the settings, the callbacks other packages register, and the
  order in which \<open>Start\<close> brings the parts up.

  What the parts do when they are brought up is not this file's: \<open>Start\<close> is modelled as the
  sequence of its calls. Connecting to Redis and to the database may end the process, which is
  the environment's choice. A Go map is iterated in an order of the run-time's choice, the
  argument \<open>ord\<close>.
\<close>

section \<open>Options from the settings\<close>

definition parseRedisOpt :: "('v, 'b) viper_ops \<Rightarrow> 'v \<Rightarrow> redis_options option" where
  "parseRedisOpt V v = (case vi_sub V v ''redis'' of
       None \<Rightarrow> None
     | Some redisConf \<Rightarrow>
       let port = GetString V redisConf ''port''; host = GetString V redisConf ''host'' in
       if port = [] then None
       else let host = (if host = [] then GetString V v ''app.host'' else host) in
         Some \<lparr>ro_addr = host @ '':'' @ port, ro_username = [], ro_password = GetString V redisConf ''pwd'',
               ro_db = GetInt V redisConf ''db''\<rparr>)"

text \<open>With the options comes the level of the database logger; gorm's \<open>Error\<close> is 2.\<close>

definition parseDBOpt :: "('v, 'b) viper_ops \<Rightarrow> 'v \<Rightarrow> (db_option \<times> int) option" where
  "parseDBOpt V v = (case vi_sub V v ''db'' of
       None \<Rightarrow> None
     | Some dbConf \<Rightarrow>
       let dbType = GetString V dbConf ''type''; port = GetString V dbConf ''port'';
           dbName = GetString V dbConf ''db''; host = GetString V dbConf ''host'';
           lvl = GetInt V dbConf ''log_level'' in
       if dbType = [] then None
       else if port = [] then None
       else
         let dbName = (if dbName = [] then GetString V v ''app.name'' else dbName);
             host = (if host = [] then GetString V v ''app.host'' else host);
             lvl = (if lvl = 0 then 2 else lvl)
         in Some (\<lparr>do_type = dbType, do_host = host, do_port = port, do_user = GetString V dbConf ''user'',
              do_pwd = GetString V dbConf ''pwd'', do_db = dbName, do_skip_cache = GetBool V dbConf ''skip_cache'',
              do_cache_type = GetString V dbConf ''cache_type'', do_max_idle = GetInt V dbConf ''max_idle_conns'',
              do_max_open = GetInt V dbConf ''max_open_conns'', do_max_lifetime = GetInt V dbConf ''max_lifetime_seconds'',
              do_max_idle_time = GetInt V dbConf ''max_idle_time_seconds'', do_skip_create = False\<rparr>, lvl))"

definition isRunEmq :: "('v, 'b) viper_ops \<Rightarrow> 'v \<Rightarrow> bool" where
  "isRunEmq V v \<longleftrightarrow> GetString V v ''emq.port'' \<noteq> []"

section \<open>Loading the settings\<close>

text \<open>The dynamic types \<open>LoadConfig\<close> distinguishes. A callback may do anything to the settings
  object and the defaults; a value convertible to a map is merged into the defaults.\<close>

datatype 'v load_arg =
    ArgFile string
  | ArgConfigFunc "'v config \<Rightarrow> 'v config"
  | ArgCallback "'v config \<times> defaults \<Rightarrow> 'v config \<times> defaults"
  | ArgMap defaults
  | ArgOther string

fun load_args :: "'v load_arg list \<Rightarrow> 'v config \<times> defaults \<Rightarrow> ('v config \<times> defaults) outcome" where
  "load_args [] s = Returns s"
| "load_args (a # as) (c, g) = (case a of
     ArgFile f \<Rightarrow> load_args as (SetConfigFile f c, g)
   | ArgConfigFunc fn \<Rightarrow> load_args as (fn c, g)
   | ArgCallback fn \<Rightarrow> load_args as (fn (c, g))
   | ArgMap m \<Rightarrow> load_args as (c, MergeGlobalDefaults m g)
   | ArgOther t \<Rightarrow> Panics (''LoadConfig unknown type '' @ t))"

definition LoadConfig ::
  "('v, 'b) viper_ops \<Rightarrow> string \<Rightarrow> 'v load_arg list \<Rightarrow> 'v config \<times> defaults \<Rightarrow> 'b file_sys \<Rightarrow> ('v config \<times> defaults \<times> 'b file_sys) outcome" where
  "LoadConfig V root args s fs =
     bind_outcome (load_args args (SetConfigFile (root @ ''/data/conf.toml'') (fst s), snd s)) (\<lambda>(c, g).
       bind_outcome (constructor V root g c fs) (\<lambda>(c, fs). Returns (c, g, fs)))"

section \<open>Callbacks\<close>

datatype hook = BeforeInject | AfterInject | BeforeHttpServer | AfterHttpServer | Shutdown

text \<open>One map per hook.\<close>

type_synonym 'f hooks = "hook \<Rightarrow> (string \<times> 'f) list"

definition Register :: "hook \<Rightarrow> string \<Rightarrow> 'f \<Rightarrow> 'f hooks \<Rightarrow> 'f hooks" where
  "Register h name fn H = H(h := AList.update name fn (H h))"

definition RegisterBeforeInject :: "string \<Rightarrow> 'f \<Rightarrow> 'f hooks \<Rightarrow> 'f hooks" where
  "RegisterBeforeInject = Register BeforeInject"

definition RegisterAfterInject :: "string \<Rightarrow> 'f \<Rightarrow> 'f hooks \<Rightarrow> 'f hooks" where
  "RegisterAfterInject = Register AfterInject"

definition RegisterBeforeHttpServer :: "string \<Rightarrow> 'f \<Rightarrow> 'f hooks \<Rightarrow> 'f hooks" where
  "RegisterBeforeHttpServer = Register BeforeHttpServer"

definition RegisterAfterHttpServer :: "string \<Rightarrow> 'f \<Rightarrow> 'f hooks \<Rightarrow> 'f hooks" where
  "RegisterAfterHttpServer = Register AfterHttpServer"

definition RegisterShutdown :: "string \<Rightarrow> 'f \<Rightarrow> 'f hooks \<Rightarrow> 'f hooks" where
  "RegisterShutdown = Register Shutdown"

section \<open>Starting and stopping\<close>

datatype 'f boot_event =
    Calls hook string 'f
  | InjectApp
  | ConstructApp bool
  | ConnectRedis redis_options
  | FlushRedis
  | ConnectDb db_option int
  | DropDb db_option
  | MqttRoutes
  | StartApp
  | MqttDial
  | StopApp
  | MqttDisconnect
  | CloseRedis
  | CloseDb
  | CloseWriters

text \<open>Iteration in some order; whether the process is still alive goes along.\<close>

definition run_hook :: "((string \<times> 'f) list \<Rightarrow> (string \<times> 'f) list) \<Rightarrow> 'f hooks \<Rightarrow> hook \<Rightarrow> 'f boot_event list" where
  "run_hook ord H h = map (\<lambda>(n, f). Calls h n f) (ord (H h))"

record boot_env =
  be_redis :: "redis_options \<Rightarrow> bool"
  be_db :: "db_option \<Rightarrow> bool"

definition StartupWithoutHttpServer ::
  "('v, 'b) viper_ops \<Rightarrow> boot_env \<Rightarrow> ((string \<times> 'f) list \<Rightarrow> (string \<times> 'f) list) \<Rightarrow> 'f hooks \<Rightarrow> 'v \<Rightarrow> 'f boot_event list \<times> bool" where
  "StartupWithoutHttpServer V E ord H v =
     (let t = run_hook ord H BeforeInject @ [InjectApp] @ run_hook ord H AfterInject @
                [ConstructApp (GetBool V v ''app.debug'')];
          (t, ok) = (case parseRedisOpt V v of
              None \<Rightarrow> (t, True) | Some r \<Rightarrow> (t @ [ConnectRedis r], be_redis E r))
      in if \<not> ok then (t, False)
         else let (t, ok) = (case parseDBOpt V v of
              None \<Rightarrow> (t, True) | Some (d, l) \<Rightarrow> (t @ [ConnectDb d l], be_db E d))
         in if \<not> ok then (t, False) else (t @ run_hook ord H BeforeHttpServer, True))"

definition startEmq :: "('v, 'b) viper_ops \<Rightarrow> 'v \<Rightarrow> 'f boot_event list" where
  "startEmq V v = (if \<not> isRunEmq V v then [] else [MqttDial])"

text \<open>Up to the point where \<open>Start\<close> waits for the server to stop: the calls made, whether the
  process lives, and the settings with the count of starts.\<close>

definition Start ::
  "('v, 'b) viper_ops \<Rightarrow> string \<Rightarrow> boot_env \<Rightarrow> ((string \<times> 'f) list \<Rightarrow> (string \<times> 'f) list) \<Rightarrow> 'f hooks \<Rightarrow>
   'v config \<Rightarrow> 'b file_sys \<Rightarrow> ('f boot_event list \<times> bool \<times> 'v config \<times> 'b file_sys) option" where
  "Start V root E ord H c fs = (case cf_v c of
       None \<Rightarrow> None
     | Some v \<Rightarrow>
       let (t, ok) = StartupWithoutHttpServer V E ord H v in
       if \<not> ok then Some (t, False, c, fs)
       else
         let t = t @ (if isRunEmq V v then [MqttRoutes] else []) @ [StartApp] @ run_hook ord H AfterHttpServer @ startEmq V v
         in map_option (\<lambda>(c, fs). (t, True, c, fs))
              (SetValue V root ''app.runtimes'' (CInt (wrap64 (GetInt V v ''app.runtimes'' + 1))) c fs))"

text \<open>The function \<open>Start\<close> registers for an interrupt.\<close>

definition on_interrupt :: "((string \<times> 'f) list \<Rightarrow> (string \<times> 'f) list) \<Rightarrow> 'f hooks \<Rightarrow> 'f boot_event list" where
  "on_interrupt ord H = run_hook ord H Shutdown @ [StopApp]"

text \<open>Whether the broker's client, the Redis handle and the database were opened.\<close>

definition closeServiceConns :: "bool \<Rightarrow> bool \<Rightarrow> bool \<Rightarrow> 'f boot_event list" where
  "closeServiceConns emq rdb db =
     (if emq then [MqttDisconnect] else []) @ (if rdb then [CloseRedis] else []) @ (if db then [CloseDb] else []) @ [CloseWriters]"

definition Drop ::
  "('v, 'b) viper_ops \<Rightarrow> string \<Rightarrow> boot_env \<Rightarrow> 'v config \<Rightarrow> 'b file_sys \<Rightarrow> ('f boot_event list \<times> bool \<times> 'v config \<times> 'b file_sys) option" where
  "Drop V root E c fs = (case cf_v c of
       None \<Rightarrow> None
     | Some v \<Rightarrow>
       let (t, ok) = (case parseRedisOpt V v of
              None \<Rightarrow> ([], True) | Some r \<Rightarrow> if be_redis E r then ([ConnectRedis r, FlushRedis], True) else ([ConnectRedis r], False))
       in if \<not> ok then Some (t, False, c, fs)
          else let (t, ok) = (case parseDBOpt V v of
              None \<Rightarrow> (t, True) | Some (d, l) \<Rightarrow> (t @ [DropDb d], be_db E d))
          in if \<not> ok then Some (t, False, c, fs)
             else map_option (\<lambda>(c, fs). (t, True, c, fs)) (SetValue V root ''app.runtimes'' (CInt 1) c fs))"

section \<open>The order of a start\<close>

fun boot_rank :: "'f boot_event \<Rightarrow> nat" where
  "boot_rank (Calls BeforeInject n f) = 0"
| "boot_rank InjectApp = 1"
| "boot_rank (Calls AfterInject n f) = 2"
| "boot_rank (ConstructApp b) = 3"
| "boot_rank (ConnectRedis r) = 4"
| "boot_rank (ConnectDb d l) = 5"
| "boot_rank (Calls BeforeHttpServer n f) = 6"
| "boot_rank MqttRoutes = 7"
| "boot_rank StartApp = 8"
| "boot_rank (Calls AfterHttpServer n f) = 9"
| "boot_rank MqttDial = 10"
| "boot_rank _ = 11"

text \<open>The calls of one hook under one name.\<close>

definition calls_of :: "hook \<Rightarrow> string \<Rightarrow> 'f boot_event list \<Rightarrow> 'f list" where
  "calls_of h n t = concat (map (\<lambda>e. case e of Calls h' n' f \<Rightarrow> (if h' = h \<and> n' = n then [f] else []) | _ \<Rightarrow> []) t)"

text \<open>The function registered last for a hook under a name.\<close>

definition last_registered :: "(hook \<times> string \<times> 'f) list \<Rightarrow> hook \<Rightarrow> string \<Rightarrow> 'f option" where
  "last_registered rs h n = map_of (rev (map snd (filter (\<lambda>r. fst r = h) rs))) n"

definition registered :: "(hook \<times> string \<times> 'f) list \<Rightarrow> 'f hooks" where
  "registered rs = fold (\<lambda>(h, n, f). Register h n f) rs (\<lambda>_. [])"

lemma registered_map:
  "map_of (registered rs h) = last_registered rs h" and registered_distinct: "distinct (map fst (registered rs h))"
  unfolding registered_def last_registered_def
  by (induction rs rule: rev_induct) (auto simp: Register_def update_conv' distinct_update fun_eq_iff)

lemma calls_of_append [simp]: "calls_of h n (t @ t') = calls_of h n t @ calls_of h n t'"
  by (simp add: calls_of_def)

lemma calls_of_simps [simp]:
  "calls_of h n [] = []" "calls_of h n (InjectApp # t) = calls_of h n t" "calls_of h n (ConstructApp b # t) = calls_of h n t"
  "calls_of h n (ConnectRedis r # t) = calls_of h n t" "calls_of h n (ConnectDb d l # t) = calls_of h n t" "calls_of h n (MqttRoutes # t) = calls_of h n t"
  "calls_of h n (StartApp # t) = calls_of h n t" "calls_of h n (MqttDial # t) = calls_of h n t"
  by (simp_all add: calls_of_def)

lemma calls_of_hook:
  assumes "\<forall>xs. mset (ord xs) = mset xs" and d: "distinct (map fst (H h'))"
  shows "calls_of h n (run_hook ord H h') =
    (if h = h' then (case map_of (H h) n of None \<Rightarrow> [] | Some f \<Rightarrow> [f]) else [])"
proof -
  have "calls_of h n (map (\<lambda>(n, f). Calls h' n f) xs) =
      (if h = h' then (case map_of xs n of None \<Rightarrow> [] | Some f \<Rightarrow> [f]) else [])"
    if "distinct (map fst xs)" for xs :: "(string \<times> 'a) list"
    using that
  proof (induction xs)
    case (Cons x xs)
    then have "map_of xs (fst x) = None" by (simp add: map_of_eq_None_iff)
    then show ?case using Cons by (cases x) (auto simp: calls_of_def)
  qed (simp add: calls_of_def)
  moreover have m: "mset (ord (H h')) = mset (H h')" using assms by blast
  then have "mset (map fst (ord (H h'))) = mset (map fst (H h'))" by simp
  then have "distinct (map fst (ord (H h')))" using d by (metis mset_eq_imp_distinct_iff)
  moreover from this have "map_of (ord (H h')) = map_of (H h')"
    using d m by (metis map_of_eqI map_of_inject_set mset_eq_setD)
  ultimately show ?thesis by (auto simp: run_hook_def)
qed

lemma rank_run_hook: "e \<in> set (run_hook ord H h) \<Longrightarrow> boot_rank e = boot_rank (Calls h [] undefined)"
  by (cases h) (auto simp: run_hook_def)

lemma sorted_run_hook: "sorted (map boot_rank (run_hook ord H h))"
  by (cases h) (auto simp: run_hook_def comp_def case_prod_unfold sorted_wrt_map intro: sorted_wrt_mono_rel [OF _ sorted_wrt_true])

text \<open>C30: However the run-time iterates over the maps of callbacks, a start keeps its order: callbacks before
  the injection, injection, callbacks after it, constructors, Redis, database, callbacks
  before the server, the broker's routes, the server, callbacks after it, the broker. Under each
  name exactly the function registered last is called, once, in a start that survives its connections;
  if a connection ends the process, nothing after it is called, and no shutdown function is.\<close>

theorem boot_order:
  fixes rs :: "(hook \<times> string \<times> 'f) list"
  assumes "Start V root E ord (registered rs) c fs = Some (t, alive, c', fs')"
    and "\<forall>xs. mset (ord xs) = mset xs"
  shows "sorted (map boot_rank t) \<and>
    (if alive then calls_of h n t = (if h = Shutdown then [] else case last_registered rs h n of None \<Rightarrow> [] | Some f \<Rightarrow> [f])
     else (\<forall>e \<in> set t. boot_rank e \<le> 5) \<and> calls_of Shutdown n t = [])"
proof -
  obtain v where v: "cf_v c = Some v" using assms(1) by (auto simp: Start_def split: option.splits)
  let ?H = "registered rs"
  define t0 where "t0 = run_hook ord ?H BeforeInject @ [InjectApp] @ run_hook ord ?H AfterInject @
      [ConstructApp (GetBool V v ''app.debug'')]"
  define r where "r = (case parseRedisOpt V v of None \<Rightarrow> [] :: 'f boot_event list | Some r \<Rightarrow> [ConnectRedis r])"
  define d where "d = (case parseDBOpt V v of None \<Rightarrow> [] :: 'f boot_event list | Some (d, l) \<Rightarrow> [ConnectDb d l])"
  define rest where "rest = run_hook ord ?H BeforeHttpServer @ (if isRunEmq V v then [MqttRoutes] else []) @ [StartApp] @
      run_hook ord ?H AfterHttpServer @ startEmq V v"
  have t: "\<not> alive \<and> (t = t0 @ r \<or> t = t0 @ r @ d) \<or> alive \<and> t = t0 @ r @ d @ rest"
    using assms(1) unfolding Start_def StartupWithoutHttpServer_def t0_def r_def d_def rest_def
    by (auto simp: v Let_def split: option.splits prod.splits if_splits)
  have hook: "calls_of h n (run_hook ord ?H h') =
      (if h = h' then (case last_registered rs h n of None \<Rightarrow> [] | Some f \<Rightarrow> [f]) else [])" for h h'
    using calls_of_hook [OF assms(2) registered_distinct] by (simp add: registered_map)
  have calls: "calls_of h n r = []" "calls_of h n d = []" "calls_of Shutdown n t0 = []" for h
    by (auto simp: r_def d_def t0_def hook split: option.splits)
  have all: "calls_of h n (t0 @ r @ d @ rest) =
      (if h = Shutdown then [] else case last_registered rs h n of None \<Rightarrow> [] | Some f \<Rightarrow> [f])"
    by (cases h) (simp_all add: calls hook t0_def rest_def startEmq_def)
  have ranks: "\<forall>e \<in> set t0. boot_rank e \<le> 3" "\<forall>e \<in> set r. boot_rank e = 4" "\<forall>e \<in> set d. boot_rank e = 5"
    "\<forall>e \<in> set rest. 6 \<le> boot_rank e"
    by (auto simp: t0_def r_def d_def rest_def startEmq_def dest: rank_run_hook split: option.splits)
  have sorted: "sorted (map boot_rank t0)" "sorted (map boot_rank r)" "sorted (map boot_rank d)" "sorted (map boot_rank rest)"
    by (auto simp: t0_def r_def d_def rest_def startEmq_def sorted_append sorted_run_hook dest!: rank_run_hook split: option.splits)
  show ?thesis
    using t ranks sorted calls all by (elim disjE conjE) (fastforce simp: sorted_append)+
qed

definition demo_boot :: "nat boot_event list \<times> bool \<times> layers config \<times> (string \<times> settings) file_sys" where
  "demo_boot = the (Start demo_viper ''/srv'' \<lparr>be_redis = (\<lambda>_. True), be_db = (\<lambda>_. False)\<rparr> rev
     (registered [(AfterInject, ''cron'', 1), (BeforeInject, ''log'', 2), (AfterInject, ''cron'', 3), (AfterInject, ''mq'', 4)])
     \<lparr>cf_v = Some \<lparr>ly_over = Map.empty, ly_conf = Map.empty, ly_dflt = [''app.debug'' \<mapsto> CBool True]\<rparr>,
       cf_file = ''/srv/conf.toml'', cf_before = None\<rparr>
     \<lparr>fs_files = Map.empty, fs_fault = (\<lambda>_. None)\<rparr>)"

lemma boot_order_witness:
  "sorted (map boot_rank (fst demo_boot)) \<and>
   (if fst (snd demo_boot) then calls_of AfterInject ''cron'' (fst demo_boot) = [3]
    else (\<forall>e \<in> set (fst demo_boot). boot_rank e \<le> 5) \<and> calls_of Shutdown ''cron'' (fst demo_boot) = [])"
proof -
  let ?rs = "[(AfterInject, ''cron'', 1), (BeforeInject, ''log'', 2), (AfterInject, ''cron'', 3), (AfterInject, ''mq'', 4)] :: (hook \<times> string \<times> nat) list"
  obtain t alive c' fs' where b: "demo_boot = (t, alive, c', fs')" by (cases demo_boot)
  have "Start demo_viper ''/srv'' \<lparr>be_redis = (\<lambda>_. True), be_db = (\<lambda>_. False)\<rparr> rev (registered ?rs)
     \<lparr>cf_v = Some \<lparr>ly_over = Map.empty, ly_conf = Map.empty, ly_dflt = [''app.debug'' \<mapsto> CBool True]\<rparr>,
       cf_file = ''/srv/conf.toml'', cf_before = None\<rparr>
     \<lparr>fs_files = Map.empty, fs_fault = (\<lambda>_. None)\<rparr> = Some (t, alive, c', fs')"
    using b unfolding demo_boot_def
    by (auto simp: Start_def SetValue_def Write2tempCall_def Let_def split: option.splits prod.splits if_splits)
  from boot_order [OF this, of AfterInject "''cron''"] show ?thesis
    by (simp add: b last_registered_def)
qed

section \<open>The count of starts\<close>

text \<open>One run of the process: the settings are loaded, \<open>Start\<close> brings everything up, and the
  process ends later.\<close>

definition boot_session ::
  "('v, 'b) viper_ops \<Rightarrow> string \<Rightarrow> defaults \<Rightarrow> string \<Rightarrow> boot_env \<Rightarrow> ((string \<times> 'f) list \<Rightarrow> (string \<times> 'f) list) \<Rightarrow> 'f hooks \<Rightarrow>
   'b file_sys option \<Rightarrow> 'b file_sys option" where
  "boot_session V root defs f E ord H fs = Option.bind fs (\<lambda>fs.
     case constructor V root defs \<lparr>cf_v = None, cf_file = f, cf_before = None\<rparr> fs of
       Returns (c, fs) \<Rightarrow> (case Start V root E ord H c fs of
           Some (_, True, _, fs) \<Rightarrow> Some fs | _ \<Rightarrow> None)
     | _ \<Rightarrow> None)"

lemma Start_alive:
  assumes "\<forall>r. be_redis E r" "\<forall>d. be_db E d" "cf_v c = Some v"
  shows "\<exists>t. Start V root E ord H c fs = map_option (\<lambda>(c, fs). (t, True, c, fs))
    (SetValue V root ''app.runtimes'' (CInt (wrap64 (GetInt V v ''app.runtimes'' + 1))) c fs)"
  using assms by (auto simp: Start_def StartupWithoutHttpServer_def Let_def split: option.splits prod.splits)

context viper_laws
begin

text \<open>The files between two runs: what the next start finds under \<open>app.runtimes\<close>.\<close>

definition counted :: "defaults \<Rightarrow> string \<Rightarrow> 'b file_sys \<Rightarrow> int \<Rightarrow> bool" where
  "counted defs f fs n \<longleftrightarrow> fs_fault fs = (\<lambda>_. None) \<and> (\<exists>disk nxt.
     map_option (decode f) (fs_files fs f) = map_option Some disk \<and>
     map_option (decode f) (fs_files fs (tempConfigFile f)) = map_option Some nxt \<and>
     sp_cur (starting defs disk nxt) ''app.runtimes'' = Some (CInt n))"

lemma loaded_count:
  assumes "counted defs f fs n" and "fst ` set defs \<subseteq> K" and "f \<noteq> []"
  obtains c fs' sp v where "constructor V root defs \<lparr>cf_v = None, cf_file = f, cf_before = None\<rparr> fs = Returns (c, fs')"
    and "config_rel defs f (c, fs') sp" and "cf_v c = Some v" and "vi_all V v ''app.runtimes'' = Some (CInt n)"
    and "dom (default_settings defs) \<subseteq> dom (vi_all V v)" and "sp_cur sp = vi_all V v"
proof -
  obtain disk nxt where d: "map_option (decode f) (fs_files fs f) = map_option Some disk"
    "map_option (decode f) (fs_files fs (tempConfigFile f)) = map_option Some nxt"
    "sp_cur (starting defs disk nxt) ''app.runtimes'' = Some (CInt n)" "fs_fault fs = (\<lambda>_. None)"
    using assms(1) by (auto simp: counted_def)
  obtain c fs' where c: "constructor V root defs \<lparr>cf_v = None, cf_file = f, cf_before = None\<rparr> fs = Returns (c, fs')"
    "config_rel defs f (c, fs') (starting defs disk nxt)"
    using load_related [of "\<lparr>cf_v = None, cf_file = f, cf_before = None\<rparr>" f fs disk nxt defs root] d assms by auto
  then obtain v where v: "cf_v c = Some v" "sp_cur (starting defs disk nxt) = vi_all V v" by (auto simp: config_rel_def)
  have "dom (default_settings defs) \<subseteq> dom (vi_all V v)"
    unfolding v(2) [symmetric] by (auto simp: starting_def Let_def)
  with c v d(3) show ?thesis by (intro that) simp_all
qed

lemma session_counts:
  assumes "counted defs f fs n" and "fst ` set defs \<subseteq> K" and "f \<noteq> []" and "filepath_Ext f = ''.toml''"
    and "\<forall>r. be_redis E r" "\<forall>d. be_db E d" and "''app.runtimes'' \<in> K" and "\<And>n. vi_to_int V (CInt n) = n"
  shows "\<exists>fs'. boot_session V root defs f E ord H (Some fs) = Some fs' \<and> counted defs f fs' (wrap64 (n + 1))"
proof -
  obtain c fs1 sp v where c: "constructor V root defs \<lparr>cf_v = None, cf_file = f, cf_before = None\<rparr> fs = Returns (c, fs1)"
    "config_rel defs f (c, fs1) sp" "cf_v c = Some v" "vi_all V v ''app.runtimes'' = Some (CInt n)"
    "dom (default_settings defs) \<subseteq> dom (vi_all V v)" "sp_cur sp = vi_all V v"
    by (rule loaded_count [OF assms(1-3), of root])
  have n: "GetInt V v ''app.runtimes'' = n" using c(4) assms(7,8) by (simp add: GetInt_def get_is)
  obtain c2 fs2 where s: "SetValue V root ''app.runtimes'' (CInt (wrap64 (n + 1))) c fs1 = Some (c2, fs2)"
    "config_rel defs f (c2, fs2) (spec_step defs (decode f) (OpSet ''app.runtimes'' (CInt (wrap64 (n + 1)))) sp)"
    using set_related [OF c(2) assms(7,4,3), of root "CInt (wrap64 (n + 1))"] by auto
  have "counted defs f fs2 (wrap64 (n + 1))"
    using s(2) unfolding counted_def
    by (intro conjI exI [of _ "sp_disk sp"]
        exI [of _ "Some ((sp_cur sp)(''app.runtimes'' \<mapsto> CInt (wrap64 (n + 1))))"])
       (auto simp: config_rel_def starting_def Let_def)
  moreover obtain t where "Start V root E ord H c fs1 = Some (t, True, c2, fs2)"
    using Start_alive [OF assms(5,6) c(3), of V root ord H fs1] s(1) n by auto
  ultimately show ?thesis using c(1) by (auto simp: boot_session_def)
qed

end

text \<open>The count of starts: after \<open>n\<close> runs of a new installation, \<open>app.runtimes\<close> is \<open>n\<close> when the
  settings are loaded again; every run sees its own number, since the value set in one run is
  taken over at the next start.\<close>

theorem starts_counted:
  assumes "viper_laws V K over conf dflt decode" and "fst ` set defs \<subseteq> K"
    and "f \<noteq> []" and "filepath_Ext f = ''.toml''"
    and "\<forall>r. be_redis E r" and "\<forall>d. be_db E d" and "''app.runtimes'' \<in> K" and "\<forall>m. vi_to_int V (CInt m) = m"
    and "default_settings defs ''app.runtimes'' = Some (CInt 0)"
    and "fs_files fs = Map.empty" and "fs_fault fs = (\<lambda>_. None)" and "n < 2 ^ 63"
  shows "\<exists>fs' c fs'' v. (boot_session V root defs f E ord H ^^ n) (Some fs) = Some fs' \<and>
    constructor V root defs \<lparr>cf_v = None, cf_file = f, cf_before = None\<rparr> fs' = Returns (c, fs'') \<and>
    cf_v c = Some v \<and> GetInt V v ''app.runtimes'' = int n"
proof -
  have "\<exists>fs'. (boot_session V root defs f E ord H ^^ n) (Some fs) = Some fs' \<and> viper_laws.counted decode defs f fs' (int n)"
    using assms(12)
  proof (induction n)
    case 0
    then show ?case using assms
      by (auto simp: viper_laws.counted_def [OF assms(1)] starting_def Let_def intro!: exI [of _ None])
  next
    case (Suc n)
    then obtain fs' where fs': "(boot_session V root defs f E ord H ^^ n) (Some fs) = Some fs'"
      "viper_laws.counted decode defs f fs' (int n)" by auto
    have "wrap64 (int n + 1) = int (Suc n)" using Suc.prems by (subst wrap64_id) auto
    with viper_laws.session_counts [OF assms(1) fs'(2) assms(2-7), of root ord H] fs'(1) assms(8) show ?case by auto
  qed
  then obtain fs' where fs': "(boot_session V root defs f E ord H ^^ n) (Some fs) = Some fs'"
    "viper_laws.counted decode defs f fs' (int n)" by blast
  obtain c fs'' v where "constructor V root defs \<lparr>cf_v = None, cf_file = f, cf_before = None\<rparr> fs' = Returns (c, fs'')"
    "cf_v c = Some v" "vi_all V v ''app.runtimes'' = Some (CInt (int n))"
    by (rule viper_laws.loaded_count [OF assms(1) fs'(2) assms(2,3), of root]) blast
  then show ?thesis using fs'(1) assms(7,8) viper_laws.get_is [OF assms(1)] by (auto simp: GetInt_def)
qed

lemma starts_counted_witness:
  "\<exists>fs' c fs'' v. (boot_session demo_viper ''/srv'' globalDefaults ''/srv/conf.toml''
      \<lparr>be_redis = (\<lambda>_. True), be_db = (\<lambda>_. True)\<rparr> rev (registered [(AfterInject, ''cron'', 1 :: nat)]) ^^ 5)
      (Some \<lparr>fs_files = Map.empty, fs_fault = (\<lambda>_. None)\<rparr>) = Some fs' \<and>
    constructor demo_viper ''/srv'' globalDefaults \<lparr>cf_v = None, cf_file = ''/srv/conf.toml'', cf_before = None\<rparr> fs' = Returns (c, fs'') \<and>
    cf_v c = Some v \<and> GetInt demo_viper v ''app.runtimes'' = int 5"
  by (rule starts_counted [OF demo_viper.viper_laws_axioms])
     (simp_all add: filepath_Ext_def default_settings_def globalDefaults_def, simp_all add: demo_viper_def)

end
