(* ===== verification/Sha256.thy ===== *)
theory Sha256
  imports Prelude
begin

text \<open>
  Go's \<open>crypto/sha256\<close> (FIPS 180-4), which \<open>gemq/emq.go\<close> derives the password of the
  broker's super user with: padding, message schedule and compression on 32-bit words.
\<close>

unbundle bit_operations_syntax

type_synonym w32 = "32 word"

text \<open>The constants are the first 32 bits after the point of the cube roots of the first 64
  primes, and of the square roots of the first 8: the integer root of the prime shifted
  left by 32 bits under the root, cut off at 32 bits. \<open>root_bits\<close> sets the bits of the root
  from the highest to the lowest.\<close>

fun root_bits :: "nat \<Rightarrow> int \<Rightarrow> nat \<Rightarrow> int \<Rightarrow> int" where
  "root_bits e x 0 r = r"
| "root_bits e x (Suc b) r = root_bits e x b (if (r + 2 ^ b) ^ e \<le> x then r + 2 ^ b else r)"

definition root_fraction :: "nat \<Rightarrow> nat \<Rightarrow> w32" where
  "root_fraction e p = word_of_int (root_bits e (int p * 2 ^ (32 * e)) 36 0)"

definition primes_below :: "nat \<Rightarrow> nat list" where
  "primes_below n = filter (\<lambda>p. \<forall>d \<in> set [2..<p]. p mod d \<noteq> 0) [2..<n]"

definition round_constants :: "w32 list" where
  "round_constants = map (root_fraction 3) (primes_below 312)"

definition initial_hash :: "w32 list" where
  "initial_hash = map (root_fraction 2) (primes_below 20)"

definition rotr :: "nat \<Rightarrow> w32 \<Rightarrow> w32" where
  "rotr n x = (drop_bit n x OR push_bit (32 - n) x)"

definition sha_pad :: "bytes \<Rightarrow> bytes" where
  "sha_pad m =
     (let z = (119 - length m mod 64) mod 64; bits = 8 * length m in
      m @ [0x80] @ replicate z 0 @ map (\<lambda>i. word_of_int (drop_bit (56 - 8 * i) (int bits))) [0..<8])"

fun be_words :: "bytes \<Rightarrow> w32 list" where
  "be_words (a # b # c # d # r) =
     (push_bit 24 (ucast a) OR push_bit 16 (ucast b) OR push_bit 8 (ucast c) OR ucast d) # be_words r"
| "be_words _ = []"

text \<open>The schedule in reverse: the newest word first.\<close>

fun sha_extend :: "nat \<Rightarrow> w32 list \<Rightarrow> w32 list" where
  "sha_extend 0 w = w"
| "sha_extend (Suc n) w =
     (let a = w ! 14; b = w ! 1;
          s0 = (rotr 7 a XOR rotr 18 a) XOR drop_bit 3 a;
          s1 = (rotr 17 b XOR rotr 19 b) XOR drop_bit 10 b
      in sha_extend n ((w ! 15 + s0 + w ! 6 + s1) # w))"

definition sha_round :: "w32 \<times> w32 \<Rightarrow> w32 list \<Rightarrow> w32 list" where
  "sha_round kw s = (case s of [a, b, c, d, e, f, g, h] \<Rightarrow>
       let t1 = h + (rotr 6 e XOR rotr 11 e XOR rotr 25 e) + ((e AND f) XOR (NOT e AND g)) + fst kw + snd kw;
           t2 = (rotr 2 a XOR rotr 13 a XOR rotr 22 a) + ((a AND b) XOR (a AND c) XOR (b AND c))
       in [t1 + t2, a, b, c, d + t1, e, f, g]
     | _ \<Rightarrow> s)"

definition sha_block :: "w32 list \<Rightarrow> bytes \<Rightarrow> w32 list" where
  "sha_block h blk =
     (let w = rev (sha_extend 48 (rev (be_words blk))) in
      map2 (+) h (fold sha_round (zip round_constants w) h))"

fun sha_blocks :: "nat \<Rightarrow> w32 list \<Rightarrow> bytes \<Rightarrow> w32 list" where
  "sha_blocks 0 h m = h"
| "sha_blocks (Suc n) h m = sha_blocks n (sha_block h (take 64 m)) (drop 64 m)"

definition word_bytes :: "w32 \<Rightarrow> bytes" where
  "word_bytes x = map (\<lambda>i. ucast (drop_bit (24 - 8 * i) x)) [0..<4]"

definition sha256_Sum256 :: "bytes \<Rightarrow> bytes" where
  "sha256_Sum256 m = (let p = sha_pad m in concat (map word_bytes (sha_blocks (length p div 64) initial_hash p)))"

lemma root_bits_correct:
  assumes "0 \<le> r" and "r ^ e \<le> x" and "x < (r + 2 ^ b) ^ e" and "0 < e"
  shows "r \<le> root_bits e x b r \<and> root_bits e x b r ^ e \<le> x \<and> x < (root_bits e x b r + 1) ^ e"
  using assms
proof (induction b arbitrary: r)
  case (Suc b)
  show ?case
  proof (cases "(r + 2 ^ b) ^ e \<le> x")
    case True
    with Suc.prems Suc.IH [of "r + 2 ^ b"] show ?thesis by (simp add: add.assoc) (metis add_increasing2 le_add_same_cancel1 order_trans zero_le_numeral zero_le_power)
  next
    case False
    with Suc.prems Suc.IH [of r] show ?thesis by simp
  qed
qed simp

text \<open>For a number below \<open>16 ^ e\<close> the 36 bits are enough: the root is exact in its last bit.\<close>

lemma root_exact:
  assumes "0 < e" and "p < 16 ^ e"
  shows "let r = root_bits e (int p * 2 ^ (32 * e)) 36 0 in
    r ^ e \<le> int p * 2 ^ (32 * e) \<and> int p * 2 ^ (32 * e) < (r + 1) ^ e"
proof -
  have "int p < 16 ^ e" using assms(2) by (metis of_nat_less_iff of_nat_numeral of_nat_power)
  then have "int p * 2 ^ (32 * e) < 16 ^ e * 2 ^ (32 * e)" by simp
  also have "\<dots> = (2 ^ 36 :: int) ^ e" by (simp add: power_mult power_mult_distrib [symmetric])
  finally have "int p * 2 ^ (32 * e) < (0 + 2 ^ 36) ^ e" by simp
  from root_bits_correct [OF _ _ this assms(1)] assms(1) show ?thesis by (simp add: Let_def zero_power)
qed

lemma length_initial_hash: "length initial_hash = 8"
proof -
  have "length (primes_below 20) = 8" by code_simp
  then show ?thesis by (simp add: initial_hash_def)
qed

lemma length_sha_pad: "length (sha_pad m) mod 64 = 0"
proof -
  have "(n + (119 - n mod 64) mod 64 + 9) mod 64 = 0" for n :: nat
  proof -
    define r where "r = n mod 64"
    have r: "r < 64" "n = 64 * (n div 64) + r" by (simp_all add: r_def)
    have "r + (119 - r) mod 64 + 9 = 64 \<or> r + (119 - r) mod 64 + 9 = 128"
    proof (cases "r \<le> 55")
      case True
      then have "(119 - r) mod 64 = 55 - r" by (subst le_mod_geq) simp_all
      then show ?thesis using True by simp
    next
      case False
      then show ?thesis using r(1) by simp
    qed
    moreover have "n + (119 - r) mod 64 + 9 = 64 * (n div 64) + (r + (119 - r) mod 64 + 9)" using r(2) by linarith
    ultimately show ?thesis unfolding r_def [symmetric] by (elim disjE) simp_all
  qed
  then show ?thesis by (simp add: sha_pad_def Let_def add.commute add.left_commute)
qed

lemma length_sha_round: "length h = 8 \<Longrightarrow> length (sha_round x h) = 8"
  by (auto simp: sha_round_def Let_def split: list.splits)

lemma length_sha_blocks: "length h = 8 \<Longrightarrow> length (sha_blocks n h m) = 8"
proof (induction n arbitrary: h m)
  case (Suc n)
  have "length (fold sha_round ws h) = 8" for ws using Suc.prems by (induction ws arbitrary: h) (simp_all add: length_sha_round)
  with Suc show ?case by (simp add: sha_block_def Let_def)
qed simp

text \<open>The digest has 32 bytes.\<close>

lemma length_sha256: "length (sha256_Sum256 m) = 32"
proof -
  have "length (concat (map word_bytes ws)) = 4 * length ws" for ws
    by (induction ws) (simp_all add: word_bytes_def)
  then show ?thesis by (simp add: sha256_Sum256_def Let_def length_sha_blocks length_initial_hash)
qed

end
