(* ===== verification/Mqtt.thy ===== *)
theory Mqtt
  imports Prelude Aes Aes_Cbc Sha256
begin

text \<open>
  The message broker (\<open>gemq/\<close>): the access control the broker asks for every login and every
  topic (\<open>auth-api.go\<close>), the process's own connection and the channel its messages go out by
  (\<open>emq.go\<close>, \<open>dial.go\<close>).

  The broker's client (package \<open>paho\<close>) is an argument: connecting, subscribing and publishing
  each return a token, that is, whether it finished in time and with what error. The settings
  are the functions that read one string.
\<close>

section \<open>Settings and options\<close>

record emq_settings =
  es_string :: "string \<Rightarrow> string"
  es_app_name :: string

definition EmqSuperAuth :: "emq_settings \<Rightarrow> string \<times> string" where
  "EmqSuperAuth C =
     (es_string C ''emq.super_username'',
      bytes_str (hex_Encode (sha256_Sum256 (str_bytes (es_string C ''emq.super_password'')))))"

definition configBroker :: "emq_settings \<Rightarrow> string" where
  "configBroker C =
     (let p = es_string C ''emq.port''; port = (if p \<noteq> [] then p else ''1883'');
          host = es_string C ''emq.host''; host = (if host = [] then es_string C ''app.host'' else host)
      in host @ '':'' @ port)"

record mqtt_options =
  mo_broker :: string
  mo_order_matters :: bool
  mo_connect_retry :: bool
  mo_auto_reconnect :: bool
  mo_max_reconnect :: int
  mo_keep_alive :: int
  mo_ping_timeout :: int
  mo_connect_timeout :: int
  mo_client_id :: string
  mo_username :: string
  mo_password :: string

text \<open>The settings both ways of dialing share; durations in seconds.\<close>

definition mqtt_options :: "string \<Rightarrow> string \<Rightarrow> string \<Rightarrow> string \<Rightarrow> mqtt_options" where
  "mqtt_options broker client_id username password =
     \<lparr>mo_broker = broker, mo_order_matters = False, mo_connect_retry = True, mo_auto_reconnect = True,
      mo_max_reconnect = 10, mo_keep_alive = 60, mo_ping_timeout = 2, mo_connect_timeout = 3,
      mo_client_id = client_id, mo_username = username, mo_password = password\<rparr>"

definition prepareOption :: "emq_settings \<Rightarrow> string \<Rightarrow> mqtt_options" where
  "prepareOption C uuid =
     (let (username, password) = EmqSuperAuth C in
      mqtt_options (configBroker C) (es_app_name C @ '':SYS_'' @ uuid) username password)"

datatype emq_error = TokenTimeout | BrokerError string

record 'c mqtt_client =
  mc_connect :: "mqtt_options \<Rightarrow> int \<Rightarrow> (bool \<times> string option) \<times> 'c"
  mc_subscribe :: "string \<Rightarrow> nat \<Rightarrow> int \<Rightarrow> 'c \<Rightarrow> (bool \<times> string option) \<times> 'c"
  mc_publish :: "string \<Rightarrow> nat \<Rightarrow> bool \<Rightarrow> bytes \<Rightarrow> int \<Rightarrow> 'c \<Rightarrow> (bool \<times> string option) \<times> 'c"

text \<open>Waiting for a token.\<close>

definition token_error :: "bool \<times> string option \<Rightarrow> emq_error option" where
  "token_error t = (if \<not> fst t then Some TokenTimeout else map_option BrokerError (snd t))"

definition DailWithOption :: "'c mqtt_client \<Rightarrow> string \<Rightarrow> string \<Rightarrow> string \<Rightarrow> string \<Rightarrow> string \<Rightarrow> (emq_error, 'c) result" where
  "DailWithOption M AppName Broker Username Password uuid =
     (let (t, c) = mc_connect M (mqtt_options Broker (AppName @ '':SYS_'' @ uuid) Username Password) 3
      in case token_error t of Some e \<Rightarrow> Inl e | None \<Rightarrow> Inr c)"

section \<open>The connection\<close>

datatype 'x payload = PBytes bytes | PString string | PValue 'x

record ('c, 'x) emq =
  em_client :: "'c option"
  em_qos :: nat
  em_retained :: bool
  em_wait :: int
  em_prefix :: string
  em_pubC :: "(string \<times> 'x payload) list"

definition Emq_Constructor :: "emq_settings \<Rightarrow> ('c, 'x) emq \<Rightarrow> ('c, 'x) emq" where
  "Emq_Constructor C e = e\<lparr>em_qos := 1, em_retained := False, em_wait := 2, em_prefix := es_app_name C @ ''/'', em_pubC := []\<rparr>"

definition Emq_dial :: "'c mqtt_client \<Rightarrow> emq_settings \<Rightarrow> string \<Rightarrow> ('c, 'x) emq \<Rightarrow> emq_error option \<times> ('c, 'x) emq" where
  "Emq_dial M C uuid e =
     (let (t, c) = mc_connect M (prepareOption C uuid) (em_wait e) in (token_error t, e\<lparr>em_client := Some c\<rparr>))"

text \<open>\<open>Dial\<close>: the client is kept in any case, but only a connection in time starts the publisher, whose start is
  the first component.\<close>

definition Emq_Dial :: "'c mqtt_client \<Rightarrow> emq_settings \<Rightarrow> string \<Rightarrow> ('c, 'x) emq \<Rightarrow> bool \<times> ('c, 'x) emq" where
  "Emq_Dial M C uuid e = (case Emq_dial M C uuid e of (Some err, e) \<Rightarrow> (False, e) | (None, e) \<Rightarrow> (True, e))"

text \<open>Without a client the calls are a nil dereference, the value \<open>None\<close>.\<close>

definition Emq_Subscribe ::
  "'c mqtt_client \<Rightarrow> string \<Rightarrow> ('c, 'x) emq \<Rightarrow> (emq_error option \<times> ('c, 'x) emq) option" where
  "Emq_Subscribe M topic e = map_option (\<lambda>c.
     let (t, c) = mc_subscribe M (em_prefix e @ topic) (em_qos e) (em_wait e) c in
     (token_error t, e\<lparr>em_client := Some c\<rparr>)) (em_client e)"

definition payload_bytes :: "('x \<Rightarrow> string) \<Rightarrow> 'x payload \<Rightarrow> bytes" where
  "payload_bytes JSONDump p = (case p of PBytes b \<Rightarrow> b | PString s \<Rightarrow> str_bytes s | PValue v \<Rightarrow> str_bytes (JSONDump v))"

definition publish ::
  "'c mqtt_client \<Rightarrow> ('x \<Rightarrow> string) \<Rightarrow> string \<Rightarrow> 'x payload \<Rightarrow> ('c, 'x) emq \<Rightarrow> (emq_error option \<times> ('c, 'x) emq) option" where
  "publish M JSONDump topic payload e = map_option (\<lambda>c.
     let (t, c) = mc_publish M (em_prefix e @ topic) (em_qos e) (em_retained e) (payload_bytes JSONDump payload) (em_wait e) c in
     (token_error t, e\<lparr>em_client := Some c\<rparr>)) (em_client e)"

section \<open>Publishing through the channel\<close>

text \<open>The channel has room for 1000 messages. A sender that finds no room within 100 ms gives up;
  the goroutine that \<open>Dial\<close> started, if it did, takes the messages out and publishes them. \<open>ps_sent\<close> and
  \<open>ps_dropped\<close> record what happened: the messages given to the client in one call of \<open>Publish\<close>, with the error
  that was logged, and those given up; \<open>ps_taken\<close> is the message the goroutine holds.\<close>

definition pub_room :: nat where "pub_room = 1000"

record ('c, 'x) pub_state =
  ps_emq :: "('c, 'x) emq"
  ps_started :: bool
  ps_taken :: "(string \<times> 'x payload) option"
  ps_asked :: "(string \<times> 'x payload) list"
  ps_dropped :: "(string \<times> 'x payload) list"
  ps_sent :: "((string \<times> 'x payload) \<times> emq_error option) list"

inductive pub_step :: "'c mqtt_client \<Rightarrow> ('x \<Rightarrow> string) \<Rightarrow> ('c, 'x) pub_state \<Rightarrow> ('c, 'x) pub_state \<Rightarrow> bool"
  for M :: "'c mqtt_client" and JSONDump :: "'x \<Rightarrow> string" where
  PublishC_sent: "length (em_pubC (ps_emq s)) < pub_room \<Longrightarrow>
    pub_step M JSONDump s (s\<lparr>ps_emq := (ps_emq s)\<lparr>em_pubC := em_pubC (ps_emq s) @ [m]\<rparr>, ps_asked := ps_asked s @ [m]\<rparr>)"
| PublishC_timeout: "\<not> length (em_pubC (ps_emq s)) < pub_room \<Longrightarrow>
    pub_step M JSONDump s (s\<lparr>ps_dropped := ps_dropped s @ [m]\<rparr>)"
| start_takes: "ps_started s \<Longrightarrow> ps_taken s = None \<Longrightarrow> em_pubC (ps_emq s) = m # ms \<Longrightarrow>
    pub_step M JSONDump s (s\<lparr>ps_taken := Some m, ps_emq := (ps_emq s)\<lparr>em_pubC := ms\<rparr>\<rparr>)"
| start_publishes: "ps_taken s = Some m \<Longrightarrow> publish M JSONDump (fst m) (snd m) (ps_emq s) = Some (r, e) \<Longrightarrow>
    pub_step M JSONDump s (s\<lparr>ps_taken := None, ps_emq := e, ps_sent := ps_sent s @ [(m, r)]\<rparr>)"
| Subscribes: "Emq_Subscribe M topic (ps_emq s) = Some (r, e) \<Longrightarrow>
    pub_step M JSONDump s (s\<lparr>ps_emq := e\<rparr>)"

definition pub_init :: "bool \<Rightarrow> ('c, 'x) emq \<Rightarrow> ('c, 'x) pub_state" where
  "pub_init started e = \<lparr>ps_emq = e, ps_started = started, ps_taken = None, ps_asked = [], ps_dropped = [], ps_sent = []\<rparr>"

section \<open>Access control\<close>

record mqtt_data =
  md_access :: int
  md_ipaddr :: string
  md_topic :: string
  md_username :: string
  md_password :: string
  md_clientid :: string

definition refused :: "(mqtt_data \<Rightarrow> string) \<Rightarrow> mqtt_data \<Rightarrow> string" where
  "refused JSONDump d = ''['' @ JSONDump d @ '']refused''"

definition ACL :: "(mqtt_data \<Rightarrow> string) \<Rightarrow> emq_settings \<Rightarrow> mqtt_data \<Rightarrow> string option" where
  "ACL JSONDump C d =
     (if \<not> strings_HasPrefix (md_topic d) (es_app_name C @ ''/'') then Some (refused JSONDump d)
      else let (username, _) = EmqSuperAuth C in
        if md_username d = username then None
        else if md_access d = 1 then None
        else if strings_HasSuffix (md_topic d) ''/pong'' then None
        else Some (refused JSONDump d))"

text \<open>The application's check gets the request, whose header \<open>token\<close> now is the password; it may
  be missing.\<close>

definition Auth ::
  "((string \<Rightarrow> string option) \<Rightarrow> mqtt_data \<Rightarrow> string option) option \<Rightarrow> emq_settings \<Rightarrow>
   (string \<Rightarrow> string option) \<Rightarrow> mqtt_data \<Rightarrow> string option \<times> (string \<Rightarrow> string option)" where
  "Auth AuthFunc C header d =
     (let (username, password) = EmqSuperAuth C in
      if md_username d = username then
        (if md_password d \<noteq> password then Some ''super password error'' else None, header)
      else let header = header(''token'' \<mapsto> md_password d) in
        (case AuthFunc of None \<Rightarrow> None | Some f \<Rightarrow> f header d, header))"

section \<open>Laws\<close>

lemma publish_emq:
  assumes "publish M JSONDump topic p e = Some (r, e')"
  shows "em_pubC e' = em_pubC e" "em_prefix e' = em_prefix e" "em_client e' \<noteq> None"
  using assms by (auto simp: publish_def Let_def case_prod_unfold)

lemma Subscribe_emq:
  assumes "Emq_Subscribe M topic e = Some (r, e')"
  shows "em_pubC e' = em_pubC e" "em_prefix e' = em_prefix e" "em_client e' \<noteq> None"
  using assms by (auto simp: Emq_Subscribe_def Let_def case_prod_unfold)

text \<open>The messages accepted are given to the client, held, or wait; without a publisher all wait.\<close>

definition pub_accounts :: "string \<Rightarrow> ('c, 'x) pub_state \<Rightarrow> bool" where
  "pub_accounts pre s \<longleftrightarrow>
     map fst (ps_sent s) @ (case ps_taken s of None \<Rightarrow> [] | Some m \<Rightarrow> [m]) @ em_pubC (ps_emq s) = ps_asked s \<and>
     length (em_pubC (ps_emq s)) \<le> pub_room \<and> em_prefix (ps_emq s) = pre \<and> em_client (ps_emq s) \<noteq> None \<and>
     (\<not> ps_started s \<longrightarrow> ps_sent s = [] \<and> ps_taken s = None)"

lemma pub_step_accounts: "pub_step M JSONDump s s' \<Longrightarrow> pub_accounts pre s \<Longrightarrow> pub_accounts pre s'"
  by (induction rule: pub_step.induct)
     (auto simp: pub_accounts_def publish_emq Subscribe_emq dest: publish_emq Subscribe_emq)

text \<open>The steps the publisher still has to make.\<close>

definition pub_left :: "('c, 'x) pub_state \<Rightarrow> nat" where
  "pub_left s = 2 * length (em_pubC (ps_emq s)) + (if ps_taken s = None then 0 else 1)"

lemma pub_step_started: "pub_step M JSONDump s s' \<Longrightarrow> ps_started s' = ps_started s"
  by (induction rule: pub_step.induct) auto

text \<open>The publisher never gets stuck while a message waits.\<close>

lemma pub_progress:
  assumes "pub_accounts pre s" "ps_started s" and "ps_taken s \<noteq> None \<or> em_pubC (ps_emq s) \<noteq> []"
  shows "\<exists>s'. pub_step M JSONDump s s' \<and>
    pub_left s' < pub_left s"
proof (cases "ps_taken s")
  case None
  then obtain m ms where "em_pubC (ps_emq s) = m # ms" using assms by (cases "em_pubC (ps_emq s)") auto
  from start_takes [where M = M and JSONDump = JSONDump, OF assms(2) None this] None this show ?thesis by (fastforce simp: pub_left_def)
next
  case (Some m)
  obtain r e where p: "publish M JSONDump (fst m) (snd m) (ps_emq s) = Some (r, e)"
    using assms(1) by (cases "publish M JSONDump (fst m) (snd m) (ps_emq s)") (auto simp: pub_accounts_def publish_def)
  from start_publishes [OF Some p] Some publish_emq [OF p] show ?thesis by (fastforce simp: pub_left_def)
qed


definition demo_mqtt :: "(string \<times> bytes) list mqtt_client" where
  "demo_mqtt = \<lparr>mc_connect = (\<lambda>opt w. ((True, None), [])), mc_subscribe = (\<lambda>t q w c. ((True, None), c)),
     mc_publish = (\<lambda>t q r b w c. ((True, None), c @ [(t, b)]))\<rparr>"

definition demo_emq :: "((string \<times> bytes) list, unit) emq" where
  "demo_emq = \<lparr>em_client = Some [], em_qos = 1, em_retained = False, em_wait = 2, em_prefix = ''app/'', em_pubC = []\<rparr>"

definition pub_settings :: emq_settings where
  "pub_settings = \<lparr>es_string = (\<lambda>k. ''x''), es_app_name = ''app''\<rparr>"


lemma suffix_under:
  "strings_HasSuffix (a @ ''/'' @ t) ''/pong'' \<longleftrightarrow> t = ''pong'' \<or> strings_HasSuffix t ''/pong''"
proof
  assume "strings_HasSuffix (a @ ''/'' @ t) ''/pong''"
  then obtain u where u: "a @ ''/'' @ t = u @ ''/pong''" by (auto simp: HasSuffix_iff)
  then consider v where "a = u @ v" "v @ ''/'' @ t = ''/pong''" | v where "a @ v = u" "''/'' @ t = v @ ''/pong''"
    by (auto simp: append_eq_append_conv2)
  then show "t = ''pong'' \<or> strings_HasSuffix t ''/pong''"
  proof cases
    case 1
    then show ?thesis by (auto simp: Cons_eq_append_conv append_eq_Cons_conv)
  next
    case 2
    then show ?thesis by (cases v) (auto simp: HasSuffix_iff)
  qed
next
  assume "t = ''pong'' \<or> strings_HasSuffix t ''/pong''"
  then show "strings_HasSuffix (a @ ''/'' @ t) ''/pong''"
    using HasSuffix_append [of a "''/pong''"] by (auto simp: HasSuffix_iff)
qed

text \<open>C31: The access control fits the process's own use of the broker. The process itself can log in
  and use every topic it publishes and subscribes to; every user may subscribe to what the
  process publishes; and of the topics the process subscribes to, a user other than the super
  user can publish exactly to \<open>pong\<close> and those that end in \<open>/pong\<close>. Topics of other applications
  are refused to everybody.\<close>

theorem broker_access:
  assumes "e' = Emq_Constructor C e" and "opt = prepareOption C uuid"
  shows "fst (Auth f C h (d\<lparr>md_username := mo_username opt, md_password := mo_password opt\<rparr>)) = None \<and>
    ACL dump C (d\<lparr>md_username := mo_username opt, md_topic := em_prefix e' @ t\<rparr>) = None \<and>
    ACL dump C (d\<lparr>md_access := 1, md_topic := em_prefix e' @ t\<rparr>) = None \<and>
    (md_username d \<noteq> mo_username opt \<longrightarrow>
       (ACL dump C (d\<lparr>md_access := 2, md_topic := em_prefix e' @ t\<rparr>) = None \<longleftrightarrow> t = ''pong'' \<or> strings_HasSuffix t ''/pong'')) \<and>
    (\<not> strings_HasPrefix (md_topic d) (em_prefix e') \<longrightarrow> ACL dump C d \<noteq> None)"
  using suffix_under [of "es_app_name C" t] HasPrefix_append [of "es_app_name C @ ''/''" t]
  by (auto simp: assms Auth_def ACL_def Emq_Constructor_def prepareOption_def EmqSuperAuth_def mqtt_options_def Let_def)

definition demo_settings :: emq_settings where
  "demo_settings = \<lparr>es_string = (\<lambda>k. if k = ''emq.super_username'' then ''root'' else ''secret''), es_app_name = ''app''\<rparr>"

definition demo_data :: mqtt_data where
  "demo_data = \<lparr>md_access = 2, md_ipaddr = [], md_topic = ''other/x'', md_username = ''bob'', md_password = ''t'', md_clientid = []\<rparr>"

lemma broker_access_witness:
  "ACL (\<lambda>_. []) demo_settings (demo_data\<lparr>md_access := 2, md_topic := ''app/game/pong''\<rparr>) = None \<and>
   ACL (\<lambda>_. []) demo_settings (demo_data\<lparr>md_access := 2, md_topic := ''app/game''\<rparr>) \<noteq> None \<and>
   ACL (\<lambda>_. []) demo_settings demo_data \<noteq> None"
  using broker_access [OF refl refl, where C = demo_settings and d = demo_data and e = demo_emq and dump = "\<lambda>_. []" and t = "''game/pong''"]
    broker_access [OF refl refl, where C = demo_settings and d = demo_data and e = demo_emq and dump = "\<lambda>_. []" and t = "''game''"]
  by (simp add: demo_settings_def demo_data_def demo_emq_def Emq_Constructor_def prepareOption_def EmqSuperAuth_def mqtt_options_def
      strings_HasSuffix_def strings_HasPrefix_def)

text \<open>Without a configured super user, the user with the empty name is the super user, and the password is
  the digest of the empty text, which everybody knows.\<close>

lemma empty_name_is_super:
  assumes "es_string C ''emq.super_username'' = []" "es_string C ''emq.super_password'' = []"
    and "md_username d = []" "strings_HasPrefix (md_topic d) (es_app_name C @ ''/'')"
  shows "ACL dump C d = None"
    and "fst (Auth f C h (d\<lparr>md_password := bytes_str (hex_Encode (sha256_Sum256 []))\<rparr>)) = None"
  using assms by (simp_all add: ACL_def Auth_def EmqSuperAuth_def str_bytes_def)

end
