(* ===== verification/Web_Handler.thy ===== *)
theory Web_Handler
  imports Prelude Rpc_Message
begin

text \<open>
  Functions as web handlers: \<open>giris/handler.go\<close> and its second version \<open>giris2/handler.go\<close> read a
  function's parameters by reflection, fill them from the request, call it and write its
  results as JSON; both bind the methods of an object to routes by their names.
  \<open>giris/mid-limit.go\<close> limits the requests served at a time.

  A function is data: the types of its parameters and what a call does. Reading the body into a
  value of a type, and whether a value is the zero of its type, are arguments; a call that
  panics is a value \<open>Inl\<close>.
\<close>

section \<open>Functions and responses\<close>

datatype 't param = PContext | PBound 't

datatype 'v arg = ACtx | AEmptyCtx | AVal 'v

text \<open>An error, by itself or with a text of its own around others (\<open>fmt.Errorf\<close> with \<open>%w\<close>, \<open>errors.Join\<close>), which
  \<open>errors.As\<close> searches depth first for one of the RPC package's own.\<close>

datatype web_error = ErrOne go_error | ErrWrap string "web_error list"

definition web_text :: "web_error \<Rightarrow> string" where
  "web_text e = (case e of ErrOne g \<Rightarrow> error_text g | ErrWrap t _ \<Rightarrow> t)"

fun errors_As :: "web_error \<Rightarrow> rpc_error option" where
  "errors_As (ErrOne g) = (case g of RpcErr ee \<Rightarrow> Some ee | _ \<Rightarrow> None)"
| "errors_As (ErrWrap t es) = (case filter (\<lambda>x. x \<noteq> None) (map errors_As es) of [] \<Rightarrow> None | x # _ \<Rightarrow> x)"

text \<open>A result: one whose type implements \<open>error\<close>, nil or not, or any other value.\<close>

datatype 'v ret = RErr "web_error option" | RVal 'v

record ('t, 'v, 'w) handler_fn =
  hf_nil :: bool
  hf_in :: "'t param list"
  hf_call :: "'v arg list \<Rightarrow> 'w \<Rightarrow> (string, 'v ret list) result \<times> 'w"

datatype ('t, 'v, 'w) gofn = NotFunc | Fn "('t, 'v, 'w) handler_fn"

record ('t, 'v, 'w) web_env =
  we_read :: "'t param \<Rightarrow> 'w \<Rightarrow> (string option \<times> 'v) \<times> 'w"
  we_zero :: "'t \<Rightarrow> 'v"
  we_is_zero :: "'v \<Rightarrow> bool"

text \<open>\<open>reflect.Value.Call\<close> panics for a nil function and for a wrong number of arguments.\<close>

definition reflect_Call :: "('t, 'v, 'w) handler_fn \<Rightarrow> 'v arg list \<Rightarrow> 'w \<Rightarrow> (string, 'v ret list) result \<times> 'w" where
  "reflect_Call f args w =
     (if hf_nil f then (Inl ''reflect: Value.Call: call of nil function'', w)
      else if length args < length (hf_in f) then (Inl ''reflect: Call with too few input arguments'', w)
      else if length args > length (hf_in f) then (Inl ''reflect: Call with too many input arguments'', w)
      else hf_call f args w)"

datatype 'v web_data = DOk | DOne "'v ret" | DMany "'v ret list"

record 'd json_response =
  jr_code :: int
  jr_msg :: string
  jr_data :: "'d option"

section \<open>The first version\<close>

definition web_JSON :: "int \<Rightarrow> (string + 'd) option \<Rightarrow> 'd json_response" where
  "web_JSON code val = (case val of
       None \<Rightarrow> \<lparr>jr_code = code, jr_msg = [], jr_data = None\<rparr>
     | Some (Inl s) \<Rightarrow> \<lparr>jr_code = code, jr_msg = s, jr_data = None\<rparr>
     | Some (Inr d) \<Rightarrow> \<lparr>jr_code = code, jr_msg = [], jr_data = Some d\<rparr>)"

definition web_value2err :: "'v ret \<Rightarrow> web_error option" where
  "web_value2err r = (case r of RErr e \<Rightarrow> e | RVal _ \<Rightarrow> None)"

definition zero_arg :: "('t, 'v, 'w) web_env \<Rightarrow> 't param \<Rightarrow> 'v arg" where
  "zero_arg E p = (case p of PContext \<Rightarrow> AEmptyCtx | PBound t \<Rightarrow> AVal (we_zero E t))"

text \<open>The loop over the parameters that are left.\<close>

fun fill_args ::
  "('t, 'v, 'w) web_env \<Rightarrow> 't param list \<Rightarrow> 'v arg list \<Rightarrow> 'w \<Rightarrow> (string, 'v arg list) result \<times> 'w" where
  "fill_args E [] args w = (Inr args, w)"
| "fill_args E (PContext # ps) args w = fill_args E ps (args @ [ACtx]) w"
| "fill_args E (PBound t # ps) args w =
     (let ((err, v), w) = we_read E (PBound t) w in
      case err of Some e \<Rightarrow> (Inl e, w) | None \<Rightarrow> fill_args E ps (args @ [AVal v]) w)"

definition call_data :: "'v ret list \<Rightarrow> (string, 'v web_data) result" where
  "call_data results =
     (if results = [] then Inr DOk
      else case last results of
        RErr e \<Rightarrow> (let le = last results; results = butlast results in
           case web_value2err le of
             Some err \<Rightarrow> Inl (web_text err)
           | None \<Rightarrow> if results = [] then Inr DOk
                      else if length results = 1 then Inr (DOne (hd results)) else Inr (DMany results))
      | RVal v \<Rightarrow> if length results = 1 then Inr (DOne (hd results)) else Inr (DMany results))"

definition parseArgumentFromContext ::
  "('t, 'v, 'w) web_env \<Rightarrow> ('t, 'v, 'w) gofn \<Rightarrow> 'w \<Rightarrow> (string, 'v web_data) result \<times> 'w" where
  "parseArgumentFromContext E fn w = (case fn of
       NotFunc \<Rightarrow> (Inl ''need func type'', w)
     | Fn f \<Rightarrow>
       let numIn = length (hf_in f); args = (if numIn = 3 then [zero_arg E (hf_in f ! 0)] else []) in
       if numIn > 3 then (Inl ''too many arguments, want at most 2'', w)
       else case fill_args E (drop (length args) (hf_in f)) args w of
         (Inl e, w) \<Rightarrow> (Inl e, w)
       | (Inr args, w) \<Rightarrow>
         if length args \<noteq> numIn then (Inl ''arguments not match'', w)
         else case reflect_Call f args w of
           (Inl p, w) \<Rightarrow> (Inl p, w)
         | (Inr results, w) \<Rightarrow> (call_data results, w))"

definition Func2Handler ::
  "('t, 'v, 'w) web_env \<Rightarrow> ('t, 'v, 'w) gofn \<Rightarrow> 'w \<Rightarrow> 'v web_data json_response \<times> 'w" where
  "Func2Handler E fn w = (case parseArgumentFromContext E fn w of
       (Inl err, w) \<Rightarrow> (web_JSON 400 (Some (Inl err)), w)
     | (Inr val, w) \<Rightarrow> (web_JSON 200 (Some (Inr val)), w))"

definition supportMethods :: "string list" where
  "supportMethods = [''GET'', ''POST'', ''PUT'', ''DELETE'', ''PATCH'', ''HEAD'', ''OPTIONS'', ''CONNECT'', ''TRACE'']"

text \<open>The first method that is a prefix of the name in upper case.\<close>

definition verb_of :: "string \<Rightarrow> string option" where
  "verb_of name = List.find (\<lambda>v. strings_HasPrefix (strings_ToUpper name) v) supportMethods"

text \<open>The HTTP method, none for all of them, and the path a method is bound to.\<close>

definition BindRestAPIs_route :: "string \<Rightarrow> string option \<times> string" where
  "BindRestAPIs_route name = (case verb_of name of
       Some v \<Rightarrow> (Some v, ''/'' @ drop (length v) name)
     | None \<Rightarrow> (None, ''/'' @ name))"

section \<open>The second version\<close>

datatype 'd rest_arg = RaInt int | RaStr string | RaErr go_error | RaBool bool | RaData 'd

record 'd rest_out =
  rs_json :: "'d json_response"
  rs_status :: "int option"
  rs_stopped :: bool

definition RestJSONError :: "'d rest_arg list \<Rightarrow> 'd rest_out" where
  "RestJSONError args =
     (let (code, msg, data, writeCode) = fold (\<lambda>a (code, msg, data, wc). case a of
          RaInt n \<Rightarrow> (n, msg, data, wc) | RaStr s \<Rightarrow> (code, s, data, wc) | RaErr e \<Rightarrow> (code, error_text e, data, wc)
        | RaBool b \<Rightarrow> (code, msg, data, b) | RaData d \<Rightarrow> (code, msg, Some d, wc)) args (400, [], None, False)
      in \<lparr>rs_json = \<lparr>jr_code = code, jr_msg = msg, jr_data = data\<rparr>,
          rs_status = (if writeCode then Some code else None), rs_stopped = writeCode\<rparr>)"

definition RestJSONSuccess :: "'d option \<Rightarrow> 'd rest_out" where
  "RestJSONSuccess v = \<lparr>rs_json = \<lparr>jr_code = 200, jr_msg = [], jr_data = v\<rparr>, rs_status = None, rs_stopped = False\<rparr>"

definition ret_is_zero :: "('t, 'v, 'w) web_env \<Rightarrow> 'v ret \<Rightarrow> bool" where
  "ret_is_zero E r = (case r of RErr e \<Rightarrow> e = None | RVal v \<Rightarrow> we_is_zero E v)"

definition rest_error :: "web_error \<Rightarrow> 'd rest_out" where
  "rest_error e = \<lparr>rs_json = (case errors_As e of
       Some ee \<Rightarrow> \<lparr>jr_code = e_code ee, jr_msg = e_message ee, jr_data = None\<rparr>
     | None \<Rightarrow> \<lparr>jr_code = 500, jr_msg = web_text e, jr_data = None\<rparr>), rs_status = None, rs_stopped = False\<rparr>"

definition parseRestFuncResult :: "('t, 'v, 'w) web_env \<Rightarrow> 'v ret list \<Rightarrow> 'v ret rest_out" where
  "parseRestFuncResult E result =
     (if result = [] then RestJSONSuccess None
      else
        let rest = (\<lambda>result. if result = [] then RestJSONSuccess None
              else if ret_is_zero E (hd result) then RestJSONSuccess None
              else RestJSONSuccess (Some (hd result)))
        in case last result of
             RErr (Some e) \<Rightarrow> rest_error e
           | RErr None \<Rightarrow> rest (butlast result)
           | RVal v \<Rightarrow> rest result)"

text \<open>A panic of the function is not recovered here (\<open>Inl\<close>).\<close>

definition ParseRestFunc2handler ::
  "('t, 'v, 'w) web_env \<Rightarrow> ('t, 'v, 'w) gofn \<Rightarrow> 'v option \<Rightarrow> 'w \<Rightarrow> (string, 'v ret rest_out) result \<times> 'w" where
  "ParseRestFunc2handler E fn receiver w = (case fn of
       NotFunc \<Rightarrow> (Inr (RestJSONError [RaInt 500, RaStr ''server error, handler is not a function'', RaBool True]), w)
     | Fn f \<Rightarrow>
       if hf_nil f then (Inr (RestJSONError [RaInt 500, RaStr ''server error, handler is nil'', RaBool True]), w)
       else
         let nm = int (length (hf_in f));
             (args, nm) = (case receiver of None \<Rightarrow> ([], nm) | Some r \<Rightarrow> ([AVal r], nm - 1));
             (args, nm) = (if nm > 0 \<and> hf_in f ! length args = PContext then (args @ [ACtx], nm - 1) else (args, nm))
         in if nm > 1 then
              (Inr (RestJSONError [RaInt 500, RaStr ''server error, handler's bound param is more than one'', RaBool True]), w)
            else
              let (r, w) = (if nm = 1 then
                    (let ((err, v), w) = we_read E (hf_in f ! length args) w in
                     (case err of Some e \<Rightarrow> Inl e | None \<Rightarrow> Inr (args @ [AVal v]), w))
                  else (Inr args, w))
              in case r of
                   Inl e \<Rightarrow> (Inr (RestJSONError [RaInt 400, RaErr (PlainErr e)]), w)
                 | Inr args \<Rightarrow> (case reflect_Call f args w of
                       (Inl p, w) \<Rightarrow> (Inl p, w)
                     | (Inr result, w) \<Rightarrow> (Inr (parseRestFuncResult E result), w)))"

definition smallCamelCase :: "string \<Rightarrow> string" where
  "smallCamelCase str =
     (if length str = 0 then str
      else if length str = 1 then strings_ToLower str
      else strings_ToLower (take 1 str) @ drop 1 str)"

definition bindRestAPIsHandler :: "string \<Rightarrow> string \<times> string" where
  "bindRestAPIsHandler pathName = (case verb_of pathName of
       Some v \<Rightarrow> (v, ''/'' @ smallCamelCase (drop (length v) pathName))
     | None \<Rightarrow> (''POST'', ''/'' @ smallCamelCase pathName))"

section \<open>The limit on concurrent requests\<close>

text \<open>The answer to a request over the limit; the text says that the system is busy.\<close>

definition busy_message :: rpc_message where
  "busy_message = no_message\<lparr>m_id := Some (JNum ''1''), m_error := Some (NewError 429
     [CHR 0xE7, CHR 0xB3, CHR 0xBB, CHR 0xE7, CHR 0xBB, CHR 0x9F, CHR 0xE7, CHR 0xB9, CHR 0x81, CHR 0xE5,
      CHR 0xBF, CHR 0x99, CHR 0x2C, CHR 0xE8, CHR 0xAF, CHR 0xB7, CHR 0xE7, CHR 0xA8, CHR 0x8D, CHR 0xE5,
      CHR 0x90, CHR 0x8E, CHR 0xE5, CHR 0x86, CHR 0x8D, CHR 0xE8, CHR 0xAF, CHR 0x95] [])\<rparr>"

text \<open>A channel with room for \<open>n\<close> serves as a semaphore: a request that finds room sends, runs
  the handlers after it and receives; the receive is not deferred, so a panic of those
  handlers skips it. Another request is answered with \<open>busy_message\<close>.\<close>

record limiter =
  lm_room :: nat
  lm_sem :: nat
  lm_running :: nat
  lm_panicked :: nat
  lm_answers :: "rpc_message list"

definition ConcurrentLimit :: "nat \<Rightarrow> limiter" where
  "ConcurrentLimit n = \<lparr>lm_room = n, lm_sem = 0, lm_running = 0, lm_panicked = 0, lm_answers = []\<rparr>"

datatype limit_event = Arrive | Finish | Panic

inductive limit_step :: "limiter \<Rightarrow> limit_event \<Rightarrow> limiter \<Rightarrow> bool" where
  admitted: "lm_sem s < lm_room s \<Longrightarrow> limit_step s Arrive (s\<lparr>lm_sem := lm_sem s + 1, lm_running := lm_running s + 1\<rparr>)"
| turned_away: "\<not> lm_sem s < lm_room s \<Longrightarrow> limit_step s Arrive (s\<lparr>lm_answers := lm_answers s @ [busy_message]\<rparr>)"
| finished: "0 < lm_running s \<Longrightarrow> limit_step s Finish (s\<lparr>lm_sem := lm_sem s - 1, lm_running := lm_running s - 1\<rparr>)"
| panicked: "0 < lm_running s \<Longrightarrow> limit_step s Panic (s\<lparr>lm_running := lm_running s - 1, lm_panicked := lm_panicked s + 1\<rparr>)"

inductive_simps arrive_iff: "limit_step s Arrive s'"
inductive_cases limit_stepE: "limit_step s ev s'"

definition limit_reach :: "nat \<Rightarrow> limiter \<Rightarrow> bool" where
  "limit_reach n = (\<lambda>s. (\<lambda>s s'. \<exists>ev. limit_step s ev s')\<^sup>*\<^sup>* (ConcurrentLimit n) s)"

lemma limit_reach_step: "limit_reach n s \<Longrightarrow> limit_step s ev s' \<Longrightarrow> limit_reach n s'"
  unfolding limit_reach_def by (blast intro: rtranclp.rtrancl_into_rtrancl)

lemma limit_invariant:
  assumes "limit_reach n s"
  shows "lm_room s = n \<and> lm_sem s = lm_running s + lm_panicked s \<and> lm_sem s \<le> n"
  using assms unfolding limit_reach_def
  by (induction rule: rtranclp_induct) (auto simp: ConcurrentLimit_def elim!: limit_stepE)

text \<open>C32: In every interleaving of requests, at most \<open>n\<close> run at a time, together with the panics there
  have been: a request is turned away, with one busy message and no other effect, exactly when the running requests
  and the requests that panicked make up \<open>n\<close>. As long as no handler panics these are the running ones alone, but the room of
  a request that panicked is never given back.\<close>

theorem concurrent_limit:
  assumes "limit_reach n s"
  shows "lm_running s + lm_panicked s \<le> n \<and>
    (limit_step s Arrive s' \<longleftrightarrow>
       (if lm_running s + lm_panicked s = n then s' = s\<lparr>lm_answers := lm_answers s @ [busy_message]\<rparr>
        else s' = s\<lparr>lm_sem := lm_sem s + 1, lm_running := lm_running s + 1\<rparr>))"
  using limit_invariant [OF assms] by (auto simp: arrive_iff)

lemma concurrent_limit_witness:
  "\<forall>s'. limit_step (ConcurrentLimit 0) Arrive s' \<longleftrightarrow> s' = (ConcurrentLimit 0)\<lparr>lm_answers := [busy_message]\<rparr>"
  using concurrent_limit [of 0 "ConcurrentLimit 0"] by (simp add: limit_reach_def ConcurrentLimit_def)

text \<open>A server whose handlers have panicked \<open>n\<close> times serves nobody any more.\<close>

lemma panics_use_up_limit:
  "\<exists>s. limit_reach n s \<and> lm_running s = 0 \<and> (\<forall>s'. limit_step s Arrive s' \<longrightarrow> lm_running s' = 0)"
proof -
  have "\<exists>s. limit_reach n s \<and> lm_running s = 0 \<and> lm_panicked s = k" if "k \<le> n" for k
    using that
  proof (induction k)
    case 0
    then show ?case by (intro exI [of _ "ConcurrentLimit n"]) (simp add: limit_reach_def ConcurrentLimit_def)
  next
    case (Suc k)
    then obtain s where s: "limit_reach n s" "lm_running s = 0" "lm_panicked s = k" by auto
    let ?a = "s\<lparr>lm_sem := lm_sem s + 1, lm_running := lm_running s + 1\<rparr>"
    let ?b = "?a\<lparr>lm_running := lm_running ?a - 1, lm_panicked := lm_panicked ?a + 1\<rparr>"
    have "limit_step s Arrive ?a" using limit_invariant [OF s(1)] s Suc.prems by (intro admitted) simp
    then have "limit_reach n ?a" by (rule limit_reach_step [OF s(1)])
    moreover have "limit_step ?a Panic ?b" by (rule panicked) simp
    ultimately have "limit_reach n ?b" by (rule limit_reach_step)
    then show ?case using s by (intro exI [of _ ?b]) simp
  qed
  then obtain s where "limit_reach n s" "lm_running s = 0" "lm_panicked s = n" by blast
  then show ?thesis using limit_invariant by (intro exI [of _ s]) (auto simp: arrive_iff)
qed

section \<open>What a function receives\<close>

text \<open>The signatures that are called, after the receiver: those the comment of \<open>ParseRestFunc2handler\<close> lists, and the
  context alone, which it does not list. Whether there is a context, and the type of the bound parameter if
  there is one.\<close>

fun rest_shape :: "'t param list \<Rightarrow> (bool \<times> 't param option) option" where
  "rest_shape [] = Some (False, None)"
| "rest_shape [PContext] = Some (True, None)"
| "rest_shape [PBound t] = Some (False, Some (PBound t))"
| "rest_shape [PContext, p] = Some (True, Some p)"
| "rest_shape _ = None"

text \<open>And the results.\<close>

fun rest_answer :: "('t, 'v, 'w) web_env \<Rightarrow> 'v ret list \<Rightarrow> 'v ret rest_out" where
  "rest_answer E [] = RestJSONSuccess None"
| "rest_answer E [RErr e] = (case e of None \<Rightarrow> RestJSONSuccess None | Some e \<Rightarrow> rest_error e)"
| "rest_answer E [RVal v] = RestJSONSuccess (if we_is_zero E v then None else Some (RVal v))"
| "rest_answer E [RVal v, RErr e] =
     (case e of None \<Rightarrow> RestJSONSuccess (if we_is_zero E v then None else Some (RVal v)) | Some e \<Rightarrow> rest_error e)"
| "rest_answer E rs = parseRestFuncResult E rs"

definition rest_reply :: "('t, 'v, 'w) web_env \<Rightarrow> (string, 'v ret list) result \<times> 'w \<Rightarrow> (string, 'v ret rest_out) result \<times> 'w" where
  "rest_reply E r = (case r of (Inl p, w) \<Rightarrow> (Inl p, w) | (Inr rs, w) \<Rightarrow> (Inr (rest_answer E rs), w))"

lemma rest_answer_eq: "rest_answer E rs = parseRestFuncResult E rs"
  by (cases "(E, rs)" rule: rest_answer.cases)
     (auto simp: parseRestFuncResult_def ret_is_zero_def split: option.splits)


definition demo_web :: "(unit, int, nat) web_env" where
  "demo_web = \<lparr>we_read = (\<lambda>p w. ((None, 5), w + 10)), we_zero = (\<lambda>_. 0), we_is_zero = (\<lambda>v. v = 0)\<rparr>"

definition demo_fn :: "(unit, int, nat) handler_fn" where
  "demo_fn = \<lparr>hf_nil = False, hf_in = [PBound (), PContext, PBound ()],
     hf_call = (\<lambda>args w. (Inr [RVal (sum_list (map (\<lambda>a. case a of AVal v \<Rightarrow> v | _ \<Rightarrow> 100) args)), RErr None], w + 1))\<rparr>"


text \<open>An error of the RPC package keeps its code inside others; the first found decides.\<close>

lemma wrapped_error_code:
  "rs_json (rest_error (ErrWrap t [ErrOne (PlainErr p), ErrWrap u [ErrOne (RpcErr ee)], ErrOne (RpcErr e2)])) =
     \<lparr>jr_code = e_code ee, jr_msg = e_message ee, jr_data = None\<rparr>"
  by (simp add: rest_error_def)

text \<open>The first version has no receiver to pass: a method with context and bound parameter runs
  on a zero receiver, a method with the context alone on a receiver read from the request.\<close>

lemma receiver_not_the_object:
  assumes "\<not> hf_nil f"
  shows "hf_in f = [PBound tr, PContext, PBound tb] \<Longrightarrow> we_read E (PBound tb) w = ((None, v), w') \<Longrightarrow>
      hf_call f [AVal (we_zero E tr), ACtx, AVal v] w' = (Inr rs, w'') \<Longrightarrow>
      parseArgumentFromContext E (Fn f) w = (call_data rs, w'')"
    and "hf_in f = [PBound tr, PContext] \<Longrightarrow> we_read E (PBound tr) w = ((None, v), w') \<Longrightarrow>
      hf_call f [AVal v, ACtx] w' = (Inr rs, w'') \<Longrightarrow>
      parseArgumentFromContext E (Fn f) w = (call_data rs, w'')"
  using assms by (simp_all add: parseArgumentFromContext_def reflect_Call_def zero_arg_def)

text \<open>The route of a method gives its name back up to case; a name without an HTTP method is
  bound like the one with \<open>Post\<close> in front of it.\<close>

lemma ToUpper_small: "strings_ToUpper (smallCamelCase s) = strings_ToUpper s"
proof -
  have c: "char_upper (char_lower c) = char_upper c" for c
    by (auto simp: char_upper_def char_lower_def is_upper_def is_lower_def of_char_char_of_small)
  show ?thesis by (cases s) (simp_all add: smallCamelCase_def strings_ToUpper_def strings_ToLower_def c)
qed

lemma route_of_name:
  assumes "bindRestAPIsHandler name = (v, path)"
  shows "strings_ToUpper name = v @ strings_ToUpper (tl path) \<or> v = ''POST'' \<and> strings_ToUpper name = strings_ToUpper (tl path)"
proof (cases "verb_of name")
  case (Some u)
  then obtain t where "strings_ToUpper name = u @ t"
    unfolding verb_of_def by (auto simp: find_Some_iff HasPrefix_iff)
  then have "strings_ToUpper name = u @ strings_ToUpper (drop (length u) name)"
    by (metis append_eq_conv_conj drop_map strings_ToUpper_def)
  then show ?thesis using assms Some by (auto simp: bindRestAPIsHandler_def ToUpper_small)
qed (use assms in \<open>auto simp: bindRestAPIsHandler_def ToUpper_small\<close>)

lemma post_routes_clash: "bindRestAPIsHandler ''PostUser'' = bindRestAPIsHandler ''User''"
  by code_simp

end
