(* ===== verification/Web_Server.thy ===== *)
theory Web_Server
  imports Web_Handler
begin

text \<open>
  The web application (\<open>giris/iris.go\<close>, \<open>giris2/iris.go\<close>): the handlers in front of every route, the routes,
  and the channel that ends the process.

  A request with its answer so far is a record that the handlers pass on; \<open>c.Next()\<close> is the call of a
  continuation. The state of the rate limiter (package \<open>rate\<close>) and of what the route handlers do is \<open>'w\<close>, and
  both are arguments. Other requests appear as the places they hold in the semaphore.
\<close>

section \<open>Requests and handlers\<close>

datatype 'r web_reply = BusyReply rpc_message | OftenReply rpc_message | PongReply | CaptchaReply | RpcReply 'r | NotFoundReply

record ('r, 'w) web_ctx =
  wc_method :: string
  wc_path :: string
  wc_remote :: string
  wc_jwt :: string
  wc_rate_id :: string
  wc_headers :: "string \<Rightarrow> string option"
  wc_reply :: "'r web_reply option"
  wc_panicked :: bool
  wc_sem :: nat
  wc_world :: 'w

type_synonym ('r, 'w) handler = "('r, 'w) web_ctx \<Rightarrow> ('r, 'w) web_ctx"
type_synonym ('r, 'w) middleware = "('r, 'w) handler \<Rightarrow> ('r, 'w) handler"

text \<open>The answer to a client over its rate; the text says that requests come too often.\<close>

definition often_message :: rpc_message where
  "often_message = no_message\<lparr>m_id := Some (JNum ''1''), m_error := Some (NewError 429
     [CHR 0xE8, CHR 0xAF, CHR 0xB7, CHR 0xE6, CHR 0xB1, CHR 0x82, CHR 0xE8, CHR 0xBF, CHR 0x87, CHR 0xE4,
      CHR 0xBA, CHR 0x8E, CHR 0xE9, CHR 0xA2, CHR 0x91, CHR 0xE7, CHR 0xB9, CHR 0x81] [])\<rparr>"

definition server_header :: "('r, 'w) middleware" where
  "server_header next c = next (c\<lparr>wc_headers := (wc_headers c)(''X-Server'' := None, ''X-Server'' := Some ''lucky'')\<rparr>)"

text \<open>\<open>ConcurrentLimit(n)\<close>: the place is given back when the handlers return, not when they panic.\<close>

definition limit_handler :: "nat \<Rightarrow> ('r, 'w) middleware" where
  "limit_handler n next c =
     (if wc_sem c < n then
        (let c = next (c\<lparr>wc_sem := wc_sem c + 1\<rparr>) in if wc_panicked c then c else c\<lparr>wc_sem := wc_sem c - 1\<rparr>)
      else c\<lparr>wc_reply := Some (BusyReply busy_message)\<rparr>)"

definition rate_identifier :: "('r, 'w) middleware" where
  "rate_identifier next c =
     (if wc_jwt c \<noteq> [] then next (c\<lparr>wc_rate_id := wc_path c @ '':'' @ wc_jwt c\<rparr>)
      else next (c\<lparr>wc_rate_id := wc_path c @ '':'' @ wc_remote c\<rparr>))"

definition RateLimiter :: "(string \<Rightarrow> 'w \<Rightarrow> bool \<times> 'w) \<Rightarrow> ('r, 'w) middleware" where
  "RateLimiter allow next c = (case allow (wc_rate_id c) (wc_world c) of
       (True, w) \<Rightarrow> next (c\<lparr>wc_world := w\<rparr>)
     | (False, w) \<Rightarrow> c\<lparr>wc_world := w, wc_reply := Some (OftenReply often_message)\<rparr>)"

text \<open>The routes. \<open>rpc\<close> is what follows on the route of RPC, which sees the request and answers or panics: in the
  first version \<open>iris.Compression\<close> and then \<open>RPCServer2IrisHandler\<close> (\<open>Web_Rpc\<close> puts the two together), in the
  second \<open>RPCServer2IrisHandler\<close> alone.\<close>

definition routes :: "bool \<Rightarrow> ('w \<Rightarrow> 'w) \<Rightarrow> (string \<Rightarrow> 'w \<Rightarrow> 'r option \<times> 'w) \<Rightarrow> ('r, 'w) handler" where
  "routes has_rpc captcha rpc c =
     (if wc_method c = ''GET'' \<and> wc_path c = ''/ping'' then c\<lparr>wc_reply := Some PongReply\<rparr>
      else if wc_method c = ''GET'' \<and> wc_path c = ''/captcha'' then c\<lparr>wc_reply := Some CaptchaReply, wc_world := captcha (wc_world c)\<rparr>
      else if has_rpc \<and> wc_method c = ''POST'' \<and> wc_path c = ''/rpc'' then
        (case rpc (wc_jwt c) (wc_world c) of
           (Some r, w) \<Rightarrow> c\<lparr>wc_reply := Some (RpcReply r), wc_world := w\<rparr>
         | (None, w) \<Rightarrow> c\<lparr>wc_panicked := True, wc_world := w\<rparr>)
      else c\<lparr>wc_reply := Some NotFoundReply\<rparr>)"

definition run_chain :: "('r, 'w) middleware list \<Rightarrow> ('r, 'w) handler \<Rightarrow> ('r, 'w) handler" where
  "run_chain ms route = foldr (\<lambda>m next. m next) ms route"

text \<open>The first version: the limit is from the settings.\<close>

definition RouteApp :: "nat \<Rightarrow> (string \<Rightarrow> 'w \<Rightarrow> bool \<times> 'w) \<Rightarrow> ('w \<Rightarrow> 'w) \<Rightarrow> (string \<Rightarrow> 'w \<Rightarrow> 'r option \<times> 'w) \<Rightarrow> ('r, 'w) handler" where
  "RouteApp n allow captcha rpc =
     run_chain [server_header, limit_handler n, rate_identifier, RateLimiter allow] (routes True captcha rpc)"

text \<open>The second: a limit of 2000, the header last, and RPC only if there is a server for it.\<close>

definition RouteApp2 :: "bool \<Rightarrow> (string \<Rightarrow> 'w \<Rightarrow> bool \<times> 'w) \<Rightarrow> ('w \<Rightarrow> 'w) \<Rightarrow> (string \<Rightarrow> 'w \<Rightarrow> 'r option \<times> 'w) \<Rightarrow> ('r, 'w) handler" where
  "RouteApp2 has_rpc allow captcha rpc =
     run_chain [limit_handler 2000, rate_identifier, RateLimiter allow, server_header] (routes has_rpc captcha rpc)"

text \<open>A request as it reaches them, of a client at an address.\<close>

definition new_request :: "string \<Rightarrow> string \<Rightarrow> string \<Rightarrow> nat \<Rightarrow> 'w \<Rightarrow> ('r, 'w) web_ctx" where
  "new_request method path remote sem w = \<lparr>wc_method = method, wc_path = path, wc_remote = remote, wc_jwt = [], wc_rate_id = [],
     wc_headers = Map.empty, wc_reply = None, wc_panicked = False, wc_sem = sem, wc_world = w\<rparr>"

lemma route_sem [simp]: "wc_sem (routes b captcha rpc c) = wc_sem c"
  by (simp add: routes_def split: prod.splits option.splits)

lemma route_headers [simp]: "wc_headers (routes b captcha rpc c) = wc_headers c"
  by (simp add: routes_def split: prod.splits option.splits)

text \<open>A reply, or a panic.\<close>

lemma route_replies: "wc_reply (routes b captcha rpc c) \<noteq> None \<or> wc_panicked (routes b captcha rpc c)"
  by (simp add: routes_def split: prod.splits option.splits)

lemma route_reply_kind:
  "wc_reply c = None \<Longrightarrow> wc_reply (routes b captcha rpc c) \<noteq> Some (BusyReply m) \<and> wc_reply (routes b captcha rpc c) \<noteq> Some (OftenReply m)"
  by (simp add: routes_def split: prod.splits option.splits)

lemma route_cong:
  assumes "wc_method c = wc_method d" "wc_path c = wc_path d" "wc_jwt c = wc_jwt d" "wc_world c = wc_world d"
    "wc_reply c = wc_reply d" "wc_panicked c = wc_panicked d"
  shows "wc_reply (routes b captcha rpc c) = wc_reply (routes b captcha rpc d) \<and>
    wc_world (routes b captcha rpc c) = wc_world (routes b captcha rpc d) \<and>
    wc_panicked (routes b captcha rpc c) = wc_panicked (routes b captcha rpc d)"
  using assms by (simp add: routes_def split: prod.splits option.splits)

lemmas chain_defs = RouteApp_def RouteApp2_def run_chain_def server_header_def limit_handler_def rate_identifier_def
  RateLimiter_def new_request_def

text \<open>What happens to a request, in both versions. Without room it is answered that the server is busy, and
  neither the rate limiter nor a route sees it. With room but over its rate, which is counted per path
  and address, it is answered so, and no route sees it. Otherwise its route has it, and the
  reply is the route's. The place is given back in every case but that of a panic.\<close>

theorem request_outcome:
  assumes "app = RouteApp n allow captcha rpc \<or> n = 2000 \<and> app = RouteApp2 True allow captcha rpc"
    "c = new_request method path remote sem w" "allow (path @ '':'' @ remote) w = (ok, w1)"
  shows "(\<not> sem < n \<longrightarrow> wc_reply (app c) = Some (BusyReply busy_message) \<and> wc_world (app c) = w \<and> wc_sem (app c) = sem) \<and>
    (sem < n \<and> \<not> ok \<longrightarrow> wc_reply (app c) = Some (OftenReply often_message) \<and> wc_world (app c) = w1 \<and> wc_sem (app c) = sem) \<and>
    (sem < n \<and> ok \<longrightarrow>
      (let r = routes True captcha rpc (new_request method path remote (sem + 1) w1) in
       wc_reply (app c) = wc_reply r \<and> wc_world (app c) = wc_world r \<and> wc_panicked (app c) = wc_panicked r \<and>
       wc_sem (app c) = (if wc_panicked r then sem + 1 else sem)))"
proof -
  define c1 where "c1 = c\<lparr>wc_headers := [''X-Server'' \<mapsto> ''lucky''], wc_sem := sem + 1, wc_rate_id := path @ '':'' @ remote, wc_world := w1\<rparr>"
  let ?r = "routes True captcha rpc c1"
  have r: "wc_reply ?r = wc_reply (routes True captcha rpc (new_request method path remote (sem + 1) w1)) \<and>
      wc_world ?r = wc_world (routes True captcha rpc (new_request method path remote (sem + 1) w1)) \<and>
      wc_panicked ?r = wc_panicked (routes True captcha rpc (new_request method path remote (sem + 1) w1))"
    by (rule route_cong) (simp_all add: c1_def assms(2) new_request_def)
  have s: "wc_sem ?r = sem + 1" by (simp add: c1_def)
  have refused: "\<not> (sem < n \<and> ok) \<Longrightarrow> ?thesis" using assms by (auto simp: chain_defs)
  have "sem < n \<Longrightarrow> ok \<Longrightarrow> app c = (if wc_panicked ?r then ?r else ?r\<lparr>wc_sem := wc_sem ?r - 1\<rparr>)"
    using assms by (auto simp: chain_defs c1_def Let_def)
  with r s show ?thesis by (cases "sem < n \<and> ok") (simp add: Let_def, rule refused)
qed

theorem request_outcome_witness:
  "wc_reply (RouteApp 1 (\<lambda>i w. (i \<noteq> ''/ping:1.2.3.4'', w)) id (\<lambda>t w. (Some (0 :: nat), w)) (new_request ''GET'' ''/ping'' ''1.2.3.4'' 0 (0 :: nat))) =
     Some (OftenReply often_message)"
  using request_outcome [of "RouteApp 1 (\<lambda>i w. (i \<noteq> ''/ping:1.2.3.4'', w)) id (\<lambda>t w. (Some (0 :: nat), w))" 1
      "\<lambda>i w. (i \<noteq> ''/ping:1.2.3.4'', w)" id "\<lambda>t w. (Some (0 :: nat), w)" _ "''GET''" "''/ping''" "''1.2.3.4''" 0 "0 :: nat" False 0]
  by simp

text \<open>The first version marks every answer with its header; in the second an answer of the limits is without it.\<close>

lemma header_always: "wc_headers (RouteApp n allow captcha rpc (new_request method path remote sem w)) ''X-Server'' = Some ''lucky''"
proof (cases "allow (path @ '':'' @ remote) w")
  case (Pair ok w1)
  then show ?thesis by (cases ok) (simp_all add: chain_defs Let_def)
qed

lemma header_missing: "\<not> sem < 2000 \<Longrightarrow>
  wc_headers (RouteApp2 b allow captcha rpc (new_request method path remote sem w)) ''X-Server'' = None"
  by (simp add: chain_defs)

text \<open>The token is not known yet when the rate is looked up: \<open>Verify\<close>, which stores it, runs in a route. So
  all users behind one address share one rate.\<close>

lemma rate_by_address:
  assumes "allow (path @ '':'' @ remote) w = allow' (path @ '':'' @ remote) w"
  shows "RouteApp n allow captcha rpc (new_request method path remote sem w) = RouteApp n allow' captcha rpc (new_request method path remote sem w)"
  using assms by (simp add: chain_defs)

section \<open>Listening and stopping\<close>

record http_server =
  hs_addr :: string
  hs_read_timeout :: int
  hs_read_header_timeout :: int
  hs_write_timeout :: int
  hs_idle_timeout :: int

definition AddrServer :: "string \<Rightarrow> http_server" where
  "AddrServer addr = \<lparr>hs_addr = addr, hs_read_timeout = 10000000000, hs_read_header_timeout = 5000000000,
     hs_write_timeout = 10000000000, hs_idle_timeout = 60000000000\<rparr>"

text \<open>The channel \<open>stop\<close>: \<open>Shutdown\<close> closes it, \<open>Wait\<close> returns once it is closed. The hook the server runs when it
  shuts down waits for the channel in the first version and closes it in the second; closing twice
  panics. An event that has to wait is \<open>None\<close>.\<close>

record stop_state =
  st_closed :: bool
  st_panicked :: bool
  st_main_done :: bool
  st_hook_done :: bool

datatype stop_event = Shutdown | Wait | ServerHook

definition close_stop :: "stop_state \<Rightarrow> stop_state" where
  "close_stop s = (if st_closed s then s\<lparr>st_panicked := True\<rparr> else s\<lparr>st_closed := True\<rparr>)"

fun stop_step :: "stop_event \<Rightarrow> stop_state \<Rightarrow> stop_state option" where
  "stop_step Shutdown s = Some (close_stop s)"
| "stop_step Wait s = (if st_closed s then Some (s\<lparr>st_main_done := True\<rparr>) else None)"
| "stop_step ServerHook s = (if st_closed s then Some (s\<lparr>st_hook_done := True\<rparr>) else None)"

fun stop_step2 :: "stop_event \<Rightarrow> stop_state \<Rightarrow> stop_state option" where
  "stop_step2 Shutdown s = Some (close_stop s)"
| "stop_step2 Wait s = (if st_closed s then Some (s\<lparr>st_main_done := True\<rparr>) else None)"
| "stop_step2 ServerHook s = Some ((close_stop s)\<lparr>st_hook_done := True\<rparr>)"

fun stop_run :: "(stop_event \<Rightarrow> stop_state \<Rightarrow> stop_state option) \<Rightarrow> stop_event list \<Rightarrow> stop_state \<Rightarrow> stop_state option" where
  "stop_run f [] s = Some s"
| "stop_run f (e # es) s = Option.bind (f e s) (stop_run f es)"

definition new_stop :: stop_state where
  "new_stop = \<lparr>st_closed = False, st_panicked = False, st_main_done = False, st_hook_done = False\<rparr>"

definition closes :: "stop_state \<Rightarrow> nat" where
  "closes s = (if st_panicked s then 2 else if st_closed s then 1 else 0)"

lemma close_counted: "st_panicked s \<longrightarrow> st_closed s \<Longrightarrow> closes (close_stop s) = min 2 (closes s + 1)"
  by (simp add: closes_def close_stop_def)

lemma stop_step_counted:
  assumes "stop_step e s = Some s'" "st_panicked s \<longrightarrow> st_closed s"
  shows "closes s' = (if e = Shutdown then min 2 (closes s + 1) else closes s) \<and> (st_panicked s' \<longrightarrow> st_closed s') \<and>
    ((st_main_done s' \<or> st_hook_done s') \<longrightarrow> st_main_done s \<or> st_hook_done s \<or> 0 < closes s)"
proof (cases e)
  case Shutdown
  then have s': "s' = close_stop s" using assms(1) by simp
  have "st_main_done (close_stop s) = st_main_done s" "st_hook_done (close_stop s) = st_hook_done s"
      "st_panicked (close_stop s) \<longrightarrow> st_closed (close_stop s)" by (simp_all add: close_stop_def assms(2))
  with Shutdown close_counted [OF assms(2)] show ?thesis unfolding s' by simp
qed (use assms in \<open>auto simp: closes_def split: if_splits\<close>)

lemma stop_run_counted:
  "\<lbrakk>stop_run stop_step es s = Some s'; st_panicked s \<longrightarrow> st_closed s\<rbrakk> \<Longrightarrow>
   closes s' = min 2 (closes s + count_list es Shutdown) \<and>
   ((st_main_done s' \<or> st_hook_done s') \<longrightarrow> st_main_done s \<or> st_hook_done s \<or> 0 < closes s')"
proof (induction es arbitrary: s)
  case Nil
  then show ?case by (simp add: closes_def)
next
  case (Cons e es)
  from Cons.prems obtain s1 where s1: "stop_step e s = Some s1" "stop_run stop_step es s1 = Some s'" by (cases "stop_step e s") auto
  note c = stop_step_counted [OF s1(1) Cons.prems(2)]
  have "st_panicked s1 \<longrightarrow> st_closed s1" using c by blast
  note ih = Cons.IH [OF s1(2) this]
  have IH: "closes s' = min 2 (closes s1 + count_list es Shutdown)" using ih by (rule conjunct1)
  have IH2: "(st_main_done s' \<or> st_hook_done s') \<longrightarrow> st_main_done s1 \<or> st_hook_done s1 \<or> 0 < closes s'" using ih by (rule conjunct2)
  have "closes s' = min 2 (closes s + count_list (e # es) Shutdown)" using IH c by (cases "e = Shutdown") simp_all
  moreover have "0 < closes s \<Longrightarrow> 0 < closes s'" using IH c by (cases "e = Shutdown") simp_all
  ultimately show ?case using IH2 c by argo
qed

text \<open>The first version: the main program and the server end after \<open>Shutdown\<close> only, and nothing panics unless
  it is called twice.\<close>

lemma ends_after_shutdown:
  assumes "stop_run stop_step es new_stop = Some s"
  shows "(st_main_done s \<or> st_hook_done s \<longrightarrow> Shutdown \<in> set es) \<and> (st_panicked s \<longleftrightarrow> 1 < count_list es Shutdown)"
proof -
  have n: "closes new_stop = 0" "\<not> st_main_done new_stop" "\<not> st_hook_done new_stop" "st_panicked new_stop \<longrightarrow> st_closed new_stop"
    by (simp_all add: new_stop_def closes_def)
  note h = stop_run_counted [OF assms n(4)]
  have "closes s = min 2 (count_list es Shutdown)" using h n(1) by (metis add_0)
  moreover have "st_main_done s \<or> st_hook_done s \<longrightarrow> 0 < closes s" using h n(2,3) by blast
  moreover have "st_panicked s \<longleftrightarrow> 1 < closes s" by (simp add: closes_def)
  moreover have "0 < count_list es Shutdown \<longleftrightarrow> Shutdown \<in> set es" by (induction es) auto
  ultimately show ?thesis by auto
qed

text \<open>The second: an interrupt, on which the server shuts down, and a \<open>Shutdown\<close> by the program panic.\<close>

lemma second_close_panics:
  "map_option st_panicked (stop_run stop_step2 [ServerHook, Wait, Shutdown] new_stop) = Some True"
  "map_option st_panicked (stop_run stop_step2 [Shutdown, ServerHook] new_stop) = Some True"
  by (simp_all add: new_stop_def close_stop_def)

end
