(* ===== verification/Web_Rpc.thy ===== *)
theory Web_Rpc
  imports Rpc_Laws Web_Server
begin

text \<open>
  RPC through the web application: the server of package \<open>j2rpc\<close> behind the handlers of \<open>giris/iris.go\<close>,
  joined by \<open>RPCServer2IrisHandler\<close> (\<open>giris/functions.go\<close>). \<open>Web_Server\<close> takes the RPC server as an
  argument and \<open>Rpc_Server\<close> the request and its writer; here each is given the other.

  The state of the application is that of the rate limiter and the pool of contexts. Requests are served
  one after another; the others under way at a time are the places they hold. The compression that iris puts
  in front of the RPC server is an argument.
\<close>

section \<open>The application\<close>

text \<open>The key of the settings, spaces around it apart, is the server's when it is not empty.\<close>

definition crypto_setting :: "string \<Rightarrow> rpc_option \<Rightarrow> rpc_option" where
  "crypto_setting key opt = (let str = strings_TrimSpace key in if str \<noteq> [] then opt\<lparr>CryptoKey := str\<rparr> else opt)"

definition web_server :: "string \<Rightarrow> 'w server \<Rightarrow> 'w server" where
  "web_server key s = s\<lparr>s_opt := crypto_setting key (s_opt s)\<rparr>"

text \<open>The context comes from the pool, and \<open>Handler\<close> gives it back in the end.\<close>

definition RPCServer2IrisHandler ::
  "rpc_ext \<Rightarrow> 'w server \<Rightarrow> 'w \<Rightarrow> nat option \<Rightarrow> http_writer \<Rightarrow> http_request \<Rightarrow> 'w jctx list \<Rightarrow> http_writer \<times> 'w jctx list" where
  "RPCServer2IrisHandler E s world pick w r pool =
     (let (x, pool) = pool_Acquire world pick pool;
          x = server_Handler E s (BeginRequest w r x)
      in (d_writer (x_data x), pool_Release x pool))"

record ('l, 'w) web_state =
  ws_limiter :: 'l
  ws_pool :: "'w jctx list"

text \<open>A request: what iris routes it by, its headers on compression, what the RPC server reads of it (its body
  as the client sent it), the places that others hold, and the context that the pool would hand out.\<close>

record web_call =
  wq_method :: string
  wq_path :: string
  wq_remote :: string
  wq_encoding :: string
  wq_accept :: string
  wq_http :: http_request
  wq_others :: nat
  wq_pick :: "nat option"

text \<open>The compression of iris: \<open>CompressReader\<close> on a body with a \<open>Content-Encoding\<close>, \<open>CompressWriter\<close> on what a handler
  writes, for a client's \<open>Accept-Encoding\<close>, and how a client reads an answer back.\<close>

record compression =
  z_reader :: "string \<Rightarrow> (string, bytes) result \<Rightarrow> (string, bytes) result"
  z_writer :: "string \<Rightarrow> http_writer \<Rightarrow> http_writer"
  z_client :: "http_writer \<Rightarrow> (string, bytes) result"

text \<open>The writer as the RPC server gets it: the handler in front of all routes has set its header.\<close>

definition web_writer :: http_writer where
  "web_writer = header_set ''X-Server'' ''lucky'' new_writer"

text \<open>\<open>iris.Compression\<close>: the handlers after it read and write through the compression.\<close>

definition Compression ::
  "compression \<Rightarrow> string \<Rightarrow> string \<Rightarrow> (http_request \<Rightarrow> 's \<Rightarrow> http_writer \<times> 's) \<Rightarrow> http_request \<Rightarrow> 's \<Rightarrow> http_writer \<times> 's" where
  "Compression Z encoding accept next r st =
     (let (w, st) = next (r\<lparr>rq_body := z_reader Z encoding (rq_body r)\<rparr>) st in (z_writer Z accept w, st))"

definition web_rpc ::
  "compression \<Rightarrow> rpc_ext \<Rightarrow> 'w server \<Rightarrow> 'w \<Rightarrow> web_call \<Rightarrow> string \<Rightarrow> ('l, 'w) web_state \<Rightarrow> http_writer option \<times> ('l, 'w) web_state" where
  "web_rpc Z E s world q token st =
     (let (w, pool) = Compression Z (wq_encoding q) (wq_accept q)
            (RPCServer2IrisHandler E s world (wq_pick q) web_writer) (wq_http q) (ws_pool st)
      in (Some w, st\<lparr>ws_pool := pool\<rparr>))"

definition web_allow :: "(string \<Rightarrow> 'l \<Rightarrow> bool \<times> 'l) \<Rightarrow> string \<Rightarrow> ('l, 'w) web_state \<Rightarrow> bool \<times> ('l, 'w) web_state" where
  "web_allow allow ident st = (let (ok, l) = allow ident (ws_limiter st) in (ok, st\<lparr>ws_limiter := l\<rparr>))"

definition web_serve ::
  "nat \<Rightarrow> (string \<Rightarrow> 'l \<Rightarrow> bool \<times> 'l) \<Rightarrow> compression \<Rightarrow> rpc_ext \<Rightarrow> string \<Rightarrow> 'w server \<Rightarrow> 'w \<Rightarrow> web_call \<Rightarrow> ('l, 'w) web_state
   \<Rightarrow> (http_writer, ('l, 'w) web_state) web_ctx" where
  "web_serve n allow Z E key s world q st =
     RouteApp n (web_allow allow) (\<lambda>st. st) (web_rpc Z E (web_server key s) world q) (new_request (wq_method q) (wq_path q) (wq_remote q) (wq_others q) st)"

fun serve_calls ::
  "nat \<Rightarrow> (string \<Rightarrow> 'l \<Rightarrow> bool \<times> 'l) \<Rightarrow> compression \<Rightarrow> rpc_ext \<Rightarrow> string \<Rightarrow> 'w server \<Rightarrow> 'w \<Rightarrow> web_call list \<Rightarrow> ('l, 'w) web_state
   \<Rightarrow> http_writer web_reply option list \<times> ('l, 'w) web_state" where
  "serve_calls n allow Z E key s world [] st = ([], st)"
| "serve_calls n allow Z E key s world (q # qs) st =
     (let c = web_serve n allow Z E key s world q st; (rs, st) = serve_calls n allow Z E key s world qs (wc_world c)
      in (wc_reply c # rs, st))"

section \<open>One request\<close>

definition is_rpc :: "web_call \<Rightarrow> bool" where
  "is_rpc q \<longleftrightarrow> wq_method q = ''POST'' \<and> wq_path q = ''/rpc''"

definition clean_pool :: "('l, 'w) web_state \<Rightarrow> bool" where
  "clean_pool st \<longleftrightarrow> list_all (\<lambda>x. d_msg (x_data x) = no_message) (ws_pool st)"

text \<open>What the application relies on of the compression: a client reads back what was written, and beside the
  status nothing changes but the headers that speak of the compression.\<close>

definition compression_headers :: "string list" where
  "compression_headers = [''Content-Encoding'', ''Vary'', ''Content-Length'']"

definition compression_ok :: "compression \<Rightarrow> bool" where
  "compression_ok Z \<longleftrightarrow> (\<forall>a w code hs. hw_sent w = Some (code, hs) \<longrightarrow> z_client Z (z_writer Z a w) = Inr (hw_body w) \<and>
     (\<exists>hs'. hw_sent (z_writer Z a w) = Some (code, hs') \<and> (\<forall>n. n \<notin> set compression_headers \<longrightarrow> hs' n = hs n)))"

text \<open>The answer of the server to a client with its key: one JSON message with the id of the request, in the form
  that the client unpacks and decrypts.\<close>

definition rpc_answer :: "compression \<Rightarrow> rpc_ext \<Rightarrow> rpc_option \<Rightarrow> rpc_message \<Rightarrow> http_writer \<Rightarrow> bool" where
  "rpc_answer Z E opt msg w \<longleftrightarrow> (\<exists>m b. json_write E (message_json (int_text E) m) = Inr b \<and>
     (\<exists>c hs. z_client Z w = Inr c \<and> ParseRPCBody (genc E) (gdec E) opt c True = Inr b \<and> hw_sent w = Some (200, hs) \<and>
        (\<forall>n. n \<notin> set compression_headers \<longrightarrow> hs n = [''X-Server'' \<mapsto> ''lucky'', ''x-content-type-options'' \<mapsto> ''nosniff''] n)) \<and>
     m_version m = ''2.0'' \<and> m_method m = [] \<and> m_params m = None \<and>
     m_id m = Some (case m_id msg of None \<Rightarrow> JNum ''1'' | Some j \<Rightarrow> j))"

definition served_by :: "rpc_ext \<Rightarrow> 'w server \<Rightarrow> bool" where
  "served_by E s \<longleftrightarrow> plain_server s \<and> s_run s \<and> goutil_codec (genc E) (gdec E) \<and>
     (\<forall>m. \<exists>b. json_write E (message_json (int_text E) m) = Inr b)"

text \<open>A request of such a client: the text of a JSON object, encrypted, and then packed as its header says.\<close>

definition sent_by_client :: "compression \<Rightarrow> rpc_ext \<Rightarrow> rpc_option \<Rightarrow> web_call \<Rightarrow> rpc_message \<Rightarrow> bool" where
  "sent_by_client Z E opt q msg \<longleftrightarrow> rq_method (wq_http q) = ''POST'' \<and> rq_content_length (wq_http q) \<le> maxRequestContentLength \<and>
     (\<exists>b c j ok. ParseRPCBody (genc E) (gdec E) opt b False = Inr c \<and> z_reader Z (wq_encoding q) (rq_body (wq_http q)) = Inr c \<and>
        json_read E b = Some j \<and> decode_message j no_message = (msg, ok))"

lemma encrypted_back:
  "goutil_codec enc dec \<Longrightarrow> ParseRPCBody enc dec opt b False = Inr c \<Longrightarrow> ParseRPCBody enc dec opt c True = Inr b"
  using ParseRPCBody_back [of enc dec opt b] by auto

lemma client_decodes:
  "goutil_codec (genc E) (gdec E) \<Longrightarrow> sent_by_client Z E opt q msg \<Longrightarrow> \<exists>ok. decodes_to E opt ((wq_http q)\<lparr>rq_body := z_reader Z (wq_encoding q) (rq_body (wq_http q))\<rparr>) msg ok"
  unfolding sent_by_client_def decodes_to_def by (auto simp: encrypted_back)

lemma served_by_key [simp]: "served_by E (web_server key s) = served_by E s"
  by (simp add: served_by_def web_server_def plain_server_def)

lemma web_rpc_clean: "clean_pool st \<Longrightarrow> clean_pool (snd (web_rpc Z E s world q token st))"
  using Acquire_subset [of world "wq_pick q" "ws_pool st"]
  by (auto simp: web_rpc_def Compression_def RPCServer2IrisHandler_def clean_pool_def pool_Release_def list_all_iff Let_def split: prod.splits)

lemma web_rpc_answers:
  assumes "served_by E s" "compression_ok Z" "sent_by_client Z E (s_opt s) q msg" "clean_pool st"
  shows "\<exists>w. fst (web_rpc Z E s world q token st) = Some w \<and> rpc_answer Z E (s_opt s) msg w"
proof -
  obtain x pool where acq: "pool_Acquire world (wq_pick q) (ws_pool st) = (x, pool)" by fastforce
  then have x: "d_msg (x_data x) = no_message"
    using assms(4) by (auto simp: clean_pool_def list_all_iff pool_Acquire_def new_Context_def split: option.splits if_splits)
  let ?r = "(wq_http q)\<lparr>rq_body := z_reader Z (wq_encoding q) (rq_body (wq_http q))\<rparr>"
  let ?hs = "[''X-Server'' \<mapsto> ''lucky'', ''x-content-type-options'' \<mapsto> ''nosniff'']"
  let ?w = "d_writer (x_data (server_Handler E s (BeginRequest web_writer ?r x)))"
  obtain ok where "decodes_to E (s_opt s) ?r msg ok" using client_decodes [of E Z "s_opt s" q msg] assms(1,3) by (auto simp: served_by_def)
  moreover have "hw_sent web_writer = None" "hw_body web_writer = []" "header_get ''Status-Written'' web_writer \<noteq> ''1''"
    "(hw_header web_writer)(''x-content-type-options'' \<mapsto> ''nosniff'', ''Status-Written'' := None) = ?hs"
    by (auto simp: web_writer_def new_writer_def header_set_def header_get_def fun_eq_iff)
  moreover have "\<forall>b. \<exists>c. ParseRPCBody (genc E) (gdec E) (s_opt s) b False = Inr c"
    using ParseRPCBody_back [of "genc E" "gdec E" "s_opt s"] assms(1) unfolding served_by_def by blast
  ultimately obtain m b where m: "json_write E (message_json (int_text E) m) = Inr b"
    "ParseRPCBody (genc E) (gdec E) (s_opt s) (hw_body ?w) True = Inr b" "hw_sent ?w = Some (200, ?hs)"
    "m_version m = ''2.0''" "m_method m = []" "m_params m = None"
    "m_id m = Some (case m_id msg of None \<Rightarrow> JNum ''1'' | Some j \<Rightarrow> j)"
    using Handler_answers [where s = s and r = ?r and E = E and msg = msg and ok = ok and x = x and ?w0.0 = web_writer] assms(1,3) x
    unfolding served_by_def sent_by_client_def by (auto simp: encrypted_back)
  from assms(2) m(3) obtain hs where "z_client Z (z_writer Z (wq_accept q) ?w) = Inr (hw_body ?w)"
    "hw_sent (z_writer Z (wq_accept q) ?w) = Some (200, hs)" "\<forall>n. n \<notin> set compression_headers \<longrightarrow> hs n = ?hs n"
    unfolding compression_ok_def by blast
  with m have "rpc_answer Z E (s_opt s) msg (z_writer Z (wq_accept q) ?w)" unfolding rpc_answer_def by blast
  then show ?thesis by (simp add: web_rpc_def Compression_def RPCServer2IrisHandler_def acq Let_def)
qed

lemma web_serve_outcome:
  fixes n :: nat and Z :: compression and E :: rpc_ext and key :: string and s :: "'w server" and world :: 'w
  assumes "allow (wq_path q @ '':'' @ wq_remote q) (ws_limiter st) = (ok, l)"
  defines "c \<equiv> web_serve n allow Z E key s world q st"
  shows "\<not> wq_others q < n \<Longrightarrow> wc_reply c = Some (BusyReply busy_message) \<and> wc_world c = st"
    and "wq_others q < n \<Longrightarrow> \<not> ok \<Longrightarrow> wc_reply c = Some (OftenReply often_message) \<and> wc_world c = st\<lparr>ws_limiter := l\<rparr>"
    and "wq_others q < n \<Longrightarrow> ok \<Longrightarrow> is_rpc q \<Longrightarrow>
      (case web_rpc Z E (web_server key s) world q [] (st\<lparr>ws_limiter := l\<rparr>) of (Some w, st') \<Rightarrow> wc_reply c = Some (RpcReply w) \<and> wc_world c = st' | _ \<Rightarrow> False)"
    and "wq_others q < n \<Longrightarrow> ok \<Longrightarrow> \<not> is_rpc q \<Longrightarrow> (\<forall>w. wc_reply c \<noteq> Some (RpcReply w)) \<and> wc_world c = st\<lparr>ws_limiter := l\<rparr>"
proof -
  have "web_allow allow (wq_path q @ '':'' @ wq_remote q) st = (ok, st\<lparr>ws_limiter := l\<rparr>)"
    using assms(1) by (simp add: web_allow_def)
  note o = request_outcome [of _ n "web_allow allow" "\<lambda>st. st" "web_rpc Z E (web_server key s) world q" _ "wq_method q" "wq_path q"
      "wq_remote q" "wq_others q" st, OF disjI1 [OF refl] refl this, folded web_serve_def]
  show "\<not> wq_others q < n \<Longrightarrow> wc_reply c = Some (BusyReply busy_message) \<and> wc_world c = st"
    and "wq_others q < n \<Longrightarrow> \<not> ok \<Longrightarrow> wc_reply c = Some (OftenReply often_message) \<and> wc_world c = st\<lparr>ws_limiter := l\<rparr>"
    using o by (simp_all add: c_def)
  assume "wq_others q < n" "ok"
  with o show "is_rpc q \<Longrightarrow>
      (case web_rpc Z E (web_server key s) world q [] (st\<lparr>ws_limiter := l\<rparr>) of (Some w, st') \<Rightarrow> wc_reply c = Some (RpcReply w) \<and> wc_world c = st' | _ \<Rightarrow> False)"
    and "\<not> is_rpc q \<Longrightarrow> (\<forall>w. wc_reply c \<noteq> Some (RpcReply w)) \<and> wc_world c = st\<lparr>ws_limiter := l\<rparr>"
    by (auto simp: c_def Let_def routes_def new_request_def is_rpc_def web_rpc_def split: prod.splits if_splits)
qed

section \<open>Any number of requests\<close>

text \<open>What the limits say: no room, or the verdict of the rate limiter, which is asked by path and address.\<close>

fun verdicts :: "nat \<Rightarrow> (string \<Rightarrow> 'l \<Rightarrow> bool \<times> 'l) \<Rightarrow> web_call list \<Rightarrow> 'l \<Rightarrow> bool option list" where
  "verdicts n allow [] l = []"
| "verdicts n allow (q # qs) l =
     (if wq_others q < n then let (ok, l) = allow (wq_path q @ '':'' @ wq_remote q) l in Some ok # verdicts n allow qs l
      else None # verdicts n allow qs l)"

definition answered :: "compression \<Rightarrow> rpc_ext \<Rightarrow> rpc_option \<Rightarrow> (web_call \<Rightarrow> rpc_message) \<Rightarrow> web_call \<times> bool option \<Rightarrow> http_writer web_reply option \<Rightarrow> bool" where
  "answered Z E opt msg qv rep \<longleftrightarrow> (case qv of (q, v) \<Rightarrow> (case v of
       None \<Rightarrow> rep = Some (BusyReply busy_message)
     | Some False \<Rightarrow> rep = Some (OftenReply often_message)
     | Some True \<Rightarrow> if is_rpc q then \<exists>w. rep = Some (RpcReply w) \<and> rpc_answer Z E opt (msg q) w
         else \<forall>w. rep \<noteq> Some (RpcReply w)))"

lemma serve_one:
  fixes n :: nat and key :: string and world :: 'w and allow :: "string \<Rightarrow> 'l \<Rightarrow> bool \<times> 'l"
  assumes "served_by E s" "compression_ok Z" "is_rpc q \<longrightarrow> sent_by_client Z E (s_opt (web_server key s)) q (msg q)" "clean_pool st"
  defines "c \<equiv> web_serve n allow Z E key s world q st" and "opt \<equiv> s_opt (web_server key s)"
  shows "clean_pool (wc_world c)"
    and "\<exists>v. verdicts n allow (q # qs) (ws_limiter st) = v # verdicts n allow qs (ws_limiter (wc_world c)) \<and> answered Z E opt msg (q, v) (wc_reply c)"
proof -
  obtain ok l where a: "allow (wq_path q @ '':'' @ wq_remote q) (ws_limiter st) = (ok, l)" by fastforce
  note o = web_serve_outcome [where allow = allow and q = q and st = st and n = n and Z = Z and E = E and key = key and s = s and world = world, OF a, folded c_def]
  let ?st = "st\<lparr>ws_limiter := l\<rparr>"
  have st: "clean_pool ?st" using assms(4) by (simp add: clean_pool_def)
  have v: "verdicts n allow (q # qs) (ws_limiter st) =
    (if wq_others q < n then Some ok # verdicts n allow qs l else None # verdicts n allow qs (ws_limiter st))"
    by (simp only: verdicts.simps a Let_def prod.case)
  have lim: "ws_limiter (snd (web_rpc Z E (web_server key s) world q [] ?st)) = l" by (simp add: web_rpc_def split: prod.splits)
  consider "\<not> wq_others q < n" | "wq_others q < n" "\<not> ok" | "wq_others q < n" ok "is_rpc q" | "wq_others q < n" ok "\<not> is_rpc q" by blast
  then have "clean_pool (wc_world c) \<and>
    (\<exists>v. verdicts n allow (q # qs) (ws_limiter st) = v # verdicts n allow qs (ws_limiter (wc_world c)) \<and> answered Z E opt msg (q, v) (wc_reply c))"
  proof cases
    case 1
    then show ?thesis using o(1) assms(4) by (simp add: answered_def v del: verdicts.simps)
  next
    case 2
    then show ?thesis using o(2) st by (simp add: answered_def v del: verdicts.simps)
  next
    case 3
    with web_rpc_answers [of E "web_server key s" Z, OF _ assms(2) _ st] assms(1,3) obtain w where w: "fst (web_rpc Z E (web_server key s) world q [] ?st) = Some w" "rpc_answer Z E opt (msg q) w"
      unfolding opt_def by (metis served_by_key)
    then have "wc_reply c = Some (RpcReply w)" "wc_world c = snd (web_rpc Z E (web_server key s) world q [] ?st)"
      using o(3) 3 by (auto split: prod.splits)
    with 3 w lim web_rpc_clean [OF st] show ?thesis by (simp add: answered_def v del: verdicts.simps)
  next
    case 4
    then show ?thesis using o(4) st by (simp add: answered_def v del: verdicts.simps)
  qed
  then show "clean_pool (wc_world c)"
    and "\<exists>v. verdicts n allow (q # qs) (ws_limiter st) = v # verdicts n allow qs (ws_limiter (wc_world c)) \<and> answered Z E opt msg (q, v) (wc_reply c)"
    by blast+
qed


text \<open>Two encrypted calls, and a request between them that finds no room. The compression of the example
  puts a byte in front of a body for a client that accepts it.\<close>

definition demo_compression :: compression where
  "demo_compression = \<lparr>z_reader = (\<lambda>e b. if e = ''x'' then map_sum id tl b else b),
     z_writer = (\<lambda>a w. if a = ''x'' then w\<lparr>hw_sent := map_option (\<lambda>(c, hs). (c, hs(''Content-Encoding'' \<mapsto> ''x''))) (hw_sent w),
         hw_body := 0 # hw_body w\<rparr> else w\<lparr>hw_sent := map_option (\<lambda>(c, hs). (c, hs(''Content-Encoding'' := None))) (hw_sent w)\<rparr>),
     z_client = (\<lambda>w. Inr (case hw_sent w of Some (c, hs) \<Rightarrow> if hs ''Content-Encoding'' = Some ''x'' then tl (hw_body w) else hw_body w
       | None \<Rightarrow> hw_body w))\<rparr>"


definition seven :: rpc_message where
  "seven = no_message\<lparr>m_id := Some (JNum ''7'')\<rparr>"

definition seven_ext :: rpc_ext where
  "seven_ext = (demo_ext (JObj [(''id'', JNum ''7'')]))\<lparr>genc := fixed_genc, gdec := fixed_gdec\<rparr>"

definition seven_key :: string where
  "seven_key = '' base64:0123456789abcdef ''"

definition demo_call :: "nat \<Rightarrow> web_call" where
  "demo_call k = \<lparr>wq_method = ''POST'', wq_path = ''/rpc'', wq_remote = ''1.2.3.4'', wq_encoding = ''x'', wq_accept = ''x'',
     wq_http = demo_request\<lparr>rq_body := (case ParseRPCBody fixed_genc fixed_gdec (s_opt (web_server seven_key demo_server)) [123, 125] False of
       Inl e \<Rightarrow> Inl e | Inr c \<Rightarrow> Inr (0 # c))\<rparr>, wq_others = k, wq_pick = Some 0\<rparr>"

lemma seven_served: "served_by seven_ext demo_server"
  by (simp add: served_by_def seven_ext_def plain_server_def demo_server_def demo_ext_def fixed_codec)

lemma seven_sent: "sent_by_client demo_compression seven_ext (s_opt (web_server seven_key demo_server)) (demo_call k) seven"
proof -
  obtain c where "ParseRPCBody fixed_genc fixed_gdec (s_opt (web_server seven_key demo_server)) [123, 125] False = Inr c"
    using ParseRPCBody_back [OF fixed_codec] by blast
  moreover have "decode_message (JObj [(''id'', JNum ''7'')]) no_message = (seven, True)"
    by (simp add: seven_def decode_message_def json_key_def strings_ToLower_def char_lower_def is_upper_def)
  ultimately show ?thesis
    by (auto simp: sent_by_client_def demo_compression_def demo_call_def seven_ext_def demo_ext_def demo_request_def maxRequestContentLength_def)
qed

lemma demo_compression_ok: "compression_ok demo_compression"
  by (simp add: compression_ok_def demo_compression_def compression_headers_def)


end
