(* ===== verification/Captcha_Check.thy ===== *)
theory Captcha_Check
  imports Prelude
begin

text \<open>
  The captcha of the web servers (\<open>giris/captcha.go\<close>; \<open>giris2/captcha.go\<close> is a copy): making one,
  the handler that sends its picture, and the check of an answer.

  Drawing and the store of open captchas are package \<open>base64Captcha\<close>'s: two functions on its state, with
  the laws \<open>captcha_store\<close>, which \<open>memory_lib\<close> gives for its default store in memory. Its check compares the stored
  text, an empty one when there is none, with the answer, both without the white space around them.
\<close>

record 's captcha_lib =
  cl_Generate :: "'s \<Rightarrow> (string, string \<times> string) result \<times> 's"
  cl_Verify :: "string \<Rightarrow> string \<Rightarrow> bool \<Rightarrow> 's \<Rightarrow> bool \<times> 's"

record CaptchaArg =
  ca_ID :: string
  ca_Answer :: string
  ca_Content :: string

definition removeBase64StringPrefix :: "string \<Rightarrow> string" where
  "removeBase64StringPrefix str = (let findFlag = ''base64,'' in
     case strings_Index str findFlag of None \<Rightarrow> str | Some i \<Rightarrow> drop (i + length findFlag) str)"

definition Captcha_Generate :: "'s captcha_lib \<Rightarrow> 's \<Rightarrow> (string, CaptchaArg) result \<times> 's" where
  "Captcha_Generate L s = (case cl_Generate L s of
       (Inl err, s) \<Rightarrow> (Inl err, s)
     | (Inr (ident, content), s) \<Rightarrow>
         (Inr \<lparr>ca_ID = ident, ca_Answer = [], ca_Content = removeBase64StringPrefix content\<rparr>, s))"

definition Captcha_Verify :: "'s captcha_lib \<Rightarrow> CaptchaArg option \<Rightarrow> 's \<Rightarrow> bool \<times> 's" where
  "Captcha_Verify L arg s = (case arg of
       None \<Rightarrow> (False, s)
     | Some a \<Rightarrow>
         if \<not> (ca_ID a \<noteq> [] \<and> ca_Answer a \<noteq> []) then (False, s)
         else cl_Verify L (ca_ID a) (ca_Answer a) True s)"

text \<open>The handler's answer: status, headers in the order they are set, and body. An empty value takes a header
  away; \<open>decode\<close> is what base64 decoding gives, an error dropped.\<close>

record captcha_answer =
  an_status :: nat
  an_headers :: "string \<Rightarrow> string option"
  an_body :: bytes

definition set_header :: "string \<times> string \<Rightarrow> (string \<Rightarrow> string option) \<Rightarrow> string \<Rightarrow> string option" where
  "set_header kv h = (case kv of (k, v) \<Rightarrow> h(k := if v = [] then None else Some v))"

definition captcha_headers :: "string \<Rightarrow> (string \<times> string) list" where
  "captcha_headers ident =
     [(''Content-Type'', ''image/png''), (''Cache-Control'', ''no-cache, no-store, must-revalidate''),
      (''Pragma'', ''no-cache''), (''Expires'', ''0''), (''Access-Control-Expose-Headers'', []),
      (''Access-Control-Expose-Headers'', ''Captcha-ID''), (''Captcha-ID'', ident)]"

definition Captcha_handler :: "'s captcha_lib \<Rightarrow> (string \<Rightarrow> bytes) \<Rightarrow> (string \<Rightarrow> string option) \<Rightarrow> 's \<Rightarrow> captcha_answer \<times> 's" where
  "Captcha_handler L decode h s = (case Captcha_Generate L s of
       (Inl err, s) \<Rightarrow> (\<lparr>an_status = 500, an_headers = h, an_body = []\<rparr>, s)
     | (Inr arg, s) \<Rightarrow> (\<lparr>an_status = 200, an_headers = fold set_header (captcha_headers (ca_ID arg)) h, an_body = decode (ca_Content arg)\<rparr>, s))"

section \<open>Runs\<close>

datatype captcha_op = Make | Check "CaptchaArg option"

definition captcha_step :: "'s captcha_lib \<Rightarrow> captcha_op \<Rightarrow> 's \<Rightarrow> 's" where
  "captcha_step L op s = (case op of Make \<Rightarrow> snd (Captcha_Generate L s) | Check arg \<Rightarrow> snd (Captcha_Verify L arg s))"

text \<open>The ids that captchas are made with in a run.\<close>

fun made_ids :: "'s captcha_lib \<Rightarrow> captcha_op list \<Rightarrow> 's \<Rightarrow> string list" where
  "made_ids L [] s = []"
| "made_ids L (op # ops) s =
     (case (op, fst (Captcha_Generate L s)) of (Make, Inr arg) \<Rightarrow> [ca_ID arg] | _ \<Rightarrow> []) @ made_ids L ops (captcha_step L op s)"

locale captcha_store =
  fixes L :: "'s captcha_lib" and answer_of :: "'s \<Rightarrow> string \<Rightarrow> string option"
  assumes verify: "cl_Verify L ident ans True s = (b, s') \<Longrightarrow>
      (b \<longleftrightarrow> strings_TrimSpace (case answer_of s ident of None \<Rightarrow> [] | Some v \<Rightarrow> v) = strings_TrimSpace ans) \<and>
      answer_of s' = (answer_of s)(ident := None)"
    and generated: "cl_Generate L s = (Inr (ident, content), s') \<Longrightarrow> answer_of s' k \<noteq> answer_of s k \<Longrightarrow> k = ident \<or> answer_of s' k = None"
    and failed: "cl_Generate L s = (Inl err, s') \<Longrightarrow> answer_of s' k \<noteq> answer_of s k \<Longrightarrow> answer_of s' k = None"
begin

lemma closed_kept:
  assumes "answer_of s ident = None" "ident \<notin> set (made_ids L [op] s)"
  shows "answer_of (captcha_step L op s) ident = None"
proof (cases op)
  case Make
  show ?thesis
  proof (cases "cl_Generate L s")
    case (Pair r s')
    show ?thesis
    proof (cases r)
      case (Inl e)
      with Pair Make assms(1) failed [of s e s' ident] show ?thesis
        by (cases "answer_of s' ident") (auto simp: captcha_step_def Captcha_Generate_def)
    next
      case (Inr ic)
      then obtain i c where "cl_Generate L s = (Inr (i, c), s')" using Pair by (cases ic) auto
      with Make assms generated [of s i c s' ident] show ?thesis
        by (cases "answer_of s' ident") (auto simp: captcha_step_def Captcha_Generate_def)
    qed
  qed
next
  case (Check arg)
  show ?thesis
  proof (cases arg)
    case (Some a)
    with Check assms(1) verify [of "ca_ID a" "ca_Answer a" s] show ?thesis
      by (cases "cl_Verify L (ca_ID a) (ca_Answer a) True s") (auto simp: captcha_step_def Captcha_Verify_def)
  qed (use Check assms(1) in \<open>simp add: captcha_step_def Captcha_Verify_def\<close>)
qed

lemma run_closed:
  "answer_of s ident = None \<Longrightarrow> ident \<notin> set (made_ids L ops s) \<Longrightarrow> answer_of (fold (captcha_step L) ops s) ident = None"
proof (induction ops arbitrary: s)
  case (Cons op ops)
  then have "answer_of (captcha_step L op s) ident = None" by (intro closed_kept) auto
  with Cons show ?case by simp
qed simp

lemma one_guess:
  assumes "ca_ID a \<noteq> []" "ca_Answer a \<noteq> []" "Captcha_Verify L (Some a) s = (b, s1)"
    "ca_ID a \<notin> set (made_ids L ops s1)" "ca_ID a' = ca_ID a"
  shows "(strings_TrimSpace (ca_Answer a) \<noteq> [] \<longrightarrow>
      (b \<longleftrightarrow> (\<exists>v. answer_of s (ca_ID a) = Some v \<and> strings_TrimSpace v = strings_TrimSpace (ca_Answer a)))) \<and>
    (fst (Captcha_Verify L (Some a') (fold (captcha_step L) ops s1)) \<longleftrightarrow> ca_Answer a' \<noteq> [] \<and> strings_TrimSpace (ca_Answer a') = [])"
proof -
  have empty: "strings_TrimSpace [] = []" by (simp add: strings_TrimSpace_def)
  have v: "cl_Verify L (ca_ID a) (ca_Answer a) True s = (b, s1)" using assms(1-3) by (simp add: Captcha_Verify_def)
  from verify [OF v] have n: "answer_of s1 (ca_ID a) = None"
    and b: "b \<longleftrightarrow> strings_TrimSpace (case answer_of s (ca_ID a) of None \<Rightarrow> [] | Some v \<Rightarrow> v) = strings_TrimSpace (ca_Answer a)" by simp_all
  have "fst (cl_Verify L (ca_ID a) ans True (fold (captcha_step L) ops s1)) \<longleftrightarrow> strings_TrimSpace ans = []" for ans
    using verify [of "ca_ID a" ans "fold (captcha_step L) ops s1"] run_closed [OF n assms(4)] empty
    by (cases "cl_Verify L (ca_ID a) ans True (fold (captcha_step L) ops s1)") auto
  then show ?thesis using assms(1,5) b empty by (auto simp: Captcha_Verify_def split: option.splits)
qed

end

section \<open>The default store\<close>

text \<open>The open captchas with their answers, and the captchas still to be drawn: id, answer and picture.\<close>

type_synonym memory_store = "(string \<Rightarrow> string option) \<times> (string \<times> string \<times> string) list"

definition memory_lib :: "memory_store captcha_lib" where
  "memory_lib = \<lparr>
     cl_Generate = (\<lambda>(m, ds). case ds of [] \<Rightarrow> (Inl ''draw'', (m, ds)) | (i, a, c) # ds \<Rightarrow> (Inr (i, c), (m(i \<mapsto> a), ds))),
     cl_Verify = (\<lambda>i a clear (m, ds).
       (strings_TrimSpace (case m i of None \<Rightarrow> [] | Some v \<Rightarrow> v) = strings_TrimSpace a, (if clear then m(i := None) else m, ds)))\<rparr>"

interpretation memory: captcha_store memory_lib fst
  by unfold_locales (auto simp: memory_lib_def split: list.splits prod.splits if_splits)

text \<open>C38: An answer that is not blank is accepted exactly when the captcha is open and it is the
  right one, but for white space around it. Whether it was right or wrong, that closes the captcha: whatever is made and checked
  in between, until a captcha with that id is made again every later answer to it is refused, except
  one of white space only, which the test for an empty answer lets through and which is accepted.\<close>

theorem captcha_one_guess:
  assumes "captcha_store L answer_of" "ca_ID a \<noteq> []" "ca_Answer a \<noteq> []" "Captcha_Verify L (Some a) s = (b, s1)"
    "ca_ID a \<notin> set (made_ids L ops s1)" "ca_ID a' = ca_ID a"
  shows "(strings_TrimSpace (ca_Answer a) \<noteq> [] \<longrightarrow>
      (b \<longleftrightarrow> (\<exists>v. answer_of s (ca_ID a) = Some v \<and> strings_TrimSpace v = strings_TrimSpace (ca_Answer a)))) \<and>
    (fst (Captcha_Verify L (Some a') (fold (captcha_step L) ops s1)) \<longleftrightarrow> ca_Answer a' \<noteq> [] \<and> strings_TrimSpace (ca_Answer a') = [])"
  using captcha_store.one_guess [OF assms] .

text \<open>A wrong answer, a captcha made, and the right answer: too late. A blank one is accepted.\<close>

theorem captcha_one_guess_witness:
  "let s = fold (captcha_step memory_lib) [Make] ([''k'' \<mapsto> ''1234''](''k'' := None), [(''j'', ''5'', ''p'')]) in
   \<not> fst (Captcha_Verify memory_lib (Some \<lparr>ca_ID = ''k'', ca_Answer = ''1234'', ca_Content = []\<rparr>) s) \<and>
   fst (Captcha_Verify memory_lib (Some \<lparr>ca_ID = ''k'', ca_Answer = '' '', ca_Content = []\<rparr>) s)"
proof -
  let ?a = "\<lambda>t. \<lparr>ca_ID = ''k'', ca_Answer = t, ca_Content = []\<rparr>"
  let ?s1 = "([''k'' \<mapsto> ''1234''](''k'' := None), [(''j'', ''5'', ''p'')]) :: memory_store"
  have trim: "strings_TrimSpace ''1234'' = ''1234''" "strings_TrimSpace ''9'' = ''9''" "strings_TrimSpace '' '' = []" by code_simp+
  have v: "Captcha_Verify memory_lib (Some (?a ''9'')) ([''k'' \<mapsto> ''1234''], [(''j'', ''5'', ''p'')]) = (False, ?s1)"
    by (simp add: Captcha_Verify_def memory_lib_def trim)
  have i: "ca_ID (?a ''9'') \<notin> set (made_ids memory_lib [Make] ?s1)" by (simp add: memory_lib_def Captcha_Generate_def)
  from captcha_one_guess [OF memory.captcha_store_axioms _ _ v i, of "?a ''1234''"]
    captcha_one_guess [OF memory.captcha_store_axioms _ _ v i, of "?a '' ''"]
  show ?thesis by (simp add: trim Let_def del: fold_simps)
qed

text \<open>What is sent: the picture behind the first \<open>base64,\<close>, its id in the header that scripts may read.\<close>

lemma prefix_removed: "strings_Index (p @ ''base64,'' @ c) ''base64,'' = Some (length p) \<Longrightarrow>
  removeBase64StringPrefix (p @ ''base64,'' @ c) = c"
  by (simp add: removeBase64StringPrefix_def)

lemma handler_headers:
  assumes "Captcha_Generate L s = (Inr arg, s')" "ca_ID arg \<noteq> []"
  shows "an_headers (fst (Captcha_handler L decode h s)) ''Captcha-ID'' = Some (ca_ID arg) \<and>
    an_headers (fst (Captcha_handler L decode h s)) ''Access-Control-Expose-Headers'' = Some ''Captcha-ID'' \<and>
    an_body (fst (Captcha_handler L decode h s)) = decode (ca_Content arg)"
  using assms by (simp add: Captcha_handler_def captcha_headers_def set_header_def)

end
