(* ===== verification/Validator.thy ===== *)
theory Validator
  imports Prelude
begin

text \<open>
  The validation rules of \<open>util/validator.go\<close>: the regular expressions behind the tags for
  passwords, mail addresses, mobile numbers and user names, the order in which they are
  registered, and the translation of an error.

  The expressions are kept as the source writes them, as terms, with their language as the
  meaning and a matcher by derivatives that decides it. A text is the list of its code points, as
  the matcher of Go's \<open>regexp\<close> reads it. Every expression of the source is anchored at both
  ends, so matching is membership in the language. The validator package is an argument.
\<close>

section \<open>Regular expressions\<close>

type_synonym rune = nat

datatype rx = RxNone | RxEmpty | RxSet "rune \<Rightarrow> bool" | RxSeq rx rx | RxOr rx rx | RxStar rx

inductive_set star_of :: "rune list set \<Rightarrow> rune list set" for L where
  star_empty: "[] \<in> star_of L"
| star_more: "u \<in> L \<Longrightarrow> w \<in> star_of L \<Longrightarrow> u @ w \<in> star_of L"

fun lang_of :: "rx \<Rightarrow> rune list set" where
  "lang_of RxNone = {}"
| "lang_of RxEmpty = {[]}"
| "lang_of (RxSet p) = {[c] |c. p c}"
| "lang_of (RxSeq r q) = {u @ w |u w. u \<in> lang_of r \<and> w \<in> lang_of q}"
| "lang_of (RxOr r q) = lang_of r \<union> lang_of q"
| "lang_of (RxStar r) = star_of (lang_of r)"

fun rx_nullable :: "rx \<Rightarrow> bool" where
  "rx_nullable RxNone = False"
| "rx_nullable RxEmpty = True"
| "rx_nullable (RxSet p) = False"
| "rx_nullable (RxSeq r q) = (rx_nullable r \<and> rx_nullable q)"
| "rx_nullable (RxOr r q) = (rx_nullable r \<or> rx_nullable q)"
| "rx_nullable (RxStar r) = True"

fun rx_after :: "rune \<Rightarrow> rx \<Rightarrow> rx" where
  "rx_after c RxNone = RxNone"
| "rx_after c RxEmpty = RxNone"
| "rx_after c (RxSet p) = (if p c then RxEmpty else RxNone)"
| "rx_after c (RxSeq r q) =
     (if rx_nullable r then RxOr (RxSeq (rx_after c r) q) (rx_after c q) else RxSeq (rx_after c r) q)"
| "rx_after c (RxOr r q) = RxOr (rx_after c r) (rx_after c q)"
| "rx_after c (RxStar r) = RxSeq (rx_after c r) (RxStar r)"

definition MatchString :: "rx \<Rightarrow> rune list \<Rightarrow> bool" where
  "MatchString r s = rx_nullable (fold rx_after s r)"

lemma rx_nullable_lang: "rx_nullable r \<longleftrightarrow> [] \<in> lang_of r"
  by (induction r) (auto intro: star_empty)

lemma star_of_Cons:
  assumes "c # s \<in> star_of L"
  shows "\<exists>u w. s = u @ w \<and> c # u \<in> L \<and> w \<in> star_of L"
proof -
  have "\<exists>u w. s = u @ w \<and> c # u \<in> L \<and> w \<in> star_of L" if "v \<in> star_of L" "v = c # s" for v
    using that by (induction arbitrary: s) (auto simp: append_eq_Cons_conv)
  with assms show ?thesis by blast
qed

lemma rx_after_lang: "s \<in> lang_of (rx_after c r) \<longleftrightarrow> c # s \<in> lang_of r"
proof (induction r arbitrary: s)
  case (RxSeq r q)
  then show ?case by (auto simp: rx_nullable_lang Cons_eq_append_conv)
next
  case (RxStar r)
  then show ?case using star_more [of "c # _" "lang_of r"] by (auto dest: star_of_Cons)
qed auto

lemma MatchString_lang: "MatchString r s \<longleftrightarrow> s \<in> lang_of r"
  unfolding MatchString_def
  by (induction s arbitrary: r) (simp_all add: rx_nullable_lang rx_after_lang)

section \<open>The notation of the source\<close>

text \<open>\<open>r+\<close>, \<open>r{n}\<close> and \<open>r{n,m}\<close>.\<close>

definition rx_plus :: "rx \<Rightarrow> rx" where "rx_plus r = RxSeq r (RxStar r)"

fun rx_times :: "nat \<Rightarrow> rx \<Rightarrow> rx" where
  "rx_times 0 r = RxEmpty"
| "rx_times (Suc n) r = RxSeq r (rx_times n r)"

fun rx_upto :: "nat \<Rightarrow> rx \<Rightarrow> rx" where
  "rx_upto 0 r = RxEmpty"
| "rx_upto (Suc n) r = RxOr RxEmpty (RxSeq r (rx_upto n r))"

definition rx_between :: "nat \<Rightarrow> nat \<Rightarrow> rx \<Rightarrow> rx" where
  "rx_between n m r = RxSeq (rx_times n r) (rx_upto (m - n) r)"

definition rune :: "char \<Rightarrow> rune" where "rune c = of_char c"

definition in_range :: "char \<Rightarrow> char \<Rightarrow> rune \<Rightarrow> bool" where
  "in_range a b x \<longleftrightarrow> rune a \<le> x \<and> x \<le> rune b"

text \<open>The classes \<open>\d\<close>, \<open>\w\<close>, \<open>\s\<close> are those of ASCII; the point is any code point but a newline.\<close>

definition rx_digit :: "rune \<Rightarrow> bool" where "rx_digit = in_range CHR ''0'' CHR ''9''"

definition rx_upper :: "rune \<Rightarrow> bool" where "rx_upper = in_range CHR ''A'' CHR ''Z''"

definition rx_lower :: "rune \<Rightarrow> bool" where "rx_lower = in_range CHR ''a'' CHR ''z''"

definition rx_word :: "rune \<Rightarrow> bool" where
  "rx_word x \<longleftrightarrow> rx_digit x \<or> rx_upper x \<or> rx_lower x \<or> x = rune CHR ''_''"

definition rx_blank :: "rune \<Rightarrow> bool" where
  "rx_blank x \<longleftrightarrow> x \<in> {9, 10, 12, 13, 32}"

definition rx_char :: "char \<Rightarrow> rx" where "rx_char c = RxSet (\<lambda>x. x = rune c)"

definition rx_dot :: rx where "rx_dot = RxSet (\<lambda>x. x \<noteq> 10)"

section \<open>The rules\<close>

text \<open>\<open>^\S{8,24}$\<close>, \<open>^.*[A-Z]+.*$\<close>, \<open>^.*[a-z]+.*$\<close>, \<open>^.*\d+.*$\<close>\<close>

definition somewhere :: "(rune \<Rightarrow> bool) \<Rightarrow> rx" where
  "somewhere p = RxSeq (RxStar rx_dot) (RxSeq (rx_plus (RxSet p)) (RxStar rx_dot))"

definition password_rule :: "rune list \<Rightarrow> bool" where
  "password_rule str =
     (if \<not> MatchString (rx_between 8 24 (RxSet (\<lambda>x. \<not> rx_blank x))) str then False
      else if \<not> MatchString (somewhere rx_upper) str then False
      else if \<not> MatchString (somewhere rx_lower) str then False
      else if \<not> MatchString (somewhere rx_digit) str then False
      else True)"

text \<open>\<open>^(\w)+(\.\w+)*@(\w)+((\.\w+)+)$\<close>\<close>

definition email_rule :: "rune list \<Rightarrow> bool" where
  "email_rule = MatchString
     (RxSeq (rx_plus (RxSet rx_word)) (RxSeq (RxStar (RxSeq (rx_char CHR ''.'') (rx_plus (RxSet rx_word))))
       (RxSeq (rx_char CHR ''@'') (RxSeq (rx_plus (RxSet rx_word))
         (rx_plus (RxSeq (rx_char CHR ''.'') (rx_plus (RxSet rx_word))))))))"

text \<open>\<open>^1[3456789]\d{9}$\<close>\<close>

definition mobile_rule :: "rune list \<Rightarrow> bool" where
  "mobile_rule = MatchString
     (RxSeq (rx_char CHR ''1'') (RxSeq (RxSet (in_range CHR ''3'' CHR ''9'')) (rx_times 9 (RxSet rx_digit))))"

text \<open>\<open>^\w{5,15}$\<close>\<close>

definition username_rule :: "rune list \<Rightarrow> bool" where
  "username_rule = MatchString (rx_between 5 15 (RxSet rx_word))"

section \<open>Registration\<close>

datatype rule = PasswordRule | EmailRule | MobileRule | UsernameRule

fun rule_check :: "rule \<Rightarrow> rune list \<Rightarrow> bool" where
  "rule_check PasswordRule = password_rule"
| "rule_check EmailRule = email_rule"
| "rule_check MobileRule = mobile_rule"
| "rule_check UsernameRule = username_rule"

fun rule_tags :: "rule \<Rightarrow> string list" where
  "rule_tags PasswordRule = [''password'', ''pwd'', ''user_password'', ''user_pwd'']"
| "rule_tags EmailRule = [''email'', ''mail'']"
| "rule_tags MobileRule = [''mobile'', ''phone'', ''tel'', ''telephone'']"
| "rule_tags UsernameRule = [''account'', ''username'', ''account_name'', ''user_account'']"

text \<open>Registering a validation and its text can fail, which is the validator package's choice; the
  first error ends the registration.\<close>

type_synonym rules = "string \<Rightarrow> rule option"

definition validatorRegValidation ::
  "(string \<Rightarrow> string option) \<Rightarrow> (string \<Rightarrow> string option) \<Rightarrow> string \<Rightarrow> rule \<Rightarrow> rules \<Rightarrow> string option \<times> rules" where
  "validatorRegValidation reg_err text_err tag r m =
     (case reg_err tag of
        Some e \<Rightarrow> (Some e, m)
      | None \<Rightarrow> (text_err tag, m(tag \<mapsto> r)))"

fun register_all ::
  "(string \<Rightarrow> string option) \<Rightarrow> (string \<Rightarrow> string option) \<Rightarrow> (string \<times> rule) list \<Rightarrow> rules \<Rightarrow> string option \<times> rules" where
  "register_all re te [] m = (None, m)"
| "register_all re te ((tag, r) # ts) m =
     (case validatorRegValidation re te tag r m of
        (Some e, m) \<Rightarrow> (Some e, m) | (None, m) \<Rightarrow> register_all re te ts m)"

definition reg_rule :: "(string \<Rightarrow> string option) \<Rightarrow> (string \<Rightarrow> string option) \<Rightarrow> rule \<Rightarrow> rules \<Rightarrow> string option \<times> rules" where
  "reg_rule re te r m = register_all re te (map (\<lambda>t. (t, r)) (rule_tags r)) m"

definition regPassword :: "(string \<Rightarrow> string option) \<Rightarrow> (string \<Rightarrow> string option) \<Rightarrow> rules \<Rightarrow> string option \<times> rules" where
  "regPassword re te m = reg_rule re te PasswordRule m"

definition regTranslationEmail :: "(string \<Rightarrow> string option) \<Rightarrow> (string \<Rightarrow> string option) \<Rightarrow> rules \<Rightarrow> string option \<times> rules" where
  "regTranslationEmail re te m = reg_rule re te EmailRule m"

definition regTranslationMobile :: "(string \<Rightarrow> string option) \<Rightarrow> (string \<Rightarrow> string option) \<Rightarrow> rules \<Rightarrow> string option \<times> rules" where
  "regTranslationMobile re te m = reg_rule re te MobileRule m"

definition regTranslationUsername :: "(string \<Rightarrow> string option) \<Rightarrow> (string \<Rightarrow> string option) \<Rightarrow> rules \<Rightarrow> string option \<times> rules" where
  "regTranslationUsername re te m = reg_rule re te UsernameRule m"

definition initialize :: "(string \<Rightarrow> string option) \<Rightarrow> (string \<Rightarrow> string option) \<Rightarrow> string option \<Rightarrow> string option \<times> rules" where
  "initialize re te default_err =
     (case default_err of Some e \<Rightarrow> (Some e, Map.empty)
      | None \<Rightarrow> fold (\<lambda>fn (e, m). case e of Some e \<Rightarrow> (Some e, m) | None \<Rightarrow> fn m)
          [regPassword re te, regTranslationEmail re te, regTranslationMobile re te, regTranslationUsername re te] (None, Map.empty))"

text \<open>The start of the process stops when a registration fails; the validator and its translator are only set before that.\<close>

definition Validator_Constructor :: "(string \<Rightarrow> string option) \<Rightarrow> (string \<Rightarrow> string option) \<Rightarrow> string option \<Rightarrow> (string, rules) result" where
  "Validator_Constructor re te default_err = (case initialize re te default_err of (Some e, _) \<Rightarrow> Inl e | (None, m) \<Rightarrow> Inr m)"

section \<open>Translating errors\<close>

text \<open>The errors of the validator package: those of fields, each with its translation, the error for a value it
  cannot check, and any other error.\<close>

datatype valid_error = FieldErrors "string list" | InvalidValidation string | OtherError string

text \<open>The message before the second kind is the UTF-8 of the words for \<open>parameter error\<close>.\<close>

definition TranslateZh :: "valid_error option \<Rightarrow> string option" where
  "TranslateZh es = (case es of
       None \<Rightarrow> None
     | Some (FieldErrors ts) \<Rightarrow> Some (strings_Join ts '','')
     | Some (InvalidValidation e) \<Rightarrow>
         Some ([CHR 0xE5, CHR 0x8F, CHR 0x82, CHR 0xE6, CHR 0x95, CHR 0xB0, CHR 0xE9, CHR 0x94, CHR 0x99,
                CHR 0xE8, CHR 0xAF, CHR 0xAF, CHR 0x3A] @ e)
     | Some (OtherError e) \<Rightarrow> Some e)"

definition ValidAndTranslateZh :: "('o \<Rightarrow> valid_error option) \<Rightarrow> 'o \<Rightarrow> string option" where
  "ValidAndTranslateZh check x = TranslateZh (check x)"

definition ValidVarWithTransZh :: "('o \<Rightarrow> string \<Rightarrow> valid_error option) \<Rightarrow> 'o \<Rightarrow> string \<Rightarrow> string option" where
  "ValidVarWithTransZh check x tag = TranslateZh (check x tag)"

definition ValidateStruct :: "('o \<Rightarrow> valid_error option) \<Rightarrow> 'o option \<Rightarrow> string option" where
  "ValidateStruct check obj = (case obj of None \<Rightarrow> None | Some x \<Rightarrow> ValidAndTranslateZh check x)"

section \<open>What the rules accept\<close>

named_theorems rx_lang

lemma star_of_iff: "s \<in> star_of L \<longleftrightarrow> (\<exists>ws. s = concat ws \<and> set ws \<subseteq> L)"
proof
  show "s \<in> star_of L \<Longrightarrow> \<exists>ws. s = concat ws \<and> set ws \<subseteq> L"
  proof (induction rule: star_of.induct)
    case star_empty
    show ?case by (intro exI [of _ "[]"]) simp
  next
    case (star_more u w)
    then obtain ws where "w = concat ws" "set ws \<subseteq> L" by blast
    with star_more(1) show ?case by (intro exI [of _ "u # ws"]) simp
  qed
next
  have "concat ws \<in> star_of L" if "set ws \<subseteq> L" for ws
    using that by (induction ws) (auto intro: star_of.intros)
  then show "\<exists>ws. s = concat ws \<and> set ws \<subseteq> L \<Longrightarrow> s \<in> star_of L" by blast
qed

declare lang_of.simps(4,6) [simp del]

lemma seq_lang: "s \<in> lang_of (RxSeq r q) \<longleftrightarrow> (\<exists>u w. s = u @ w \<and> u \<in> lang_of r \<and> w \<in> lang_of q)"
  by (auto simp: lang_of.simps(4))

lemma seq_set: "s \<in> lang_of (RxSeq (RxSet p) r) \<longleftrightarrow> (case s of [] \<Rightarrow> False | c # w \<Rightarrow> p c \<and> w \<in> lang_of r)"
proof
  assume "case s of [] \<Rightarrow> False | c # w \<Rightarrow> p c \<and> w \<in> lang_of r"
  then obtain c w where "s = [c] @ w" "[c] \<in> lang_of (RxSet p)" "w \<in> lang_of r" by (cases s) auto
  then show "s \<in> lang_of (RxSeq (RxSet p) r)" unfolding seq_lang by blast
qed (auto simp: seq_lang)

lemma star_set [rx_lang]: "s \<in> lang_of (RxStar (RxSet p)) \<longleftrightarrow> (\<forall>x \<in> set s. p x)"
proof -
  have "s \<in> star_of {[c] |c. p c} \<Longrightarrow> \<forall>x \<in> set s. p x" by (induction rule: star_of.induct) auto
  moreover have "\<forall>x \<in> set s. p x \<Longrightarrow> s \<in> star_of {[c] |c. p c}"
  proof (induction s)
    case (Cons x s)
    from Cons.prems have "[x] \<in> {[c] |c. p c}" by simp
    from star_more [OF this Cons.IH] Cons.prems show ?case by simp
  qed (rule star_empty)
  ultimately show ?thesis unfolding lang_of.simps(3,6) by blast
qed

lemma plus_set [rx_lang]: "s \<in> lang_of (rx_plus (RxSet p)) \<longleftrightarrow> s \<noteq> [] \<and> (\<forall>x \<in> set s. p x)"
  by (cases s) (auto simp: rx_plus_def seq_set star_set)

lemma times_set [rx_lang]: "s \<in> lang_of (rx_times n (RxSet p)) \<longleftrightarrow> length s = n \<and> (\<forall>x \<in> set s. p x)"
  by (induction n arbitrary: s) (auto simp: seq_set split: list.splits)

lemma upto_set [rx_lang]: "s \<in> lang_of (rx_upto n (RxSet p)) \<longleftrightarrow> length s \<le> n \<and> (\<forall>x \<in> set s. p x)"
  by (induction n arbitrary: s) (auto simp: seq_set split: list.splits)

lemma between_set [rx_lang]:
  assumes "n \<le> m"
  shows "s \<in> lang_of (rx_between n m (RxSet p)) \<longleftrightarrow> n \<le> length s \<and> length s \<le> m \<and> (\<forall>x \<in> set s. p x)"
proof
  show "s \<in> lang_of (rx_between n m (RxSet p)) \<Longrightarrow> n \<le> length s \<and> length s \<le> m \<and> (\<forall>x \<in> set s. p x)"
    using assms by (auto simp: rx_between_def seq_lang rx_lang)
next
  assume s: "n \<le> length s \<and> length s \<le> m \<and> (\<forall>x \<in> set s. p x)"
  then have "s = take n s @ drop n s" "take n s \<in> lang_of (rx_times n (RxSet p))" "drop n s \<in> lang_of (rx_upto (m - n) (RxSet p))"
    by (auto simp: rx_lang dest: in_set_takeD in_set_dropD)
  then show "s \<in> lang_of (rx_between n m (RxSet p))" unfolding rx_between_def seq_lang by blast
qed

lemma somewhere_lang:
  assumes "10 \<notin> set s"
  shows "s \<in> lang_of (somewhere p) \<longleftrightarrow> (\<exists>x \<in> set s. p x)"
proof
  assume "s \<in> lang_of (somewhere p)"
  then obtain u v w where "s = u @ v @ w" "v \<noteq> []" "\<forall>x \<in> set v. p x"
    unfolding somewhere_def seq_lang plus_set by blast
  then show "\<exists>x \<in> set s. p x" by (cases v) auto
next
  assume "\<exists>x \<in> set s. p x"
  then obtain x u w where s: "s = u @ x # w" "p x" by (meson split_list)
  have dot: "v \<in> lang_of (RxStar rx_dot)" if "10 \<notin> set v" for v using that unfolding rx_dot_def star_set by auto
  have x: "[x] \<in> lang_of (rx_plus (RxSet p))" using s by (simp add: plus_set)
  from s assms have "u \<in> lang_of (RxStar rx_dot)" "w \<in> lang_of (RxStar rx_dot)" by (auto intro: dot)
  moreover have "s = u @ ([x] @ w)" using s by simp
  ultimately show "s \<in> lang_of (somewhere p)" unfolding somewhere_def seq_lang using x by blast
qed

text \<open>Words with a separator in front of each, and between them.\<close>

definition dotted :: "rune list list \<Rightarrow> rune list" where
  "dotted ws = hd ws @ concat (map (\<lambda>w. rune CHR ''.'' # w) (tl ws))"

definition plain_word :: "rune list \<Rightarrow> bool" where
  "plain_word w \<longleftrightarrow> w \<noteq> [] \<and> (\<forall>x \<in> set w. rx_word x)"

lemma dots_lang:
  "s \<in> lang_of (RxStar (RxSeq (rx_char CHR ''.'') (rx_plus (RxSet rx_word)))) \<longleftrightarrow>
    (\<exists>ws. s = concat (map (\<lambda>w. rune CHR ''.'' # w) ws) \<and> list_all plain_word ws)"
proof -
  have L: "lang_of (RxSeq (rx_char CHR ''.'') (rx_plus (RxSet rx_word))) = {rune CHR ''.'' # w |w. plain_word w}"
    by (auto simp: rx_char_def plain_word_def rx_lang seq_set split: list.splits)
  have "(\<exists>vs. s = concat vs \<and> set vs \<subseteq> {rune CHR ''.'' # w |w. plain_word w}) \<longleftrightarrow>
      (\<exists>ws. s = concat (map (\<lambda>w. rune CHR ''.'' # w) ws) \<and> list_all plain_word ws)"
  proof
    assume "\<exists>vs. s = concat vs \<and> set vs \<subseteq> {rune CHR ''.'' # w |w. plain_word w}"
    then obtain vs where vs: "s = concat vs" "set vs \<subseteq> {rune CHR ''.'' # w |w. plain_word w}" by blast
    from vs(2) have "vs = map (\<lambda>w. rune CHR ''.'' # w) (map tl vs)" "list_all plain_word (map tl vs)"
      by (induction vs) auto
    with vs(1) show "\<exists>ws. s = concat (map (\<lambda>w. rune CHR ''.'' # w) ws) \<and> list_all plain_word ws" by metis
  next
    assume "\<exists>ws. s = concat (map (\<lambda>w. rune CHR ''.'' # w) ws) \<and> list_all plain_word ws"
    then obtain ws where "s = concat (map (\<lambda>w. rune CHR ''.'' # w) ws)" "list_all plain_word ws" by blast
    then show "\<exists>vs. s = concat vs \<and> set vs \<subseteq> {rune CHR ''.'' # w |w. plain_word w}"
      by (intro exI [of _ "map (\<lambda>w. rune CHR ''.'' # w) ws"]) (auto simp: list_all_iff)
  qed
  then show ?thesis unfolding lang_of.simps(6) star_of_iff L .
qed

abbreviation rx_dots :: rx where
  "rx_dots \<equiv> RxSeq (rx_char CHR ''.'') (rx_plus (RxSet rx_word))"

lemma dotted_Cons: "dotted (w # ws) = w @ concat (map (\<lambda>w. rune CHR ''.'' # w) ws)"
  by (simp add: dotted_def)

lemma plain_plus: "w \<in> lang_of (rx_plus (RxSet rx_word)) \<longleftrightarrow> plain_word w"
  by (auto simp: plus_set plain_word_def)

lemma email_head:
  "s \<in> lang_of (RxSeq (rx_plus (RxSet rx_word)) (RxSeq (RxStar rx_dots) q)) \<longleftrightarrow>
    (\<exists>us t. s = dotted us @ t \<and> us \<noteq> [] \<and> list_all plain_word us \<and> t \<in> lang_of q)"
proof
  assume "s \<in> lang_of (RxSeq (rx_plus (RxSet rx_word)) (RxSeq (RxStar rx_dots) q))"
  then obtain w ws t where "s = w @ concat (map (\<lambda>w. rune CHR ''.'' # w) ws) @ t" "plain_word w" "list_all plain_word ws" "t \<in> lang_of q"
    unfolding seq_lang [of s] seq_lang [of _ "RxStar rx_dots"] dots_lang plain_plus by blast
  then show "\<exists>us t. s = dotted us @ t \<and> us \<noteq> [] \<and> list_all plain_word us \<and> t \<in> lang_of q"
    by (intro exI [of _ "w # ws"] exI [of _ t]) (simp add: dotted_Cons)
next
  assume "\<exists>us t. s = dotted us @ t \<and> us \<noteq> [] \<and> list_all plain_word us \<and> t \<in> lang_of q"
  then obtain w ws t where "s = dotted (w # ws) @ t" "list_all plain_word (w # ws)" "t \<in> lang_of q"
    by (metis list.exhaust)
  then show "s \<in> lang_of (RxSeq (rx_plus (RxSet rx_word)) (RxSeq (RxStar rx_dots) q))"
    unfolding seq_lang [of s] seq_lang [of _ "RxStar rx_dots"] dots_lang plain_plus
    by (simp add: dotted_Cons) blast
qed

lemma seq_char: "s \<in> lang_of (RxSeq (rx_char c) q) \<longleftrightarrow> (\<exists>t. s = rune c # t \<and> t \<in> lang_of q)"
  by (cases s) (auto simp: rx_char_def seq_set)

lemma email_tail:
  "s \<in> lang_of (RxSeq (rx_plus (RxSet rx_word)) (rx_plus rx_dots)) \<longleftrightarrow>
    (\<exists>ds. s = dotted ds \<and> 2 \<le> length ds \<and> list_all plain_word ds)"
proof
  assume "s \<in> lang_of (RxSeq (rx_plus (RxSet rx_word)) (rx_plus rx_dots))"
  then obtain w v ws where "s = w @ (rune CHR ''.'' # v) @ concat (map (\<lambda>w. rune CHR ''.'' # w) ws)"
    "plain_word w" "plain_word v" "list_all plain_word ws"
    unfolding rx_plus_def [of rx_dots] seq_lang [of _ _ "RxSeq _ _"] seq_lang [of _ rx_dots] seq_char dots_lang plain_plus by blast
  then show "\<exists>ds. s = dotted ds \<and> 2 \<le> length ds \<and> list_all plain_word ds"
    by (intro exI [of _ "w # v # ws"]) (simp add: dotted_Cons)
next
  assume "\<exists>ds. s = dotted ds \<and> 2 \<le> length ds \<and> list_all plain_word ds"
  then obtain w v ws where ds: "s = dotted (w # v # ws)" "list_all plain_word (w # v # ws)"
    by (metis One_nat_def Suc_1 Suc_le_length_iff)
  then have "s = w @ ((rune CHR ''.'' # v) @ concat (map (\<lambda>w. rune CHR ''.'' # w) ws))" by (simp add: dotted_Cons)
  with ds(2) show "s \<in> lang_of (RxSeq (rx_plus (RxSet rx_word)) (rx_plus rx_dots))"
    unfolding rx_plus_def [of rx_dots] seq_lang [of _ _ "RxSeq _ _"] seq_lang [of _ rx_dots] seq_char dots_lang plain_plus
    by (simp only: list.pred_inject) blast
qed

lemma password_iff:
  "password_rule s \<longleftrightarrow> 8 \<le> length s \<and> length s \<le> 24 \<and> (\<forall>x \<in> set s. \<not> rx_blank x) \<and>
     (\<exists>x \<in> set s. rx_upper x) \<and> (\<exists>x \<in> set s. rx_lower x) \<and> (\<exists>x \<in> set s. rx_digit x)"
proof -
  have "s \<in> lang_of (rx_between 8 24 (RxSet (\<lambda>x. \<not> rx_blank x))) \<Longrightarrow> 10 \<notin> set s"
    by (auto simp: between_set rx_blank_def)
  then show ?thesis by (auto simp: password_rule_def MatchString_lang between_set somewhere_lang)
qed

lemma username_iff: "username_rule s \<longleftrightarrow> 5 \<le> length s \<and> length s \<le> 15 \<and> (\<forall>x \<in> set s. rx_word x)"
  by (simp add: username_rule_def MatchString_lang between_set)

lemma mobile_iff:
  "mobile_rule s \<longleftrightarrow> (\<exists>c ds. s = rune CHR ''1'' # c # ds \<and> in_range CHR ''3'' CHR ''9'' c \<and> length ds = 9 \<and> (\<forall>d \<in> set ds. rx_digit d))"
  unfolding mobile_rule_def MatchString_lang rx_char_def by (auto simp: seq_set times_set split: list.splits)

lemma email_iff:
  "email_rule s \<longleftrightarrow> (\<exists>us ds. s = dotted us @ rune CHR ''@'' # dotted ds \<and> us \<noteq> [] \<and> 2 \<le> length ds \<and>
     list_all plain_word us \<and> list_all plain_word ds)"
  unfolding email_rule_def MatchString_lang email_head seq_char email_tail by auto

text \<open>C34: What the rules accept. A password has 8 to 24 characters, no ASCII white space, an upper-case
  letter, a lower-case letter and a digit; a mobile number is eleven digits, the first a 1 and the
  second at least 3; a user name has 5 to 15 letters, digits or underscores; a mail address is
  one or more words joined by dots, an at sign, and two or more words joined by dots. These are the conditions of the code; the
  messages of the rules differ (\<open>texts_differ\<close>): a password may have white space outside ASCII, a user name underscores.\<close>

theorem rules_accept:
  "(password_rule s \<longleftrightarrow> 8 \<le> length s \<and> length s \<le> 24 \<and> (\<forall>x \<in> set s. \<not> rx_blank x) \<and>
     (\<exists>x \<in> set s. rx_upper x) \<and> (\<exists>x \<in> set s. rx_lower x) \<and> (\<exists>x \<in> set s. rx_digit x)) \<and>
   (mobile_rule s \<longleftrightarrow> (\<exists>c ds. s = rune CHR ''1'' # c # ds \<and> in_range CHR ''3'' CHR ''9'' c \<and> length ds = 9 \<and> (\<forall>d \<in> set ds. rx_digit d))) \<and>
   (username_rule s \<longleftrightarrow> 5 \<le> length s \<and> length s \<le> 15 \<and> (\<forall>x \<in> set s. rx_word x)) \<and>
   (email_rule s \<longleftrightarrow> (\<exists>us ds. s = dotted us @ rune CHR ''@'' # dotted ds \<and> us \<noteq> [] \<and> 2 \<le> length ds \<and>
     list_all plain_word us \<and> list_all plain_word ds))"
  by (intro conjI password_iff mobile_iff username_iff email_iff)

text \<open>The texts of the rules say that a password has no spaces and a user name letters or digits only: a
  space that is not ASCII (U+3000) and an underscore are accepted.\<close>

lemma texts_differ:
  "password_rule [0x3000, 0x41, 0x61, 0x31, 0x41, 0x61, 0x31, 0x41]"
  "username_rule (replicate 5 (rune CHR ''_''))"
  by (simp_all add: password_iff username_iff rx_blank_def rx_upper_def rx_lower_def rx_digit_def rx_word_def in_range_def rune_def)

lemma rules_accept_witness:
  "password_rule [83, 101, 99, 114, 101, 116, 49, 50, 51] \<and> \<not> username_rule [45, 101, 99, 114, 101]"
proof
  show "password_rule [83, 101, 99, 114, 101, 116, 49, 50, 51]"
    unfolding rules_accept [THEN conjunct1]
  proof (intro conjI)
    have "rx_upper 83" "rx_lower 101" "rx_digit 49"
      by (simp_all add: rx_upper_def rx_lower_def rx_digit_def in_range_def rune_def)
    then show "\<exists>x \<in> set [83, 101, 99, 114, 101, 116, 49, 50, 51]. rx_upper x"
      and "\<exists>x \<in> set [83, 101, 99, 114, 101, 116, 49, 50, 51]. rx_lower x"
      and "\<exists>x \<in> set [83, 101, 99, 114, 101, 116, 49, 50, 51]. rx_digit x" by auto
  qed (simp_all add: rx_blank_def)
  show "\<not> username_rule [45, 101, 99, 114, 101]"
    unfolding rules_accept [THEN conjunct2, THEN conjunct2, THEN conjunct1]
    by (simp add: rx_word_def rx_upper_def rx_lower_def rx_digit_def in_range_def rune_def)
qed

text \<open>After the start every tag has its rule, when no registration fails.\<close>

lemma tags_registered:
  "list_all (\<lambda>r. list_all (\<lambda>t. snd (initialize (\<lambda>_. None) (\<lambda>_. None) None) t = Some r) (rule_tags r))
    [PasswordRule, EmailRule, MobileRule, UsernameRule]"
  by code_simp


text \<open>A registration that fails ends the construction, with the tags before it registered and none after it.\<close>

lemma register_all_error:
  "register_all re te (map (\<lambda>t. (t, r)) ts) m = (e, m') \<Longrightarrow>
    (e = None \<longleftrightarrow> (\<forall>t \<in> set ts. re t = None \<and> te t = None)) \<and> (\<forall>t. t \<notin> set ts \<longrightarrow> m' t = m t)"
  by (induction ts arbitrary: m) (auto simp: validatorRegValidation_def split: option.splits prod.splits)

lemma fold_stops:
  "(\<And>r m. fst (f r m) = None \<longleftrightarrow> P r) \<Longrightarrow>
    fst (fold (\<lambda>fn (e, m). case e of Some e \<Rightarrow> (Some e, m) | None \<Rightarrow> fn m) (map f rs) (e, m)) = None \<longleftrightarrow> e = None \<and> (\<forall>r \<in> set rs. P r)"
proof (induction rs arbitrary: e m)
  case (Cons r rs)
  note IH = Cons.IH [OF Cons.prems]
  show ?case
  proof (cases e)
    case None
    obtain e' m' where "f r m = (e', m')" by fastforce
    with None Cons.prems [of r m] IH [of e' m'] show ?thesis by auto
  qed (use IH in auto)
qed simp

lemma Constructor_error:
  "(\<exists>m. Validator_Constructor re te None = Inr m) \<longleftrightarrow>
    (\<forall>r. \<forall>t \<in> set (rule_tags r). re t = None \<and> te t = None)"
proof -
  have reg: "fst (reg_rule re te r m) = None \<longleftrightarrow> (\<forall>t \<in> set (rule_tags r). re t = None \<and> te t = None)" for r m
    using register_all_error [of re te r "rule_tags r" m] unfolding reg_rule_def by (metis prod.collapse)
  have regs: "[regPassword re te, regTranslationEmail re te, regTranslationMobile re te, regTranslationUsername re te] =
    map (reg_rule re te) [PasswordRule, EmailRule, MobileRule, UsernameRule]"
    by (simp add: fun_eq_iff regPassword_def regTranslationEmail_def regTranslationMobile_def regTranslationUsername_def)
  have "r \<in> set [PasswordRule, EmailRule, MobileRule, UsernameRule]" for r by (cases r) simp_all
  then have "fst (initialize re te None) = None \<longleftrightarrow> (\<forall>r. \<forall>t \<in> set (rule_tags r). re t = None \<and> te t = None)"
    unfolding initialize_def option.case regs fold_stops [of "reg_rule re te", OF reg] by blast
  then show ?thesis
    by (cases "initialize re te None") (auto simp: Validator_Constructor_def split: option.split)
qed

end
