(* ===== verification/Util_Time.thy ===== *)
theory Util_Time
  imports Prelude
begin

text \<open>
  Times and retries (\<open>util/time.go\<close>): the type of the model's time columns with its JSON and
  database forms, and the two retry loops.

  A time is the number of nanoseconds since Go's zero time, the first of January of year 1,
  UTC. The local zone is an argument: the offset in seconds at each second of UTC, so that it may go
  forward and back (Shanghai had summer time from 1986 to 1991). The layout \<open>2006-01-02 15:04:05\<close> of package \<open>time\<close> is written out,
  with what its parser accepts besides what the formatter writes: more spaces, an hour of one digit,
  a fraction of the second.
\<close>

section \<open>The calendar\<close>

definition leap :: "int \<Rightarrow> bool" where
  "leap y \<longleftrightarrow> y mod 4 = 0 \<and> (y mod 100 \<noteq> 0 \<or> y mod 400 = 0)"

definition days_before_year :: "int \<Rightarrow> int" where
  "days_before_year y = 365 * (y - 1) + (y - 1) div 4 - (y - 1) div 100 + (y - 1) div 400"

definition month_days :: "int \<Rightarrow> nat \<Rightarrow> int" where
  "month_days y m = (if m = 2 then (if leap y then 29 else 28) else if m \<in> {4, 6, 9, 11} then 30 else 31)"

definition days_before_month :: "int \<Rightarrow> nat \<Rightarrow> int" where
  "days_before_month y m = (\<Sum>k \<leftarrow> [1..<m]. month_days y k)"

lemma div_step: "0 < n \<Longrightarrow> y div n = (y - 1) div n + (if n dvd y then 1 else 0)" for y n :: int
proof (cases "n dvd y")
  case True
  assume n: "0 < n"
  from True obtain q where "y = n * q" by (elim dvdE)
  then have "y - 1 = n * (q - 1) + (n - 1)" by (simp add: algebra_simps)
  then have "(y - 1) div n = q - 1" using n int_div_pos_eq [of "y - 1" n "q - 1" "n - 1"] by simp
  with True n \<open>y = n * q\<close> show ?thesis by simp
next
  case False
  assume n: "0 < n"
  have "y mod n \<noteq> 0" "0 \<le> y mod n" "y mod n < n" using False n by (auto simp: dvd_eq_mod_eq_0)
  moreover have "y - 1 = n * (y div n) + (y mod n - 1)" using mult_div_mod_eq [of n y] by linarith
  ultimately have "(y - 1) div n = y div n" using int_div_pos_eq [of "y - 1" n "y div n" "y mod n - 1"] by simp
  with False show ?thesis by simp
qed

lemma leap_count:
  fixes a b c a' b' c' y :: int
  assumes "a = a' + (if A then 1 else 0)" "b = b' + (if B then 1 else 0)" "c = c' + (if C then 1 else 0)" "C \<longrightarrow> B" "B \<longrightarrow> A"
  shows "365 * y + a - b + c = 365 * (y - 1) + a' - b' + c' + (if A \<and> (\<not> B \<or> C) then 366 else 365)"
  using assms by (cases A; cases B; cases C) simp_all

lemma year_days: "days_before_year (y + 1) = days_before_year y + (if leap y then 366 else 365)"
proof -
  have "(400::int) dvd y \<longrightarrow> 100 dvd y" "(100::int) dvd y \<longrightarrow> 4 dvd y"
    by (auto intro: dvd_trans [of 100 400] dvd_trans [of 4 100])
  from leap_count [OF div_step [of 4 y] div_step [of 100 y] div_step [of 400 y] this, of y]
  show ?thesis by (simp only: days_before_year_def leap_def dvd_eq_mod_eq_0 add_diff_cancel_right' zero_less_numeral simp_thms)
qed

lemma year_months: "days_before_month y 13 = (if leap y then 366 else 365)"
  by (simp add: days_before_month_def month_days_def upt_rec)

text \<open>The year of a day: the first one not after it, counted up.\<close>

function year_from :: "int \<Rightarrow> int \<Rightarrow> int" where
  "year_from y d = (if days_before_year (y + 1) \<le> d then year_from (y + 1) d else y)"
  by auto
termination
proof (relation "measure (\<lambda>(y, d). nat (d - days_before_year y))", goal_cases)
  case (2 y d)
  then show ?case using year_days [of y] by (auto split: if_splits)
qed simp

declare year_from.simps [simp del]

lemma year_from_bounds:
  "days_before_year y \<le> d \<Longrightarrow> days_before_year (year_from y d) \<le> d \<and> d < days_before_year (year_from y d + 1)"
proof (induction y d rule: year_from.induct)
  case (1 y d)
  then show ?case by (cases "days_before_year (y + 1) \<le> d") (simp_all add: year_from.simps [of y d])
qed

function month_from :: "int \<Rightarrow> nat \<Rightarrow> int \<Rightarrow> nat \<times> int" where
  "month_from y m r = (if m < 12 \<and> month_days y m \<le> r then month_from y (m + 1) (r - month_days y m) else (m, r))"
  by auto
termination by (relation "measure (\<lambda>(y, m, r). 12 - m)") auto

declare month_from.simps [simp del]

lemma days_before_month_Suc: "1 \<le> m \<Longrightarrow> days_before_month y (Suc m) = days_before_month y m + month_days y m"
  by (simp add: days_before_month_def)

lemma month_from_bounds:
  assumes "1 \<le> m" "m \<le> 12" "0 \<le> r" "days_before_month y m + r < days_before_month y 13"
  shows "case month_from y m r of (m', r') \<Rightarrow> 1 \<le> m' \<and> m' \<le> 12 \<and> 0 \<le> r' \<and> r' < month_days y m' \<and>
    days_before_month y m' + r' = days_before_month y m + r"
  using assms
proof (induction y m r rule: month_from.induct)
  case (1 y m r)
  show ?case
  proof (cases "m < 12 \<and> month_days y m \<le> r")
    case True
    with 1 show ?thesis by (simp add: month_from.simps [of y m r] days_before_month_Suc)
  next
    case False
    have "month_days y 12 = 31" by (simp add: month_days_def)
    moreover have "days_before_month y 13 = days_before_month y 12 + month_days y 12"
      using days_before_month_Suc [of 12 y] by simp
    ultimately have "r < month_days y m" using False 1(3-5) by (cases "m = 12") auto
    with False 1 show ?thesis by (auto simp: month_from.simps [of y m r])
  qed
qed

text \<open>Year, month and day of a day counted from the zero time's.\<close>

definition civil :: "int \<Rightarrow> int \<times> nat \<times> int" where
  "civil d = (let y = year_from 1 d; (m, r) = month_from y 1 (d - days_before_year y) in (y, m, r + 1))"

definition day_number :: "int \<Rightarrow> nat \<Rightarrow> int \<Rightarrow> int" where
  "day_number y m d = days_before_year y + days_before_month y m + d - 1"

lemma civil_correct:
  assumes "0 \<le> n" "civil n = (y, m, d)"
  shows "day_number y m d = n \<and> 1 \<le> m \<and> m \<le> 12 \<and> 1 \<le> d \<and> d \<le> month_days y m \<and> 1 \<le> y"
proof -
  have 0: "days_before_year 1 = 0" by (simp add: days_before_year_def)
  let ?y = "year_from 1 n"
  have b: "days_before_year ?y \<le> n" "n < days_before_year (?y + 1)" using year_from_bounds [of 1 n] assms(1) 0 by simp_all
  have "1 \<le> year_from y d" if "1 \<le> y" for y d
    using that by (induction y d rule: year_from.induct) (subst year_from.simps, simp)
  then have y: "1 \<le> ?y" by simp
  have "n - days_before_year ?y < days_before_month ?y 13" using b year_days [of ?y] year_months [of ?y] by simp
  then have "case month_from ?y 1 (n - days_before_year ?y) of (m', r') \<Rightarrow> 1 \<le> m' \<and> m' \<le> 12 \<and> 0 \<le> r' \<and> r' < month_days ?y m' \<and>
    days_before_month ?y m' + r' = n - days_before_year ?y"
    using month_from_bounds [of 1 "n - days_before_year ?y" ?y] b by (simp add: days_before_month_def)
  with assms(2) y show ?thesis by (auto simp: civil_def day_number_def Let_def split: prod.splits)
qed

section \<open>The layout\<close>

definition digit :: "nat \<Rightarrow> char" where "digit n = char_of (48 + n mod 10)"

definition digit_of :: "char \<Rightarrow> nat option" where
  "digit_of c = (if is_digit c then Some (of_char c - 48) else None)"

definition two :: "nat \<Rightarrow> string" where "two n = [digit (n div 10), digit n]"

definition four :: "nat \<Rightarrow> string" where "four n = [digit (n div 1000), digit (n div 100), digit (n div 10), digit n]"

lemma digit_of_digit [simp]: "digit_of (digit n) = Some (n mod 10)"
proof -
  have "(of_char (digit n) :: nat) = 48 + n mod 10" by (simp add: digit_def of_char_char_of_small)
  then show ?thesis by (simp add: digit_of_def is_digit_def)
qed

text \<open>\<open>getnum\<close>: one or two digits, or exactly two.\<close>

definition getnum :: "bool \<Rightarrow> string \<Rightarrow> (nat \<times> string) option" where
  "getnum fixed s = (case s of
       a # b # r \<Rightarrow> (case (digit_of a, digit_of b) of
           (Some x, Some y) \<Rightarrow> Some (10 * x + y, r)
         | (Some x, None) \<Rightarrow> if fixed then None else Some (x, b # r)
         | _ \<Rightarrow> None)
     | [a] \<Rightarrow> (case digit_of a of Some x \<Rightarrow> if fixed then None else Some (x, []) | None \<Rightarrow> None)
     | [] \<Rightarrow> None)"

definition getyear :: "string \<Rightarrow> (nat \<times> string) option" where
  "getyear s = (case s of
       a # b # c # d # r \<Rightarrow> (case (digit_of a, digit_of b, digit_of c, digit_of d) of
           (Some w, Some x, Some y, Some z) \<Rightarrow> Some (1000 * w + 100 * x + 10 * y + z, r) | _ \<Rightarrow> None)
     | _ \<Rightarrow> None)"

text \<open>A literal character of the layout; a space stands for one or more.\<close>

definition expect :: "char \<Rightarrow> string \<Rightarrow> string option" where
  "expect c s = (case s of x # r \<Rightarrow> if x = c then Some r else None | [] \<Rightarrow> None)"

definition expect_space :: "string \<Rightarrow> string option" where
  "expect_space s = (case s of x # r \<Rightarrow> if x = CHR '' '' then Some (dropWhile (\<lambda>c. c = CHR '' '') r) else None | [] \<Rightarrow> None)"

text \<open>A fraction after the seconds: a point or a comma and digits, of which nine count.\<close>

definition getfraction :: "string \<Rightarrow> nat \<times> string" where
  "getfraction s = (case s of
       p # d # r \<Rightarrow>
         if (p = CHR ''.'' \<or> p = CHR '','') \<and> is_digit d then
           let ds = takeWhile is_digit (d # r); n = take 9 (map (\<lambda>c. the (digit_of c)) ds @ replicate 9 0)
           in (foldl (\<lambda>a x. 10 * a + x) 0 n, dropWhile is_digit (d # r))
         else (0, s)
     | _ \<Rightarrow> (0, s))"

record clock_time =
  ct_year :: nat
  ct_month :: nat
  ct_day :: nat
  ct_hour :: nat
  ct_min :: nat
  ct_sec :: nat
  ct_nano :: nat

definition layout_format :: "clock_time \<Rightarrow> string" where
  "layout_format c = four (ct_year c) @ ''-'' @ two (ct_month c) @ ''-'' @ two (ct_day c) @ '' '' @
     two (ct_hour c) @ '':'' @ two (ct_min c) @ '':'' @ two (ct_sec c)"

abbreviation step :: "'a option \<Rightarrow> ('a \<Rightarrow> 'b option) \<Rightarrow> 'b option" where "step \<equiv> Option.bind"

definition layout_parse :: "string \<Rightarrow> (clock_time \<times> string) option" where
  "layout_parse s =
     step (getyear s) (\<lambda>(y, s). step (expect CHR ''-'' s) (\<lambda>s. step (getnum True s) (\<lambda>(m, s).
     if m < 1 \<or> 12 < m then None else
     step (expect CHR ''-'' s) (\<lambda>s. step (getnum True s) (\<lambda>(d, s). step (expect_space s) (\<lambda>s.
     step (getnum False s) (\<lambda>(h, s). if 24 \<le> h then None else step (expect CHR '':'' s) (\<lambda>s.
     step (getnum True s) (\<lambda>(mi, s). if 60 \<le> mi then None else step (expect CHR '':'' s) (\<lambda>s.
     step (getnum True s) (\<lambda>(se, s). if 60 \<le> se then None else
     (let (n, s) = getfraction s in
      if d < 1 \<or> month_days (int y) m < int d then None
      else Some (\<lparr>ct_year = y, ct_month = m, ct_day = d, ct_hour = h, ct_min = mi, ct_sec = se, ct_nano = n\<rparr>, s)))))))))))))"

section \<open>JSONTime\<close>

type_synonym json_time = int

definition second :: int where "second = 1000000000"

text \<open>What a local clock shows, to the nanosecond.\<close>

type_synonym zone = "int \<Rightarrow> int"

definition local_clock :: "zone \<Rightarrow> json_time \<Rightarrow> clock_time" where
  "local_clock z t =
     (let s = t div second + z (t div second); (y, m, d) = civil (s div 86400); k = s mod 86400
      in \<lparr>ct_year = nat y, ct_month = m, ct_day = nat d, ct_hour = nat (k div 3600), ct_min = nat (k mod 3600 div 60),
          ct_sec = nat (k mod 60), ct_nano = nat (t mod second)\<rparr>)"

text \<open>
  \<open>time.Date\<close> in the local zone: the offset is looked up as if the reading were UTC, and once more
  at the time that this offset gives, which changes it only over a border of the zone.
\<close>

definition reading :: "clock_time \<Rightarrow> int" where
  "reading c = 86400 * day_number (int (ct_year c)) (ct_month c) (int (ct_day c)) +
     3600 * int (ct_hour c) + 60 * int (ct_min c) + int (ct_sec c)"

definition unix_of :: "zone \<Rightarrow> int \<Rightarrow> int" where
  "unix_of z s = (let utc = s - z s in s - z utc)"

definition time_Date :: "zone \<Rightarrow> clock_time \<Rightarrow> json_time" where
  "time_Date z c = unix_of z (reading c) * second + int (ct_nano c)"

text \<open>
  Offsets are less than a day, and among the four days around a time at most one border of the zone
  lies, as in every zone in use.
\<close>

definition zone_ok :: "zone \<Rightarrow> bool" where
  "zone_ok z \<longleftrightarrow> (\<forall>u. \<bar>z u\<bar> < 86400 \<and>
     (\<exists>border a b. \<forall>v. \<bar>v - u\<bar> \<le> 172800 \<longrightarrow> z v = (if v < border then a else b)))"

text \<open>The reading of a clock belongs to a time: then the time that \<open>time.Date\<close> picks shows it.\<close>

lemma unix_of_reading:
  assumes "zone_ok z" "s = u + z u"
  shows "unix_of z s + z (unix_of z s) = s"
proof -
  obtain border a b where z: "\<And>v. \<bar>v - u\<bar> \<le> 172800 \<Longrightarrow> z v = (if v < border then a else b)"
    using assms(1) unfolding zone_ok_def by meson
  have bd: "\<bar>z v\<bar> < 86400" for v using assms(1) by (simp add: zone_ok_def)
  define w where "w = s - z s"
  define x where "x = s - z w"
  have zu: "z u = (if u < border then a else b)" by (rule z) simp
  have zs: "z s = (if s < border then a else b)" using bd [of u] assms(2) by (intro z) arith
  have zw: "z w = (if w < border then a else b)" unfolding w_def using bd [of u] bd [of s] assms(2) by (intro z) arith
  have zx: "z x = (if x < border then a else b)" unfolding x_def using bd [of u] bd [of w] assms(2) by (intro z) arith
  have "z x = z w" using zu zs zw zx assms(2) by (auto simp: w_def x_def split: if_splits)
  then show ?thesis by (simp add: unix_of_def Let_def w_def [symmetric] x_def [symmetric]) (simp add: x_def)
qed

lemma zone_fixed: "\<bar>k\<bar> < 86400 \<Longrightarrow> zone_ok (\<lambda>_. k)"
  by (auto simp: zone_ok_def)

lemma zone_one_border: "\<bar>a\<bar> < 86400 \<Longrightarrow> \<bar>b\<bar> < 86400 \<Longrightarrow> zone_ok (\<lambda>u. if u < border then a else b)"
  by (auto simp: zone_ok_def)

definition JSONTime_Add :: "int \<Rightarrow> json_time \<Rightarrow> json_time" where
  "JSONTime_Add d t = t + d"

definition JSONTime_Date :: "zone \<Rightarrow> json_time \<Rightarrow> json_time" where
  "JSONTime_Date z t = time_Date z ((local_clock z t)\<lparr>ct_hour := 0, ct_min := 0, ct_sec := 0, ct_nano := 0\<rparr>)"

definition JSONTime_String :: "zone \<Rightarrow> json_time \<Rightarrow> string" where
  "JSONTime_String z t = layout_format (local_clock z t)"

text \<open>\<open>ParseInLocation\<close> of the layout, which must use up the text; on an error the zero time.\<close>

definition ToDatetime :: "zone \<Rightarrow> string \<Rightarrow> json_time \<times> bool" where
  "ToDatetime z s = (case layout_parse s of
       Some (c, []) \<Rightarrow> (time_Date z c, True) | _ \<Rightarrow> (0, False))"

definition FromDB :: "zone \<Rightarrow> string \<Rightarrow> json_time" where
  "FromDB z s = fst (ToDatetime z s)"

definition ToDB :: "zone \<Rightarrow> json_time \<Rightarrow> string" where
  "ToDB z t = JSONTime_String z t"

definition MarshalJSON :: "zone \<Rightarrow> json_time \<Rightarrow> string" where
  "MarshalJSON z t = (if t = 0 then [CHR 0x22, CHR 0x22] else CHR 0x22 # JSONTime_String z t @ [CHR 0x22])"

text \<open>The layout is in quotation marks; an error is dropped.\<close>

definition UnmarshalJSON :: "zone \<Rightarrow> string \<Rightarrow> json_time" where
  "UnmarshalJSON z s = (case expect CHR 0x22 s of
       None \<Rightarrow> 0
     | Some s \<Rightarrow> (case layout_parse s of
           Some (c, s) \<Rightarrow> if s = [CHR 0x22] then time_Date z c else 0
         | None \<Rightarrow> 0))"

section \<open>The layout reads back what it writes\<close>

lemma two_roundtrip: "n < 100 \<Longrightarrow> getnum b (two n @ r) = Some (n, r)"
  by (simp add: two_def getnum_def)

lemma four_roundtrip: "n < 10000 \<Longrightarrow> getyear (four n @ r) = Some (n, r)"
proof -
  assume "n < 10000"
  then have "n div 1000 mod 10 = n div 1000" by simp
  moreover have "n = 10 * (n div 10) + n mod 10" "n div 10 = 10 * (n div 100) + n div 10 mod 10"
    "n div 100 = 10 * (n div 1000) + n div 100 mod 10"
    using mult_div_mod_eq [of 10 n] mult_div_mod_eq [of 10 "n div 10"] mult_div_mod_eq [of 10 "n div 100"]
    by (simp_all add: div_mult2_eq [symmetric])
  ultimately have "1000 * (n div 1000 mod 10) + 100 * (n div 100 mod 10) + 10 * (n div 10 mod 10) + n mod 10 = n"
    by linarith
  then show ?thesis by (simp only: four_def getyear_def digit_of_digit append_Cons append_Nil list.case option.case prod.case)
qed

lemma is_digit_digit [simp]: "is_digit (digit n)"
proof -
  have "(of_char (digit n) :: nat) = 48 + n mod 10" by (simp add: digit_def of_char_char_of_small)
  then show ?thesis by (simp add: is_digit_def)
qed

lemma expect_simps [simp]: "expect c (c # r) = Some r" "expect c [] = None"
  by (simp_all add: expect_def)

lemma expect_space_digit: "expect_space (CHR '' '' # two n @ r) = Some (two n @ r)"
proof -
  have "digit (n div 10) \<noteq> CHR '' ''" using is_digit_digit [of "n div 10"] by (auto simp: is_digit_def)
  then show ?thesis by (simp add: expect_space_def two_def)
qed

definition valid_clock :: "clock_time \<Rightarrow> bool" where
  "valid_clock c \<longleftrightarrow> ct_year c < 10000 \<and> 1 \<le> ct_month c \<and> ct_month c \<le> 12 \<and> 1 \<le> ct_day c \<and>
     int (ct_day c) \<le> month_days (int (ct_year c)) (ct_month c) \<and> ct_hour c < 24 \<and> ct_min c < 60 \<and> ct_sec c < 60"

definition no_fraction :: "string \<Rightarrow> bool" where
  "no_fraction r \<longleftrightarrow> getfraction r = (0, r)"

lemma month_days_31: "month_days y m \<le> 31"
  by (simp add: month_days_def)

lemma layout_roundtrip:
  assumes "valid_clock c" "no_fraction r"
  shows "layout_parse (layout_format c @ r) = Some (c\<lparr>ct_nano := 0\<rparr>, r)"
proof -
  have "ct_day c < 100" using assms(1) month_days_31 [of "int (ct_year c)" "ct_month c"] by (simp add: valid_clock_def)
  with assms show ?thesis
    by (simp add: layout_parse_def layout_format_def valid_clock_def no_fraction_def four_roundtrip two_roundtrip expect_space_digit)
qed

lemma no_fraction_simps [simp]: "no_fraction []" "no_fraction [c]"
  by (simp_all add: no_fraction_def getfraction_def)

lemma days_before_year_mono: "a \<le> b \<Longrightarrow> days_before_year a \<le> days_before_year b"
proof (induction rule: int_ge_induct)
  case (step i)
  with year_days [of i] show ?case by (auto split: if_splits)
qed simp

lemma clock_parts:
  fixes k :: int
  assumes "0 \<le> k" "k < 86400"
  shows "3600 * (k div 3600) + 60 * (k mod 3600 div 60) + k mod 60 = k" "0 \<le> k div 3600" "k div 3600 < 24"
    "0 \<le> k mod 3600 div 60" "k mod 3600 div 60 < 60"
proof -
  have "k mod 3600 mod 60 = k mod 60" by (simp add: mod_mod_cancel)
  with mult_div_mod_eq [of 60 "k mod 3600"] mult_div_mod_eq [of 3600 k]
  show "3600 * (k div 3600) + 60 * (k mod 3600 div 60) + k mod 60 = k" by linarith
  show "0 \<le> k div 3600" "0 \<le> k mod 3600 div 60" using assms by simp_all
  show "k div 3600 < 24" "k mod 3600 div 60 < 60" using assms by (simp_all add: div_less_iff_less_mult zdiv_mono1 [of _ _ 60])
qed

text \<open>The local times the layout can write: from the zero time's day on to the year 9999.\<close>

definition in_layout :: "zone \<Rightarrow> json_time \<Rightarrow> bool" where
  "in_layout z t \<longleftrightarrow> 0 \<le> t div second + z (t div second) \<and> t div second + z (t div second) < 86400 * days_before_year 10000"

lemma local_clock_parts:
  assumes "0 \<le> t div second + z (t div second)"
  shows "reading (local_clock z t) = t div second + z (t div second)" "int (ct_nano (local_clock z t)) = t mod second"
    "in_layout z t \<Longrightarrow> valid_clock (local_clock z t)"
proof -
  define s where "s = t div second + z (t div second)"
  define k where "k = s mod 86400"
  obtain y m d where c: "civil (s div 86400) = (y, m, d)" by (cases "civil (s div 86400)")
  have s: "0 \<le> s div 86400" using assms by (simp add: s_def)
  note d = civil_correct [OF s c]
  have k: "0 \<le> k" "k < 86400" by (simp_all add: k_def)
  note p = clock_parts [OF k]
  have lc: "local_clock z t = \<lparr>ct_year = nat y, ct_month = m, ct_day = nat d, ct_hour = nat (k div 3600),
      ct_min = nat (k mod 3600 div 60), ct_sec = nat (k mod 60), ct_nano = nat (t mod second)\<rparr>"
    by (simp only: local_clock_def s_def [symmetric] k_def [symmetric] c Let_def prod.case)
  have sum: "86400 * day_number y m d + (3600 * (k div 3600) + 60 * (k mod 3600 div 60) + k mod 60) = s"
    using d p(1) mult_div_mod_eq [of 86400 s] by (simp only: k_def)
  have nn: "0 \<le> y" "0 \<le> d" "0 \<le> k mod 60" using d by simp_all
  have "reading (local_clock z t) = s" using sum nn p(2,4) by (simp add: lc reading_def)
  then show "reading (local_clock z t) = t div second + z (t div second)" by (simp only: s_def)
  show "int (ct_nano (local_clock z t)) = t mod second" by (simp add: lc second_def)
  show "valid_clock (local_clock z t)" if i: "in_layout z t"
  proof -
    have "s div 86400 < days_before_year 10000"
    proof -
      have "s < 86400 * days_before_year 10000" using i unfolding in_layout_def s_def [symmetric] by blast
      moreover have "0 \<le> s mod 86400" by simp
      ultimately show ?thesis using mult_div_mod_eq [of 86400 s] by linarith
    qed
    moreover have "days_before_year y \<le> s div 86400"
    proof -
      have "y = year_from 1 (s div 86400)" using c by (simp add: civil_def Let_def case_prod_unfold)
      with year_from_bounds [of 1 "s div 86400"] s show ?thesis by (simp add: days_before_year_def)
    qed
    ultimately have "y < 10000" using days_before_year_mono [of 10000 y] by linarith
    moreover have "k mod 60 < 60" by simp
    ultimately show ?thesis using d p(2-5) nn unfolding lc valid_clock_def
      by (simp only: clock_time.select_convs nat_less_iff le_nat_iff int_nat_eq if_True of_nat_numeral of_nat_1 simp_thms)
  qed
qed

text \<open>Two times show the same reading of the local clock, whole seconds; a time shows one that no other does.\<close>

definition same_reading :: "zone \<Rightarrow> json_time \<Rightarrow> json_time \<Rightarrow> bool" where
  "same_reading z t t' \<longleftrightarrow> t' mod second = 0 \<and> local_clock z t' = (local_clock z t)\<lparr>ct_nano := 0\<rparr>"

definition shown_once :: "zone \<Rightarrow> json_time \<Rightarrow> bool" where
  "shown_once z t \<longleftrightarrow> (\<forall>u. u + z u = t div second + z (t div second) \<longrightarrow> u = t div second)"

lemma read_back_reading:
  assumes "zone_ok z" "in_layout z t"
  defines "t' \<equiv> time_Date z ((local_clock z t)\<lparr>ct_nano := 0\<rparr>)"
  shows "same_reading z t t'" "shown_once z t \<Longrightarrow> t' = t - t mod second"
    "t' = t - t mod second + (z (t div second) - z (t' div second)) * second"
proof -
  define s where "s = t div second + z (t div second)"
  have "0 \<le> t div second + z (t div second)" using assms(2) by (simp add: in_layout_def)
  with local_clock_parts(1) [of t z] have "reading ((local_clock z t)\<lparr>ct_nano := 0\<rparr>) = s" by (simp add: reading_def s_def)
  then have t': "t' = unix_of z s * second" by (simp add: t'_def time_Date_def)
  then have d: "t' div second = unix_of z s" "t' mod second = 0" by (simp_all add: second_def)
  have u: "unix_of z s + z (unix_of z s) = s" by (rule unix_of_reading [OF assms(1) s_def])
  show "same_reading z t t'"
    unfolding same_reading_def using d u by (simp add: local_clock_def s_def [symmetric] Let_def case_prod_unfold)
  have e: "t - t mod second = t div second * second" by (simp add: minus_mod_eq_div_mult)
  show "t' = t - t mod second" if "shown_once z t"
  proof -
    have "unix_of z s = t div second" using that u unfolding shown_once_def s_def [symmetric] by blast
    then show ?thesis unfolding e t' by simp
  qed
  have "unix_of z s = t div second + (z (t div second) - z (unix_of z s))" using u s_def by linarith
  from arg_cong [OF this, of "\<lambda>x. x * second"]
  show "t' = t - t mod second + (z (t div second) - z (t' div second)) * second"
    unfolding e d(1) by (simp only: t' distrib_right)
qed

lemma read_back_text:
  assumes "in_layout z t" "no_fraction r"
  shows "layout_parse (JSONTime_String z t @ r) = Some ((local_clock z t)\<lparr>ct_nano := 0\<rparr>, r)"
  unfolding JSONTime_String_def using assms
  by (intro layout_roundtrip local_clock_parts(3)) (simp_all add: in_layout_def)

text \<open>C23: A time written to JSON, or to the database as text, is read back as a time of whole seconds that shows the
  same reading of the local clock, for every time that is not before the zero day and not after the
  year 9999 in the local zone. It differs from the time cut to the second by what the
  offsets of the two differ, and is that time when no other shows its reading, which is the case outside the
  hour that a zone repeats.
\<close>

theorem JSONTime_roundtrip:
  assumes "zone_ok z" "in_layout z t"
  shows "\<forall>t' \<in> {UnmarshalJSON z (MarshalJSON z t), FromDB z (ToDB z t)}.
    same_reading z t t' \<and>
    t' = t - t mod second + (z (t div second) - z (t' div second)) * second \<and>
    (shown_once z t \<longrightarrow> t' = t - t mod second)"
proof -
  let ?r = "time_Date z ((local_clock z t)\<lparr>ct_nano := 0\<rparr>)"
  note rb = read_back_reading [OF assms]
  have "FromDB z (ToDB z t) = ?r"
    using read_back_text [OF assms(2), of "[]"] by (simp add: FromDB_def ToDB_def ToDatetime_def)
  moreover have "UnmarshalJSON z (MarshalJSON z t) = ?r" if "t \<noteq> 0"
    using read_back_text [OF assms(2), of "[CHR 0x22]"] that by (simp add: UnmarshalJSON_def MarshalJSON_def expect_def)
  moreover have "UnmarshalJSON z (MarshalJSON z 0) = 0"
    by (simp add: UnmarshalJSON_def MarshalJSON_def expect_def layout_parse_def getyear_def)
  moreover have "same_reading z 0 0" by (simp add: same_reading_def local_clock_def Let_def case_prod_unfold)
  ultimately show ?thesis using rb by (cases "t = 0") simp_all
qed

text \<open>
  In Shanghai the clocks went back by an hour in the night to the fifteenth of September of 1991, at the second
  62820550800 of UTC. A quarter of an hour before, the clock shows what it shows three quarters later,
  and the later time is read back; of a time of the year 2021 all is kept but the fraction.
\<close>

definition shanghai :: zone where
  "shanghai u = (if u < 62820550800 then 32400 else 28800)"

theorem JSONTime_roundtrip_witness:
  "shown_once shanghai 63745056123500000000 \<and>
   UnmarshalJSON shanghai (MarshalJSON shanghai 63745056123500000000) = 63745056123000000000 \<and>
   \<not> shown_once shanghai 62820549900000000000 \<and>
   same_reading shanghai 62820549900000000000 (FromDB shanghai (ToDB shanghai 62820549900000000000))"
proof -
  have z: "zone_ok shanghai" using zone_one_border [of 32400 28800 62820550800] by (simp add: shanghai_def [abs_def])
  have i: "in_layout shanghai 63745056123500000000" "in_layout shanghai 62820549900000000000"
    by (simp_all add: in_layout_def second_def days_before_year_def shanghai_def)
  have o: "shown_once shanghai 63745056123500000000" "\<not> shown_once shanghai 62820549900000000000"
    by (simp_all add: shown_once_def second_def shanghai_def) presburger
  show ?thesis
    using JSONTime_roundtrip [OF z i(1)] JSONTime_roundtrip [OF z i(2)] o by (simp add: second_def)
qed

text \<open>The day's midnight, when an instant shows it: the day's date and nothing of its clock.\<close>

lemma JSONTime_Date_midnight:
  assumes "zone_ok z" "0 \<le> t div second + z (t div second)"
    and "u + z u = 86400 * ((t div second + z (t div second)) div 86400)"
  shows "JSONTime_Date z t div second + z (JSONTime_Date z t div second) = 86400 * ((t div second + z (t div second)) div 86400)"
    "JSONTime_Date z t mod second = 0"
proof -
  define s where "s = t div second + z (t div second)"
  obtain y m d where c: "civil (s div 86400) = (y, m, d)" by (cases "civil (s div 86400)")
  have "0 \<le> s div 86400" using assms(2) by (simp add: s_def)
  note d = civil_correct [OF this c]
  have "JSONTime_Date z t = unix_of z (86400 * (s div 86400)) * second"
    using d c by (simp add: JSONTime_Date_def local_clock_def time_Date_def reading_def s_def [symmetric] Let_def)
  then have "JSONTime_Date z t div second = unix_of z (86400 * (s div 86400))" and mm: "JSONTime_Date z t mod second = 0"
    by (simp_all add: second_def)
  with unix_of_reading [OF assms(1) assms(3) [symmetric]]
  show "JSONTime_Date z t div second + z (JSONTime_Date z t div second) = 86400 * ((t div second + z (t div second)) div 86400)"
    by (simp add: s_def)
  show "JSONTime_Date z t mod second = 0" by (rule mm)
qed

text \<open>In a zone without borders that is the last midnight.\<close>

lemma JSONTime_Date_day:
  assumes "0 \<le> t div second + k"
  shows "JSONTime_Date (\<lambda>_. k) t \<le> t" "t < JSONTime_Date (\<lambda>_. k) t + 86400 * second"
proof -
  define s where "s = t div second + k"
  obtain y m d where c: "civil (s div 86400) = (y, m, d)" by (cases "civil (s div 86400)")
  have "0 \<le> s div 86400" using assms by (simp add: s_def)
  note d = civil_correct [OF this c]
  have "JSONTime_Date (\<lambda>_. k) t = (86400 * (s div 86400) - k) * second"
    using d c by (simp add: JSONTime_Date_def local_clock_def time_Date_def reading_def unix_of_def s_def [symmetric] Let_def)
  moreover have "86400 * (s div 86400) = s - s mod 86400" by (simp add: minus_mod_eq_mult_div)
  ultimately have "JSONTime_Date (\<lambda>_. k) t = (t div second - s mod 86400) * second" by (simp add: s_def)
  then have e: "JSONTime_Date (\<lambda>_. k) t = t - t mod second - s mod 86400 * second"
    by (simp only: left_diff_distrib minus_mod_eq_div_mult)
  have "0 \<le> s mod 86400" "s mod 86400 < 86400" "0 \<le> t mod second" "t mod second < second"
    by (simp_all add: second_def)
  with e show "JSONTime_Date (\<lambda>_. k) t \<le> t" "t < JSONTime_Date (\<lambda>_. k) t + 86400 * second"
    by (simp_all add: second_def)
qed

text \<open>A text that is no such time is read as the zero time, and no error is reported.\<close>

lemma UnmarshalJSON_bad: "layout_parse r = None \<Longrightarrow> UnmarshalJSON z (CHR 0x22 # r) = 0" "UnmarshalJSON z ''null'' = 0"
  by (simp_all add: UnmarshalJSON_def expect_def)

section \<open>Retries\<close>

text \<open>
  The function tried again is a step of the state that gives its error or none; the sleeps between the
  calls change nothing. The counters are Go's \<open>int\<close> and \<open>int64\<close>.
\<close>

type_synonym ('e, 's) attempt = "'s \<Rightarrow> 'e option \<times> 's"

function RetryDo_from :: "int \<Rightarrow> ('e, 's) attempt \<Rightarrow> 's \<Rightarrow> 'e option \<times> 's" where
  "RetryDo_from a fn s = (case fn s of (err, s') \<Rightarrow>
     if err = None \<or> a > 10 then (err, s') else RetryDo_from (a + 1) fn s')"
  by auto
termination by (relation "measure (\<lambda>(a, fn, s). nat (11 - a))") auto

definition RetryDo :: "('e, 's) attempt \<Rightarrow> 's \<Rightarrow> 'e option \<times> 's" where
  "RetryDo = RetryDo_from 0"

partial_function (option) RetryDoTimes_from :: "int \<Rightarrow> int \<Rightarrow> ('e, 's) attempt \<Rightarrow> 's \<Rightarrow> ('e option \<times> 's) option" where
  "RetryDoTimes_from a limit fn s = (case fn s of (err, s') \<Rightarrow>
     if err = None \<or> a > limit then Some (err, s') else RetryDoTimes_from (wrap64 (a + 1)) limit fn s')"

definition RetryDoTimes :: "int \<Rightarrow> ('e, 's) attempt \<Rightarrow> 's \<Rightarrow> ('e option \<times> 's) option" where
  "RetryDoTimes = RetryDoTimes_from 0"

declare RetryDo_from.simps [simp del]

text \<open>\<open>n\<close> more calls: the state before the last of \<open>n + 1\<close>.\<close>

definition after :: "('e, 's) attempt \<Rightarrow> nat \<Rightarrow> 's \<Rightarrow> 's" where
  "after fn n s = ((\<lambda>s. snd (fn s)) ^^ n) s"

lemma after_simps [simp]: "after fn 0 s = s" "after fn (Suc n) s = after fn n (snd (fn s))"
  by (simp_all add: after_def funpow_swap1 [of "\<lambda>s. snd (fn s)"])

definition stops :: "('e, 's) attempt \<Rightarrow> 's \<Rightarrow> nat \<Rightarrow> nat \<Rightarrow> bool" where
  "stops fn s most n \<longleftrightarrow> n \<le> most \<and> (\<forall>k < n. fst (fn (after fn k s)) \<noteq> None) \<and> (fst (fn (after fn n s)) = None \<or> n = most)"

lemma stops_here: "fst (fn s) = None \<or> most = 0 \<Longrightarrow> stops fn s most 0"
  by (auto simp: stops_def)

lemma stops_later: "fst (fn s) \<noteq> None \<Longrightarrow> stops fn (snd (fn s)) most n \<Longrightarrow> stops fn s (Suc most) (Suc n)"
  by (auto simp: stops_def less_Suc_eq_0_disj)

lemma RetryDo_from_stops: "a \<le> 11 \<Longrightarrow> \<exists>n. stops fn s (nat (11 - a)) n \<and> RetryDo_from a fn s = fn (after fn n s)"
proof (induction a fn s rule: RetryDo_from.induct)
  case (1 a fn s)
  show ?case
  proof (cases "fst (fn s) = None \<or> a > 10")
    case True
    with 1(2) have "stops fn s (nat (11 - a)) 0" by (intro stops_here) auto
    with True show ?thesis by (intro exI [of _ 0]) (auto simp: RetryDo_from.simps [of a fn s] split: prod.splits)
  next
    case False
    then obtain n where "stops fn (snd (fn s)) (nat (11 - (a + 1))) n" "RetryDo_from (a + 1) fn (snd (fn s)) = fn (after fn n (snd (fn s)))"
      using 1 by (cases "fn s") fastforce
    moreover have "nat (11 - a) = Suc (nat (11 - (a + 1)))" using False by arith
    ultimately show ?thesis using False stops_later [of fn s "nat (11 - (a + 1))" n]
      by (intro exI [of _ "Suc n"]) (auto simp: RetryDo_from.simps [of a fn s] split: prod.splits)
  qed
qed

lemma RetryDoTimes_from_stops:
  "\<lbrakk>a \<le> max 0 (limit + 1); 0 \<le> a; limit < 2 ^ 63 - 1\<rbrakk> \<Longrightarrow>
   \<exists>n. stops fn s (nat (limit + 1 - a)) n \<and> RetryDoTimes_from a limit fn s = Some (fn (after fn n s))"
proof (induction "nat (limit + 1 - a)" arbitrary: a s)
  case 0
  then have "a > limit" by simp
  moreover have "nat (limit + 1 - a) = 0" using 0 by simp
  ultimately show ?case
    by (intro exI [of _ 0]) (auto simp: stops_def RetryDoTimes_from.simps [of a limit fn s] split: prod.splits)
next
  case (Suc m)
  then have a: "a \<le> limit" "wrap64 (a + 1) = a + 1" by (auto intro!: wrap64_id)
  show ?case
  proof (cases "fst (fn s) = None")
    case True
    then show ?thesis
      by (intro exI [of _ 0]) (auto simp: stops_def RetryDoTimes_from.simps [of a limit fn s] split: prod.splits)
  next
    case False
    have "m = nat (limit + 1 - (a + 1))" using Suc(2) a by arith
    then obtain n where "stops fn (snd (fn s)) (nat (limit + 1 - (a + 1))) n"
        "RetryDoTimes_from (a + 1) limit fn (snd (fn s)) = Some (fn (after fn n (snd (fn s))))"
      using Suc(1) [of "a + 1" "snd (fn s)"] Suc(3-) a by auto
    moreover have "nat (limit + 1 - a) = Suc (nat (limit + 1 - (a + 1)))" using a by arith
    ultimately show ?thesis using False a stops_later [of fn s "nat (limit + 1 - (a + 1))" n]
      by (intro exI [of _ "Suc n"]) (auto simp: RetryDoTimes_from.simps [of a limit fn s] split: prod.splits)
  qed
qed

text \<open>C35: The retry loops return. \<open>RetryDo\<close> returns what the first call without an error gives, or the
  twelfth call; \<open>RetryDoTimes\<close> with a limit below the largest \<open>int64\<close> the first without an
  error, or the call after \<open>limit + 1\<close> of them, the first if the limit is negative.
\<close>

theorem retries_return:
  "(\<exists>n. stops fn s 11 n \<and> RetryDo fn s = fn (after fn n s)) \<and>
   (limit < 2 ^ 63 - 1 \<longrightarrow> (\<exists>n. stops fn s (nat (limit + 1)) n \<and> RetryDoTimes limit fn s = Some (fn (after fn n s))))"
  using RetryDo_from_stops [of 0 fn s] RetryDoTimes_from_stops [of 0 limit fn s] by (auto simp: RetryDo_def RetryDoTimes_def)

text \<open>A function that never succeeds, with three tries asked for, is called five times.\<close>

theorem retries_return_witness:
  "RetryDoTimes 3 (\<lambda>n :: nat. (Some (), n + 1)) 0 = Some (Some (), 5) \<and> RetryDo (\<lambda>n :: nat. (Some (), n + 1)) 0 = (Some (), 12)"
proof -
  have "after (\<lambda>n :: nat. (Some (), n + 1)) k 0 = k" for k
    by (induction k) (simp_all add: after_def)
  with retries_return [where fn = "\<lambda>n :: nat. (Some (), n + 1)" and s = 0 and limit = 3] show ?thesis
    by (auto simp: stops_def)
qed

end
