(* ===== verification/Reflect_Help.thy ===== *)
theory Reflect_Help
  imports Prelude
begin

text \<open>
  Objects through package \<open>reflect\<close> (\<open>util/reflect.go\<close>, \<open>j2rpc/interface.go\<close>, \<open>j2rpc2/reflect.go\<close>): the
  tagged parts of an application object that the servers and the database handle register, the
  fields set to zero by name, the constructors called when the process starts.

  A Go object is a cell of a heap. A \<open>reflect.Value\<close> is a value together with the cell it lives in, if it
  can be written to; a panic is \<open>None\<close>.
\<close>

section \<open>Values\<close>

text \<open>A field of a struct: its name, whether it is exported, its tags, its value, and the zero value of its
  type; for a pointer also the object \<open>reflect.New\<close> makes of what it points to.\<close>

datatype 'v gval = GNil | GRef nat | GData 'v | GStruct "'v gfield list"
and 'v gfield = GField string bool "string list" "'v gval" "'v gval" "'v gval"

fun gf_name :: "'v gfield \<Rightarrow> string" where "gf_name (GField n ex ts v z o') = n"
fun gf_exported :: "'v gfield \<Rightarrow> bool" where "gf_exported (GField n ex ts v z o') = ex"
fun gf_tags :: "'v gfield \<Rightarrow> string list" where "gf_tags (GField n ex ts v z o') = ts"
fun gf_val :: "'v gfield \<Rightarrow> 'v gval" where "gf_val (GField n ex ts v z o') = v"
fun gf_zero :: "'v gfield \<Rightarrow> 'v gval" where "gf_zero (GField n ex ts v z o') = z"
fun gf_new :: "'v gfield \<Rightarrow> 'v gval" where "gf_new (GField n ex ts v z o') = o'"
fun gf_set :: "'v gval \<Rightarrow> 'v gfield \<Rightarrow> 'v gfield" where "gf_set v (GField n ex ts w z o') = GField n ex ts v z o'"

lemma gf_set_simps [simp]:
  "gf_name (gf_set v f) = gf_name f" "gf_exported (gf_set v f) = gf_exported f" "gf_tags (gf_set v f) = gf_tags f"
  "gf_val (gf_set v f) = v" "gf_zero (gf_set v f) = gf_zero f" "gf_new (gf_set v f) = gf_new f"
  by (cases f; simp)+

fun is_ptr :: "'v gval \<Rightarrow> bool" where
  "is_ptr GNil = True"
| "is_ptr (GRef a) = True"
| "is_ptr v = False"

record 'v heap =
  hp_next :: nat
  hp_cell :: "nat \<Rightarrow> 'v gval"

text \<open>A \<open>reflect.Value\<close>: invalid, or a value and where it is stored.\<close>

datatype 'v rvalue = RInvalid | RVal "'v gval" "nat option"

text \<open>\<open>for val.Kind() == reflect.Ptr { val = val.Elem() }\<close>; on a ring of pointers it does not end.\<close>

partial_function (option) ValueIndirect :: "'v heap \<Rightarrow> 'v rvalue \<Rightarrow> 'v rvalue option" where
  "ValueIndirect h v = (case v of
       RVal GNil _ \<Rightarrow> Some RInvalid
     | RVal (GRef a) _ \<Rightarrow> ValueIndirect h (RVal (hp_cell h a) (Some a))
     | _ \<Rightarrow> Some v)"

definition has_name :: "string \<Rightarrow> 'v gfield \<Rightarrow> bool" where
  "has_name s f \<longleftrightarrow> strings_ToLower (gf_name f) = strings_ToLower s"

section \<open>Operations\<close>

text \<open>\<open>ObjectTagInstances\<close>: the pointers in the fields with the tag, made when they are nil.\<close>

fun tag_instances :: "string \<Rightarrow> bool \<Rightarrow> 'v gfield list \<Rightarrow> 'v heap \<Rightarrow> 'v gval list \<times> 'v gfield list \<times> 'v heap" where
  "tag_instances tagName addr [] h = ([], [], h)"
| "tag_instances tagName addr (f # fs) h =
     (if tagName \<notin> set (gf_tags f) \<or> \<not> (addr \<and> gf_exported f \<and> is_ptr (gf_val f)) then
        (case tag_instances tagName addr fs h of (data, fs, h) \<Rightarrow> (data, f # fs, h))
      else
        let (f, h) = (case gf_val f of
            GNil \<Rightarrow> (gf_set (GRef (hp_next h)) f, h\<lparr>hp_next := hp_next h + 1, hp_cell := (hp_cell h)(hp_next h := gf_new f)\<rparr>)
          | _ \<Rightarrow> (f, h))
        in case tag_instances tagName addr fs h of (data, fs, h) \<Rightarrow> (gf_val f # data, f # fs, h))"

definition ObjectTagInstances :: "'v heap \<Rightarrow> 'v gval \<Rightarrow> string \<Rightarrow> ('v gval list \<times> 'v heap) option" where
  "ObjectTagInstances h obj tagName =
     (case ValueIndirect h (RVal obj None) of
        Some (RVal (GStruct fs) (Some a)) \<Rightarrow>
          (case tag_instances tagName True fs h of
             (data, fs, h) \<Rightarrow> Some (data, h\<lparr>hp_cell := (hp_cell h)(a := GStruct fs)\<rparr>))
      | Some (RVal (GStruct fs) None) \<Rightarrow> Some (fst (tag_instances tagName False fs h), h)
      | _ \<Rightarrow> None)"

text \<open>\<open>ReflectZeroFields\<close>: a name without a field is skipped; a field that may not be written panics.\<close>

definition zero_field :: "string \<Rightarrow> 'v gfield list \<Rightarrow> 'v gfield list option" where
  "zero_field name fs = (case List.find (\<lambda>f. gf_name f = name) fs of
       None \<Rightarrow> Some fs
     | Some f \<Rightarrow> if gf_exported f
         then Some (map (\<lambda>g. if gf_name g = name then gf_set (gf_zero g) g else g) fs) else None)"

fun zero_fields :: "string list \<Rightarrow> 'v gfield list \<Rightarrow> 'v gfield list option" where
  "zero_fields [] fs = Some fs"
| "zero_fields (n # ns) fs = Option.bind (zero_field n fs) (zero_fields ns)"

fun value_zero :: "('v \<Rightarrow> bool) \<Rightarrow> 'v gval \<Rightarrow> bool" where
  "value_zero zero_data GNil = True"
| "value_zero zero_data (GRef a) = False"
| "value_zero zero_data (GData d) = zero_data d"
| "value_zero zero_data (GStruct fs) = list_all (\<lambda>f. gf_val f = gf_zero f) fs"

definition ReflectZeroFields :: "('v \<Rightarrow> bool) \<Rightarrow> 'v heap \<Rightarrow> 'v gval \<Rightarrow> string list \<Rightarrow> 'v heap option" where
  "ReflectZeroFields zero_data h v names =
     (if value_zero zero_data v then Some h
      else case ValueIndirect h (RVal v None) of
        Some (RVal (GStruct fs) (Some a)) \<Rightarrow>
          map_option (\<lambda>fs. h\<lparr>hp_cell := (hp_cell h)(a := GStruct fs)\<rparr>) (zero_fields names fs)
      | Some (RVal (GStruct fs) None) \<Rightarrow>
          if list_all (\<lambda>n. List.find (\<lambda>f. gf_name f = n) fs = None) names then Some h else None
      | _ \<Rightarrow> None)"

text \<open>\<open>BeanHasFieldCallback\<close> with callbacks that write the field: a name in any case, of one field only.\<close>

definition BeanHasFieldCallback :: "'v heap \<Rightarrow> 'v gval \<Rightarrow> string \<Rightarrow> ('v gval \<Rightarrow> 'v gval) list \<Rightarrow> bool \<times> 'v heap" where
  "BeanHasFieldCallback h bean fieldName calls = (case bean of
       GRef a \<Rightarrow> (case hp_cell h a of
           GStruct fs \<Rightarrow> (case filter (has_name fieldName) fs of
               [f] \<Rightarrow> if gf_exported f
                 then (True, h\<lparr>hp_cell := (hp_cell h)(a :=
                   GStruct (map (\<lambda>g. if has_name fieldName g then gf_set (fold (\<lambda>c. c) calls (gf_val g)) g else g) fs))\<rparr>)
                 else (False, h)
             | _ \<Rightarrow> (False, h))
         | _ \<Rightarrow> (False, h))
     | _ \<Rightarrow> (False, h))"

text \<open>\<open>PopulateConstructor\<close>: the constructor of the object, then those of its pointer fields. \<open>is_con\<close> says which
  objects have one; an unexported pointer field panics.\<close>

fun field_constructors :: "('v gval \<Rightarrow> bool) \<Rightarrow> 'v gfield list \<Rightarrow> 'v gval list option" where
  "field_constructors is_con [] = Some []"
| "field_constructors is_con (f # fs) =
     (if \<not> is_ptr (gf_val f) then field_constructors is_con fs
      else if \<not> gf_exported f then None
      else map_option (\<lambda>l. if is_con (gf_val f) then gf_val f # l else l) (field_constructors is_con fs))"

definition PopulateConstructor :: "('v gval \<Rightarrow> bool) \<Rightarrow> 'v heap \<Rightarrow> 'v gval \<Rightarrow> 'v gval list option" where
  "PopulateConstructor is_con h v =
     (if \<not> is_ptr v then None
      else case ValueIndirect h (RVal v None) of
        Some (RVal (GStruct fs) _) \<Rightarrow> map_option (\<lambda>l. if is_con v then v # l else l) (field_constructors is_con fs)
      | _ \<Rightarrow> None)"

section \<open>What is found and made\<close>

definition tagged :: "string \<Rightarrow> 'v gfield \<Rightarrow> bool" where
  "tagged t f \<longleftrightarrow> t \<in> set (gf_tags f) \<and> gf_exported f \<and> is_ptr (gf_val f)"

text \<open>A field before and after: a nil pointer with the tag becomes one to a new object of its type, in a cell
  that was not in use; every other field stays.\<close>

definition field_made :: "string \<Rightarrow> 'v heap \<Rightarrow> 'v heap \<Rightarrow> 'v gfield \<Rightarrow> 'v gfield \<Rightarrow> bool" where
  "field_made t h h' f f' \<longleftrightarrow>
     (if tagged t f \<and> gf_val f = GNil
      then \<exists>a. hp_next h \<le> a \<and> a < hp_next h' \<and> f' = gf_set (GRef a) f \<and> hp_cell h' a = gf_new f
      else f' = f)"

lemma tagged_set: "tagged t f \<Longrightarrow> tagged t (gf_set (GRef a) f)"
  by (simp add: tagged_def)

lemma field_made_later:
  assumes "field_made t h1 h' f f'" "hp_next h \<le> hp_next h1" shows "field_made t h h' f f'"
  using assms unfolding field_made_def by (meson order_trans)

lemma tag_instances_made:
  "tag_instances t True fs h = (data, fs', h') \<Longrightarrow>
   data = map gf_val (filter (tagged t) fs') \<and> GNil \<notin> set data \<and> list_all2 (field_made t h h') fs fs' \<and>
   hp_next h \<le> hp_next h' \<and> (\<forall>a < hp_next h. hp_cell h' a = hp_cell h a)"
proof (induction fs arbitrary: h data fs' h')
  case (Cons f fs)
  show ?case
  proof (cases "tagged t f")
    case False
    with Cons.prems obtain fs1 where "tag_instances t True fs h = (data, fs1, h')" "fs' = f # fs1"
      by (auto simp: tagged_def split: prod.splits)
    with Cons.IH [OF this(1)] False show ?thesis by (auto simp: field_made_def)
  next
    case True
    show ?thesis
    proof (cases "gf_val f = GNil")
      case nil: True
      let ?h = "h\<lparr>hp_next := hp_next h + 1, hp_cell := (hp_cell h)(hp_next h := gf_new f)\<rparr>"
      from Cons.prems True nil obtain data1 fs1 where r: "tag_instances t True fs ?h = (data1, fs1, h')"
        "data = GRef (hp_next h) # data1" "fs' = gf_set (GRef (hp_next h)) f # fs1"
        by (auto simp: tagged_def split: prod.splits)
      note IH = Cons.IH [OF r(1)]
      have "list_all2 (field_made t h h') fs fs1"
        by (rule list_all2_mono [OF IH [THEN conjunct2, THEN conjunct2, THEN conjunct1]]) (auto intro: field_made_later)
      moreover have "field_made t h h' f (gf_set (GRef (hp_next h)) f)"
        using True nil IH by (auto simp: field_made_def intro!: exI [of _ "hp_next h"])
      ultimately show ?thesis using IH r True by (auto simp: tagged_set)
    next
      case ref: False
      then obtain a where a: "gf_val f = GRef a" using True by (cases "gf_val f") (auto simp: tagged_def)
      with Cons.prems True obtain data1 fs1 where r: "tag_instances t True fs h = (data1, fs1, h')"
        "data = GRef a # data1" "fs' = f # fs1" by (auto simp: tagged_def split: prod.splits)
      from Cons.IH [OF r(1)] r True a show ?thesis by (auto simp: field_made_def)
    qed
  qed
qed simp

text \<open>Once everything is there, nothing changes.\<close>

lemma tag_instances_again:
  "GNil \<notin> set (map gf_val (filter (tagged t) fs)) \<Longrightarrow> tag_instances t True fs h = (map gf_val (filter (tagged t) fs), fs, h)"
proof (induction fs)
  case (Cons f fs)
  then show ?case by (cases "gf_val f") (auto simp: tagged_def)
qed simp

lemma Indirect_ref: "hp_cell h a = GStruct fs \<Longrightarrow> ValueIndirect h (RVal (GRef a) l) = Some (RVal (GStruct fs) (Some a))"
  by (simp add: ValueIndirect.simps [of h "RVal (GRef a) l"] ValueIndirect.simps [of h "RVal (GStruct fs) (Some a)"])

lemma Instances_ref:
  assumes "hp_cell h a = GStruct fs"
  shows "ObjectTagInstances h (GRef a) t = (case tag_instances t True fs h of
    (data, fs, h) \<Rightarrow> Some (data, h\<lparr>hp_cell := (hp_cell h)(a := GStruct fs)\<rparr>))"
  by (simp add: ObjectTagInstances_def Indirect_ref [OF assms])


definition demo_heap :: "nat heap" where
  "demo_heap = \<lparr>hp_next = 2, hp_cell = (\<lambda>a. if a = 0 then GStruct
     [GField ''User'' True [''j2rpc''] GNil GNil (GStruct []), GField ''Name'' True [] (GData 7) (GData 0) GNil,
      GField ''Shop'' True [''j2rpc''] (GRef 1) GNil (GStruct [])] else GStruct [])\<rparr>"


section \<open>Zeroing and constructors\<close>

text \<open>Fields that may be written become zero, and nothing else changes.\<close>

lemma zero_fields_exported:
  assumes "\<forall>f \<in> set fs. gf_exported f" "distinct (map gf_name fs)"
  shows "zero_fields ns fs = Some (map (\<lambda>f. if gf_name f \<in> set ns then gf_set (gf_zero f) f else f) fs)"
  using assms
proof (induction ns arbitrary: fs)
  case Nil
  then show ?case by simp
next
  case (Cons n ns)
  let ?fs = "map (\<lambda>g. if gf_name g = n then gf_set (gf_zero g) g else g) fs"
  have z: "zero_field n fs = Some ?fs"
  proof (cases "List.find (\<lambda>f. gf_name f = n) fs")
    case None
    then have "?fs = fs" by (auto simp: find_None_iff intro: map_idI)
    with None show ?thesis by (simp add: zero_field_def)
  next
    case (Some f)
    then have "f \<in> set fs" by (auto simp: find_Some_iff)
    with Some Cons.prems show ?thesis by (simp add: zero_field_def)
  qed
  have twice: "gf_set v (gf_set w f) = gf_set v f" for v w and f :: "'a gfield" by (cases f) simp
  have "map gf_name ?fs = map gf_name fs" by simp
  with Cons.prems have "zero_fields ns ?fs = Some (map (\<lambda>f. if gf_name f \<in> set ns then gf_set (gf_zero f) f else f) ?fs)"
    by (intro Cons.IH) (auto simp: o_def simp del: map_map)
  with z show ?case by (auto simp: twice o_def)
qed

text \<open>An unexported field is not passed over: the test asks for a field that neither exists nor can be
  set, where either should do, so writing to it panics.\<close>

lemma unexported_panics:
  "hp_cell h a = GStruct [GField ''name'' False [] (GData d) (GData z) GNil] \<Longrightarrow>
   ReflectZeroFields zd h (GRef a) [''name''] = None"
  by (simp add: ReflectZeroFields_def Indirect_ref zero_field_def)

text \<open>Constructors run outside in and in the order of the fields.\<close>

lemma constructors_in_order:
  assumes "hp_cell h a = GStruct fs" "\<forall>f \<in> set fs. is_ptr (gf_val f) \<longrightarrow> gf_exported f"
  shows "PopulateConstructor is_con h (GRef a) =
     Some (filter is_con (GRef a # map gf_val (filter (\<lambda>f. is_ptr (gf_val f)) fs)))"
proof -
  have "field_constructors is_con fs = Some (filter is_con (map gf_val (filter (\<lambda>f. is_ptr (gf_val f)) fs)))"
    using assms(2) by (induction fs) auto
  then show ?thesis by (simp add: PopulateConstructor_def Indirect_ref [OF assms(1)])
qed

end
