(* ===== verification/Process_Control.thy ===== *)
theory Process_Control
  imports Prelude
begin

text \<open>
  Starting and stopping the server process from the command line (\<open>cmd/start.go\<close>, \<open>cmd/stop.go\<close>,
  \<open>cmd/cmd-functions.go\<close>, and \<open>cmd2/\<close> with its own \<open>killProcess\<close>): a daemon is started after the one that
  runs is looked for by name, by port and by its pid file, told to end, and waited for.

  The state is the machine's: its processes as \<open>ps\<close> and \<open>lsof\<close> list them, the pid file, the command lines
  given to the shell. What the shell commands \<open>grep\<close> and \<open>kill\<close> take their texts to mean, which port an
  address stands for and what goes on on the machine while the program sleeps are the fields of
  \<open>machine\<close>; the laws the code relies on are the locale \<open>machine_laws\<close>.
\<close>

section \<open>The machine\<close>

text \<open>A process: its pid, its line in \<open>ps -ef\<close>, the command name in \<open>lsof\<close>, the ports it listens on, the
  ports at either end of its other connections, and whether it has been told to end.\<close>

record proc =
  pr_pid :: string
  pr_line :: string
  pr_command :: string
  pr_listens :: "nat list"
  pr_connected :: "nat list"
  pr_signalled :: bool

record world =
  wd_procs :: "proc list"
  wd_pidfile :: "string option"
  wd_pid_readable :: bool
  wd_pid_removable :: bool
  wd_pid_writable :: bool
  wd_started :: "string list"
  wd_exited :: bool

record machine =
  mc_grep :: "string \<Rightarrow> string \<Rightarrow> bool"
  mc_kill :: "string \<Rightarrow> string list"
  mc_port :: "string \<Rightarrow> nat option"
  mc_self :: string
  mc_tick :: "world \<Rightarrow> world"

text \<open>\<open>AddressCanListen\<close>: the address is one, and nobody listens on its port.\<close>

definition AddressCanListen :: "machine \<Rightarrow> string \<Rightarrow> world \<Rightarrow> bool" where
  "AddressCanListen M addr w = (case mc_port M addr of
       None \<Rightarrow> False
     | Some p \<Rightarrow> list_all (\<lambda>r. p \<notin> set (pr_listens r)) (wd_procs w))"

section \<open>Finding and ending processes\<close>

text \<open>The lines of \<open>ps -ef\<close> without \<open>grep\<close> in them that match; \<open>strings.Split\<close> of no output is one empty text.\<close>

definition named :: "machine \<Rightarrow> string \<Rightarrow> proc \<Rightarrow> bool" where
  "named M name r \<longleftrightarrow> \<not> strings_Contains (pr_line r) ''grep'' \<and> mc_grep M name (pr_line r)"

definition FindPidSliceByProcessName :: "machine \<Rightarrow> string \<Rightarrow> world \<Rightarrow> string list" where
  "FindPidSliceByProcessName M name w =
     (let pids = map pr_pid (filter (named M name) (wd_procs w)) in if pids = [] then [[]] else pids)"

text \<open>The second line of what \<open>lsof -i:port\<close> prints: the first process with a connection at the port.\<close>

definition uses_port :: "nat \<Rightarrow> proc \<Rightarrow> bool" where
  "uses_port p r \<longleftrightarrow> (p \<in> set (pr_listens r) \<or> p \<in> set (pr_connected r)) \<and> \<not> strings_Contains (pr_command r) ''grep''"

definition FindPIDWithPort :: "nat \<Rightarrow> world \<Rightarrow> string" where
  "FindPIDWithPort p w = (case filter (uses_port p) (wd_procs w) of [] \<Rightarrow> [] | r # _ \<Rightarrow> pr_pid r)"

definition signal_one :: "string list \<Rightarrow> proc \<Rightarrow> proc" where
  "signal_one pids r = (if pr_pid r \<in> set pids then r\<lparr>pr_signalled := True\<rparr> else r)"

definition KillProcessByPID :: "machine \<Rightarrow> string \<Rightarrow> world \<Rightarrow> world" where
  "KillProcessByPID M pid w = w\<lparr>wd_procs := map (signal_one (mc_kill M pid)) (wd_procs w)\<rparr>"

definition ProcessIsRunning :: "machine \<Rightarrow> string \<Rightarrow> world \<Rightarrow> bool" where
  "ProcessIsRunning M name w = (let ps = FindPidSliceByProcessName M name w in length ps > 0 \<and> length (ps ! 0) > 0)"

definition KillProcess :: "machine \<Rightarrow> string \<Rightarrow> world \<Rightarrow> world \<times> bool" where
  "KillProcess M name w =
     (if \<not> ProcessIsRunning M name w then (w, False)
      else (fold (KillProcessByPID M) (FindPidSliceByProcessName M name w) w, True))"

text \<open>Waiting: look, sleep, look again. A wait that does not end is \<open>None\<close>.\<close>

partial_function (option) wait_until :: "(world \<Rightarrow> bool) \<Rightarrow> (world \<Rightarrow> world) \<Rightarrow> world \<Rightarrow> world option" where
  "wait_until stop tick w = (if stop w then Some w else wait_until stop tick (tick w))"

definition tickUntilFunc :: "machine \<Rightarrow> (world \<Rightarrow> bool) \<Rightarrow> world \<Rightarrow> world option" where
  "tickUntilFunc M fn w = wait_until fn (mc_tick M) (mc_tick M w)"

definition KillProcessWithPort :: "machine \<Rightarrow> nat \<Rightarrow> world \<Rightarrow> (world \<times> bool) option" where
  "KillProcessWithPort M p w =
     (let pid = FindPIDWithPort p w in
      if pid = [] then Some (w, False)
      else map_option (\<lambda>w. (w, True)) (tickUntilFunc M (\<lambda>w. FindPIDWithPort p w = []) (KillProcessByPID M pid w)))"

section \<open>The commands\<close>

record cmd_config =
  APPName :: string
  ServerHost :: string
  ServerPProfPort :: string

text \<open>\<open>strconv.Atoi\<close>.\<close>

definition digits_value :: "string \<Rightarrow> nat option" where
  "digits_value s = (if s \<noteq> [] \<and> list_all is_digit s then Some (foldl (\<lambda>n c. 10 * n + (of_char c - 48)) 0 s) else None)"

definition strconv_Atoi :: "string \<Rightarrow> int option" where
  "strconv_Atoi s =
     (let (neg, d) = (case s of c # r \<Rightarrow> if c = CHR ''-'' then (True, r) else if c = CHR ''+'' then (False, r) else (False, s) | [] \<Rightarrow> (False, s))
      in case digits_value d of
           None \<Rightarrow> None
         | Some n \<Rightarrow> let k = (if neg then - int n else int n) in if - (2 ^ 63) \<le> k \<and> k < 2 ^ 63 then Some k else None)"

definition killWithPidFile :: "machine \<Rightarrow> world \<Rightarrow> world" where
  "killWithPidFile M w = (case wd_pidfile w of
       None \<Rightarrow> w
     | Some pid \<Rightarrow>
         if \<not> wd_pid_readable w then w
         else if \<not> wd_pid_removable w then w
         else KillProcessByPID M pid (w\<lparr>wd_pidfile := None\<rparr>))"

definition killByPort :: "machine \<Rightarrow> cmd_config \<Rightarrow> world \<Rightarrow> world option" where
  "killByPort M c w =
     (let arr = strings_Split (ServerHost c) '':'' in
      if length arr = 2 then
        case strconv_Atoi (arr ! 1) of
          None \<Rightarrow> Some w
        | Some port \<Rightarrow> map_option fst (KillProcessWithPort M (nat (port mod 2 ^ 32)) w)
      else Some w)"

definition daemon_names :: "cmd_config \<Rightarrow> string list" where
  "daemon_names c = [APPName c @ ''.out -x'', APPName c @ ''.run -x'', APPName c @ '' -x'']"

definition killProcess :: "machine \<Rightarrow> cmd_config \<Rightarrow> world \<Rightarrow> world option" where
  "killProcess M c w =
     (if AddressCanListen M (ServerHost c) w then Some w
      else
        Option.bind (killByPort M c (fold (\<lambda>n w. fst (KillProcess M n w)) (daemon_names c) w)) (\<lambda>w.
        Option.bind (wait_until (AddressCanListen M (ServerHost c)) (mc_tick M) (killWithPidFile M w)) (\<lambda>w.
        wait_until (AddressCanListen M (ServerPProfPort c)) (mc_tick M) w)))"

text \<open>The daemon's command line: the program, \<open>-x\<close>, the arguments, and the first \<open>-d\<close> of it all cut out.\<close>

definition daemon_line :: "string \<Rightarrow> string list \<Rightarrow> string" where
  "daemon_line ec args = strings_Replace1 (fold (\<lambda>v str. str @ '' '' @ v) args (ec @ '' -x'')) ''-d'' []"

definition cmdStart :: "string \<Rightarrow> string list \<Rightarrow> world \<Rightarrow> world" where
  "cmdStart ec args w = w\<lparr>wd_started := wd_started w @ [daemon_line ec args]\<rparr>"

definition writePid :: "machine \<Rightarrow> world \<Rightarrow> world \<times> bool" where
  "writePid M w = (if wd_pid_writable w then (w\<lparr>wd_pidfile := Some (mc_self M)\<rparr>, True) else (w, False))"

definition optional :: "('a \<Rightarrow> 'a) option \<Rightarrow> 'a \<Rightarrow> 'a" where
  "optional f w = (case f of None \<Rightarrow> w | Some f \<Rightarrow> f w)"

definition startCmd ::
  "machine \<Rightarrow> cmd_config \<Rightarrow> (world \<Rightarrow> world) option \<Rightarrow> (world \<Rightarrow> world) option \<Rightarrow> bool \<Rightarrow> string \<Rightarrow> string list \<Rightarrow> world \<Rightarrow> world option" where
  "startCmd M c BeforeStartFunc StartFunc daemon ec args w =
     (let w = optional BeforeStartFunc w in
      if daemon then map_option (cmdStart ec args) (killProcess M c w)
      else case writePid M w of
             (w, False) \<Rightarrow> Some (w\<lparr>wd_exited := True\<rparr>)
           | (w, True) \<Rightarrow> Some (optional StartFunc w))"

definition stopCmd :: "machine \<Rightarrow> cmd_config \<Rightarrow> (world \<Rightarrow> world) option \<Rightarrow> (world \<Rightarrow> world) \<Rightarrow> bool \<Rightarrow> world \<Rightarrow> world option" where
  "stopCmd M c BeforeStopFunc DropFunc dropdb w =
     map_option (\<lambda>w. if dropdb then DropFunc w else w) (killProcess M c (optional BeforeStopFunc w))"

text \<open>The second version looks for the program's own path only.\<close>

definition cmd2_killProcess :: "machine \<Rightarrow> string \<Rightarrow> world \<Rightarrow> world option" where
  "cmd2_killProcess M ec w =
     (let process = ec @ '' -x'' in
      if \<not> ProcessIsRunning M process w then Some w
      else wait_until (\<lambda>w. \<not> ProcessIsRunning M process w) (mc_tick M) (fst (KillProcess M process w)))"

definition cmd2_startCmd ::
  "machine \<Rightarrow> (world \<Rightarrow> world) option \<Rightarrow> (world \<Rightarrow> world) option \<Rightarrow> bool \<Rightarrow> string \<Rightarrow> string list \<Rightarrow> world \<Rightarrow> world option" where
  "cmd2_startCmd M BeforeStartFunc StartFunc daemon ec args w =
     (let w = optional BeforeStartFunc w in
      if daemon then map_option (cmdStart ec args) (cmd2_killProcess M ec w)
      else Some (optional StartFunc w))"

definition cmd2_stopCmd :: "machine \<Rightarrow> (world \<Rightarrow> world) option \<Rightarrow> string \<Rightarrow> world \<Rightarrow> world option" where
  "cmd2_stopCmd M BeforeStopFunc ec w = cmd2_killProcess M ec (optional BeforeStopFunc w)"

section \<open>Waiting ends\<close>

lemma wait_until_Some: "stop ((tick ^^ n) w) \<Longrightarrow> \<exists>m. wait_until stop tick w = Some ((tick ^^ m) w) \<and> stop ((tick ^^ m) w)"
proof (induction n arbitrary: w)
  case 0
  then show ?case by (intro exI [of _ 0]) (simp add: wait_until.simps)
next
  case (Suc n)
  show ?case
  proof (cases "stop w")
    case True
    then show ?thesis by (intro exI [of _ 0]) (simp add: wait_until.simps)
  next
    case False
    from Suc.prems have "stop ((tick ^^ n) (tick w))" by (simp add: funpow_swap1)
    from Suc.IH [OF this] obtain m where "wait_until stop tick (tick w) = Some ((tick ^^ m) (tick w))" "stop ((tick ^^ m) (tick w))" by blast
    with False show ?thesis by (intro exI [of _ "Suc m"]) (simp add: wait_until.simps [of stop tick w] funpow_swap1)
  qed
qed

lemma wait_until_stopped:
  assumes "wait_until stop tick w = Some w'"
  shows "\<exists>n. w' = (tick ^^ n) w \<and> stop w'"
proof (rule wait_until.raw_induct [where P = "\<lambda>stop tick w w'. \<exists>n. w' = (tick ^^ n) w \<and> stop w'", OF _ assms])
  fix wait :: "(world \<Rightarrow> bool) \<Rightarrow> (world \<Rightarrow> world) \<Rightarrow> world \<Rightarrow> world option"
  fix stop :: "world \<Rightarrow> bool" and tick :: "world \<Rightarrow> world" and w w' :: world
  assume IH: "\<And>stop tick w w'. wait stop tick w = Some w' \<Longrightarrow> \<exists>n. w' = (tick ^^ n) w \<and> stop w'"
    and step: "(if stop w then Some w else wait stop tick (tick w)) = Some w'"
  show "\<exists>n. w' = (tick ^^ n) w \<and> stop w'"
  proof (cases "stop w")
    case True
    with step have "w' = (tick ^^ 0) w \<and> stop w'" by auto
    then show ?thesis by blast
  next
    case False
    with step IH [of stop tick "tick w" w'] obtain n where "w' = (tick ^^ n) (tick w)" "stop w'" by auto
    then have "w' = (tick ^^ Suc n) w \<and> stop w'" by (simp add: funpow_swap1)
    then show ?thesis by blast
  qed
qed

text \<open>A process that does not go keeps the command waiting.\<close>

lemma wait_forever: "(\<And>n. \<not> stop ((tick ^^ n) w)) \<Longrightarrow> wait_until stop tick w = None"
  using wait_until_stopped [of stop tick w] by (cases "wait_until stop tick w") auto

section \<open>What the machine promises\<close>

text \<open>A process of later on is one of before, with no new port.\<close>

definition proc_le :: "proc \<Rightarrow> proc \<Rightarrow> bool" where
  "proc_le r' r \<longleftrightarrow> pr_pid r' = pr_pid r \<and> pr_line r' = pr_line r \<and> pr_command r' = pr_command r \<and>
     set (pr_listens r') \<subseteq> set (pr_listens r) \<and> set (pr_connected r') \<subseteq> set (pr_connected r)"

definition wf_world :: "world \<Rightarrow> bool" where
  "wf_world w \<longleftrightarrow> distinct (map pr_pid (wd_procs w)) \<and> (\<forall>r \<in> set (wd_procs w). pr_pid r \<noteq> [] \<and> list_all is_digit (pr_pid r))"

text \<open>While the program sleeps: processes end and connections close.\<close>

definition quiet :: "world \<Rightarrow> world \<Rightarrow> bool" where
  "quiet w w' \<longleftrightarrow> (\<forall>r' \<in> set (wd_procs w'). \<exists>r \<in> set (wd_procs w). proc_le r' r \<and> pr_signalled r' = pr_signalled r) \<and>
     (wf_world w \<longrightarrow> wf_world w') \<and> wd_pidfile w' = wd_pidfile w \<and> wd_started w' = wd_started w"

text \<open>What a step of the command may do: end processes of the kind \<open>K\<close> and no others.\<close>

definition moves :: "(proc \<Rightarrow> bool) \<Rightarrow> world \<Rightarrow> world \<Rightarrow> bool" where
  "moves K w w' \<longleftrightarrow> (\<forall>r' \<in> set (wd_procs w'). \<exists>r \<in> set (wd_procs w). proc_le r' r \<and>
       (pr_signalled r \<longrightarrow> pr_signalled r') \<and> (pr_signalled r' \<longrightarrow> pr_signalled r \<or> K r)) \<and>
     (wf_world w \<longrightarrow> wf_world w') \<and> wd_started w' = wd_started w"

definition signal_if :: "(proc \<Rightarrow> bool) \<Rightarrow> proc \<Rightarrow> proc" where
  "signal_if P r = (if P r then r\<lparr>pr_signalled := True\<rparr> else r)"

locale machine_laws =
  fixes M :: machine
  assumes kill_pid: "pid \<noteq> [] \<Longrightarrow> list_all is_digit pid \<Longrightarrow> mc_kill M pid = [pid]"
    and tick_quiet: "quiet w (mc_tick M w)"
    and tick_ends: "\<exists>n. \<forall>r \<in> set (wd_procs ((mc_tick M ^^ n) w)). \<not> pr_signalled r"
begin

lemma moves_refl: "moves K w w"
  by (auto simp: moves_def proc_le_def)

lemma moves_trans:
  assumes K: "\<And>r' r. proc_le r' r \<Longrightarrow> K r' \<Longrightarrow> K r" and "moves K u v" "moves K v w"
  shows "moves K u w"
  unfolding moves_def
proof (intro conjI ballI)
  fix r3 assume "r3 \<in> set (wd_procs w)"
  then obtain r2 where r2: "r2 \<in> set (wd_procs v)" "proc_le r3 r2" "pr_signalled r2 \<longrightarrow> pr_signalled r3" "pr_signalled r3 \<longrightarrow> pr_signalled r2 \<or> K r2"
    using assms(3) by (force simp: moves_def)
  then obtain r1 where r1: "r1 \<in> set (wd_procs u)" "proc_le r2 r1" "pr_signalled r1 \<longrightarrow> pr_signalled r2" "pr_signalled r2 \<longrightarrow> pr_signalled r1 \<or> K r1"
    using assms(2) by (force simp: moves_def)
  have "proc_le r3 r1" using r2(2) r1(2) by (auto simp: proc_le_def)
  with r1 r2 K [OF r1(2)] show "\<exists>r \<in> set (wd_procs u). proc_le r3 r \<and> (pr_signalled r \<longrightarrow> pr_signalled r3) \<and>
      (pr_signalled r3 \<longrightarrow> pr_signalled r \<or> K r)" by blast
qed (use assms(2,3) in \<open>auto simp: moves_def\<close>)

lemma quiet_moves: "quiet w w' \<Longrightarrow> moves K w w'"
  by (force simp: quiet_def moves_def)

lemma quiet_trans: "quiet u v \<Longrightarrow> quiet v w \<Longrightarrow> quiet u w"
proof -
  assume uv: "quiet u v" and vw: "quiet v w"
  have "\<exists>r \<in> set (wd_procs u). proc_le r3 r \<and> pr_signalled r3 = pr_signalled r" if r3: "r3 \<in> set (wd_procs w)" for r3
  proof -
    obtain r2 where r2: "r2 \<in> set (wd_procs v)" "proc_le r3 r2" "pr_signalled r3 = pr_signalled r2"
      using vw r3 by (force simp: quiet_def)
    then obtain r1 where "r1 \<in> set (wd_procs u)" "proc_le r2 r1" "pr_signalled r2 = pr_signalled r1"
      using uv by (force simp: quiet_def)
    with r2 show ?thesis by (intro bexI [of _ r1]) (auto simp: proc_le_def)
  qed
  with uv vw show "quiet u w" by (simp add: quiet_def)
qed

lemma ticks_quiet: "quiet w ((mc_tick M ^^ n) w)"
proof (induction n)
  case (Suc n)
  from quiet_trans [OF Suc.IH tick_quiet] show ?case by simp
next
  case 0
  show ?case by (auto simp: quiet_def proc_le_def)
qed

text \<open>Signals to processes of the kind \<open>K\<close> only.\<close>

lemma map_moves:
  assumes "wd_procs w' = map f (wd_procs w)" "wd_started w' = wd_started w"
    and "\<And>r. r \<in> set (wd_procs w) \<Longrightarrow> f r = r \<or> K r \<and> f r = r\<lparr>pr_signalled := True\<rparr>"
  shows "moves K w w'"
proof -
  have same: "pr_pid (f r) = pr_pid r" if "r \<in> set (wd_procs w)" for r
    using assms(3) [OF that] by auto
  then have "map pr_pid (wd_procs w') = map pr_pid (wd_procs w)" by (simp add: assms(1))
  moreover have "(\<forall>r \<in> set (wd_procs w'). Q (pr_pid r)) \<longleftrightarrow> (\<forall>r \<in> set (wd_procs w). Q (pr_pid r))" for Q
    using same by (auto simp: assms(1))
  note this [of "\<lambda>p. p \<noteq> [] \<and> list_all is_digit p"]
  ultimately have "wf_world w \<longrightarrow> wf_world w'" by (simp add: wf_world_def)
  moreover have "proc_le (f r) r \<and> (pr_signalled r \<longrightarrow> pr_signalled (f r)) \<and> (pr_signalled (f r) \<longrightarrow> pr_signalled r \<or> K r)"
    if "r \<in> set (wd_procs w)" for r using assms(3) [OF that] by (auto simp: proc_le_def)
  ultimately show ?thesis using assms(1,2) by (auto simp: moves_def)
qed

lemma kill_procs:
  "pid \<noteq> [] \<Longrightarrow> list_all is_digit pid \<Longrightarrow> wd_procs (KillProcessByPID M pid w) = map (signal_one [pid]) (wd_procs w)"
  by (simp add: KillProcessByPID_def kill_pid)

lemma kill_fold:
  "\<forall>pid \<in> set pids. pid \<noteq> [] \<and> list_all is_digit pid \<Longrightarrow>
   wd_procs (fold (KillProcessByPID M) pids w) = map (signal_one pids) (wd_procs w)"
proof (induction pids arbitrary: w)
  case Nil
  then show ?case by (simp add: signal_one_def [abs_def])
next
  case (Cons p ps)
  then show ?case by (auto simp: kill_procs signal_one_def)
qed

lemma kill_rest [simp]:
  "wd_started (KillProcessByPID M pid w) = wd_started w" "wd_pidfile (KillProcessByPID M pid w) = wd_pidfile w"
  by (simp_all add: KillProcessByPID_def)

lemma kill_fold_rest [simp]:
  "wd_started (fold (KillProcessByPID M) pids w) = wd_started w" "wd_pidfile (fold (KillProcessByPID M) pids w) = wd_pidfile w"
  by (induction pids arbitrary: w) simp_all

lemma KillProcess_procs:
  assumes "wf_world w"
  shows "wd_procs (fst (KillProcess M name w)) = map (signal_if (named M name)) (wd_procs w)"
proof -
  let ?f = "filter (named M name) (wd_procs w)"
  have digits: "\<forall>pid \<in> set (map pr_pid ?f). pid \<noteq> [] \<and> list_all is_digit pid" using assms by (auto simp: wf_world_def)
  have run: "ProcessIsRunning M name w \<longleftrightarrow> ?f \<noteq> []"
    using digits by (cases ?f) (auto simp: ProcessIsRunning_def FindPidSliceByProcessName_def Let_def)
  show ?thesis
  proof (cases "?f = []")
    case True
    then have "signal_if (named M name) r = r" if "r \<in> set (wd_procs w)" for r
      using that by (auto simp: signal_if_def filter_empty_conv)
    then have "map (signal_if (named M name)) (wd_procs w) = wd_procs w" by (simp cong: map_cong)
    with True run show ?thesis by (simp add: KillProcess_def)
  next
    case False
    then have "FindPidSliceByProcessName M name w = map pr_pid ?f" by (simp add: FindPidSliceByProcessName_def Let_def)
    with False run have "wd_procs (fst (KillProcess M name w)) = map (signal_one (map pr_pid ?f)) (wd_procs w)"
      using kill_fold [OF digits] by (simp add: KillProcess_def)
    moreover have "signal_one (map pr_pid ?f) r = signal_if (named M name) r" if "r \<in> set (wd_procs w)" for r
      using that assms by (auto simp: signal_one_def signal_if_def wf_world_def distinct_map inj_on_def)
    ultimately show ?thesis by simp
  qed
qed

end

section \<open>The port becomes free\<close>

definition touches :: "nat \<Rightarrow> proc \<Rightarrow> bool" where
  "touches p r \<longleftrightarrow> p \<in> set (pr_listens r) \<or> p \<in> set (pr_connected r)"

definition kill_port :: "cmd_config \<Rightarrow> nat option" where
  "kill_port c = (let arr = strings_Split (ServerHost c) '':'' in
     if length arr = 2 then map_option (\<lambda>n. nat (n mod 2 ^ 32)) (strconv_Atoi (arr ! 1)) else None)"

definition cmd_ports :: "machine \<Rightarrow> cmd_config \<Rightarrow> nat set" where
  "cmd_ports M c = set_option (mc_port M (ServerHost c)) \<union> set_option (mc_port M (ServerPProfPort c)) \<union> set_option (kill_port c)"

text \<open>The server's ports are used by processes that bear the server's name only.\<close>

definition is_daemon :: "machine \<Rightarrow> cmd_config \<Rightarrow> proc \<Rightarrow> bool" where
  "is_daemon M c r \<longleftrightarrow> list_ex (\<lambda>n. named M n r) (daemon_names c)"

definition owned :: "machine \<Rightarrow> cmd_config \<Rightarrow> world \<Rightarrow> bool" where
  "owned M c w \<longleftrightarrow> (\<forall>p \<in> cmd_ports M c. \<forall>r \<in> set (wd_procs w). touches p r \<longrightarrow> is_daemon M c r)"

text \<open>Who is told to end: by name, by port, by the pid file.\<close>

definition told :: "machine \<Rightarrow> cmd_config \<Rightarrow> string option \<Rightarrow> proc \<Rightarrow> bool" where
  "told M c pidfile r \<longleftrightarrow> is_daemon M c r \<or> (\<exists>p. kill_port c = Some p \<and> uses_port p r) \<or>
     (\<exists>pid. pidfile = Some pid \<and> pr_pid r \<in> set (mc_kill M pid))"

definition all_told :: "nat set \<Rightarrow> world \<Rightarrow> bool" where
  "all_told P w \<longleftrightarrow> (\<forall>r \<in> set (wd_procs w). \<forall>p \<in> P. touches p r \<longrightarrow> pr_signalled r)"

lemma told_mono: "proc_le r' r \<Longrightarrow> told M c f r' \<Longrightarrow> told M c f r"
  by (auto simp: told_def is_daemon_def list_ex_iff named_def uses_port_def proc_le_def)

lemma touches_mono: "proc_le r' r \<Longrightarrow> touches p r' \<Longrightarrow> touches p r"
  by (auto simp: touches_def proc_le_def)

lemma uses_touches: "uses_port p r \<Longrightarrow> touches p r"
  by (auto simp: uses_port_def touches_def)

lemma killByPort_alt:
  "killByPort M c w = (case kill_port c of None \<Rightarrow> Some w | Some p \<Rightarrow> map_option fst (KillProcessWithPort M p w))"
  by (simp add: killByPort_def kill_port_def Let_def split: option.split)

lemma CanListen_touches: "mc_port M addr = Some p \<Longrightarrow> \<forall>r \<in> set (wd_procs w). \<not> touches p r \<Longrightarrow> AddressCanListen M addr w"
  by (auto simp: AddressCanListen_def touches_def list_all_iff)

lemma CanListen_quiet: "AddressCanListen M addr w \<Longrightarrow> quiet w w' \<Longrightarrow> AddressCanListen M addr w'"
  by (fastforce simp: AddressCanListen_def quiet_def proc_le_def list_all_iff split: option.splits)

context machine_laws
begin

lemma told_trans: "moves (told M c f) u v \<Longrightarrow> moves (told M c f) v w \<Longrightarrow> moves (told M c f) u w"
  by (rule moves_trans) (rule told_mono)

lemma moves_told: "moves K u w \<Longrightarrow> all_told P u \<Longrightarrow> all_told P w"
  unfolding all_told_def moves_def by (meson touches_mono)

lemma told_end: "all_told P w \<Longrightarrow> \<exists>n. \<forall>r \<in> set (wd_procs ((mc_tick M ^^ n) w)). \<forall>p \<in> P. \<not> touches p r"
  using tick_ends [of w] moves_told [OF quiet_moves [OF ticks_quiet]] unfolding all_told_def by metis

lemma wait_free:
  assumes "all_told P w" "mc_port M addr = Some p" "p \<in> P"
  shows "\<exists>w'. wait_until (AddressCanListen M addr) (mc_tick M) w = Some w' \<and> AddressCanListen M addr w' \<and> quiet w w'"
proof -
  obtain n where "\<forall>r \<in> set (wd_procs ((mc_tick M ^^ n) w)). \<forall>p \<in> P. \<not> touches p r" using told_end [OF assms(1)] by blast
  then have "AddressCanListen M addr ((mc_tick M ^^ n) w)" using CanListen_touches [OF assms(2)] assms(3) by blast
  from wait_until_Some [of "AddressCanListen M addr", OF this] ticks_quiet show ?thesis by blast
qed

lemma port_killed:
  assumes "all_told P w" "wf_world w" "\<And>p. kill_port c = Some p \<Longrightarrow> p \<in> P"
  shows "\<exists>w'. killByPort M c w = Some w' \<and> moves (told M c f) w w' \<and> wd_pidfile w' = wd_pidfile w"
proof (cases "kill_port c")
  case None
  then show ?thesis by (simp add: killByPort_alt moves_refl)
next
  case (Some p)
  show ?thesis
  proof (cases "filter (uses_port p) (wd_procs w)")
    case Nil
    with Some show ?thesis by (simp add: killByPort_alt KillProcessWithPort_def FindPIDWithPort_def moves_refl)
  next
    case (Cons r rs)
    then have r: "r \<in> set (wd_procs w)" "uses_port p r" by (auto simp: filter_eq_Cons_iff)
    let ?w1 = "KillProcessByPID M (pr_pid r) w" and ?gone = "\<lambda>w. FindPIDWithPort p w = []"
    have pid: "pr_pid r \<noteq> []" "list_all is_digit (pr_pid r)" using r assms(2) by (auto simp: wf_world_def)
    have "signal_one [pr_pid r] x = x \<or> told M c f x \<and> signal_one [pr_pid r] x = x\<lparr>pr_signalled := True\<rparr>"
      if "x \<in> set (wd_procs w)" for x
    proof (cases "x = r")
      case True
      with r(2) Some show ?thesis by (auto simp: told_def signal_one_def)
    next
      case False
      with r(1) that assms(2) have "pr_pid x \<noteq> pr_pid r" by (auto simp: wf_world_def distinct_map inj_on_def)
      then show ?thesis by (simp add: signal_one_def)
    qed
    then have m1: "moves (told M c f) w ?w1" by (rule map_moves [OF kill_procs [OF pid] kill_rest(1)])
    have m2: "moves (told M c f) ?w1 (mc_tick M ?w1)" by (rule quiet_moves [OF tick_quiet])
    note m = told_trans [OF m1 m2]
    obtain n where "\<forall>r \<in> set (wd_procs ((mc_tick M ^^ n) (mc_tick M ?w1))). \<forall>p \<in> P. \<not> touches p r"
      using told_end [OF moves_told [OF m assms(1)]] by blast
    then have "filter (uses_port p) (wd_procs ((mc_tick M ^^ n) (mc_tick M ?w1))) = []"
      using assms(3) [OF Some] uses_touches by (fastforce simp: filter_empty_conv)
    then have "?gone ((mc_tick M ^^ n) (mc_tick M ?w1))" by (simp add: FindPIDWithPort_def)
    from wait_until_Some [of ?gone, OF this] obtain k where
      k: "wait_until ?gone (mc_tick M) (mc_tick M ?w1) = Some ((mc_tick M ^^ k) (mc_tick M ?w1))" by blast
    have q: "quiet (mc_tick M ?w1) ((mc_tick M ^^ k) (mc_tick M ?w1))" by (rule ticks_quiet)
    have "wd_pidfile ((mc_tick M ^^ k) (mc_tick M ?w1)) = wd_pidfile w"
      using q tick_quiet [of ?w1] by (simp add: quiet_def)
    moreover have "killByPort M c w = Some ((mc_tick M ^^ k) (mc_tick M ?w1))"
      using Some Cons pid(1) k by (simp add: killByPort_alt KillProcessWithPort_def FindPIDWithPort_def tickUntilFunc_def)
    ultimately show ?thesis using told_trans [OF m quiet_moves [OF q]] by blast
  qed
qed

lemma pid_killed:
  assumes "wd_pidfile w = f"
  shows "moves (told M c f) w (killWithPidFile M w)"
proof (cases "\<exists>pid. f = Some pid \<and> wd_pid_readable w \<and> wd_pid_removable w")
  case True
  then obtain pid where pid: "f = Some pid" "killWithPidFile M w = KillProcessByPID M pid (w\<lparr>wd_pidfile := None\<rparr>)"
    using assms by (auto simp: killWithPidFile_def)
  show ?thesis unfolding pid(2)
    by (rule map_moves [where f = "signal_one (mc_kill M pid)"])
      (auto simp: KillProcessByPID_def signal_one_def told_def pid(1))
next
  case False
  with assms have "killWithPidFile M w = w" by (auto simp: killWithPidFile_def split: option.splits)
  then show ?thesis by (simp add: moves_refl)
qed

lemma names_killed:
  assumes "wf_world w"
  shows "wd_procs (fold (\<lambda>n w. fst (KillProcess M n w)) ns w) = map (signal_if (\<lambda>r. list_ex (\<lambda>n. named M n r) ns)) (wd_procs w) \<and>
    wf_world (fold (\<lambda>n w. fst (KillProcess M n w)) ns w) \<and> wd_started (fold (\<lambda>n w. fst (KillProcess M n w)) ns w) = wd_started w \<and>
    wd_pidfile (fold (\<lambda>n w. fst (KillProcess M n w)) ns w) = wd_pidfile w"
  using assms
proof (induction ns arbitrary: w)
  case Nil
  then show ?case by (simp add: signal_if_def [abs_def])
next
  case (Cons n ns)
  let ?w = "fst (KillProcess M n w)"
  have p: "wd_procs ?w = map (signal_if (named M n)) (wd_procs w)" by (rule KillProcess_procs [OF Cons.prems])
  have rest: "wd_started ?w = wd_started w" "wd_pidfile ?w = wd_pidfile w" by (simp_all add: KillProcess_def)
  have "moves (\<lambda>_. True) w ?w" by (rule map_moves [OF p rest(1)]) (auto simp: signal_if_def)
  with Cons.prems have "wf_world ?w" by (simp add: moves_def)
  from Cons.IH [OF this] show ?case by (auto simp: p rest signal_if_def named_def)
qed

lemma killProcess_frees:
  assumes "wf_world w" "owned M c w" "mc_port M (ServerHost c) = Some h" "mc_port M (ServerPProfPort c) = Some q"
  shows "\<exists>w'. killProcess M c w = Some w' \<and> AddressCanListen M (ServerHost c) w' \<and>
     (AddressCanListen M (ServerHost c) w \<or> AddressCanListen M (ServerPProfPort c) w') \<and> moves (told M c (wd_pidfile w)) w w'"
proof (cases "AddressCanListen M (ServerHost c) w")
  case True
  then show ?thesis by (simp add: killProcess_def moves_refl)
next
  case False
  let ?K = "told M c (wd_pidfile w)" and ?P = "cmd_ports M c"
  let ?w1 = "fold (\<lambda>n w. fst (KillProcess M n w)) (daemon_names c) w"
  note n = names_killed [OF assms(1), of "daemon_names c"]
  have m1: "moves ?K w ?w1"
    by (rule map_moves [where f = "signal_if (is_daemon M c)"]) (use n in \<open>auto simp: signal_if_def is_daemon_def [abs_def] told_def\<close>)
  have a1: "all_told ?P ?w1"
    using assms(2) n by (auto simp: all_told_def owned_def signal_if_def is_daemon_def touches_def)
  obtain w2 where w2: "killByPort M c ?w1 = Some w2" "moves ?K ?w1 w2" "wd_pidfile w2 = wd_pidfile ?w1"
    using port_killed [OF a1, of c "wd_pidfile w"] n by (auto simp: cmd_ports_def)
  have m3: "moves ?K w2 (killWithPidFile M w2)" using pid_killed [of w2 "wd_pidfile w"] w2(3) n by simp
  have a3: "all_told ?P (killWithPidFile M w2)" by (rule moves_told [OF m3 moves_told [OF w2(2) a1]])
  obtain w4 where w4: "wait_until (AddressCanListen M (ServerHost c)) (mc_tick M) (killWithPidFile M w2) = Some w4"
      "AddressCanListen M (ServerHost c) w4" "quiet (killWithPidFile M w2) w4"
    using wait_free [OF a3 assms(3)] assms(3) by (auto simp: cmd_ports_def)
  have m4: "moves ?K (killWithPidFile M w2) w4" by (rule quiet_moves [OF w4(3)])
  obtain w5 where w5: "wait_until (AddressCanListen M (ServerPProfPort c)) (mc_tick M) w4 = Some w5"
      "AddressCanListen M (ServerPProfPort c) w5" "quiet w4 w5"
    using wait_free [OF moves_told [OF m4 a3] assms(4)] assms(4) by (auto simp: cmd_ports_def)
  have "moves ?K w w5"
    by (rule told_trans [OF told_trans [OF told_trans [OF told_trans [OF m1 w2(2)] m3] m4]
      quiet_moves [OF w5(3)]])
  moreover have "killProcess M c w = Some w5" using False w2(1) w4(1) w5(1) by (simp add: killProcess_def)
  ultimately show ?thesis using w5(2) CanListen_quiet [OF w4(2) w5(3)] by blast
qed

text \<open>The second version: when it returns, no process of the program's name is left.\<close>

lemma cmd2_killProcess_frees:
  assumes "wf_world w"
  shows "\<exists>w'. cmd2_killProcess M ec w = Some w' \<and> (\<forall>r \<in> set (wd_procs w'). \<not> named M (ec @ '' -x'') r) \<and>
    moves (named M (ec @ '' -x'')) w w'"
proof -
  let ?n = "ec @ '' -x''" and ?w1 = "fst (KillProcess M (ec @ '' -x'') w)"
  have run: "\<not> ProcessIsRunning M ?n v \<longleftrightarrow> (\<forall>r \<in> set (wd_procs v). \<not> named M ?n r)" if "wf_world v" for v
  proof (cases "filter (named M ?n) (wd_procs v)")
    case Nil
    then show ?thesis by (auto simp: ProcessIsRunning_def FindPidSliceByProcessName_def filter_empty_conv)
  next
    case (Cons r rs)
    then have "r \<in> set (wd_procs v)" "named M ?n r" by (auto simp: filter_eq_Cons_iff)
    with that Cons show ?thesis by (auto simp: ProcessIsRunning_def FindPidSliceByProcessName_def wf_world_def Let_def)
  qed
  show ?thesis
  proof (cases "ProcessIsRunning M ?n w")
    case False
    with run [OF assms] show ?thesis by (simp add: cmd2_killProcess_def moves_refl)
  next
    case True
    have p: "wd_procs ?w1 = map (signal_if (named M ?n)) (wd_procs w)" by (rule KillProcess_procs [OF assms])
    have m: "moves (named M ?n) w ?w1"
      by (rule map_moves [OF p]) (auto simp: signal_if_def KillProcess_def)
    obtain k where k: "\<forall>r \<in> set (wd_procs ((mc_tick M ^^ k) ?w1)). \<not> pr_signalled r" using tick_ends by blast
    have wf: "wf_world ((mc_tick M ^^ j) ?w1)" for j
      using ticks_quiet [of ?w1 j] m assms by (simp add: quiet_def moves_def)
    have "\<not> named M ?n r'" if r': "r' \<in> set (wd_procs ((mc_tick M ^^ k) ?w1))" for r'
    proof
      assume nm: "named M ?n r'"
      obtain r where "r \<in> set (wd_procs ?w1)" "proc_le r' r" "pr_signalled r' = pr_signalled r"
        using ticks_quiet [of ?w1 k] r' by (force simp: quiet_def)
      with nm k r' show False by (auto simp: p signal_if_def named_def proc_le_def split: if_splits)
    qed
    then have "\<not> ProcessIsRunning M ?n ((mc_tick M ^^ k) ?w1)" using run [OF wf] by blast
    from wait_until_Some [of "\<lambda>w. \<not> ProcessIsRunning M ?n w", OF this] obtain j where
      j: "wait_until (\<lambda>w. \<not> ProcessIsRunning M ?n w) (mc_tick M) ?w1 = Some ((mc_tick M ^^ j) ?w1)"
        "\<not> ProcessIsRunning M ?n ((mc_tick M ^^ j) ?w1)" by blast
    have "moves (named M ?n) w ((mc_tick M ^^ j) ?w1)"
      by (rule moves_trans [OF _ m quiet_moves [OF ticks_quiet]]) (auto simp: named_def proc_le_def)
    with True j run [OF wf] show ?thesis by (auto simp: cmd2_killProcess_def)
  qed
qed

end

section \<open>A machine\<close>

text \<open>\<open>grep\<close> of a plain text, \<open>kill\<close> of one pid, addresses that end in a port; while the program sleeps, the
  processes that were told to end do so.\<close>

definition plain_port :: "string \<Rightarrow> nat option" where
  "plain_port addr = (if addr = [] then Some 0 else
     let arr = strings_Split addr '':'' in if length arr = 2 then digits_value (arr ! 1) else None)"

definition plain_machine :: machine where
  "plain_machine = \<lparr>mc_grep = (\<lambda>name line. strings_Contains line name),
     mc_kill = (\<lambda>pid. if pid \<noteq> [] \<and> list_all is_digit pid then [pid] else []), mc_port = plain_port, mc_self = ''1000'',
     mc_tick = (\<lambda>w. w\<lparr>wd_procs := filter (\<lambda>r. \<not> pr_signalled r) (wd_procs w)\<rparr>)\<rparr>"

interpretation plain: machine_laws plain_machine
proof
  show "mc_kill plain_machine pid = [pid]" if "pid \<noteq> []" "list_all is_digit pid" for pid
    using that by (simp add: plain_machine_def)
  have "distinct (map pr_pid xs) \<Longrightarrow> distinct (map pr_pid (filter P xs))" for P and xs :: "proc list"
    by (rule distinct_map_filter)
  then show "quiet w (mc_tick plain_machine w)" for w
    by (force simp: quiet_def plain_machine_def proc_le_def wf_world_def)
  show "\<exists>n. \<forall>r \<in> set (wd_procs ((mc_tick plain_machine ^^ n) w)). \<not> pr_signalled r" for w
    by (intro exI [of _ 1]) (simp add: plain_machine_def)
qed

section \<open>What the commands do\<close>

text \<open>C36: On a machine on which processes that are told to end do end, and on which the server's
  ports are used by the server's processes only, \<open>start -d\<close> and \<open>stop\<close> return. The address of the server is
  free before the new daemon is started or the database dropped, and so is the profiler's when the
  server's was not free at first; one command line is given to the shell; and no process is told to end
  that has not the server's name, a connection at the server's port, or the pid of the pid file.\<close>

theorem daemon_replaced:
  assumes "machine_laws M" "wf_world w" "owned M c w" "mc_port M (ServerHost c) = Some h" "mc_port M (ServerPProfPort c) = Some q"
  shows "\<exists>w'. startCmd M c None StartFunc True ec args w = Some (w'\<lparr>wd_started := wd_started w @ [daemon_line ec args]\<rparr>) \<and>
     stopCmd M c None DropFunc dropdb w = Some (if dropdb then DropFunc w' else w') \<and>
     AddressCanListen M (ServerHost c) w' \<and>
     (AddressCanListen M (ServerHost c) w \<or> AddressCanListen M (ServerPProfPort c) w') \<and>
     moves (told M c (wd_pidfile w)) w w'"
proof -
  obtain w' where "killProcess M c w = Some w'" "AddressCanListen M (ServerHost c) w'"
      "AddressCanListen M (ServerHost c) w \<or> AddressCanListen M (ServerPProfPort c) w'" "moves (told M c (wd_pidfile w)) w w'"
    using machine_laws.killProcess_frees [OF assms] by blast
  then show ?thesis
    by (intro exI [of _ w']) (simp add: startCmd_def stopCmd_def optional_def cmdStart_def moves_def)
qed

definition demo_config :: cmd_config where
  "demo_config = \<lparr>APPName = ''app'', ServerHost = '':80'', ServerPProfPort = '':60''\<rparr>"

definition demo_proc :: "string \<Rightarrow> string \<Rightarrow> nat list \<Rightarrow> nat list \<Rightarrow> proc" where
  "demo_proc pid line ls cs =
     \<lparr>pr_pid = pid, pr_line = line, pr_command = ''app'', pr_listens = ls, pr_connected = cs, pr_signalled = False\<rparr>"

definition demo_world :: "proc list \<Rightarrow> world" where
  "demo_world ps = \<lparr>wd_procs = ps, wd_pidfile = Some ''100'', wd_pid_readable = True, wd_pid_removable = True, wd_pid_writable = True,
     wd_started = [], wd_exited = False\<rparr>"

definition demo_running :: world where
  "demo_running = demo_world [demo_proc ''100'' ''root 100 /srv/app -x start'' [80, 60] [], demo_proc ''200'' ''root 200 vim'' [] []]"

lemma demo_running_ok:
  "wf_world demo_running" "owned plain_machine demo_config demo_running"
  "mc_port plain_machine (ServerHost demo_config) = Some 80" "mc_port plain_machine (ServerPProfPort demo_config) = Some 60"
proof -
  show "wf_world demo_running" by code_simp
  show ports: "mc_port plain_machine (ServerHost demo_config) = Some 80" "mc_port plain_machine (ServerPProfPort demo_config) = Some 60"
    by code_simp+
  have "kill_port demo_config = Some 80" by code_simp
  with ports have "cmd_ports plain_machine demo_config = {80, 60}" by (auto simp: cmd_ports_def)
  moreover have "list_all (\<lambda>r. is_daemon plain_machine demo_config r \<or> pr_listens r = [] \<and> pr_connected r = []) (wd_procs demo_running)"
    by code_simp
  ultimately show "owned plain_machine demo_config demo_running" by (auto simp: owned_def touches_def list_all_iff)
qed

lemma demo_line: "daemon_line ''/srv/app'' [''start'', ''-d''] = ''/srv/app -x start ''"
  by code_simp

theorem daemon_replaced_witness:
  "\<exists>w'. startCmd plain_machine demo_config None None True ''/srv/app'' [''start'', ''-d''] demo_running =
     Some (w'\<lparr>wd_started := [''/srv/app -x start '']\<rparr>) \<and> AddressCanListen plain_machine (ServerHost demo_config) w'"
proof -
  have "wd_started demo_running = []" by (simp add: demo_running_def demo_world_def)
  moreover obtain w' where
    "startCmd plain_machine demo_config None None True ''/srv/app'' [''start'', ''-d''] demo_running =
       Some (w'\<lparr>wd_started := wd_started demo_running @ [daemon_line ''/srv/app'' [''start'', ''-d'']]\<rparr>)"
    "AddressCanListen plain_machine (ServerHost demo_config) w'"
    using daemon_replaced [OF plain.machine_laws_axioms demo_running_ok, where StartFunc = None and ec = "''/srv/app''"
      and args = "[''start'', ''-d'']" and DropFunc = id and dropdb = False] by blast
  ultimately show ?thesis unfolding demo_line by auto
qed

text \<open>The line before the \<open>-d\<close> is cut out.\<close>

definition joined :: "string \<Rightarrow> string list \<Rightarrow> string" where
  "joined ec args = ec @ '' -x'' @ concat (map (\<lambda>v. '' '' @ v) args)"

lemma joined_fold: "fold (\<lambda>v str. str @ '' '' @ v) args acc = acc @ concat (map (\<lambda>v. '' '' @ v) args)"
  by (induction args arbitrary: acc) simp_all

lemma first_flag: "\<not> strings_Contains s ''-d'' \<Longrightarrow> strings_Index (s @ '' '' @ ''-d'' @ t) ''-d'' = Some (length s + 1)"
proof (induction s)
  case (Cons c s)
  have "\<not> strings_Contains s ''-d''" using Cons.prems by (auto simp: strings_Contains_def split: if_splits)
  moreover have "\<not> strings_HasPrefix (c # s @ '' '' @ ''-d'' @ t) ''-d''"
    using Cons.prems by (cases s) (auto simp: strings_Contains_def strings_HasPrefix_def)
  ultimately show ?case using Cons.IH by simp
qed (simp add: strings_HasPrefix_def)

text \<open>The daemon is started with the arguments of the command without the \<open>-d\<close>, provided that no \<open>-d\<close> comes
  earlier in the line, in the program's path or in an argument.\<close>

theorem daemon_gets_arguments:
  assumes "\<not> strings_Contains (joined ec pre) ''-d''"
  shows "daemon_line ec (pre @ ''-d'' # post) = joined ec pre @ '' '' @ concat (map (\<lambda>v. '' '' @ v) post)"
proof -
  have "fold (\<lambda>v str. str @ '' '' @ v) (pre @ ''-d'' # post) (ec @ '' -x'') =
      joined ec pre @ '' '' @ ''-d'' @ concat (map (\<lambda>v. '' '' @ v) post)"
    by (simp only: joined_fold joined_def map_append concat_append append_assoc list.map concat.simps)
  then show ?thesis using first_flag [OF assms] by (simp add: daemon_line_def strings_Replace1_def)
qed

theorem daemon_gets_arguments_witness:
  "daemon_line ''/srv/app'' [''start'', ''-d'', ''-i''] = ''/srv/app -x start  -i''"
proof -
  have "\<not> strings_Contains (joined ''/srv/app'' [''start'']) ''-d''" by code_simp
  from daemon_gets_arguments [OF this, of "[''-i'']"] show ?thesis by (simp add: joined_def)
qed

text \<open>Otherwise the text is cut out of something else: a path is changed, a long flag becomes another, and
  the daemon is not the program that was asked for.\<close>

lemma daemon_path_broken:
  "daemon_line ''/srv/my-daemon/app'' [''start'', ''-d''] = ''/srv/myaemon/app -x start -d''"
  "daemon_line ''/srv/app'' [''start'', ''--daemon''] = ''/srv/app -x start -aemon''"
  by code_simp+

text \<open>\<open>lsof -i\<close> lists both ends of a connection: a proxy on the machine that is connected to the server's port
  and has a smaller pid is told to end, and the server itself is not.\<close>

definition demo_proxy :: world where
  "demo_proxy = demo_world [demo_proc ''50'' ''root 50 /usr/sbin/nginx'' [443] [80], demo_proc ''300'' ''root 300 /srv/other'' [80] [500]]"

lemma client_killed:
  "FindPIDWithPort 80 demo_proxy = ''50''"
  "map pr_signalled (wd_procs (KillProcessByPID plain_machine ''50'' demo_proxy)) = [True, False]"
proof -
  have "\<not> strings_Contains ''app'' ''grep''" by code_simp
  then show "FindPIDWithPort 80 demo_proxy = ''50''"
    by (simp add: FindPIDWithPort_def demo_proxy_def demo_world_def demo_proc_def uses_port_def)
  show "map pr_signalled (wd_procs (KillProcessByPID plain_machine ''50'' demo_proxy)) = [True, False]"
    using plain.kill_pid [of "''50''"] by (simp add: KillProcessByPID_def signal_one_def demo_proxy_def demo_world_def demo_proc_def is_digit_def)
qed

text \<open>A process that does not end keeps the command waiting for ever.\<close>

lemma stop_waits:
  assumes "machine_laws M" "\<And>n. ProcessIsRunning M (ec @ '' -x'') ((mc_tick M ^^ n) (fst (KillProcess M (ec @ '' -x'') w)))"
    and "ProcessIsRunning M (ec @ '' -x'') w"
  shows "cmd2_stopCmd M None ec w = None"
  using assms by (simp add: cmd2_stopCmd_def cmd2_killProcess_def optional_def wait_forever)

end
