(* ===== verification/Log_Setup.thy ===== *)
theory Log_Setup
  imports Lazy_Handles
begin

text \<open>
  The loggers of package \<open>util\<close> (\<open>util/logger.go\<close>, \<open>util/logger-interface.go\<close>): how one is set up from its
  name and arguments, which level each method of the interface has, and where its lines go.

  The packages \<open>zap\<close> and \<open>log\<close> are arguments: what a line looks like (\<open>lx_zap_line\<close>, \<open>lx_std_line\<close>) and which level a
  text names (\<open>lx_parse\<close>). What they do with a line is written out: a zap core writes the lines of its level and
  above to the writer it was made with; \<open>Fatal\<close> ends the process and \<open>Panic\<close> panics, written or not; a
  logger of package \<open>log\<close> writes every line to its output. A writer is the file of a name, or the
  standard output (\<open>None\<close>).
\<close>

section \<open>The interface\<close>

datatype log_call = CPrint | CPrintf | CPrintln | CFatal | CFatalf | CFatalln | CPanic | CPanicf | CPanicln
  | CDebugf | CInfof | CWarnf | CErrorf | CDebug | CInfo | CWarn | CError

datatype zap_level = ZDebug | ZInfo | ZWarn | ZError | ZDPanic | ZPanic | ZFatal

fun level_rank :: "zap_level \<Rightarrow> int" where
  "level_rank ZDebug = -1"
| "level_rank ZInfo = 0"
| "level_rank ZWarn = 1"
| "level_rank ZError = 2"
| "level_rank ZDPanic = 3"
| "level_rank ZPanic = 4"
| "level_rank ZFatal = 5"

datatype log_end = Goes_on | Panics | Exits

record log_ext =
  lx_parse :: "string \<Rightarrow> zap_level \<times> bool"
  lx_zap_line :: "string \<Rightarrow> zap_level \<Rightarrow> string \<Rightarrow> string"
  lx_std_line :: "string \<Rightarrow> string \<Rightarrow> string"

type_synonym 'w sinks = "'w \<Rightarrow> string list"

text \<open>A message with the time it is logged at, in the layout of the encoder.\<close>

record log_msg =
  lg_now :: string
  lg_text :: string

section \<open>Loggers over zap\<close>

record 'w zap_logger =
  zl_level :: zap_level
  zl_prefix :: string
  zl_core :: 'w
  zl_writer :: 'w

text \<open>The methods of \<open>zapSugarLogger\<close>: the level of the sugared method each calls.\<close>

fun zap_method :: "log_call \<Rightarrow> zap_level" where
  "zap_method CDebug = ZDebug"
| "zap_method CDebugf = ZDebug"
| "zap_method CError = ZError"
| "zap_method CErrorf = ZError"
| "zap_method CFatal = ZFatal"
| "zap_method CFatalf = ZFatal"
| "zap_method CFatalln = ZFatal"
| "zap_method CInfo = ZInfo"
| "zap_method CInfof = ZInfo"
| "zap_method CPanic = ZPanic"
| "zap_method CPanicf = ZPanic"
| "zap_method CPanicln = ZPanic"
| "zap_method CPrint = ZInfo"
| "zap_method CPrintf = ZInfo"
| "zap_method CPrintln = ZInfo"
| "zap_method CWarn = ZWarn"
| "zap_method CWarnf = ZWarn"

text \<open>The text the encoder puts in front of a line: the prefix in upper case and the time.\<close>

definition encoder_prefix :: "string list \<Rightarrow> string" where
  "encoder_prefix ps =
     (let pre = ''sys'';
          pre = (case ps of p # _ \<Rightarrow> if p \<noteq> [] then p else pre | [] \<Rightarrow> pre)
      in strings_ToUpper pre)"

definition encode_time :: "string \<Rightarrow> string \<Rightarrow> string" where
  "encode_time pre now = ''['' @ pre @ ''] '' @ now @ '' ''"

definition zap_level_end :: "zap_level \<Rightarrow> log_end" where
  "zap_level_end l = (if l = ZPanic then Panics else if l = ZFatal then Exits else Goes_on)"

definition zap_log :: "log_ext \<Rightarrow> log_call \<Rightarrow> log_msg \<Rightarrow> 'w zap_logger \<Rightarrow> 'w sinks \<Rightarrow> 'w sinks \<times> log_end" where
  "zap_log X c m z out =
     (let l = zap_method c in
      (if level_rank (zl_level z) \<le> level_rank l
       then out(zl_core z := out (zl_core z) @ [lx_zap_line X (encode_time (zl_prefix z) (lg_now m)) l (lg_text m)]) else out,
       zap_level_end l))"

text \<open>\<open>SetOutput\<close> stores the writer and leaves the core as it is.\<close>

definition zap_SetOutput :: "'w \<Rightarrow> 'w zap_logger \<Rightarrow> 'w zap_logger" where
  "zap_SetOutput w z = z\<lparr>zl_writer := w\<rparr>"

definition zap_Writer :: "'w zap_logger \<Rightarrow> 'w" where
  "zap_Writer z = zl_writer z"

text \<open>Files and the standard output can be closed; \<open>closed\<close> are the writers that were.\<close>

definition zap_Close :: "'w zap_logger \<Rightarrow> 'w set \<Rightarrow> 'w set" where
  "zap_Close z closed = insert (zl_writer z) closed"

definition args_prefix :: "string \<Rightarrow> string list \<Rightarrow> string" where
  "args_prefix logName args = (if length args > 1 \<and> args ! 1 \<noteq> [] then args ! 1 else logName)"

definition zapLogger ::
  "log_ext \<Rightarrow> string \<Rightarrow> string \<Rightarrow> string list \<Rightarrow> log_writers \<Rightarrow> log_writer option zap_logger \<times> log_writers" where
  "zapLogger X root logName args l =
     (let lvl = (case args of a # _ \<Rightarrow> fst (lx_parse X a) | [] \<Rightarrow> ZDebug);
          pre = args_prefix logName args;
          (writer, l) = GetLogWriter root logName l
      in (\<lparr>zl_level = lvl, zl_prefix = encoder_prefix [pre], zl_core = writer, zl_writer = writer\<rparr>, l))"

section \<open>Loggers over package log\<close>

record 'w std_logger =
  sl_prefix :: string
  sl_out :: 'w

text \<open>The methods of \<open>stdLoggerImpl\<close>: those of the four levels print; the others are the embedded logger's.\<close>

fun std_method :: "log_call \<Rightarrow> log_end" where
  "std_method CFatal = Exits"
| "std_method CFatalf = Exits"
| "std_method CFatalln = Exits"
| "std_method CPanic = Panics"
| "std_method CPanicf = Panics"
| "std_method CPanicln = Panics"
| "std_method _ = Goes_on"

definition std_log :: "log_ext \<Rightarrow> log_call \<Rightarrow> log_msg \<Rightarrow> 'w std_logger \<Rightarrow> 'w sinks \<Rightarrow> 'w sinks \<times> log_end" where
  "std_log X c m s out = (out(sl_out s := out (sl_out s) @ [lx_std_line X (sl_prefix s) (lg_text m)]), std_method c)"

definition std_SetOutput :: "'w \<Rightarrow> 'w std_logger \<Rightarrow> 'w std_logger" where
  "std_SetOutput w s = s\<lparr>sl_out := w\<rparr>"

definition std_Close :: "'w std_logger \<Rightarrow> 'w set \<Rightarrow> 'w set" where
  "std_Close s closed = insert (sl_out s) closed"

definition stdLogger :: "string \<Rightarrow> string \<Rightarrow> string list \<Rightarrow> log_writers \<Rightarrow> log_writer option std_logger \<times> log_writers" where
  "stdLogger root logName args l =
     (let pre = args_prefix logName args; (writer, l) = GetLogWriter root logName l
      in (\<lparr>sl_prefix = pre, sl_out = writer\<rparr>, l))"

section \<open>Loggers of the other packages\<close>

text \<open>The loggers of the broker's client (\<open>gemq/logger.go\<close>), of the database (\<open>mdb/db.go\<close>) and of the web servers
  (\<open>giris/mid-logger.go\<close>, \<open>giris2/middleware.go\<close>); the first web server takes its level from the settings.\<close>

definition CriticalLogger :: "log_ext \<Rightarrow> string \<Rightarrow> log_writers \<Rightarrow> log_writer option zap_logger \<times> log_writers" where
  "CriticalLogger X root l = zapLogger X root ''sys'' [''warn'', ''mqtt''] l"

definition ErrorLogger :: "log_ext \<Rightarrow> string \<Rightarrow> log_writers \<Rightarrow> log_writer option zap_logger \<times> log_writers" where
  "ErrorLogger X root l = zapLogger X root ''sys'' [''error'', ''mqtt''] l"

definition WarnLogger :: "log_ext \<Rightarrow> string \<Rightarrow> log_writers \<Rightarrow> log_writer option zap_logger \<times> log_writers" where
  "WarnLogger X root l = zapLogger X root ''sys'' [''warn'', ''mqtt''] l"

definition NewDBLoggerWithLevelOut :: "log_ext \<Rightarrow> string \<Rightarrow> string \<Rightarrow> log_writers \<Rightarrow> log_writer option zap_logger \<times> log_writers" where
  "NewDBLoggerWithLevelOut X root logName l = zapLogger X root logName [''debug'', ''SQL''] l"

definition midLogger_Constructor :: "log_ext \<Rightarrow> string \<Rightarrow> string \<Rightarrow> log_writers \<Rightarrow> log_writer option zap_logger \<times> log_writers" where
  "midLogger_Constructor X root log_level l = zapLogger X root ''web'' [log_level] l"

definition midLogger_Constructor2 :: "log_ext \<Rightarrow> string \<Rightarrow> log_writers \<Rightarrow> log_writer option zap_logger \<times> log_writers" where
  "midLogger_Constructor2 X root l = zapLogger X root ''web'' [''debug''] l"

section \<open>What a logger does\<close>

text \<open>The uses of a logger: a call, or another output.\<close>

datatype 'w log_event = LogCall log_call log_msg | LogOutput 'w

text \<open>A logger writes the calls it wants to its target, which a new output may change, and goes on until a call
  ends the process.\<close>

locale logger =
  fixes log_to :: "log_call \<Rightarrow> log_msg \<Rightarrow> 'l \<Rightarrow> 'w sinks \<Rightarrow> 'w sinks \<times> log_end" and set_output :: "'w \<Rightarrow> 'l \<Rightarrow> 'l"
    and wants :: "'l \<Rightarrow> log_call \<Rightarrow> bool" and target :: "'l \<Rightarrow> 'w" and line :: "'l \<Rightarrow> log_call \<Rightarrow> log_msg \<Rightarrow> string"
    and ends :: "log_call \<Rightarrow> log_end"
  assumes log_to: "log_to c m g out = (if wants g c then out(target g := out (target g) @ [line g c m]) else out, ends c)"
    and output_wants: "wants (set_output w g) = wants g"
    and output_line: "line (set_output w g) = line g"

fun run_log ::
  "(log_call \<Rightarrow> log_msg \<Rightarrow> 'l \<Rightarrow> 'w sinks \<Rightarrow> 'w sinks \<times> log_end) \<Rightarrow> ('w \<Rightarrow> 'l \<Rightarrow> 'l) \<Rightarrow> 'w log_event list \<Rightarrow> 'l \<Rightarrow> 'w sinks \<Rightarrow> 'l \<times> 'w sinks" where
  "run_log log_to set_output [] g out = (g, out)"
| "run_log log_to set_output (LogOutput w # es) g out = run_log log_to set_output es (set_output w g) out"
| "run_log log_to set_output (LogCall c m # es) g out =
     (case log_to c m g out of (out, e) \<Rightarrow> if e = Exits then (g, out) else run_log log_to set_output es g out)"

text \<open>The calls a run comes to: those up to the first that ends the process.\<close>

fun reached :: "(log_call \<Rightarrow> log_end) \<Rightarrow> 'w log_event list \<Rightarrow> (log_call \<times> log_msg) list" where
  "reached ends [] = []"
| "reached ends (LogOutput w # es) = reached ends es"
| "reached ends (LogCall c m # es) = (c, m) # (if ends c = Exits then [] else reached ends es)"

context logger
begin

definition lines_of :: "'l \<Rightarrow> (log_call \<times> log_msg) list \<Rightarrow> string list" where
  "lines_of g cs = map (\<lambda>(c, m). line g c m) (filter (\<lambda>(c, m). wants g c) cs)"

lemma lines_of_output: "lines_of (set_output w g) = lines_of g"
  by (simp add: lines_of_def fun_eq_iff output_wants output_line)

definition put :: "'l \<Rightarrow> string list \<Rightarrow> 'w sinks \<Rightarrow> 'w sinks" where
  "put g ls out = out(target g := out (target g) @ ls)"

lemma put_put: "put g ls' (put g ls out) = put g (ls @ ls') out" "put g [] out = out"
  by (simp_all add: put_def)

lemma log_put: "log_to c m g out = (put g (lines_of g [(c, m)]) out, ends c)"
  by (simp add: log_to put_def lines_of_def)

lemma run_call: "run_log log_to set_output (LogCall c m # es) g out =
    (if ends c = Exits then (g, put g (lines_of g [(c, m)]) out)
     else run_log log_to set_output es g (put g (lines_of g [(c, m)]) out))"
  using log_put [of c m g out] by simp

lemma lines_of_Cons: "lines_of g (x # cs) = lines_of g [x] @ lines_of g cs" "lines_of g [] = []"
  by (simp_all add: lines_of_def)

text \<open>A target that no output changes gets all lines.\<close>

lemma fixed_target:
  assumes "\<And>w g. target (set_output w g) = target g"
  shows "snd (run_log log_to set_output es g out) = put g (lines_of g (reached ends es)) out"
proof (induction es arbitrary: g out)
  case (Cons e es)
  show ?case
  proof (cases e)
    case (LogCall c m)
    then show ?thesis using Cons.IH lines_of_Cons(1) [of g "(c, m)" "reached ends es"]
      by (simp add: run_call put_put lines_of_Cons(2) del: run_log.simps(3))
  next
    case (LogOutput w)
    have "put (set_output w g) = put g" by (simp add: put_def assms fun_eq_iff)
    with LogOutput show ?thesis using Cons.IH by (simp add: lines_of_output)
  qed
qed (simp add: put_put lines_of_Cons)

text \<open>A target that is the output gets the lines up to the next change of it, and the new one those after it.\<close>

lemma moving_target:
  assumes "\<forall>e \<in> set es. \<exists>c m. e = LogCall c m \<and> ends c \<noteq> Exits"
  shows "run_log log_to set_output (es @ LogOutput w # fs) g out =
    run_log log_to set_output fs (set_output w g) (put g (lines_of g (reached ends es)) out)"
  using assms
proof (induction es arbitrary: out)
  case (Cons e es)
  then obtain c m where e: "e = LogCall c m" "ends c \<noteq> Exits" by auto
  from Cons have "run_log log_to set_output (es @ LogOutput w # fs) g out' =
    run_log log_to set_output fs (set_output w g) (put g (lines_of g (reached ends es)) out')" for out' by simp
  then show ?case using lines_of_Cons(1) [of g "(c, m)" "reached ends es"]
    by (simp add: e run_call put_put del: run_log.simps(3))
qed (simp add: put_put lines_of_Cons)

end

definition zap_wants :: "'w zap_logger \<Rightarrow> log_call \<Rightarrow> bool" where
  "zap_wants z c \<longleftrightarrow> level_rank (zl_level z) \<le> level_rank (zap_method c)"

definition zap_line :: "log_ext \<Rightarrow> 'w zap_logger \<Rightarrow> log_call \<Rightarrow> log_msg \<Rightarrow> string" where
  "zap_line X z c m = lx_zap_line X (encode_time (zl_prefix z) (lg_now m)) (zap_method c) (lg_text m)"

interpretation zap: logger "zap_log X" zap_SetOutput zap_wants zl_core "zap_line X" "\<lambda>c. zap_level_end (zap_method c)"
  by unfold_locales (simp_all add: zap_log_def zap_wants_def zap_line_def zap_SetOutput_def Let_def fun_eq_iff)

interpretation std: logger "std_log X" std_SetOutput "\<lambda>_ _. True" sl_out "\<lambda>s c m. lx_std_line X (sl_prefix s) (lg_text m)" std_method
  by unfold_locales (simp_all add: std_log_def std_SetOutput_def fun_eq_iff)

text \<open>Both kinds of logger end the process, and panic, in the same methods.\<close>

lemma same_ends: "zap_level_end (zap_method c) = std_method c"
  by (cases c) (simp_all add: zap_level_end_def)


lemma GetLogWriter_file:
  assumes "log_writers_ok root l"
  shows "if name = [] then fst (GetLogWriter root name l) = None
    else \<exists>w. fst (GetLogWriter root name l) = Some w \<and> lw_file w = log_file root name"
  using assms by (auto simp: GetLogWriter_def lazy_call_def log_defs split: option.splits)

lemma encoder_prefix_args: "encoder_prefix [args_prefix name args] =
    strings_ToUpper (if length args > 1 \<and> args ! 1 \<noteq> [] then args ! 1 else if name \<noteq> [] then name else ''sys'')"
  by (simp add: encoder_prefix_def args_prefix_def)

lemma made_lines:
  assumes "zapLogger X root name args l = (z, l')" and "log_writers_ok root l"
  defines lvl: "lvl \<equiv> (case args of a # _ \<Rightarrow> fst (lx_parse X a) | [] \<Rightarrow> ZDebug)"
    and pre: "pre \<equiv> strings_ToUpper (if length args > 1 \<and> args ! 1 \<noteq> [] then args ! 1 else if name \<noteq> [] then name else ''sys'')"
  shows "\<exists>w. (if name = [] then w = None else \<exists>f. w = Some f \<and> lw_file f = log_file root name) \<and>
    (\<forall>es out. snd (run_log (zap_log X) zap_SetOutput es z out) =
      out(w := out w @ map (\<lambda>(c, m). lx_zap_line X (''['' @ pre @ ''] '' @ lg_now m @ '' '') (zap_method c) (lg_text m))
        (filter (\<lambda>(c, m). level_rank lvl \<le> level_rank (zap_method c)) (reached std_method es))))"
proof -
  obtain w l1 where w: "GetLogWriter root name l = (w, l1)" by fastforce
  then have z: "z = \<lparr>zl_level = lvl, zl_prefix = pre, zl_core = w, zl_writer = w\<rparr>"
    using assms(1) by (simp add: zapLogger_def lvl pre encoder_prefix_args)
  have "snd (run_log (zap_log X) zap_SetOutput es z out) =
    out(w := out w @ zap.lines_of X z (reached std_method es))" for es and out :: "log_writer option sinks"
    using zap.fixed_target [of X es z out] by (simp add: zap_SetOutput_def z same_ends zap.put_def)
  then show ?thesis
    using GetLogWriter_file [OF assms(2), of name, unfolded w fst_conv]
    by (intro exI [of _ w]) (simp split: if_splits add: zap.lines_of_def zap_line_def zap_wants_def z encode_time_def)
qed

text \<open>C39: The lines of a logger made by name and arguments: whatever is called, and whatever outputs are set,
  the lines of the calls at its level and above, up to one that ends the process, are in the file of its name
  (the standard output without a name), in order, each with the prefix; nothing is written elsewhere, so an output
  that is set gets no line.\<close>

theorem log_lines:
  assumes "zapLogger X root name args l = (z, l')" and "log_writers_ok root l"
  defines lvl: "lvl \<equiv> (case args of a # _ \<Rightarrow> fst (lx_parse X a) | [] \<Rightarrow> ZDebug)"
    and pre: "pre \<equiv> strings_ToUpper (if length args > 1 \<and> args ! 1 \<noteq> [] then args ! 1 else if name \<noteq> [] then name else ''sys'')"
  shows "\<exists>w. (if name = [] then w = None else \<exists>f. w = Some f \<and> lw_file f = log_file root name) \<and>
    (\<forall>es out. snd (run_log (zap_log X) zap_SetOutput es z out) =
      out(w := out w @ map (\<lambda>(c, m). lx_zap_line X (''['' @ pre @ ''] '' @ lg_now m @ '' '') (zap_method c) (lg_text m))
        (filter (\<lambda>(c, m). level_rank lvl \<le> level_rank (zap_method c)) (reached std_method es))))"
  unfolding lvl pre by (rule made_lines [OF assms(1,2)])

definition demo_log :: log_ext where
  "demo_log = \<lparr>lx_parse = (\<lambda>s. if s = ''warn'' then (ZWarn, True) else (ZInfo, False)), lx_zap_line = (\<lambda>t l m. t @ m), lx_std_line = (@)\<rparr>"

definition no_writers :: log_writers where
  "no_writers = \<lparr>lm_m = Map.empty, lm_made = 0, lm_closed = {}\<rparr>"

definition demo_msg :: "string \<Rightarrow> log_msg" where
  "demo_msg m = \<lparr>lg_now = ''12:00'', lg_text = m\<rparr>"

text \<open>Of a message below the level, a warning, and an error after another output was set, the file has the latter two.\<close>

lemma log_lines_witness:
  "\<exists>f. lw_file f = ''/r/logs/sql.log'' \<and>
    snd (run_log (zap_log demo_log) zap_SetOutput [LogCall CInfo (demo_msg ''a''), LogCall CWarnf (demo_msg ''b''), LogOutput None,
        LogCall CErrorf (demo_msg ''c'')] (fst (zapLogger demo_log ''/r'' ''sql'' [''warn''] no_writers)) (\<lambda>_. [])) (Some f) =
      [''[SQL] 12:00 b'', ''[SQL] 12:00 c'']"
proof -
  obtain z l where z: "zapLogger demo_log ''/r'' ''sql'' [''warn''] no_writers = (z, l)" by fastforce
  have ok: "log_writers_ok ''/r'' no_writers" by (simp add: log_defs no_writers_def)
  have up: "strings_ToUpper ''warn'' = ''WARN''" "strings_ToUpper ''sql'' = ''SQL''" by code_simp+
  have lvl: "fst (lx_parse demo_log ''warn'') = ZWarn" by (simp add: demo_log_def)
  have lf: "log_file ''/r'' ''sql'' = ''/r/logs/sql.log''" by code_simp
  from log_lines [OF z ok] obtain w where w: "\<exists>f. w = Some f \<and> lw_file f = ''/r/logs/sql.log''"
    and r: "\<forall>es out. snd (run_log (zap_log demo_log) zap_SetOutput es z out) =
      out(w := out w @ map (\<lambda>(c, m). lx_zap_line demo_log (''['' @ ''SQL'' @ ''] '' @ lg_now m @ '' '') (zap_method c) (lg_text m))
        (filter (\<lambda>(c, m). level_rank ZWarn \<le> level_rank (zap_method c)) (reached std_method es)))"
    by (simp add: up lvl lf) blast
  then obtain f where f: "w = Some f" "lw_file f = ''/r/logs/sql.log''" by blast
  show ?thesis using f(2) by (intro exI [of _ f]) (simp add: z r f(1) del: run_log.simps, simp add: demo_log_def demo_msg_def)
qed

text \<open>A logger over package \<open>log\<close> does go over to the output that is set.\<close>

lemma std_goes_over:
  assumes "\<forall>e \<in> set es. \<exists>c m. e = LogCall c m \<and> std_method c \<noteq> Exits" "w \<noteq> sl_out s"
  shows "snd (run_log (std_log X) std_SetOutput (es @ [LogOutput w, LogCall CInfo m]) s out) w = out w @ [lx_std_line X (sl_prefix s) (lg_text m)]"
  using assms(2) by (simp add: std.moving_target [OF assms(1)] std.put_def std_log_def std_SetOutput_def)

text \<open>Closing a logger after its output was set closes that one, and the file stays open; closing one without a
  name closes the standard output of the process.\<close>

lemma close_after_output:
  "zl_core z \<noteq> w \<Longrightarrow> zl_core z \<notin> zap_Close (zap_SetOutput w z) {}"
  by (simp add: zap_Close_def zap_SetOutput_def)

lemma close_without_name:
  "zapLogger X root [] args l = (z, l') \<Longrightarrow> None \<in> zap_Close z {}"
  by (auto simp: zapLogger_def GetLogWriter_def zap_Close_def Let_def)

text \<open>The broker's client calls its loggers by \<open>Println\<close> and \<open>Printf\<close> only, which log at the level of information; the
  loggers for critical messages, errors and warnings have higher levels, so none of them ever writes a line.\<close>

lemma broker_loggers_silent:
  assumes "fst (lx_parse X ''warn'') = ZWarn" "fst (lx_parse X ''error'') = ZError"
    and "mk \<in> {CriticalLogger, ErrorLogger, WarnLogger}" "mk X root l = (z, l')"
    and "\<forall>e \<in> set es. \<exists>c m. e = LogCall c m \<and> c \<in> {CPrintln, CPrintf}"
  shows "snd (run_log (zap_log X) zap_SetOutput es z out) = out"
proof -
  have z: "zl_level z \<in> {ZWarn, ZError}"
    using assms(1-4) by (auto simp: CriticalLogger_def ErrorLogger_def WarnLogger_def zapLogger_def Let_def split: prod.splits)
  have "zap.lines_of X z (reached std_method es) = []"
    using assms(5) by (induction es) (use z in \<open>auto simp: zap.lines_of_def zap_wants_def\<close>)
  then show ?thesis using zap.fixed_target [of X es z out] by (simp add: zap_SetOutput_def same_ends zap.put_put)
qed

end
