(* ===== verification/Cache_Names.thy ===== *)
theory Cache_Names
  imports Db_Model
begin

text \<open>
  The names of the cache of a database handle: \<open>dbInitiate\<close> (\<open>mdb/db.go\<close>) gives the query cache
  (\<open>mdb/gm2c.go\<close>) the MD5 sum of the DSN as prefix. The properties of the cache are about tables
  whose keys are \<open>clean\<close>: here they are shown to be so for the prefix that is used.
\<close>

section \<open>Where the separator is found\<close>

lemma Index_no_colon:
  "CHR '':'' \<notin> set a \<Longrightarrow> strings_Index (a @ s) cache_separator = map_option (\<lambda>n. n + length a) (strings_Index s cache_separator)"
proof (induction a)
  case (Cons c a)
  then have "\<not> strings_HasPrefix (c # a @ s) cache_separator"
    by (auto simp: cache_separator_def strings_HasPrefix_def)
  with Cons show ?case by (auto simp: option.map_comp comp_def)
qed (simp add: option.map_ident)

lemma Index_colon:
  "\<not> strings_HasPrefix s ''sep:'' \<Longrightarrow> strings_Index (CHR '':'' # s) cache_separator = map_option Suc (strings_Index s cache_separator)"
  by (auto simp: cache_separator_def strings_HasPrefix_def)

lemma Index_sep: "strings_Index cache_separator cache_separator = Some 0"
  by (simp add: cache_separator_def strings_HasPrefix_def)

lemma word_not_sep:
  assumes "CHR '':'' \<notin> set t" "t \<noteq> ''sep''"
  shows "\<not> strings_HasPrefix (t @ cache_separator) ''sep:''"
  using assms
  by (cases t; cases "tl t"; cases "tl (tl t)"; cases "tl (tl (tl t))") (auto simp: strings_HasPrefix_def cache_separator_def)

text \<open>The keys of a table begin with three parts and colons between them.\<close>

definition three_parts :: "string \<Rightarrow> char \<Rightarrow> string \<Rightarrow> string" where
  "three_parts h k t = ''gm2c'' @ CHR '':'' # h @ CHR '':'' # [k] @ CHR '':'' # t"

lemma three_parts_keys: "primaryKeyPrefix h t = three_parts h CHR ''p'' t" "searchKeyPrefix h t = three_parts h CHR ''s'' t"
  by (simp_all add: primaryKeyPrefix_def searchKeyPrefix_def three_parts_def)

lemma three_parts_index:
  assumes "CHR '':'' \<notin> set h" "\<And>s. \<not> strings_HasPrefix (h @ s) ''sep:''" "CHR '':'' \<notin> set t" "t \<noteq> ''sep''"
    "k \<in> {CHR ''p'', CHR ''s''}"
  shows "strings_Index (three_parts h k t @ cache_separator) cache_separator = Some (length (three_parts h k t))"
proof -
  let ?c = "CHR '':''"
  have k: "\<not> strings_HasPrefix ([k] @ ?c # s) ''sep:''" "?c \<notin> set [k]" for s
    using assms(5) by (auto simp: strings_HasPrefix_def)
  have "strings_Index (t @ cache_separator) cache_separator = Some (length t)"
    using Index_no_colon [OF assms(3), of cache_separator] by (simp only: Index_sep option.map add_0)
  then have "strings_Index (?c # t @ cache_separator) cache_separator = Some (1 + length t)"
    unfolding Index_colon [OF word_not_sep [OF assms(3,4)]] by (simp del: strings_Index.simps)
  then have "strings_Index ([k] @ ?c # t @ cache_separator) cache_separator = Some (2 + length t)"
    unfolding Index_no_colon [OF k(2)] by (simp del: strings_Index.simps)
  then have "strings_Index (?c # [k] @ ?c # t @ cache_separator) cache_separator = Some (3 + length t)"
    unfolding Index_colon [OF k(1)] by (simp del: strings_Index.simps append.simps)
  then have "strings_Index (h @ ?c # [k] @ ?c # t @ cache_separator) cache_separator = Some (3 + length t + length h)"
    unfolding Index_no_colon [OF assms(1)] by (simp del: strings_Index.simps append.simps)
  then have "strings_Index (?c # h @ ?c # [k] @ ?c # t @ cache_separator) cache_separator = Some (4 + length t + length h)"
    unfolding Index_colon [OF assms(2)] by (simp del: strings_Index.simps append.simps)
  moreover have "?c \<notin> set ''gm2c''" by simp
  ultimately have "strings_Index (''gm2c'' @ ?c # h @ ?c # [k] @ ?c # t @ cache_separator) cache_separator = Some (8 + length t + length h)"
    using Index_no_colon [of "''gm2c''"] by (simp del: strings_Index.simps append.simps)
  then show ?thesis unfolding three_parts_def append.assoc append_Cons by (simp del: strings_Index.simps)
qed

lemma three_parts_clean:
  assumes "list_all hex_char h" "h \<noteq> []" "CHR '':'' \<notin> set t" "t \<noteq> ''sep''" "glob_free t" "k \<in> {CHR ''p'', CHR ''s''}"
  shows "clean (three_parts h k t)"
proof -
  have "\<not> strings_HasPrefix (h @ s) ''sep:''" for s
    using assms(1,2) by (cases h) (auto simp: strings_HasPrefix_def hex_char_def is_digit_def)
  moreover have "CHR '':'' \<notin> set h" "glob_free h" using assms(1) by (auto simp: glob_free_def list_all_iff hex_char_def is_digit_def)
  ultimately show ?thesis
    using three_parts_index assms(3-6) unfolding clean_def by (auto simp: three_parts_def glob_free_def)
qed

section \<open>The keys of database handles\<close>

lemma word_table:
  assumes "list_all is_word t" shows "CHR '':'' \<notin> set t" "glob_free t"
  using assms by (auto simp: glob_free_def list_all_iff is_word_def is_upper_def is_lower_def is_digit_def)

lemma Md5_clean_table:
  assumes "list_all is_word t" "t \<noteq> ''sep''"
  shows "clean_table (Md5 b) t"
proof -
  have "Md5 b \<noteq> []" using Md5_shape(1) [of b] by auto
  then show ?thesis unfolding clean_table_def three_parts_keys
    using three_parts_clean [OF Md5_shape(2)] word_table [OF assms(1)] assms(2) by simp
qed

text \<open>The prefix of the cache that a handle is opened with.\<close>

definition cache_of :: "'c db_ext \<Rightarrow> db_option \<Rightarrow> string \<Rightarrow> bool" where
  "cache_of E d pre \<longleftrightarrow> (\<exists>c conf kind. dbInitiate E d = Returns (Inr c) \<and> cn_plugin c = Some (conf, kind) \<and> gc_prefix conf = pre)"

lemma cache_of_sum: "cache_of E d pre \<Longrightarrow> \<exists>dsn. parseDSN d = Returns dsn \<and> pre = DSNMd5 dsn"
proof -
  assume "cache_of E d pre"
  then obtain c conf kind where h: "dbInitiate E d = Returns (Inr c)" "cn_plugin c = Some (conf, kind)" "gc_prefix conf = pre"
    by (auto simp: cache_of_def)
  then obtain dsn where "parseDSN d = Returns dsn" by (cases "parseDSN d") (auto simp: dbInitiate_def)
  moreover from h this have "gc_prefix conf = (if DSNMd5 dsn = [] then ''default'' else DSNMd5 dsn)"
    by (simp add: dbInitiate_def NewPlugin_def Let_def split: sum.splits option.splits if_splits) auto
  moreover have "DSNMd5 dsn \<noteq> []" using Md5_shape(1) [of "str_bytes dsn"] by (auto simp: DSNMd5_def)
  ultimately show ?thesis using h(3) by auto
qed

text \<open>C20: The cache keys of the handles of the program tell databases, tables, ids and searches apart: for
  tables named by word characters, other than one called \<open>sep\<close>, every key of a handle is clean, keys of two handles are
  the same only for the same sum of their DSN, the same table and the same id, and no key of an id is one
  of a search.\<close>

theorem database_cache_keys:
  assumes "cache_of E d pre" "cache_of E d' pre'" and "list_all is_word t" "t \<noteq> ''sep''" "list_all is_word t'" "t' \<noteq> ''sep''"
  shows "clean_table pre t \<and>
    (primaryCacheKey pre t i = primaryCacheKey pre' t' i' \<longleftrightarrow> pre = pre' \<and> t = t' \<and> i = i') \<and>
    (searchCacheKey pre t q = searchCacheKey pre' t' q' \<longleftrightarrow> pre = pre' \<and> t = t' \<and> q = q') \<and>
    primaryCacheKey pre t i \<noteq> searchCacheKey pre' t' q"
proof -
  obtain b b' where b: "pre = Md5 b" "pre' = Md5 b'"
    using cache_of_sum [OF assms(1)] cache_of_sum [OF assms(2)] by (auto simp: DSNMd5_def)
  have clean: "clean_table pre t" "clean_table pre' t'" using Md5_clean_table assms(3-6) by (simp_all add: b)
  have "length pre = length pre'" by (simp add: b Md5_shape(1))
  then have parts: "three_parts pre k t = three_parts pre' k' t' \<longleftrightarrow> pre = pre' \<and> k = k' \<and> t = t'" for k k'
    by (auto simp: three_parts_def)
  note keys = primaryCacheKey_def searchCacheKey_def three_parts_keys
  have split: "three_parts pre k t @ cache_separator @ x = three_parts pre' k' t' @ cache_separator @ y \<longleftrightarrow>
      pre = pre' \<and> k = k' \<and> t = t' \<and> x = y" if "k \<in> {CHR ''p'', CHR ''s''}" "k' \<in> {CHR ''p'', CHR ''s''}" for k k' x y
    using clean_split [of "three_parts pre k t" "three_parts pre' k' t'" x y] clean that
    unfolding clean_table_def three_parts_keys by (auto simp: parts)
  show ?thesis using clean(1) by (auto simp: keys split)
qed

definition open_db :: "string db_ext" where
  "open_db = \<lparr>dx_open = (\<lambda>_ dsn. Inr dsn), dx_sql = (\<lambda>_. None), dx_ping = (\<lambda>_ _. None), dx_use = (\<lambda>_ _ _. None)\<rparr>"

definition named_db :: "string \<Rightarrow> db_option" where
  "named_db name = \<lparr>do_type = ''mysql'', do_host = ''h'', do_port = ''3306'', do_user = ''root'', do_pwd = ''pw'', do_db = name,
     do_skip_cache = False, do_cache_type = ''redis'', do_max_idle = 0, do_max_open = 0, do_max_lifetime = 0, do_max_idle_time = 0,
     do_skip_create = False\<rparr>"

lemma open_cache: "\<exists>pre. cache_of open_db (named_db name) pre"
  by (simp add: cache_of_def dbInitiate_def open_db_def parseDSN_def named_db_def NewPlugin_def Let_def)

lemma database_cache_keys_witness:
  "\<exists>pre pre'. cache_of open_db (named_db ''shop'') pre \<and> cache_of open_db (named_db ''blog'') pre' \<and> clean_table pre ''users'' \<and>
    primaryCacheKey pre ''users'' ''1'' \<noteq> primaryCacheKey pre' ''posts'' ''1''"
proof -
  obtain pre pre' where c: "cache_of open_db (named_db ''shop'') pre" "cache_of open_db (named_db ''blog'') pre'"
    using open_cache by metis
  have "list_all is_word ''users''" "list_all is_word ''posts''" by (simp_all add: is_word_def is_lower_def)
  then show ?thesis using database_cache_keys [OF c, of "''users''" "''posts''" "''1''" "''1''"] c by auto
qed

text \<open>A table called \<open>sep\<close>: the first separator in its keys is not the one that the cache put there. The Redis store
  keeps its searches under a key without the table's name, so the keys that a write drops do not include it.\<close>

lemma table_called_sep:
  "GetKeyFieldOrNot cache_separator (searchCacheKey ''00'' ''sep'' ''q'') = Some (''gm2c:00:s'', ''sep:[q]'')"
  "\<not> strings_Contains ''gm2c:00:s'' (searchKeyPrefix ''00'' ''sep'')"
  by code_simp+

end
