(* ===== verification/Version_Json.thy ===== *)
theory Version_Json
  imports Version_Lock Rpc_Message
begin

text \<open>
  The version type as JSON and as a database value (\<open>mdb/version.go\<close>): \<open>strconv.AppendInt\<close> written out, and of
  \<open>encoding/json\<close> the reading of a whole number into an \<open>int64\<close>. A version is its number and whether it is valid.
\<close>

section \<open>Decimal numbers\<close>

fun nat_digits :: "nat \<Rightarrow> string" where
  "nat_digits n = (if n < 10 then [char_of (48 + n)] else nat_digits (n div 10) @ [char_of (48 + n mod 10)])"

declare nat_digits.simps [simp del]

definition AppendInt :: "int \<Rightarrow> string" where
  "AppendInt n = (if n < 0 then CHR ''-'' # nat_digits (nat (- n)) else nat_digits (nat n))"

text \<open>A number of JSON has no zero in front of other digits.\<close>

definition json_int64 :: "string \<Rightarrow> int option" where
  "json_int64 s =
     (let ds = (case s of c # t \<Rightarrow> if c = CHR ''-'' then t else s | [] \<Rightarrow> [])
      in if length ds > 1 \<and> hd ds = CHR ''0'' then None else json_int s)"

lemma digit_char: "n < 10 \<Longrightarrow> is_digit (char_of (48 + n)) \<and> (of_char (char_of (48 + n)) :: int) = 48 + int n"
proof -
  assume n: "n < 10"
  then have c: "(of_char (char_of (48 + n)) :: nat) = 48 + n" by (simp add: of_char_char_of_small)
  have "(of_char (char_of (48 + n)) :: int) = int (of_char (char_of (48 + n)))"
    by (rule of_nat_of_char [symmetric])
  with c n show "is_digit (char_of (48 + n)) \<and> (of_char (char_of (48 + n)) :: int) = 48 + int n" by (simp add: is_digit_def del: of_char_of)
qed

lemma decode_snoc: "decode_digits (s @ [c]) = 10 * decode_digits s + (of_char c - 48)"
  by (simp add: decode_digits_def)

lemma nat_digits_decode: "decode_digits (nat_digits n) = int n \<and> list_all is_digit (nat_digits n)"
proof (induction n rule: nat_digits.induct)
  case (1 n)
  have d: "n mod 10 < 10" by simp
  show ?case
  proof (cases "n < 10")
    case True
    then show ?thesis using digit_char [OF True] by (simp add: nat_digits.simps [of n] decode_digits_def)
  next
    case False
    with 1 have IH: "decode_digits (nat_digits (n div 10)) = int (n div 10)" "list_all is_digit (nat_digits (n div 10))" by simp_all
    show ?thesis using False digit_char [OF d] IH
      by (simp add: nat_digits.simps [of n] decode_snoc) (simp add: zdiv_int zmod_int)
  qed
qed

lemma nat_digits_head: "nat_digits n \<noteq> [] \<and> (length (nat_digits n) > 1 \<longrightarrow> hd (nat_digits n) \<noteq> CHR ''0'') \<and> (0 < n \<longrightarrow> hd (nat_digits n) \<noteq> CHR ''0'')"
proof (induction n rule: nat_digits.induct)
  case (1 n)
  show ?case
  proof (cases "n < 10")
    case True
    have "char_of (48 + n) \<noteq> CHR ''0''" if "0 < n"
    proof
      assume "char_of (48 + n) = CHR ''0''"
      then have "(of_char (char_of (48 + n)) :: int) = 48" by simp
      with digit_char [OF True] that show False by simp
    qed
    with True show ?thesis by (simp add: nat_digits.simps [of n])
  next
    case False
    with 1 have "nat_digits (n div 10) \<noteq> []" "hd (nat_digits (n div 10)) \<noteq> CHR ''0''" by simp_all
    with False show ?thesis by (simp add: nat_digits.simps [of n])
  qed
qed

lemma digits_no_minus: "c \<in> set (nat_digits m) \<Longrightarrow> c \<noteq> CHR ''-''"
  using nat_digits_decode [of m] by (auto simp: list_all_iff is_digit_def)

lemma json_int64_AppendInt:
  assumes "- (2 ^ 63) \<le> n" "n < 2 ^ 63" shows "json_int64 (AppendInt n) = Some n"
proof -
  have w: "wrap64 n = n" by (rule wrap64_id [OF assms])
  show ?thesis
  proof (cases "n < 0")
    case True
    then show ?thesis using nat_digits_decode [of "nat (- n)"] nat_digits_head [of "nat (- n)"] w
      by (simp add: json_int64_def json_int_def AppendInt_def Let_def)
  next
    case False
    obtain c t where ct: "nat_digits (nat n) = c # t" using nat_digits_head [of "nat n"] by (cases "nat_digits (nat n)") auto
    with digits_no_minus [of c "nat n"] have "c \<noteq> CHR ''-''" by simp
    with False ct show ?thesis using nat_digits_decode [of "nat n"] nat_digits_head [of "nat n"] w
      by (auto simp: json_int64_def json_int_def AppendInt_def Let_def)
  qed
qed

section \<open>The version\<close>

type_synonym version = "int \<times> bool"

definition Version_MarshalJSON :: "version \<Rightarrow> string" where
  "Version_MarshalJSON v = (if snd v then AppendInt (fst v) else ''null'')"

text \<open>What is no number leaves the version as it is and is an error (\<open>False\<close>).\<close>

definition Version_UnmarshalJSON :: "string \<Rightarrow> version \<Rightarrow> version \<times> bool" where
  "Version_UnmarshalJSON bytes v =
     (if bytes = ''null'' then ((fst v, False), True)
      else case json_int64 bytes of Some n \<Rightarrow> ((n, True), True) | None \<Rightarrow> (v, False))"

text \<open>\<open>sql.NullInt64\<close> reads a null as zero and not valid.\<close>

definition Version_Scan :: "int option \<Rightarrow> version" where
  "Version_Scan x = (case x of None \<Rightarrow> (0, False) | Some n \<Rightarrow> (n, True))"

lemma AppendInt_not_null: "AppendInt n \<noteq> ''null''"
proof
  assume n: "AppendInt n = ''null''"
  have "CHR ''l'' \<notin> set (nat_digits m)" for m
    using nat_digits_decode [of m] by (auto simp: list_all_iff is_digit_def)
  moreover have "CHR ''l'' \<in> set (AppendInt n)" by (simp add: n)
  ultimately show False by (auto simp: AppendInt_def split: if_splits)
qed

text \<open>A version written to JSON or to the database and read back is the same, whatever the object held: valid with
  its number, or not valid. A text that is no number changes nothing.\<close>

theorem Version_roundtrip:
  assumes "- (2 ^ 63) \<le> fst v" "fst v < 2 ^ 63"
  shows "\<exists>n. Version_UnmarshalJSON (Version_MarshalJSON v) old = ((n, snd v), True) \<and> (snd v \<longrightarrow> n = fst v)"
    and "snd (Version_Scan (Version_Value v)) = snd v \<and> (snd v \<longrightarrow> Version_Scan (Version_Value v) = v)"
  using assms by (cases v; auto simp: Version_MarshalJSON_def Version_UnmarshalJSON_def json_int64_AppendInt AppendInt_not_null
      Version_Scan_def)+

theorem Version_roundtrip_witness:
  "Version_MarshalJSON (12, True) = ''12'' \<and> Version_UnmarshalJSON ''12'' (3, False) = ((12, True), True)"
proof -
  have j: "Version_MarshalJSON (12, True) = ''12''" by code_simp
  from Version_roundtrip(1) [of "(12, True)" "(3, False)"] show ?thesis by (auto simp: j)
qed

text \<open>A version read as null keeps the number it had, and the check of an update asks for that number.\<close>

lemma null_keeps_number:
  "fst (Version_UnmarshalJSON ''null'' (3, True)) = (3, False)" "isVersionValue (VStruct 3 False) = (3, True)"
  by (simp_all add: Version_UnmarshalJSON_def)

end
