(* ===== verification/Concurrent_Run.thy ===== *)
theory Concurrent_Run
  imports Prelude
begin

text \<open>
  \<open>ConcurrentRun\<close> (\<open>util/async.go\<close>): a function called by a number of goroutines, and the caller waiting for them by a
  wait group. The goroutines take their steps in any order: \<open>conc_step\<close> is the relation of all interleavings. A panic of the
  function, which nobody recovers, ends the process.
\<close>

section \<open>Steps\<close>

text \<open>How many goroutines are still to be started, started, in the function, and back from it but not counted
  off; the wait group; how often the function has returned; and what has become of the caller and the process.\<close>

record conc_state =
  cs_left :: nat
  cs_started :: nat
  cs_running :: nat
  cs_back :: nat
  cs_wg :: int
  cs_calls :: nat
  cs_returned :: bool
  cs_crashed :: bool

definition conc_num :: "int \<Rightarrow> nat" where
  "conc_num num = nat (if num \<le> 0 then 1 else num)"

definition ConcurrentRun :: "int \<Rightarrow> conc_state" where
  "ConcurrentRun num = \<lparr>cs_left = conc_num num, cs_started = 0, cs_running = 0, cs_back = 0, cs_wg = int (conc_num num), cs_calls = 0,
     cs_returned = False, cs_crashed = False\<rparr>"

inductive conc_step :: "conc_state \<Rightarrow> conc_state \<Rightarrow> bool" where
  spawn: "\<not> cs_crashed s \<Longrightarrow> cs_left s = Suc n \<Longrightarrow> conc_step s (s\<lparr>cs_left := n, cs_started := cs_started s + 1\<rparr>)"
| enter: "\<not> cs_crashed s \<Longrightarrow> cs_started s = Suc n \<Longrightarrow> conc_step s (s\<lparr>cs_started := n, cs_running := cs_running s + 1\<rparr>)"
| leave: "\<not> cs_crashed s \<Longrightarrow> cs_running s = Suc n \<Longrightarrow>
    conc_step s (s\<lparr>cs_running := n, cs_back := cs_back s + 1, cs_calls := cs_calls s + 1\<rparr>)"
| count_off: "\<not> cs_crashed s \<Longrightarrow> cs_back s = Suc n \<Longrightarrow> conc_step s (s\<lparr>cs_back := n, cs_wg := cs_wg s - 1\<rparr>)"
| go_on: "\<not> cs_crashed s \<Longrightarrow> \<not> cs_returned s \<Longrightarrow> cs_left s = 0 \<Longrightarrow> cs_wg s = 0 \<Longrightarrow> conc_step s (s\<lparr>cs_returned := True\<rparr>)"
| panic: "\<not> cs_crashed s \<Longrightarrow> cs_running s = Suc n \<Longrightarrow> conc_step s (s\<lparr>cs_running := n, cs_crashed := True\<rparr>)"

inductive_cases conc_stepE: "conc_step s s'"

abbreviation conc_run :: "int \<Rightarrow> conc_state \<Rightarrow> bool" where
  "conc_run num \<equiv> conc_step\<^sup>*\<^sup>* (ConcurrentRun num)"

section \<open>What holds in every run\<close>

text \<open>The wait group counts the goroutines that have not counted themselves off.\<close>

definition conc_inv :: "nat \<Rightarrow> conc_state \<Rightarrow> bool" where
  "conc_inv n s \<longleftrightarrow> (cs_crashed s \<or>
       cs_wg s = int (cs_left s + cs_started s + cs_running s + cs_back s) \<and> cs_calls s + cs_left s + cs_started s + cs_running s = n) \<and>
     (cs_returned s \<longrightarrow> \<not> cs_crashed s \<and> cs_left s + cs_started s + cs_running s + cs_back s = 0)"

lemma conc_step_inv: "conc_step s s' \<Longrightarrow> conc_inv n s \<Longrightarrow> conc_inv n s'"
  by (erule conc_stepE) (auto simp: conc_inv_def)

lemma conc_run_inv: "conc_run num s \<Longrightarrow> conc_inv (conc_num num) s"
proof (induction rule: rtranclp_induct)
  case base
  show ?case by (simp add: conc_inv_def ConcurrentRun_def)
qed (rule conc_step_inv)

text \<open>Every step brings the run nearer to its end.\<close>

definition conc_steps_left :: "conc_state \<Rightarrow> nat" where
  "conc_steps_left s = (if cs_crashed s then 1 else
     1 + 4 * cs_left s + 3 * cs_started s + 2 * cs_running s + cs_back s + (if cs_returned s then 0 else 1))"

lemma step_nearer: "conc_step s s' \<Longrightarrow> conc_steps_left s' < conc_steps_left s"
  by (erule conc_stepE) (auto simp: conc_steps_left_def)

lemma steps_bounded: "(conc_step ^^ k) s s' \<Longrightarrow> k + conc_steps_left s' \<le> conc_steps_left s"
proof (induction k arbitrary: s')
  case (Suc k)
  then obtain t where "(conc_step ^^ k) s t" "conc_step t s'" by auto
  with Suc.IH step_nearer show ?case by fastforce
qed simp

lemma step_exists:
  assumes "conc_inv n s" "\<not> cs_returned s" "\<not> cs_crashed s"
  shows "\<exists>s'. conc_step s s'"
proof -
  consider k where "cs_left s = Suc k" | k where "cs_started s = Suc k" | k where "cs_running s = Suc k" | k where "cs_back s = Suc k"
    | "cs_left s = 0" "cs_wg s = 0"
    using assms(1,3) unfolding conc_inv_def
    by (cases "cs_left s"; cases "cs_started s"; cases "cs_running s"; cases "cs_back s") auto
  then show ?thesis using assms(2,3) conc_step.intros by cases blast+
qed

text \<open>C40: \<open>ConcurrentRun\<close> returns, unless the function panics or does not return: in every interleaving there is a
  next step until then, and no run has more than four steps for each goroutine and one. When it has returned, the function
  has been called and has returned exactly as often as asked for (once for a number below one), and
  no goroutine is left.\<close>

theorem ConcurrentRun_waits:
  assumes "(conc_step ^^ k) (ConcurrentRun num) s"
  shows "k \<le> 4 * conc_num num + 1 \<and>
    (cs_returned s \<longrightarrow> cs_calls s = nat (max 1 num) \<and> \<not> cs_crashed s \<and> cs_started s + cs_running s + cs_back s = 0) \<and>
    (\<not> cs_returned s \<and> \<not> cs_crashed s \<longrightarrow> (\<exists>s'. conc_step s s'))"
proof -
  have inv: "conc_inv (conc_num num) s" using assms conc_run_inv by (metis relpowp_imp_rtranclp)
  have "conc_steps_left (ConcurrentRun num) = 4 * conc_num num + 2"
    by (simp add: conc_steps_left_def ConcurrentRun_def)
  moreover have "conc_steps_left s \<ge> 1" by (simp add: conc_steps_left_def)
  ultimately have "k \<le> 4 * conc_num num + 1" using steps_bounded [OF assms] by linarith
  moreover have "conc_num num = nat (max 1 num)" by (simp add: conc_num_def)
  ultimately show ?thesis using inv step_exists [OF inv] by (auto simp: conc_inv_def)
qed

text \<open>Two goroutines: all have called the function when the caller goes on.\<close>

lemma ConcurrentRun_waits_witness:
  "\<exists>s. (conc_step ^^ 9) (ConcurrentRun 2) s \<and> cs_returned s \<and> cs_calls s = 2"
proof -
  let ?s = "\<lambda>l st r b w c ret. \<lparr>cs_left = l, cs_started = st, cs_running = r, cs_back = b, cs_wg = w, cs_calls = c,
    cs_returned = ret, cs_crashed = False\<rparr>"
  have steps: "conc_step (?s 2 0 0 0 2 0 False) (?s 1 1 0 0 2 0 False)" "conc_step (?s 1 1 0 0 2 0 False) (?s 0 2 0 0 2 0 False)"
    "conc_step (?s 0 2 0 0 2 0 False) (?s 0 1 1 0 2 0 False)" "conc_step (?s 0 1 1 0 2 0 False) (?s 0 0 2 0 2 0 False)"
    "conc_step (?s 0 0 2 0 2 0 False) (?s 0 0 1 1 2 1 False)" "conc_step (?s 0 0 1 1 2 1 False) (?s 0 0 0 2 2 2 False)"
    "conc_step (?s 0 0 0 2 2 2 False) (?s 0 0 0 1 1 2 False)" "conc_step (?s 0 0 0 1 1 2 False) (?s 0 0 0 0 0 2 False)"
    "conc_step (?s 0 0 0 0 0 2 False) (?s 0 0 0 0 0 2 True)"
    by (auto simp: conc_step.simps)
  have start: "ConcurrentRun 2 = ?s 2 0 0 0 2 0 False" by (simp add: ConcurrentRun_def conc_num_def)
  have "(conc_step ^^ 9) (ConcurrentRun 2) (?s 0 0 0 0 0 2 True)"
    unfolding start using steps by (simp add: eval_nat_numeral) blast
  from this ConcurrentRun_waits [OF this] show ?thesis by (intro exI [of _ "?s 0 0 0 0 0 2 True"]) simp
qed

end
