(* ===== verification/Web_Debug.thy ===== *)
theory Web_Debug
  imports Prelude
begin

text \<open>
  The routes of the profiler (\<open>giris/pprof.go\<close>, of which \<open>giris2/pprof.go\<close> is a copy): which paths a party of
  the web application gets, whatever its own path is. The handlers are those of package \<open>pprof\<close>.
\<close>

definition strings_TrimSuffix :: "string \<Rightarrow> string \<Rightarrow> string" where
  "strings_TrimSuffix s suf = (if strings_HasSuffix s suf then take (length s - length suf) s else s)"

definition strings_TrimPrefix :: "string \<Rightarrow> string \<Rightarrow> string" where
  "strings_TrimPrefix s pre = (if strings_HasPrefix s pre then drop (length pre) s else s)"

text \<open>A profile of the runtime by name, or one of the other handlers of the package.\<close>

datatype pprof_handler = Named string | PIndex | PCmdline | PProfile | PSymbol | PTrace

definition AllocsHandler :: pprof_handler where "AllocsHandler = Named ''allocs''"
definition BlockHandler :: pprof_handler where "BlockHandler = Named ''block''"
definition CmdlineHandler :: pprof_handler where "CmdlineHandler = PCmdline"
definition GoroutineHandler :: pprof_handler where "GoroutineHandler = Named ''goroutine''"
definition HeapHandler :: pprof_handler where "HeapHandler = Named ''heap''"
definition IndexHandler :: pprof_handler where "IndexHandler = PIndex"
definition MutexHandler :: pprof_handler where "MutexHandler = Named ''mutex''"
definition ProfileHandler :: pprof_handler where "ProfileHandler = PProfile"
definition SymbolHandler :: pprof_handler where "SymbolHandler = PSymbol"
definition ThreadCreateHandler :: pprof_handler where "ThreadCreateHandler = Named ''threadcreate''"
definition TraceHandler :: pprof_handler where "TraceHandler = PTrace"

definition pprof_routers :: "(string \<times> string \<times> pprof_handler) list" where
  "pprof_routers =
     [(''GET'', ''/debug/pprof/'', IndexHandler), (''GET'', ''/debug/pprof/heap'', HeapHandler),
      (''GET'', ''/debug/pprof/goroutine'', GoroutineHandler), (''GET'', ''/debug/pprof/allocs'', AllocsHandler),
      (''GET'', ''/debug/pprof/block'', BlockHandler), (''GET'', ''/debug/pprof/threadcreate'', ThreadCreateHandler),
      (''GET'', ''/debug/pprof/cmdline'', CmdlineHandler), (''GET'', ''/debug/pprof/profile'', ProfileHandler),
      (''GET'', ''/debug/pprof/symbol'', SymbolHandler), (''POST'', ''/debug/pprof/symbol'', SymbolHandler),
      (''GET'', ''/debug/pprof/trace'', TraceHandler), (''GET'', ''/debug/pprof/mutex'', MutexHandler)]"

text \<open>The part of the routes' paths that the path of the party already has at its end.\<close>

definition pprof_prefix :: "string \<Rightarrow> string" where
  "pprof_prefix basePath =
     (if basePath = [] then []
      else if strings_HasSuffix basePath ''/debug'' then ''/debug''
      else if strings_HasSuffix basePath ''/debug/pprof'' then ''/debug/pprof''
      else [])"

definition PProfWrapGroup :: "string \<Rightarrow> (string \<times> string \<times> pprof_handler) list" where
  "PProfWrapGroup rel =
     (let basePath = strings_TrimSuffix rel ''/'';
          pre = pprof_prefix basePath
      in map (\<lambda>(m, p, h). (m, strings_TrimPrefix p pre, h)) pprof_routers)"

text \<open>The party's path followed by a route's is the same as without the recognised end followed by the whole
  path: no part of \<open>/debug/pprof\<close> is there twice or missing.\<close>

lemma pprof_paths:
  "\<exists>root. strings_TrimSuffix rel ''/'' = root @ pprof_prefix (strings_TrimSuffix rel ''/'') \<and>
    map (\<lambda>(m, p, h). (m, strings_TrimSuffix rel ''/'' @ p, h)) (PProfWrapGroup rel) =
    map (\<lambda>(m, p, h). (m, root @ p, h)) pprof_routers"
proof -
  let ?b = "strings_TrimSuffix rel ''/''"
  have "\<exists>root. ?b = root @ pprof_prefix ?b"
    by (auto simp: pprof_prefix_def HasSuffix_iff)
  then obtain root where root: "?b = root @ pprof_prefix ?b" by blast
  have "pprof_prefix ?b \<in> {[], ''/debug'', ''/debug/pprof''}" by (simp add: pprof_prefix_def)
  then have trim: "list_all (\<lambda>(m, p, h). pprof_prefix ?b @ strings_TrimPrefix p (pprof_prefix ?b) = p) pprof_routers"
    by (elim insertE; simp add: pprof_routers_def strings_TrimPrefix_def strings_HasPrefix_def)
  have "map (\<lambda>(m, p, h). (m, ?b @ p, h)) (PProfWrapGroup rel) =
    map (\<lambda>(m, p, h). (m, root @ (pprof_prefix ?b @ strings_TrimPrefix p (pprof_prefix ?b)), h)) pprof_routers"
    by (subst root) (simp add: PProfWrapGroup_def Let_def case_prod_beta comp_def)
  also have "\<dots> = map (\<lambda>(m, p, h). (m, root @ p, h)) pprof_routers"
    using trim by (auto simp: list_all_iff intro!: map_cong)
  finally show ?thesis using root by blast
qed

lemma pprof_under_debug: "(''GET'', ''/pprof/heap'', HeapHandler) \<in> set (PProfWrapGroup ''/debug/'')"
  by code_simp

end
