(* ===== verification/Http_Client.thy ===== *)
theory Http_Client
  imports Prelude
begin

text \<open>
  The HTTP client (\<open>gresty/resty.go\<close>): a client of package \<open>resty\<close> made on first use, its settings, the hooks before a
  request and after a response, and the helpers that change the transport of a client of \<open>net/http\<close>.

  A client is the settings the code makes. What \<open>resty\<close> does with them is its own, but for the hooks: those after a response
  run in the order they were added, and the first error is the result. Durations are in milliseconds.
  A transport belongs to one client here; in the program clients that share one see each other's changes of it.
\<close>

section \<open>Transports\<close>

text \<open>A dialer: the code's own, with the local address it is given, or one of a proxy.\<close>

datatype dialer = OwnDialer nat nat "string option" | ProxyDialer string

record http_transport =
  tp_dial :: dialer
  tp_insecure :: bool
  tp_tls_timeout :: nat
  tp_max_idle :: nat
  tp_max_idle_host :: nat
  tp_idle_timeout :: nat
  tp_continue_timeout :: nat
  tp_http2 :: bool

datatype round_tripper = Transport http_transport | OtherTripper string

record http_client =
  hc_transport :: "round_tripper option"

definition createTransport :: "nat \<Rightarrow> string option \<Rightarrow> http_transport" where
  "createTransport procs localAddr =
     \<lparr>tp_dial = OwnDialer 10000 30000 localAddr, tp_insecure = True, tp_tls_timeout = 10000, tp_max_idle = 100,
      tp_max_idle_host = procs + 1, tp_idle_timeout = 29000, tp_continue_timeout = 1000, tp_http2 = True\<rparr>"

definition HttpClientTransport :: "http_client \<Rightarrow> (string, http_transport) result" where
  "HttpClientTransport c = (case hc_transport c of
       Some (Transport t) \<Rightarrow> Inr t
     | _ \<Rightarrow> Inl ''current transport is not an *http.Transport instance'')"

definition AssignTransport :: "(http_transport \<Rightarrow> http_transport) \<Rightarrow> http_client \<Rightarrow> http_client" where
  "AssignTransport fn c = (case HttpClientTransport c of Inl _ \<Rightarrow> c | Inr t \<Rightarrow> c\<lparr>hc_transport := Some (Transport (fn t))\<rparr>)"

definition SetTransport :: "http_transport \<Rightarrow> http_client \<Rightarrow> http_client" where
  "SetTransport t c = c\<lparr>hc_transport := Some (Transport t)\<rparr>"

definition SetTransportDialer :: "dialer \<Rightarrow> http_client \<Rightarrow> http_client" where
  "SetTransportDialer d c = (case HttpClientTransport c of
       Inl _ \<Rightarrow> c | Inr t \<Rightarrow> c\<lparr>hc_transport := Some (Transport (t\<lparr>tp_dial := d\<rparr>))\<rparr>)"

section \<open>The client\<close>

record response =
  rp_url :: string
  rp_code :: int
  rp_status :: string
  rp_body :: string

type_synonym after_hook = "response \<Rightarrow> string option"

type_synonym before_hook = "nat \<Rightarrow> (string \<Rightarrow> string) \<Rightarrow> string \<Rightarrow> string"

record 'l resty_client =
  rc_http :: http_client
  rc_logger :: 'l
  rc_timeout :: nat
  rc_retry :: nat
  rc_wait :: nat
  rc_max_wait :: nat
  rc_get_payload :: bool
  rc_headers :: "(string \<times> string) list"
  rc_before :: "before_hook list"
  rc_after :: "after_hook list"
  rc_proxy :: "string option"

text \<open>\<open>rs_client\<close> is set by the first \<open>lazyInit\<close>, as \<open>once\<close> has it.\<close>

record 'l resty =
  rs_logger :: "'l option"
  rs_client :: "'l resty_client option"

text \<open>The number of processors and the logger that logs nothing.\<close>

record 'l resty_ext =
  rx_procs :: nat
  rx_empty_logger :: 'l

definition GetLogger :: "'l resty_ext \<Rightarrow> 'l resty \<Rightarrow> 'l \<times> 'l resty" where
  "GetLogger E r = (case rs_logger r of Some l \<Rightarrow> (l, r) | None \<Rightarrow> (rx_empty_logger E, r\<lparr>rs_logger := Some (rx_empty_logger E)\<rparr>))"

text \<open>The header of the program, chosen by \<open>rand.Intn\<close>, and the hook that sets it where the request has none.\<close>

definition userAgents :: "string list" where
  "userAgents =
     [''Mozilla/5.0 (Macintosh; Intel Mac OS X 10_15_7) AppleWebKit/537.36 (KHTML, like Gecko) Chrome/104.0.0.0 Safari/537.36'',
      ''Mozilla/5.0 (Windows NT 6.1; WOW64) AppleWebKit/535.11 (KHTML, like Gecko) Chrome/17.0.963.56 Safari/535.11'',
      ''Mozilla/5.0 (Macintosh; Intel Mac OS X 10_7_3) AppleWebKit/535.20 (KHTML, like Gecko) Chrome/19.0.1036.7 Safari/535.20'',
      ''Mozilla/5.0 (Windows NT 6.1; WOW64) AppleWebKit/537.1 (KHTML, like Gecko) Chrome/21.0.1180.71 Safari/537.1 LBBROWSER'',
      ''Mozilla/5.0 (Windows NT 6.1; Win64; x64; rv:2.0b13pre) Gecko/20110307 Firefox/4.0b13pre'',
      ''Mozilla/5.0 (Windows NT 10.0; WOW64) AppleWebKit/537.36 (KHTML, like Gecko) Chrome/61.0.3163.100 Safari/537.36'']"

definition RandUseragent :: "nat \<Rightarrow> string" where
  "RandUseragent intn = userAgents ! intn"

definition user_agent_hook :: before_hook where
  "user_agent_hook intn header =
     (if strings_TrimSpace (header ''User-Agent'') = [] then header(''User-Agent'' := RandUseragent intn) else header)"

definition Resty_init :: "'l resty_ext \<Rightarrow> 'l resty \<Rightarrow> 'l resty" where
  "Resty_init E r =
     (let (l, r) = GetLogger E r;
          c = \<lparr>rc_http = \<lparr>hc_transport = Some (Transport (createTransport (rx_procs E) None))\<rparr>, rc_logger = l, rc_timeout = 20000,
               rc_retry = 3, rc_wait = 300, rc_max_wait = 2000, rc_get_payload = True,
               rc_headers = [(''Accept'', ''*/*''), (''Pragma'', ''no-cache''), (''Cache-Control'', ''no-cache''), (''Connection'', ''keep-alive'')],
               rc_before = [user_agent_hook], rc_after = [], rc_proxy = None\<rparr>
      in r\<lparr>rs_client := Some c\<rparr>)"

definition Resty_lazyInit :: "'l resty_ext \<Rightarrow> 'l resty \<Rightarrow> 'l resty" where
  "Resty_lazyInit E r = (if rs_client r = None then Resty_init E r else r)"

definition Resty_Client :: "'l resty_ext \<Rightarrow> 'l resty \<Rightarrow> 'l resty_client \<times> 'l resty" where
  "Resty_Client E r = (let r = Resty_lazyInit E r in (the (rs_client r), r))"

definition ensure_ok :: after_hook where
  "ensure_ok r = (if rp_code r = 200 then None
     else Some (rp_url r @ CHR 0x0A # ''['' @ rp_status r @ '']'' @ CHR 0x0A # rp_body r @ [CHR 0x0A]))"

definition ResponseEnsureOK :: "'l resty_ext \<Rightarrow> 'l resty \<Rightarrow> 'l resty" where
  "ResponseEnsureOK E r = (let (c, r) = Resty_Client E r in r\<lparr>rs_client := Some (c\<lparr>rc_after := rc_after c @ [ensure_ok]\<rparr>)\<rparr>)"

definition SetLogger :: "'l resty_ext \<Rightarrow> 'l \<Rightarrow> 'l resty \<Rightarrow> 'l resty" where
  "SetLogger E l r =
     (let r = (Resty_lazyInit E r)\<lparr>rs_logger := Some l\<rparr>
      in r\<lparr>rs_client := map_option (\<lambda>c. c\<lparr>rc_logger := l\<rparr>) (rs_client r)\<rparr>)"

definition SetProxy :: "'l resty_ext \<Rightarrow> string \<Rightarrow> 'l resty \<Rightarrow> 'l resty" where
  "SetProxy E proxy r = (let (c, r) = Resty_Client E r in r\<lparr>rs_client := Some (c\<lparr>rc_proxy := Some proxy\<rparr>)\<rparr>)"

definition Resty_New :: "'l resty_ext \<Rightarrow> 'l resty" where
  "Resty_New E = Resty_lazyInit E \<lparr>rs_logger = None, rs_client = None\<rparr>"

text \<open>A response after the hooks: the first error.\<close>

fun after_response :: "after_hook list \<Rightarrow> response \<Rightarrow> string option" where
  "after_response [] r = None"
| "after_response (h # hs) r = (case h r of Some e \<Rightarrow> Some e | None \<Rightarrow> after_response hs r)"

section \<open>Any use of a client\<close>

datatype 'l resty_op = UseClient | EnsureOK | UseLogger 'l | UseProxy string

fun resty_step :: "'l resty_ext \<Rightarrow> 'l resty_op \<Rightarrow> 'l resty \<Rightarrow> 'l resty" where
  "resty_step E UseClient r = snd (Resty_Client E r)"
| "resty_step E EnsureOK r = ResponseEnsureOK E r"
| "resty_step E (UseLogger l) r = SetLogger E l r"
| "resty_step E (UseProxy p) r = SetProxy E p r"

definition last_set :: "('o \<Rightarrow> 'v option) \<Rightarrow> 'o list \<Rightarrow> 'v option" where
  "last_set f ops = fold (\<lambda>op v. case f op of Some x \<Rightarrow> Some x | None \<Rightarrow> v) ops None"

lemma last_set_snoc: "last_set f (ops @ [op]) = (case f op of Some x \<Rightarrow> Some x | None \<Rightarrow> last_set f ops)"
  by (simp add: last_set_def split: option.split)

fun op_logger :: "'l resty_op \<Rightarrow> 'l option" where
  "op_logger (UseLogger l) = Some l" | "op_logger _ = None"

fun op_proxy :: "'l resty_op \<Rightarrow> string option" where
  "op_proxy (UseProxy p) = Some p" | "op_proxy _ = None"

lemmas resty_defs = Resty_Client_def ResponseEnsureOK_def SetLogger_def SetProxy_def Resty_lazyInit_def Resty_init_def GetLogger_def Let_def

text \<open>The client is made once, with the settings of \<open>init\<close>; afterwards it has the logger and the proxy that were set last
  (the logger it was given, or none, before), and a hook for each call of \<open>ResponseEnsureOK\<close>.\<close>

definition client_after :: "'l resty_ext \<Rightarrow> 'l option \<Rightarrow> 'l resty_op list \<Rightarrow> 'l resty_client" where
  "client_after E l0 ops =
     (the (rs_client (Resty_init E \<lparr>rs_logger = l0, rs_client = None\<rparr>)))
       \<lparr>rc_logger := (case last_set op_logger ops of Some l \<Rightarrow> l | None \<Rightarrow> case l0 of Some l \<Rightarrow> l | None \<Rightarrow> rx_empty_logger E),
        rc_proxy := last_set op_proxy ops,
        rc_after := replicate (length (filter (\<lambda>op. op = EnsureOK) ops)) ensure_ok\<rparr>"

lemma client_of_ops:
  "rs_client (fold (resty_step E) ops \<lparr>rs_logger = l0, rs_client = None\<rparr>) = (if ops = [] then None else Some (client_after E l0 ops))"
proof (induction ops rule: rev_induct)
  case (snoc op ops)
  let ?r = "fold (resty_step E) ops \<lparr>rs_logger = l0, rs_client = None\<rparr>"
  show ?case
  proof (cases "ops = []")
    case True
    then show ?thesis
      by (cases op; cases l0) (simp_all add: resty_defs client_after_def last_set_def)
  next
    case False
    with snoc.IH have "rs_client ?r = Some (client_after E l0 ops)" by simp
    then show ?thesis
      by (cases op) (simp_all add: resty_defs client_after_def last_set_snoc replicate_append_same)
  qed
qed simp

lemma after_replicate: "after_response (replicate n h) r = (if n = 0 then None else h r)"
  by (induction n) (auto split: option.split)

text \<open>Over any use of a client from the start, a response is accepted unless \<open>ResponseEnsureOK\<close> was called and its status is
  not 200, whatever is called before or after it and however often; the settings of the first use stay.\<close>

lemma responses_checked:
  assumes "ops \<noteq> []"
  shows "\<exists>c. rs_client (fold (resty_step E) ops \<lparr>rs_logger = l0, rs_client = None\<rparr>) = Some c \<and>
    (after_response (rc_after c) resp = None \<longleftrightarrow> EnsureOK \<notin> set ops \<or> rp_code resp = 200) \<and>
    rc_before c = [user_agent_hook] \<and> rc_retry c = 3 \<and> rc_timeout c = 20000 \<and> rc_proxy c = last_set op_proxy ops"
proof -
  have "length (filter (\<lambda>op. op = EnsureOK) ops) = 0 \<longleftrightarrow> EnsureOK \<notin> set ops"
    by (auto simp: filter_empty_conv)
  then show ?thesis using assms
    by (simp add: client_of_ops client_after_def after_replicate ensure_ok_def resty_defs split: option.split prod.split)
qed

text \<open>A header that a request has is kept, and one it lacks is one of the list.\<close>

lemma user_agent_kept:
  "intn < 6 \<Longrightarrow> (if strings_TrimSpace (header ''User-Agent'') \<noteq> [] then user_agent_hook intn header = header
    else user_agent_hook intn header ''User-Agent'' \<in> set userAgents)"
proof -
  have "length userAgents = 6" by (simp add: userAgents_def)
  then show "intn < 6 \<Longrightarrow> ?thesis" by (simp add: user_agent_hook_def RandUseragent_def)
qed

text \<open>The helpers leave a transport of another kind as it is; the dialer can be set on the client's own.\<close>

lemma dialer_set:
  "HttpClientTransport (SetTransportDialer d (SetTransport t c)) = Inr (t\<lparr>tp_dial := d\<rparr>)"
  "hc_transport c = Some (OtherTripper x) \<Longrightarrow> SetTransportDialer d c = c \<and> AssignTransport fn c = c"
  by (simp_all add: SetTransportDialer_def AssignTransport_def HttpClientTransport_def SetTransport_def)

end
