(* ===== verification/Time_Columns.thy ===== *)
theory Time_Columns
  imports Util_Time
begin

text \<open>
  The other forms of a time (\<open>util/time.go\<close>): the value a time column gives the database driver and
  the one it reads (\<open>Value\<close>, \<open>Scan\<close>), the binary form, times made from texts and from the clock, and the
  day of today. A value of the driver is a time, no value, or one of another type, of which its text is kept.

  \<open>Value\<close> compares nanoseconds in 64 bits, which do not reach from the zero time to the present.
\<close>

section \<open>Columns of the database\<close>

datatype driver_value = TimeValue json_time | NullValue | OtherValue string

definition Time_Scan :: "driver_value \<Rightarrow> json_time \<Rightarrow> json_time \<times> string option" where
  "Time_Scan v p = (case v of
       TimeValue value \<Rightarrow> (value, None)
     | NullValue \<Rightarrow> (p, Some ''can not convert <nil> to timestamp'')
     | OtherValue s \<Rightarrow> (p, Some (''can not convert '' @ s @ '' to timestamp'')))"

text \<open>\<open>UnixNano\<close>: from the first of January of 1970, in an \<open>int64\<close>.\<close>

definition UnixNano :: "json_time \<Rightarrow> int" where
  "UnixNano t = wrap64 (t - 62135596800 * second)"

definition Time_Value :: "json_time \<Rightarrow> driver_value" where
  "Time_Value p = (let zeroTime = 0 in if UnixNano p = UnixNano zeroTime then NullValue else TimeValue p)"

definition SetByTime :: "json_time \<Rightarrow> json_time \<Rightarrow> json_time" where
  "SetByTime timeVal p = timeVal"

definition NewJSONTimeOfTime :: "json_time \<Rightarrow> json_time" where
  "NewJSONTimeOfTime t = t"

lemma wrap64_same: "wrap64 a = wrap64 b \<longleftrightarrow> (2 :: int) ^ 64 dvd a - b"
proof -
  have "wrap64 a = wrap64 b \<longleftrightarrow> (a + 2 ^ 63) mod 2 ^ 64 = (b + 2 ^ 63) mod (2 :: int) ^ 64"
    by (simp add: wrap64_def)
  also have "\<dots> \<longleftrightarrow> (2 :: int) ^ 64 dvd (a + 2 ^ 63) - (b + 2 ^ 63)" by (rule mod_eq_dvd_iff)
  finally show ?thesis by simp
qed

lemma Time_Value_null: "Time_Value p = NullValue \<longleftrightarrow> 2 ^ 64 dvd p"
  by (simp add: Time_Value_def UnixNano_def wrap64_same del: dvd_mult_div_cancel)

text \<open>
  What the driver gets for a time is that time, and no value for the zero time; \<open>Scan\<close> of no value is an error
  that leaves the target as it is. The test for the zero time holds of other times
  as well, namely of the multiples of \<open>2 ^ 64\<close> nanoseconds: none of them lies between the years 1755 and
  2338. What the column keeps of the time is the database's: without a precision it holds whole seconds.
\<close>

lemma time_column_value:
  "(2 ^ 64 dvd t \<longleftrightarrow> Time_Value t = NullValue) \<and>
   (if 2 ^ 64 dvd t then fst (Time_Scan (Time_Value t) p) = p \<and> snd (Time_Scan (Time_Value t) p) \<noteq> None
    else Time_Scan (Time_Value t) p = (t, None)) \<and>
   (t \<in> {86400 * days_before_year 1755 * second..<86400 * days_before_year 2339 * second} \<longrightarrow> \<not> 2 ^ 64 dvd t)"
proof (intro conjI impI)
  show "2 ^ 64 dvd t \<longleftrightarrow> Time_Value t = NullValue" by (simp only: Time_Value_null)
  then show "if 2 ^ 64 dvd t then fst (Time_Scan (Time_Value t) p) = p \<and> snd (Time_Scan (Time_Value t) p) \<noteq> None
    else Time_Scan (Time_Value t) p = (t, None)"
    by (auto simp: Time_Value_def Time_Scan_def Let_def)
  assume "t \<in> {86400 * days_before_year 1755 * second..<86400 * days_before_year 2339 * second}"
  then have b: "3 * 2 ^ 64 < t" "t < 4 * (2 :: int) ^ 64" by (simp_all add: days_before_year_def second_def)
  show "\<not> 2 ^ 64 dvd t"
  proof
    assume "2 ^ 64 dvd t"
    then obtain q where "t = 2 ^ 64 * q" by (elim dvdE)
    with b have "3 < q" "q < 4" by simp_all
    then show False by simp
  qed
qed

text \<open>A time of the year 2022, and one of the thirtieth of August of 1754, which is lost.\<close>

lemma time_column_value_2021:
  "Time_Scan (Time_Value 63745056123000000000) 0 = (63745056123000000000, None)"
  using time_column_value [of 63745056123000000000 0] by (simp add: days_before_year_def second_def)

lemma old_time_lost:
  "Time_Value (time_Date (\<lambda>_. 0) \<lparr>ct_year = 1754, ct_month = 8, ct_day = 30, ct_hour = 22, ct_min = 43, ct_sec = 41, ct_nano = 128654848\<rparr>) = NullValue"
proof -
  have "[1::nat..<8] = [1, 2, 3, 4, 5, 6, 7]" by (simp add: upt_rec)
  then have "days_before_month 1754 8 = 212" by (simp add: days_before_month_def month_days_def leap_def)
  then show ?thesis
    unfolding Time_Value_null by (simp add: time_Date_def unix_of_def reading_def day_number_def days_before_year_def second_def)
qed

section \<open>The binary form\<close>

text \<open>\<open>MarshalBinary\<close> and \<open>UnmarshalBinary\<close> of package \<open>time\<close>: the first fails for some zones.\<close>

record time_binary =
  tb_marshal :: "json_time \<Rightarrow> (string, bytes) result"
  tb_unmarshal :: "bytes \<Rightarrow> (string, json_time) result"

definition GobEncode :: "time_binary \<Rightarrow> json_time \<Rightarrow> (string, bytes) result" where
  "GobEncode B p = tb_marshal B p"

definition GobDecode :: "time_binary \<Rightarrow> bytes \<Rightarrow> json_time \<Rightarrow> json_time \<times> string option" where
  "GobDecode B data p = (case tb_unmarshal B data of Inl err \<Rightarrow> (p, Some err) | Inr s \<Rightarrow> (s, None))"

lemma Gob_roundtrip:
  "(\<And>t b. tb_marshal B t = Inr b \<Longrightarrow> tb_unmarshal B b = Inr t) \<Longrightarrow> GobEncode B t = Inr b \<Longrightarrow> GobDecode B b p = (t, None)"
  by (simp add: GobEncode_def GobDecode_def)

section \<open>Times from texts and from the clock\<close>

text \<open>A text that is no time panics.\<close>

definition Must2JSONTimeAddr :: "zone \<Rightarrow> string \<Rightarrow> json_time option" where
  "Must2JSONTimeAddr z s = (case ToDatetime z s of (j, ok) \<Rightarrow> if ok then Some j else None)"

definition Time_Now :: "json_time \<Rightarrow> json_time" where
  "Time_Now now = NewJSONTimeOfTime now"

definition Today :: "zone \<Rightarrow> json_time \<Rightarrow> json_time" where
  "Today z now = JSONTime_Date z (NewJSONTimeOfTime now)"

text \<open>The layout \<open>2006-01-02\<close>.\<close>

definition date_format :: "clock_time \<Rightarrow> string" where
  "date_format c = four (ct_year c) @ ''-'' @ two (ct_month c) @ ''-'' @ two (ct_day c)"

definition TodayDate :: "zone \<Rightarrow> json_time \<Rightarrow> string" where
  "TodayDate z now = date_format (local_clock z now)"

text \<open>The text of a time that the layout can write is a time with the same reading; the day of today is what
  the text of its date with midnight is read as.\<close>

lemma Must2JSONTimeAddr_text:
  assumes "zone_ok z" "in_layout z t"
  shows "\<exists>t'. Must2JSONTimeAddr z (JSONTime_String z t) = Some t' \<and> same_reading z t t'"
  using read_back_text [OF assms(2), of "[]"] read_back_reading(1) [OF assms]
  by (simp add: Must2JSONTimeAddr_def ToDatetime_def)

lemma digit_0: "digit 0 = CHR ''0''"
  by code_simp

lemma midnight_clock:
  assumes "in_layout z t"
  shows "Must2JSONTimeAddr z (TodayDate z t @ '' 00:00:00'') = Some (Today z t)"
proof -
  let ?c = "(local_clock z t)\<lparr>ct_hour := 0, ct_min := 0, ct_sec := 0, ct_nano := 0\<rparr>"
  have v: "valid_clock ?c" using local_clock_parts(3) [of t z] assms by (simp add: valid_clock_def in_layout_def)
  have f: "TodayDate z t @ '' 00:00:00'' = layout_format ?c @ []"
    using digit_0 by (simp add: TodayDate_def date_format_def layout_format_def two_def)
  have "layout_parse (layout_format ?c @ []) = Some (?c\<lparr>ct_nano := 0\<rparr>, [])"
    by (rule layout_roundtrip [OF v]) simp
  then show ?thesis
    unfolding f by (simp add: Must2JSONTimeAddr_def ToDatetime_def Today_def JSONTime_Date_def NewJSONTimeOfTime_def)
qed

end
