(* ===== verification/Web_Tokens.thy ===== *)
theory Web_Tokens
  imports Token_Jwt
begin

text \<open>
  The tokens of the second version of the web server (\<open>giris2/jwt.go\<close>). Package \<open>giris2\<close> has its own copy of package \<open>jwt\<close>, with
  types of its own and other names for the values it puts into the context of a request. Its operations are
  written out here, over the context of a request as a map from names to values, and shown to be those of
  \<open>Token_Jwt\<close>: what is proved there of sessions holds of this copy as well.

  The shared parts are the record of a token, the texts of the errors and the request, which the two packages
  have in the same words.
\<close>

section \<open>The store\<close>

definition giris2_newDefaultTokenStore :: "string \<Rightarrow> token option" where "giris2_newDefaultTokenStore = (\<lambda>_. None)"

definition giris2_SetToken :: "string \<Rightarrow> token \<Rightarrow> (string \<Rightarrow> token option) \<Rightarrow> (string \<Rightarrow> token option)" where
  "giris2_SetToken key t tokens = tokens(key := Some t)"

definition giris2_GetToken :: "string \<Rightarrow> (string \<Rightarrow> token option) \<Rightarrow> token option" where
  "giris2_GetToken key tokens = tokens key"

definition giris2_DelToken :: "string \<Rightarrow> (string \<Rightarrow> token option) \<Rightarrow> (string \<Rightarrow> token option)" where
  "giris2_DelToken key tokens = tokens(key := None)"

definition giris2_expired :: "int \<Rightarrow> token \<Rightarrow> bool" where
  "giris2_expired now t \<longleftrightarrow> tk_expires t < now"

definition giris2_ClearExpiredToken :: "int \<Rightarrow> (string \<Rightarrow> token option) \<Rightarrow> (string \<Rightarrow> token option)" where
  "giris2_ClearExpiredToken now tokens = (\<lambda>k. case tokens k of
       Some v \<Rightarrow> if giris2_expired now v then None else Some v | None \<Rightarrow> None)"

definition giris2_store :: "(string \<Rightarrow> token option) token_ops" where
  "giris2_store = \<lparr>ts_set = (\<lambda>_. giris2_SetToken), ts_get = (\<lambda>_ k d. (giris2_GetToken k d, d)), ts_del = (\<lambda>_. giris2_DelToken),
     ts_clear = giris2_ClearExpiredToken\<rparr>"

lemmas giris2_store_defs = giris2_store_def giris2_SetToken_def giris2_GetToken_def giris2_DelToken_def giris2_ClearExpiredToken_def
  giris2_expired_def token_expired_def

interpretation giris2_store: token_store giris2_store "\<lambda>_. True" "\<lambda>s. s" "\<lambda>_. True" "\<lambda>_. True"
  by unfold_locales (auto simp: giris2_store_defs split: option.splits if_splits)

section \<open>JWT\<close>

definition giris2_innerJWTKey :: "string \<Rightarrow> string" where "giris2_innerJWTKey AppName = AppName @ '':jwt''"

definition giris2_innerJwtCryptoKey :: bytes where "giris2_innerJwtCryptoKey = take 16 (str_bytes ''FUXqWKtBONoR85Eb'')"

definition giris2_getJWTKey :: "string \<Rightarrow> string \<Rightarrow> string" where
  "giris2_getJWTKey AppName ident = giris2_innerJWTKey AppName @ '':'' @ ident"

definition giris2_generateToken :: "(aes_error, bytes) result \<Rightarrow> string \<Rightarrow> string" where
  "giris2_generateToken rand16 ident =
     (case AESCBCEncrypt rand16 giris2_innerJwtCryptoKey (str_bytes ident) [True] of Inr v \<Rightarrow> bytes_str v | Inl _ \<Rightarrow> [])"

definition giris2_getIDFromToken :: "string \<Rightarrow> string" where
  "giris2_getIDFromToken tok =
     (case AESCBCDecrypt giris2_innerJwtCryptoKey (str_bytes tok) [True] of Inr v \<Rightarrow> bytes_str v | Inl _ \<Rightarrow> [])"

text \<open>The values of a request's context, by name.\<close>

datatype 'u ctx_value = CtxToken string | CtxUser 'u

type_synonym 'u ctx_values = "string \<Rightarrow> 'u ctx_value option"

definition JWTToken :: string where "JWTToken = ''JWT_TOKEN''"

definition ContextUser :: string where "ContextUser = ''CONTEXT_USER''"

definition giris2_User :: "'u ctx_values \<Rightarrow> 'u ctx_value option" where
  "giris2_User values = values ContextUser"

definition giris2_lazyInit :: "jwt \<Rightarrow> 's option \<Rightarrow> 's \<Rightarrow> jwt \<times> 's" where
  "giris2_lazyInit j store newDefault =
     (let j = (if jwt_expire j = 0 then j\<lparr>jwt_expire := 3600 * 24 * 7\<rparr> else j)
      in (j, case store of Some s \<Rightarrow> s | None \<Rightarrow> newDefault))"

definition giris2_AfterLogin ::
  "'s token_ops \<Rightarrow> jwt \<Rightarrow> int \<Rightarrow> (aes_error, bytes) result \<Rightarrow> string \<Rightarrow> 's \<Rightarrow> token \<times> 's" where
  "giris2_AfterLogin T j now rand16 ident s =
     (let t = \<lparr>tk_id = ident, tk_expires = 0, tk_token = []\<rparr>;
          t = t\<lparr>tk_expires := wrap64 (now + jwt_expire j)\<rparr>;
          t = t\<lparr>tk_token := giris2_generateToken rand16 ident\<rparr>
      in (t, ts_set T now (giris2_getJWTKey (jwt_app j) ident) t s))"

definition giris2_Logout :: "'s token_ops \<Rightarrow> jwt \<Rightarrow> int \<Rightarrow> string \<Rightarrow> 's \<Rightarrow> 's" where
  "giris2_Logout T j now ident s = ts_del T now (giris2_getJWTKey (jwt_app j) ident) s"

definition giris2_refreshToken :: "'s token_ops \<Rightarrow> jwt \<Rightarrow> int \<Rightarrow> token \<Rightarrow> 's \<Rightarrow> 's" where
  "giris2_refreshToken T j now t s =
     (if wrap64 (tk_expires t - now) > jwt_expire j sdiv 2 then s
      else let t = t\<lparr>tk_expires := wrap64 (now + jwt_expire j)\<rparr>
           in ts_set T now (giris2_getJWTKey (jwt_app j) (tk_id t)) t s)"

definition giris2_Verify ::
  "'s token_ops \<Rightarrow> jwt \<Rightarrow> int \<Rightarrow> token_request \<Rightarrow> (string \<Rightarrow> (string, 'u) result) \<Rightarrow> 'u ctx_values \<Rightarrow> 's
   \<Rightarrow> rpc_error option \<times> 'u ctx_values \<times> 's" where
  "giris2_Verify T j now c call values s =
     (let deny = (\<lambda>msg. Some (NewError ErrAuthorization msg []));
          token = rq_authorization c;
          token = (if token = [] then rq_param c else token);
          token = (if token = [] then rq_token c else token);
          token = strings_ReplaceAll token ''Bearer '' []
      in if token = [] then (deny ErrorTokenMissing, values, s)
      else let values = values(JWTToken \<mapsto> CtxToken token); ident = giris2_getIDFromToken token
      in if ident = [] then (deny ErrorTokenMalformed, values, s)
      else case ts_get T now (giris2_getJWTKey (jwt_app j) ident) s of
        (None, s) \<Rightarrow> (deny ErrorTokenNotValidYet, values, s)
      | (Some t, s) \<Rightarrow>
          if giris2_expired now t then (deny ErrorTokenExpired, values, s)
          else if tk_token t \<noteq> token then (deny ErrorTokenInvalid, values, s)
          else case call (tk_id t) of
            Inl err \<Rightarrow> (deny err, values, s)
          | Inr user \<Rightarrow> (None, values(ContextUser \<mapsto> CtxUser user), giris2_refreshToken T j now t s))"

definition giris2_ClearExpired :: "'s token_ops \<Rightarrow> int \<Rightarrow> 's \<Rightarrow> 's" where
  "giris2_ClearExpired T now s = ts_clear T now s"

section \<open>The same operations\<close>

lemma giris2_keys: "giris2_getJWTKey = getJWTKey" "giris2_generateToken = generateToken" "giris2_getIDFromToken = getIDFromToken"
  "giris2_expired = token_expired"
  by (intro ext; simp add: giris2_getJWTKey_def getJWTKey_def giris2_innerJWTKey_def innerJWTKey_def giris2_generateToken_def
    generateToken_def giris2_innerJwtCryptoKey_def innerJwtCryptoKey_def giris2_getIDFromToken_def getIDFromToken_def
    giris2_expired_def token_expired_def split: sum.split)+

lemma giris2_login: "giris2_AfterLogin = AfterLogin" "giris2_Logout = Logout" "giris2_refreshToken = refreshToken"
  "giris2_lazyInit = lazyInit" "giris2_ClearExpired = ClearExpired"
  by (intro ext; simp add: giris2_AfterLogin_def AfterLogin_def giris2_Logout_def Logout_def giris2_refreshToken_def refreshToken_def
    giris2_lazyInit_def lazyInit_def giris2_ClearExpired_def ClearExpired_def giris2_keys Let_def split: option.split)+

text \<open>The values that \<open>Verify\<close> of \<open>jwt\<close> sets, under the names of this package.\<close>

definition named_values :: "'u token_values \<Rightarrow> 'u ctx_values \<Rightarrow> 'u ctx_values" where
  "named_values cv values =
     (let values = (case cv_token cv of None \<Rightarrow> values | Some t \<Rightarrow> values(JWTToken \<mapsto> CtxToken t))
      in case cv_user cv of None \<Rightarrow> values | Some u \<Rightarrow> values(ContextUser \<mapsto> CtxUser u))"

lemma giris2_verify:
  "giris2_Verify T j now c call values s = (case Verify T j now c call s of
     (r, cv, s) \<Rightarrow> (case r of Inl e \<Rightarrow> Some e | Inr _ \<Rightarrow> None, named_values cv values, s))"
proof -
  obtain got s1 where g: "ts_get T now (getJWTKey (jwt_app j) (getIDFromToken (presented c))) s = (got, s1)" by fastforce
  have token: "(let token = rq_authorization c; token = (if token = [] then rq_param c else token);
    token = (if token = [] then rq_token c else token) in strings_ReplaceAll token ''Bearer '' []) = presented c"
    by (simp add: presented_def)
  show ?thesis
    unfolding giris2_Verify_def Verify_def Let_def giris2_keys giris2_login token [unfolded Let_def] g prod.case
    by (cases "presented c = []"; cases "getIDFromToken (presented c) = []"; cases got)
      (simp_all add: named_values_def split: sum.split)
qed

text \<open>A run of this package: each request has a context of its own, and its handler asks for the user.\<close>

definition giris2_step :: "'s token_ops \<Rightarrow> jwt \<Rightarrow> int \<Rightarrow> 'u jwt_op \<Rightarrow> 's \<Rightarrow> 'u ctx_value option \<times> 's" where
  "giris2_step T j now op s = (case op of
     LoginOp ident r \<Rightarrow> (None, snd (giris2_AfterLogin T j now r ident s))
   | LogoutOp ident \<Rightarrow> (None, giris2_Logout T j now ident s)
   | VerifyOp rq call \<Rightarrow> (case giris2_Verify T j now rq call (\<lambda>_. None) s of (_, values, s) \<Rightarrow> (giris2_User values, s))
   | SweepOp \<Rightarrow> (None, giris2_ClearExpired T now s))"

fun giris2_run :: "'s token_ops \<Rightarrow> jwt \<Rightarrow> (int \<times> 'u jwt_op) list \<Rightarrow> 's \<Rightarrow> 'u ctx_value option list" where
  "giris2_run T j [] s = []"
| "giris2_run T j ((now, op) # evs) s = (case giris2_step T j now op s of (u, s) \<Rightarrow> u # giris2_run T j evs s)"

lemma verify_user: "Verify T j now rq call s = (r, cv, s') \<Longrightarrow> cv_user cv = (case r of Inl _ \<Rightarrow> None | Inr u \<Rightarrow> Some u)"
  by (auto simp: Verify_def Let_def split: if_splits prod.splits option.splits sum.splits)

lemma user_of_values: "giris2_User (named_values cv (\<lambda>_. None)) = map_option CtxUser (cv_user cv)"
  by (cases "cv_user cv") (auto simp: giris2_User_def named_values_def ContextUser_def JWTToken_def Let_def split: option.split)

lemma giris2_step_same: "giris2_step T j now op s = map_prod (map_option CtxUser) id (jwt_step T j now op s)"
proof (cases op)
  case (VerifyOp rq call)
  obtain r cv s' where v: "Verify T j now rq call s = (r, cv, s')" by (cases "Verify T j now rq call s") blast
  then have "giris2_step T j now op s = (map_option CtxUser (cv_user cv), s')"
    by (simp add: giris2_step_def VerifyOp giris2_verify user_of_values)
  moreover have "jwt_step T j now op s = (case r of Inl _ \<Rightarrow> None | Inr u \<Rightarrow> Some u, s')"
    using v by (simp add: jwt_step_def VerifyOp split: sum.split)
  ultimately show ?thesis using verify_user [OF v] by simp
qed (simp_all add: giris2_step_def jwt_step_def giris2_login)

lemma giris2_run_same: "giris2_run T j evs s = map (map_option CtxUser) (jwt_run T j evs s)"
proof (induction evs arbitrary: s)
  case (Cons ev evs)
  then show ?case by (cases ev) (simp add: giris2_step_same case_prod_unfold)
qed simp

text \<open>The users that the handlers behind this package's \<open>Verify\<close> find in their contexts, over any sequence of logins,
  logouts, requests and sweeps at times that do not run backwards, are those the sessions of the
  specification let in; a request that is turned away leaves no user behind.\<close>

theorem giris2_refines_sessions:
  assumes "in_order evs"
  shows "giris2_run giris2_store j evs giris2_newDefaultTokenStore = map (map_option CtxUser) (session_run j evs Map.empty)"
proof -
  have "jwt_run giris2_store j evs giris2_newDefaultTokenStore = session_run j evs Map.empty"
    by (rule sessions_of_store [OF giris2_store.token_store_axioms])
      (simp_all add: assms giris2_newDefaultTokenStore_def op_ok_def split: jwt_op.split)
  then show ?thesis by (simp only: giris2_run_same)
qed

text \<open>A request within the lifetime is let in, one after it is not.\<close>

theorem giris2_refines_sessions_witness:
  "let j = \<lparr>jwt_app = ''app'', jwt_expire = 100\<rparr>;
       rq = \<lparr>rq_authorization = [], rq_param = generateToken (Inr (replicate 16 7)) ''ann'', rq_token = []\<rparr>;
       evs = [(5, LoginOp ''ann'' (Inr (replicate 16 7))), (30, VerifyOp rq (\<lambda>i. Inr i)), (106, VerifyOp rq (\<lambda>i. Inr i))]
   in giris2_run giris2_store j evs giris2_newDefaultTokenStore = [None, Some (CtxUser ''ann''), None]"
proof -
  let ?j = "\<lparr>jwt_app = ''app'', jwt_expire = 100\<rparr>"
  let ?tok = "generateToken (Inr (replicate 16 7)) ''ann''"
  let ?rq = "\<lparr>rq_authorization = [], rq_param = ?tok, rq_token = []\<rparr>"
  let ?evs = "[(5, LoginOp ''ann'' (Inr (replicate 16 7))), (30, VerifyOp ?rq (\<lambda>i. Inr i)), (106, VerifyOp ?rq (\<lambda>i. Inr i))]"
  have id: "getIDFromToken ?tok = ''ann''" by (rule token_id) simp
  then have ne: "?tok \<noteq> []" using no_token_no_id by auto
  have pres: "presented ?rq = ?tok"
    using presented_plain [OF token_no_space [of "replicate 16 7" "''ann''"]] ne by (simp add: presented_def)
  have "in_order ?evs" by (simp add: in_order_def)
  from giris2_refines_sessions [OF this, of ?j] show ?thesis
    by (simp add: session_step_def pres id wrap64_def signed_divide_int_def Let_def)
qed

end
