(* ===== verification/Environment.thy ===== *)
theory Environment
  imports Prelude
begin

text \<open>
  Environment files (\<open>env/env.go\<close>): the variables of the process, the files looked for in six directories and those
  that the caller names. \<open>godotenv.Load\<close> reads a file, if it can, into a map and sets the variables that are not set
  yet: this is its documented rule (\<open>it WILL NOT OVERRIDE an env variable that already exists\<close>).
\<close>

type_synonym env_vars = "string \<Rightarrow> string option"

text \<open>The files by path, each as the map that \<open>godotenv\<close> reads, or none if it does not parse; the parts of
  package \<open>filepath\<close>, and the directories that exist.\<close>

record env_files =
  ef_files :: "string \<Rightarrow> env_vars option option"
  ef_join :: "string \<Rightarrow> string \<Rightarrow> string"
  ef_dir :: "string \<Rightarrow> string"

definition GetEnv :: "env_vars \<Rightarrow> string \<Rightarrow> string \<Rightarrow> string" where
  "GetEnv vars key fallback = (case vars key of Some value \<Rightarrow> value | None \<Rightarrow> fallback)"

definition godotenv_Load :: "env_files \<Rightarrow> string \<Rightarrow> env_vars \<Rightarrow> env_vars" where
  "godotenv_Load F file vars = (case ef_files F file of
       Some (Some m) \<Rightarrow> m ++ vars
     | _ \<Rightarrow> vars)"

definition env_paths :: "env_files \<Rightarrow> string \<Rightarrow> string list" where
  "env_paths F rootDir =
     [''.'', ''../'', rootDir, ef_dir F rootDir, ef_join F rootDir ''etc'', ef_join F rootDir ''data'']"

text \<open>Also the directories that are made on the way.\<close>

definition LoadEnvironment :: "env_files \<Rightarrow> string \<Rightarrow> string list \<Rightarrow> env_vars \<times> string set \<Rightarrow> env_vars \<times> string set" where
  "LoadEnvironment F rootDir files s =
     (let s = fold (\<lambda>path (vars, dirs).
            let dirs = insert path dirs; ef = ef_join F path ''.env''
            in (if ef_files F ef \<noteq> None then godotenv_Load F ef vars else vars, dirs)) (env_paths F rootDir) s
      in fold (\<lambda>file (vars, dirs). (godotenv_Load F file vars, dirs)) files s)"

text \<open>What the first file of a list that can be read and names a variable says of it.\<close>

fun first_in :: "env_files \<Rightarrow> string list \<Rightarrow> string \<Rightarrow> string option" where
  "first_in F [] key = None"
| "first_in F (f # fs) key = (case Option.bind (Option.bind (ef_files F f) id) (\<lambda>m. m key) of
     Some v \<Rightarrow> Some v | None \<Rightarrow> first_in F fs key)"

lemma Load_first: "fold (godotenv_Load F) files vars key = (case vars key of Some v \<Rightarrow> Some v | None \<Rightarrow> first_in F files key)"
  by (induction files arbitrary: vars) (auto simp: godotenv_Load_def map_add_def split: option.split)

lemma Load_absent: "(if ef_files F f \<noteq> None then godotenv_Load F f vars else vars) = godotenv_Load F f vars"
  by (simp add: godotenv_Load_def)

lemma fold_dirs:
  "fold (\<lambda>path (vars, dirs). (godotenv_Load F (j path) vars, insert path dirs)) ps (v, d) =
   (fold (godotenv_Load F) (map j ps) v, set ps \<union> d)"
  by (induction ps arbitrary: v d) auto

lemma fold_files:
  "fold (\<lambda>file (vars, dirs). (godotenv_Load F file vars, dirs)) fs (v, d) = (fold (godotenv_Load F) fs v, d)"
  by (induction fs arbitrary: v) auto

text \<open>A variable has the value that the process was started with; without one, that of the first file that names it, the
  files of the directories before those of the caller; without one, the fallback. Loading again changes nothing.
  Every directory that was searched exists afterwards, whether it had a file or not.\<close>

theorem environment_order:
  "GetEnv (fst (LoadEnvironment F root files (vars, dirs))) key fallback =
     (case vars key of Some v \<Rightarrow> v
      | None \<Rightarrow> case first_in F (map (\<lambda>p. ef_join F p ''.env'') (env_paths F root) @ files) key of Some v \<Rightarrow> v | None \<Rightarrow> fallback) \<and>
   snd (LoadEnvironment F root files (vars, dirs)) = set (env_paths F root) \<union> dirs \<and>
   LoadEnvironment F root files (LoadEnvironment F root files (vars, dirs)) = LoadEnvironment F root files (vars, dirs)"
proof -
  let ?all = "map (\<lambda>p. ef_join F p ''.env'') (env_paths F root) @ files"
  have load: "LoadEnvironment F root files (v, d) = (fold (godotenv_Load F) ?all v, set (env_paths F root) \<union> d)" for v d
    by (simp only: LoadEnvironment_def Let_def Load_absent fold_dirs fold_files fold_append comp_def)
  have again: "fold (godotenv_Load F) ?all (fold (godotenv_Load F) ?all vars) = fold (godotenv_Load F) ?all vars"
    by (rule ext) (simp only: Load_first split: option.split, simp)
  show ?thesis
    unfolding load fst_conv snd_conv again GetEnv_def Load_first by (simp add: Un_assoc [symmetric] split: option.split)
qed

end
