(* ===== verification/Ecies.thy ===== *)
theory Ecies
  imports Aes_Cbc
begin

text \<open>
  Encryption with key pairs (\<open>crypto/ecies.go\<close>): texts and keys in hexadecimal around package \<open>eciesgo\<close>, whose keys and ciphers are
  arguments. The cipher draws random numbers, an argument of each encryption.
\<close>

record ('k, 'p, 'r) ecies_ext =
  ee_prv_hex :: "'k \<Rightarrow> string"
  ee_pub_hex :: "'p \<Rightarrow> string"
  ee_public :: "'k \<Rightarrow> 'p"
  ee_new_prv :: "string \<Rightarrow> (string, 'k) result"
  ee_new_pub :: "string \<Rightarrow> (string, 'p) result"
  ee_encrypt :: "'r \<Rightarrow> 'p \<Rightarrow> bytes \<Rightarrow> (string, bytes) result"
  ee_decrypt :: "'k \<Rightarrow> bytes \<Rightarrow> (string, bytes) result"

record EEKeyPair =
  PrivateKey :: string
  PublicKey :: string

definition hex_error :: string where "hex_error = ''encoding/hex''"

definition EE_Decrypt :: "('k, 'p, 'r) ecies_ext \<Rightarrow> string \<Rightarrow> string \<Rightarrow> (string, string) result" where
  "EE_Decrypt X hexValue privateKey = (case ee_new_prv X privateKey of
       Inl err \<Rightarrow> Inl err
     | Inr prv \<Rightarrow> (case hex_Decode (str_bytes hexValue) of
           Inl _ \<Rightarrow> Inl hex_error
         | Inr cipherBytes \<Rightarrow> (case ee_decrypt X prv cipherBytes of
               Inl err \<Rightarrow> Inl err
             | Inr plainBytes \<Rightarrow> Inr (bytes_str plainBytes))))"

definition EE_Encrypt :: "('k, 'p, 'r) ecies_ext \<Rightarrow> 'r \<Rightarrow> string \<Rightarrow> string \<Rightarrow> (string, string) result" where
  "EE_Encrypt X rand message publicKey = (case ee_new_pub X publicKey of
       Inl err \<Rightarrow> Inl err
     | Inr pub \<Rightarrow> (case ee_encrypt X rand pub (str_bytes message) of
           Inl err \<Rightarrow> Inl err
         | Inr cipherBytes \<Rightarrow> Inr (bytes_str (hex_Encode cipherBytes))))"

definition GenerateKeyPair :: "('k, 'p, 'r) ecies_ext \<Rightarrow> (string, 'k) result \<Rightarrow> (string, EEKeyPair) result" where
  "GenerateKeyPair X generated = (case generated of
       Inl err \<Rightarrow> Inl err
     | Inr k \<Rightarrow> Inr \<lparr>PrivateKey = strings_ToUpper (ee_prv_hex X k), PublicKey = strings_ToUpper (ee_pub_hex X (ee_public X k))\<rparr>)"

text \<open>Hexadecimal in either case is read back.\<close>

lemma hex_val_upper: "n < 16 \<Longrightarrow> hex_val (upper_byte (hex_digit n)) = Some n"
  by (auto simp: hex_val_def upper_byte_eq unat_hex_digit unat_byte_of_nat Let_def simp del: of_nat_add of_nat_diff)

lemma hex_Decode_upper: "hex_Decode (bytes_ToUpper (hex_Encode s)) = Inr s"
proof (induction s)
  case Nil
  then show ?case by (simp add: hex_Encode_def bytes_case_map)
next
  case (Cons b s)
  have "unat b div 16 < 16" "unat b mod 16 < 16" using unat_byte_less [of b] by auto
  with Cons show ?case by (simp add: hex_Encode_def bytes_case_map hex_val_upper)
qed

text \<open>What is encrypted with the public key of a generated pair is decrypted with its private key, also when somebody
  has turned the text into capitals, as the pair's own keys are. The package's part is that it reads
  its keys in capitals, and that its cipher has an inverse.\<close>

theorem EE_roundtrip:
  assumes prv: "\<And>k. ee_new_prv X (strings_ToUpper (ee_prv_hex X k)) = Inr k"
    and pub: "\<And>p. ee_new_pub X (strings_ToUpper (ee_pub_hex X p)) = Inr p"
    and inv: "\<And>r k m c. ee_encrypt X r (ee_public X k) m = Inr c \<Longrightarrow> ee_decrypt X k c = Inr m"
    and pair: "GenerateKeyPair X generated = Inr pair" and enc: "EE_Encrypt X rand message (PublicKey pair) = Inr h"
  shows "EE_Decrypt X h (PrivateKey pair) = Inr message \<and> EE_Decrypt X (strings_ToUpper h) (PrivateKey pair) = Inr message"
proof -
  obtain k where k: "generated = Inr k" using pair by (cases generated) (auto simp: GenerateKeyPair_def)
  with pair have keys: "PrivateKey pair = strings_ToUpper (ee_prv_hex X k)" "PublicKey pair = strings_ToUpper (ee_pub_hex X (ee_public X k))"
    by (auto simp: GenerateKeyPair_def)
  from enc obtain c where c: "ee_encrypt X rand (ee_public X k) (str_bytes message) = Inr c" "h = bytes_str (hex_Encode c)"
    unfolding keys by (auto simp: EE_Encrypt_def pub split: sum.splits)
  have "str_bytes (strings_ToUpper h) = bytes_ToUpper (hex_Encode c)"
    by (simp add: c(2) bytes_ToUpper_def)
  then show ?thesis using inv [OF c(1)] by (simp add: EE_Decrypt_def keys prv c(2) hex_Decode_Encode hex_Decode_upper)
qed

text \<open>A cipher of this kind, with texts for keys.\<close>

definition plain_ecies :: "(string, string, byte) ecies_ext" where
  "plain_ecies = \<lparr>ee_prv_hex = (\<lambda>k. bytes_str (hex_Encode (str_bytes k))), ee_pub_hex = (\<lambda>k. bytes_str (hex_Encode (str_bytes k))), ee_public = id,
     ee_new_prv = (\<lambda>h. case hex_Decode (str_bytes h) of Inl _ \<Rightarrow> Inl hex_error | Inr k \<Rightarrow> Inr (bytes_str k)),
     ee_new_pub = (\<lambda>h. case hex_Decode (str_bytes h) of Inl _ \<Rightarrow> Inl hex_error | Inr k \<Rightarrow> Inr (bytes_str k)),
     ee_encrypt = (\<lambda>r p m. Inr (r # m)), ee_decrypt = (\<lambda>k c. case c of [] \<Rightarrow> Inl ''short'' | _ # m \<Rightarrow> Inr m)\<rparr>"

theorem EE_roundtrip_witness:
  "\<exists>pair h. GenerateKeyPair plain_ecies (Inr ''k1'') = Inr pair \<and> EE_Encrypt plain_ecies 7 ''text'' (PublicKey pair) = Inr h \<and>
    EE_Decrypt plain_ecies h (PrivateKey pair) = Inr ''text''"
proof -
  have keys: "str_bytes (strings_ToUpper (bytes_str (hex_Encode (str_bytes k)))) = bytes_ToUpper (hex_Encode (str_bytes k))" for k
    by (simp add: bytes_ToUpper_def)
  have laws: "ee_new_prv plain_ecies (strings_ToUpper (ee_prv_hex plain_ecies k)) = Inr k"
    "ee_new_pub plain_ecies (strings_ToUpper (ee_pub_hex plain_ecies k)) = Inr k"
    "\<And>r m c. ee_encrypt plain_ecies r (ee_public plain_ecies k) m = Inr c \<Longrightarrow> ee_decrypt plain_ecies k c = Inr m" for k
    by (auto simp: plain_ecies_def keys hex_Decode_upper)
  obtain pair where p: "GenerateKeyPair plain_ecies (Inr ''k1'') = Inr pair" by (simp add: GenerateKeyPair_def)
  then have "EE_Encrypt plain_ecies 7 ''text'' (PublicKey pair) = Inr (bytes_str (hex_Encode (7 # str_bytes ''text'')))"
    using laws(2) [of "''k1''"] by (auto simp: EE_Encrypt_def GenerateKeyPair_def plain_ecies_def)
  moreover from this have "EE_Decrypt plain_ecies (bytes_str (hex_Encode (7 # str_bytes ''text''))) (PrivateKey pair) = Inr ''text''"
    by (intro conjunct1 [OF EE_roundtrip [OF laws(1,2) _ p]]) (rule laws(3))
  ultimately show ?thesis using p by blast
qed

end
