(* ===== verification/Rpc2_Register.thy ===== *)
theory Rpc2_Register
  imports Rpc2
begin

text \<open>
  Registration on the server of package \<open>j2rpc2\<close> (\<open>j2rpc2/server.go\<close>, \<open>j2rpc2/router.go\<close>) as a whole: functions, types,
  buses of types and middlewares, in any order, and what a request reaches afterwards. The arguments of
  \<open>RegisterFunc\<close> and \<open>RegisterType\<close> come in any order, a text being the name; what is not a function, or is
  nil, is passed over or panics, as the reflection of it has it.
\<close>

section \<open>The operations\<close>

text \<open>What can be given to be registered: nothing, a function with the name the runtime has for it, a nil of a type, which may have
  methods too, a value that has methods, by pointer or not.\<close>

datatype 'w reg_value =
    VNothing | VFunc "'w func_info" string | VNil "'w bean" | VPointer "'w bean" | VPlain "'w bean"

datatype 'w reg_arg = ArgName string | ArgValue "'w reg_value"

definition argsToNameInterface :: "'w reg_arg list \<Rightarrow> string \<times> 'w reg_value" where
  "argsToNameInterface args =
     fold (\<lambda>arg (name, bean). case arg of ArgName v \<Rightarrow> (v, bean) | ArgValue v \<Rightarrow> (name, v)) args ([], VNothing)"

text \<open>\<open>None\<close> is a panic: \<open>IsNil\<close> of nothing or of a value that cannot be nil, the type of a nil pointer's target, and
  the first letter of a name that a type does not have.\<close>

definition RegisterFunc :: "'w reg_arg list \<Rightarrow> 'w server2 \<Rightarrow> 'w server2 option" where
  "RegisterFunc args s = (let (name, fn) = argsToNameInterface args in case fn of
       VNothing \<Rightarrow> None
     | VPlain _ \<Rightarrow> None
     | VNil _ \<Rightarrow> Some s
     | VPointer _ \<Rightarrow> Some s
     | VFunc f qualified \<Rightarrow> Some (registerFunc f qualified name s))"

definition register_bean :: "'w bean \<Rightarrow> string \<Rightarrow> 'w server2 \<Rightarrow> 'w server2 option" where
  "register_bean b name s = (if name = [] \<and> bn_type_name b = [] then None else Some (registerType b name s))"

definition RegisterType :: "'w reg_arg list \<Rightarrow> 'w server2 \<Rightarrow> 'w server2 option" where
  "RegisterType args s = (let (name, val) = argsToNameInterface args in case val of
       VNothing \<Rightarrow> Some s
     | VNil b \<Rightarrow> (if name = [] then None else Some (registerType b name s))
     | VFunc _ _ \<Rightarrow> (if name = [] then None else Some s)
     | VPointer b \<Rightarrow> register_bean b name s
     | VPlain b \<Rightarrow> register_bean b name s)"

text \<open>\<open>RegisterTypeBus\<close> walks over the visible fields of the bus, which are those of embedded structs too, each with its
  tag and whether it is exported, and takes the value of the direct field with the same index: what it is
  as an argument, whether it can be read, and whether it can be set and is a pointer, of which a nil
  one is filled. There is a visible field for every direct one; an index past the direct ones is a panic.\<close>

record 'w bus_field =
  bf_arg :: "'w reg_arg"
  bf_interface :: bool
  bf_settable :: bool

definition bus_arg :: "'w bus_field \<Rightarrow> 'w reg_arg" where
  "bus_arg f = (case bf_arg f of
       ArgValue (VNil b) \<Rightarrow> if bf_settable f then ArgValue (VPointer b) else ArgValue (VNil b)
     | a \<Rightarrow> a)"

definition bus_skipped :: "string \<times> bool \<Rightarrow> 'w bus_field \<Rightarrow> bool" where
  "bus_skipped v f \<longleftrightarrow> \<not> snd v \<or> \<not> bf_interface f \<or> strings_TrimSpace (fst v) = ''-''"

definition bus_args :: "string \<times> bool \<Rightarrow> 'w bus_field \<Rightarrow> 'w reg_arg list" where
  "bus_args v f = [bus_arg f, ArgName (tag_name (strings_TrimSpace (fst v)))]"

fun RegisterTypeBus :: "(string \<times> bool) list \<Rightarrow> 'w bus_field list \<Rightarrow> 'w server2 \<Rightarrow> 'w server2 option" where
  "RegisterTypeBus [] fs s = Some s"
| "RegisterTypeBus (v # vs) [] s = None"
| "RegisterTypeBus (v # vs) (f # fs) s =
     (if bus_skipped v f then RegisterTypeBus vs fs s
      else Option.bind (RegisterType (bus_args v f) s) (RegisterTypeBus vs fs))"

text \<open>A server in use by the program that sets it up.\<close>

datatype 'w reg_op =
    OpFunc "'w reg_arg list" | OpType "'w reg_arg list" | OpBus "(string \<times> bool) list" "'w bus_field list" | OpUse string "'w rhandler list"

fun reg_step :: "'w reg_op \<Rightarrow> 'w server2 \<Rightarrow> 'w server2 option" where
  "reg_step (OpFunc args) s = RegisterFunc args s"
| "reg_step (OpType args) s = RegisterType args s"
| "reg_step (OpBus vs fs) s = RegisterTypeBus vs fs s"
| "reg_step (OpUse path hs) s = Some (server2_Use path hs s)"

fun reg_run :: "'w reg_op list \<Rightarrow> 'w server2 \<Rightarrow> 'w server2 option" where
  "reg_run [] s = Some s"
| "reg_run (op # ops) s = Option.bind (reg_step op s) (reg_run ops)"

section \<open>What was asked for\<close>

text \<open>The names that the operations claim for functions, and the middlewares they add, in order.\<close>

datatype 'w reg_event = Claim string "'w func_info" | Mid string "'w rhandler list"

definition func_claim :: "'w func_info \<Rightarrow> string \<Rightarrow> string \<Rightarrow> 'w reg_event" where
  "func_claim f qualified name =
     (let n = (if name = [] then MethodNameProvider (last (split_on qualified ''.'')) else name)
      in Claim n (f\<lparr>fi_name := n, fi_is_type := False\<rparr>))"

definition type_claims :: "'w bean \<Rightarrow> string \<Rightarrow> 'w reg_event list" where
  "type_claims b name =
     (let t = MethodNameProvider (if name = [] then bn_type_name b else name);
          t = (case bn_rpc_type_name b of None \<Rightarrow> t | Some n \<Rightarrow> n);
          n = (\<lambda>m. case bn_method_name b of None \<Rightarrow> t @ ''.'' @ MethodNameProvider m | Some f \<Rightarrow> f m)
      in map (\<lambda>m. Claim (n (fi_name m)) (m\<lparr>fi_name := n (fi_name m), fi_is_type := True\<rparr>)) (bn_methods b))"

definition type_events :: "'w reg_arg list \<Rightarrow> 'w reg_event list" where
  "type_events args = (case argsToNameInterface args of
     (name, VNil b) \<Rightarrow> type_claims b name | (name, VPointer b) \<Rightarrow> type_claims b name | (name, VPlain b) \<Rightarrow> type_claims b name | _ \<Rightarrow> [])"

fun reg_events :: "'w reg_op \<Rightarrow> 'w reg_event list" where
  "reg_events (OpFunc args) = (case argsToNameInterface args of
     (name, VFunc f q) \<Rightarrow> [func_claim f q name] | _ \<Rightarrow> [])"
| "reg_events (OpType args) = type_events args"
| "reg_events (OpBus vs fs) = concat (map (\<lambda>(v, f). if bus_skipped v f then [] else type_events (bus_args v f)) (zip vs fs))"
| "reg_events (OpUse path hs) = [Mid path hs]"

definition all_events :: "'w reg_op list \<Rightarrow> 'w reg_event list" where
  "all_events ops = concat (map reg_events ops)"

text \<open>The function that was the first to claim a name.\<close>

definition first_claim :: "'w reg_event list \<Rightarrow> string \<Rightarrow> 'w func_info option" where
  "first_claim evs = map_of (concat (map (\<lambda>ev. case ev of Claim n f \<Rightarrow> [(n, f)] | Mid _ _ \<Rightarrow> []) evs))"

text \<open>What each event adds to the group of a path; a claim of a name that was claimed adds nothing.\<close>

fun additions :: "string set \<Rightarrow> 'w reg_event list \<Rightarrow> string \<Rightarrow> 'w rhandler list list" where
  "additions seen [] p = []"
| "additions seen (Mid q hs # evs) p = (if q = p then [hs] else []) @ additions seen evs p"
| "additions seen (Claim n f # evs) p = (if n = p \<and> n \<notin> seen then [[HCall f]] else []) @ additions (insert n seen) evs p"

section \<open>The groups of a server\<close>

fun apply_event :: "'w reg_event \<Rightarrow> 'w server2 \<Rightarrow> 'w server2" where
  "apply_event (Mid path hs) s = server2_Use path hs s"
| "apply_event (Claim n f) s = (if n \<in> s2_funcs s then s else server2_Use n [HCall f] (s\<lparr>s2_funcs := insert n (s2_funcs s)\<rparr>))"

lemma registerFunc_event: "registerFunc f q name s = apply_event (func_claim f q name) s"
  by (simp add: registerFunc_def func_claim_def Let_def)

lemma register_methods_events:
  "register_methods n ms s = fold apply_event (map (\<lambda>m. Claim (n (fi_name m)) (m\<lparr>fi_name := n (fi_name m), fi_is_type := True\<rparr>)) ms) s"
  by (induction ms arbitrary: s) (simp_all add: Let_def)

lemma registerType_events: "registerType b name s = fold apply_event (type_claims b name) s"
  by (simp add: registerType_def type_claims_def register_methods_events Let_def)

lemma type_step: "RegisterType args s = Some s' \<Longrightarrow> s' = fold apply_event (type_events args) s"
  by (auto simp: RegisterType_def type_events_def register_bean_def registerType_events split: prod.splits reg_value.splits if_splits)

lemma bus_events: "RegisterTypeBus vs fs s = Some s' \<Longrightarrow> s' = fold apply_event (reg_events (OpBus vs fs)) s"
proof (induction vs fs s rule: RegisterTypeBus.induct)
  case (3 v vs f fs s)
  show ?case
  proof (cases "bus_skipped v f")
    case False
    with 3(3) obtain a where a: "RegisterType (bus_args v f) s = Some a" "RegisterTypeBus vs fs a = Some s'"
      by (auto simp: bind_eq_Some_conv)
    with False 3(2) [OF False a(1)] type_step [OF a(1)] show ?thesis by simp
  qed (use 3 in simp)
qed simp_all

lemma step_events: "reg_step op s = Some s' \<Longrightarrow> s' = fold apply_event (reg_events op) s"
proof (cases op)
  case (OpFunc args)
  then show "reg_step op s = Some s' \<Longrightarrow> ?thesis"
    by (auto simp: RegisterFunc_def registerFunc_event split: prod.splits reg_value.splits)
next
  case (OpBus vs fs)
  then show "reg_step op s = Some s' \<Longrightarrow> ?thesis" using bus_events [of vs fs s s'] by simp
qed (auto dest: type_step)

text \<open>A struct embedded in the bus makes the visible fields outnumber the direct ones, and the registration panics.\<close>

lemma embedded_bus_panics: "length fs < length vs \<Longrightarrow> RegisterTypeBus vs fs s = None"
proof (induction vs fs s rule: RegisterTypeBus.induct)
  case (3 v vs f fs s)
  then show ?case by (cases "RegisterType (bus_args v f) s") auto
qed simp_all

lemma run_events: "reg_run ops s = Some s' \<Longrightarrow> s' = fold apply_event (all_events ops) s"
proof (induction ops arbitrary: s)
  case (Cons op ops)
  then obtain s1 where "reg_step op s = Some s1" "reg_run ops s1 = Some s'" by (auto simp: bind_eq_Some_conv)
  with Cons.IH step_events [of op s s1] show ?case by (simp add: all_events_def)
qed (simp add: all_events_def)

lemma Use_parts [simp]: "s2_funcs (server2_Use path hs s) = s2_funcs s" "s2_option (server2_Use path hs s) = s2_option s"
  "s2_types (server2_Use path hs s) = s2_types s"
  by (simp_all add: server2_Use_def getOrNewGroup_def split: option.split)

lemma events_parts: "s2_option (fold apply_event evs s) = s2_option s" "s2_types (fold apply_event evs s) = s2_types s"
proof -
  have "s2_option (apply_event ev s) = s2_option s \<and> s2_types (apply_event ev s) = s2_types s" for ev and s :: "'a server2"
    by (cases ev) simp_all
  then show "s2_option (fold apply_event evs s) = s2_option s" "s2_types (fold apply_event evs s) = s2_types s"
    by (induction evs arbitrary: s) simp_all
qed

definition group_with :: "'w rhandler list option \<Rightarrow> 'w rhandler list list \<Rightarrow> 'w rhandler list option" where
  "group_with g hss = (if hss = [] then g else Some ((case g of None \<Rightarrow> [] | Some hs \<Rightarrow> hs) @ concat hss))"

lemma group_with_more: "group_with (group_with g hss) hss' = group_with g (hss @ hss')" "group_with g [] = g"
  by (simp_all add: group_with_def)

lemma Use_with: "map_of (s2_groups (server2_Use path hs s)) p = group_with (map_of (s2_groups s) p) (if path = p then [hs] else [])"
  using Use_group(1) [where path = path and hs = hs and s = s] Use_group(2) [of p path hs s] by (auto simp: group_with_def split: option.split)

lemma events_groups: "map_of (s2_groups (fold apply_event evs s)) p = group_with (map_of (s2_groups s) p) (additions (s2_funcs s) evs p)"
proof (induction evs arbitrary: s)
  case (Cons ev evs)
  show ?case
  proof (cases ev)
    case (Mid path hs)
    then show ?thesis using Cons.IH [of "apply_event ev s"] by (simp add: Use_with group_with_more)
  next
    case (Claim n f)
    then show ?thesis
      using Cons.IH [of "apply_event ev s"] by (cases "n \<in> s2_funcs s") (auto simp: Use_with group_with_more insert_absorb)
  qed
qed (simp add: group_with_more)

lemma claims_only:
  assumes "\<forall>hs. Mid p hs \<notin> set evs"
  shows "additions seen evs p = (if p \<in> seen then [] else case first_claim evs p of None \<Rightarrow> [] | Some f \<Rightarrow> [[HCall f]])"
  using assms
proof (induction evs arbitrary: seen)
  case (Cons ev evs)
  then show ?case by (cases ev) (auto simp: first_claim_def split: option.split)
qed (simp add: first_claim_def)

lemma new_groups: "map_of (s2_groups (NewServer env opt)) p = (if p = [] then Some [HReadBody] else None)"
  "s2_funcs (NewServer env opt) = {}" "s2_option (NewServer env opt) = opt" "s2_types (NewServer env opt) = env"
  by (simp_all add: NewServer_def server2_Use_def getOrNewGroup_def)

section \<open>From registration to the call\<close>

text \<open>The names that the operations claim or put middlewares under.\<close>

definition names_of :: "'w reg_event list \<Rightarrow> string set" where
  "names_of evs = (\<lambda>ev. case ev of Claim n _ \<Rightarrow> n | Mid p _ \<Rightarrow> p) ` set evs"

lemma additions_names: "p \<notin> names_of evs \<Longrightarrow> additions seen evs p = []"
proof (induction evs arbitrary: seen)
  case (Cons ev evs)
  then show ?case by (cases ev) (auto simp: names_of_def)
qed simp

lemma registered_groups:
  assumes "reg_run ops (NewServer env opt) = Some s"
  shows "map_of (s2_groups s) p = group_with (if p = [] then Some [HReadBody] else None) (additions {} (all_events ops) p)"
    "s2_option s = opt" "s2_types s = env"
  using run_events [OF assms] by (simp_all add: events_groups events_parts new_groups)

lemma group_handlers:
  assumes "reg_run ops (NewServer env opt) = Some s" "key \<noteq> []"
  shows "map_of (s2_groups s) key = (let hss = additions {} (all_events ops) key in if hss = [] then None else Some (concat hss))"
  using registered_groups(1) [OF assms(1), of key] assms(2) by (simp add: group_with_def Let_def)

text \<open>Nobody but \<open>NewServer\<close> has the handler that reads the body.\<close>

definition mids_ok :: "'w reg_event list \<Rightarrow> bool" where
  "mids_ok evs \<longleftrightarrow> (\<forall>p hs. Mid p hs \<in> set evs \<longrightarrow> no_read hs)"

lemma Use_no_read:
  "\<forall>(q, gs) \<in> set (s2_groups s). q \<noteq> [] \<longrightarrow> no_read gs \<Longrightarrow> no_read hs \<Longrightarrow>
   \<forall>(q, gs) \<in> set (s2_groups (server2_Use p hs s)). q \<noteq> [] \<longrightarrow> no_read gs"
  by (fastforce simp: server2_Use_def getOrNewGroup_def no_read_def split: option.splits if_splits)

lemma events_no_read:
  "mids_ok evs \<Longrightarrow> \<forall>(q, gs) \<in> set (s2_groups s). q \<noteq> [] \<longrightarrow> no_read gs \<Longrightarrow>
   \<forall>(q, gs) \<in> set (s2_groups (fold apply_event evs s)). q \<noteq> [] \<longrightarrow> no_read gs"
proof (induction evs arbitrary: s)
  case (Cons ev evs)
  have c: "no_read [HCall f]" for f :: "'a func_info" by (simp add: no_read_def)
  from Cons.prems(1) have evs: "mids_ok evs" by (auto simp: mids_ok_def)
  have "\<forall>(q, gs) \<in> set (s2_groups (apply_event ev s)). q \<noteq> [] \<longrightarrow> no_read gs"
  proof (cases ev)
    case (Mid p hs)
    with Cons.prems(1) have "no_read hs" by (auto simp: mids_ok_def)
    with Mid Use_no_read [OF Cons.prems(2)] show ?thesis by simp
  next
    case (Claim n f)
    with Use_no_read [where s = "s\<lparr>s2_funcs := insert n (s2_funcs s)\<rparr>", OF _ c] Cons.prems(2) show ?thesis by simp
  qed
  with Cons.IH [OF evs] show ?case by simp
qed simp

lemma additions_no_read: "mids_ok evs \<Longrightarrow> no_read (concat (additions seen evs p))"
proof (induction evs arbitrary: seen)
  case (Cons ev evs)
  then have "mids_ok evs" by (auto simp: mids_ok_def)
  with Cons show ?case by (cases ev) (auto simp: mids_ok_def no_read_def)
qed (simp add: no_read_def)

text \<open>The middlewares put under a name, in order; and where its function stands among them.\<close>

definition mids_of :: "'w reg_event list \<Rightarrow> string \<Rightarrow> 'w rhandler list list" where
  "mids_of evs p = concat (map (\<lambda>ev. case ev of Mid q hs \<Rightarrow> if q = p then [hs] else [] | Claim _ _ \<Rightarrow> []) evs)"

lemma additions_seen: "p \<in> seen \<Longrightarrow> additions seen evs p = mids_of evs p"
proof (induction evs arbitrary: seen)
  case (Cons ev evs)
  then show ?case by (cases ev) (simp_all add: mids_of_def)
qed (simp add: mids_of_def)

lemma additions_split: "p \<notin> seen \<Longrightarrow>
  (case first_claim evs p of
     None \<Rightarrow> additions seen evs p = mids_of evs p
   | Some f \<Rightarrow> \<exists>before after. additions seen evs p = before @ [HCall f] # after \<and> before @ after = mids_of evs p)"
proof (induction evs arbitrary: seen)
  case (Cons ev evs)
  show ?case
  proof (cases ev)
    case (Mid q hs)
    have m: "mids_of (ev # evs) p = (if q = p then [hs] else []) @ mids_of evs p" by (simp add: Mid mids_of_def)
    have f: "first_claim (ev # evs) p = first_claim evs p" by (simp add: Mid first_claim_def)
    show ?thesis
    proof (cases "first_claim evs p")
      case None
      with Cons.IH [OF Cons.prems] show ?thesis unfolding f m by (simp add: Mid)
    next
      case (Some g)
      with Cons.IH [OF Cons.prems] obtain before after where
        "additions seen evs p = before @ [HCall g] # after" "before @ after = mids_of evs p" by auto
      then have "additions seen (ev # evs) p = ((if q = p then [hs] else []) @ before) @ [HCall g] # after"
        "((if q = p then [hs] else []) @ before) @ after = (if q = p then [hs] else []) @ mids_of evs p" by (simp_all add: Mid)
      then show ?thesis unfolding f m Some option.case by blast
    qed
  next
    case (Claim n g)
    have m: "mids_of (ev # evs) p = mids_of evs p" by (simp add: Claim mids_of_def)
    show ?thesis
    proof (cases "n = p")
      case True
      then have fc: "first_claim (ev # evs) p = Some g" by (simp add: Claim first_claim_def)
      have "additions seen (ev # evs) p = [] @ [HCall g] # mids_of evs p"
        using True Cons.prems by (simp add: Claim additions_seen)
      then show ?thesis unfolding m fc option.case by (intro exI [of _ "[]"] exI [of _ "mids_of evs p"] conjI) simp_all
    next
      case False
      then have fc: "first_claim (ev # evs) p = first_claim evs p" by (simp add: Claim first_claim_def)
      have a: "additions seen (ev # evs) p = additions (insert n seen) evs p" using False by (simp add: Claim)
      show ?thesis unfolding m fc a using Cons.IH [of "insert n seen"] Cons.prems False by simp
    qed
  qed
qed (simp add: first_claim_def mids_of_def)

lemma filter_groups: "concat (map (\<lambda>k. if P k then g k else []) ks) = concat (map g (filter P ks))"
  by (induction ks) auto

text \<open>The handlers of the groups above a method, whose names are its first parts, in the order of the walk.\<close>

definition handlers_above :: "'w reg_event list \<Rightarrow> string list \<Rightarrow> string \<Rightarrow> 'w rhandler list" where
  "handlers_above evs order meth =
     concat (map (\<lambda>key. concat (additions {} evs key)) (filter (\<lambda>key. key \<noteq> [] \<and> strings_HasPrefix meth (key @ ''.'')) order))"

lemma registered_handlers:
  assumes "reg_run ops (NewServer env opt) = Some s" "meth \<noteq> []"
  shows "method_handlers s order meth = (let own = additions {} (all_events ops) meth in
    if own = [] then None else Some (handlers_above (all_events ops) order meth @ concat own))"
proof -
  let ?P = "\<lambda>key. key \<noteq> [] \<and> meth \<noteq> key \<and> strings_HasPrefix meth (key @ ''.'')"
  have "(if ?P key then (case map_of (s2_groups s) key of None \<Rightarrow> [] | Some hs \<Rightarrow> hs) else []) =
      (if ?P key then concat (additions {} (all_events ops) key) else [])" for key
    using group_handlers [OF assms(1), of key] by (auto simp: Let_def)
  moreover have "?P = (\<lambda>key. key \<noteq> [] \<and> strings_HasPrefix meth (key @ ''.''))"
    by (auto simp: HasPrefix_iff fun_eq_iff)
  ultimately show ?thesis
    using group_handlers [OF assms]
    by (simp add: method_handlers_def handlers_above_def filter_groups Let_def del: if_split)
qed

text \<open>C16: Registration and dispatch. After any sequence of registrations of functions, types and buses and of middlewares under
  any names, on a new server, a readable request for a method goes, after the body is read, through exactly these
  handlers, in this order: the middlewares under the empty name; those of the groups whose names are first parts of the
  method's (in the order in which the map of groups is walked); and what was put under the method's own name, as it
  was put there, that is its middlewares and, at the place where it was registered first, the first function that
  claimed the name, whatever claimed it later. When nothing was put under the name, the request is answered by the
  error for an unknown method, and only the middlewares under the empty name follow. The chain is run to its end: more
  steps change nothing.\<close>

theorem registered_chain:
  assumes "reg_run ops (NewServer env opt) = Some s" and "reads_to E opt r body msg"
    and "strings_TrimSpace (m_method msg) = meth" and "mids_ok (all_events ops)"
  shows "let evs = all_events ops; own = additions {} evs meth; d = request_data E world w body msg;
      ctx = (newRpcContext world order w r)\<lparr>r_hid := 1,
        r_handlers := HReadBody # concat (additions {} evs []) @ (if own = [] then [] else handlers_above evs order meth @ concat own),
        r_data := (if own = [] then WriteResponse E opt [WErr (RpcErr (NewError ErrNoMethod ''wrong method'' []))] d else d)\<rparr>
    in (\<exists>k. \<forall>n. rpc_Next E s (k + n) ctx = ServeHTTP2 E s world order w r) \<and>
      (case first_claim evs meth of
         None \<Rightarrow> own = mids_of evs meth
       | Some f \<Rightarrow> \<exists>before after. own = before @ [HCall f] # after \<and> before @ after = mids_of evs meth)"
proof -
  let ?evs = "all_events ops" let ?own = "additions {} ?evs meth" let ?glob = "concat (additions {} ?evs [])"
  let ?d = "request_data E world w body msg" let ?x = "newRpcContext world order w r"
  let ?ctx = "?x\<lparr>r_hid := 1,
        r_handlers := HReadBody # ?glob @ (if ?own = [] then [] else handlers_above ?evs order meth @ concat ?own),
        r_data := (if ?own = [] then WriteResponse E opt [WErr (RpcErr (NewError ErrNoMethod ''wrong method'' []))] ?d else ?d)\<rparr>"
  note g = registered_groups [OF assms(1)]
  have meth: "meth \<noteq> []" using assms(2,3) by (simp add: reads_to_def)
  have root: "map_of (s2_groups s) [] = Some (HReadBody # ?glob)" by (simp add: g(1) group_with_def)
  have "\<forall>(p, hs) \<in> set (s2_groups s). p \<noteq> [] \<longrightarrow> no_read hs"
    unfolding run_events [OF assms(1)] by (rule events_no_read [OF assms(4)]) (simp add: NewServer_def server2_Use_def getOrNewGroup_def)
  from rpc2_chain_enough [OF root additions_no_read [OF assms(4)] this]
  have enough: "rpc_Next E s (chain_bound s order + n) (rpcContext_AddHandler (HReadBody # ?glob) ?x) = ServeHTTP2 E s world order w r" for n .
  have "handleReadBody E s (?x\<lparr>r_handlers := HReadBody # ?glob, r_hid := 1\<rparr>) = ?ctx"
    using ReadBody_ok [OF assms(2), of "r_data ?x"] registered_handlers [OF assms(1) meth, of order] assms(3)
    by (simp add: handleReadBody_def newRpcContext_def request_data_def ctx_defs g(2)
        rpcContext_Msg_def rpcContext_AddHandler_def Let_def fun_upd_twist)
  then have "rpc_Next E s (Suc k) (rpcContext_AddHandler (HReadBody # ?glob) ?x) = rpc_Next E s k ?ctx" for k
    by (simp add: rpcContext_AddHandler_def newRpcContext_def Let_def)
  with enough have "\<forall>n. rpc_Next E s (chain_bound s order - 1 + n) ?ctx = ServeHTTP2 E s world order w r"
    by (simp add: chain_bound_def)
  with additions_split [of meth "{}" ?evs] show ?thesis unfolding Let_def by blast
qed

text \<open>With middlewares under names apart from the request's only, the function alone runs.\<close>

lemma registered_first_served:
  assumes "reg_run ops (NewServer env opt) = Some s" and "reads_to E opt r body msg"
    and "strings_TrimSpace (m_method msg) = meth" and "\<forall>hs. Mid meth hs \<notin> set (all_events ops) \<and> Mid [] hs \<notin> set (all_events ops)"
    and "first_claim (all_events ops) [] = None"
    and "\<forall>n \<in> names_of (all_events ops). n = [] \<or> \<not> strings_HasPrefix meth (n @ ''.'')" and "set order = dom (map_of (s2_groups s))"
  shows "let d = request_data E world w body msg; res = ServeHTTP2 E s world order w r in
    case first_claim (all_events ops) meth of
      Some f \<Rightarrow> (r_data (fst res), snd res) = callFunc E env opt f d
    | None \<Rightarrow> r_data (fst res) = WriteResponse E opt [WErr (RpcErr (NewError ErrNoMethod ''wrong method'' []))] d"
proof -
  let ?evs = "all_events ops"
  note g = registered_groups [OF assms(1)]
  have meth: "meth \<noteq> []" using assms(2,3) by (simp add: reads_to_def)
  have root: "map_of (s2_groups s) [] = Some [HReadBody]"
    using assms(4,5) by (simp add: g(1) claims_only group_with_more)
  have mine: "map_of (s2_groups s) meth = map_option (\<lambda>f. [HCall f]) (first_claim ?evs meth)"
    using assms(4) meth by (simp add: g(1) claims_only group_with_def split: option.split)
  have "key = [] \<or> key \<in> names_of ?evs" if "key \<in> set order" for key
    using that additions_names [of key ?evs "{}"] unfolding assms(7)
    by (auto simp: dom_def g(1) group_with_def split: if_splits)
  then have plain: "\<forall>key \<in> set order. key \<noteq> [] \<and> strings_TrimSpace (m_method msg) \<noteq> key
      \<longrightarrow> \<not> strings_HasPrefix (strings_TrimSpace (m_method msg)) (key @ ''.'')"
    using assms(3,6) by blast
  have reads: "reads_to E (s2_option s) r body msg" using assms(2) by (simp only: g(2))
  show ?thesis
  proof (cases "first_claim ?evs meth")
    case None
    then show ?thesis using ServeHTTP2_outcome(2) [OF reads root plain, of world w] mine by (simp add: assms(3) g(2) Let_def)
  next
    case (Some f)
    then show ?thesis using ServeHTTP2_outcome(1) [OF reads root plain, of f world w] mine by (simp add: assms(3) g(2,3) Let_def)
  qed
qed

definition demo_func :: "nat \<Rightarrow> nat func_info" where
  "demo_func n = \<lparr>fi_name = [], fi_is_type = False, fi_args = [], fi_outs = [GNamed ''int''],
     fi_fn = (\<lambda>d _. (d\<lparr>rd_world := n\<rparr>, Returned [RVal False (Inr (JNum ''1''))]))\<rparr>"

definition demo_bean :: "nat bean" where
  "demo_bean = \<lparr>bn_type_name = ''User'', bn_rpc_type_name = None, bn_method_name = None, bn_methods = [(demo_func 2)\<lparr>fi_name := ''Get''\<rparr>]\<rparr>"

definition demo_types :: type_env where
  "demo_types = \<lparr>te_error = (\<lambda>t. t = GNamed ''error''), te_context = (\<lambda>_. False)\<rparr>"

text \<open>A middleware for every request, one for a type, the type, by a bus, and a function that claims the name of the type's
  method later: the two middlewares and the type's method are the chain.\<close>

definition demo_bus :: "nat bus_field" where
  "demo_bus = \<lparr>bf_arg = ArgValue (VNil demo_bean), bf_interface = True, bf_settable = True\<rparr>"

definition demo_ops :: "nat reg_op list" where
  "demo_ops = [OpUse [] [HUser [UNext]], OpUse ''user'' [HUser [UData (\<lambda>d. d)]], OpBus [('' name:user,x:1 '', True)] [demo_bus],
     OpFunc [ArgValue (VFunc (demo_func 5) ''main.f''), ArgName ''user.get'']]"

theorem registered_chain_witness:
  "\<exists>s k. reg_run demo_ops (NewServer demo_types demo_opt) = Some s \<and>
    rpc_Next (demo_ext2 (JObj [(''id'', JNum ''7''), (''method'', JStr ''user.get'')])) s k
      ((newRpcContext 0 [[], ''user'', ''user.get''] new_writer demo_request2)\<lparr>r_hid := 1,
        r_handlers := [HReadBody, HUser [UNext], HUser [UData (\<lambda>d. d)], HCall ((demo_func 2)\<lparr>fi_name := ''user.get'', fi_is_type := True\<rparr>)],
        r_data := request_data (demo_ext2 (JObj [(''id'', JNum ''7''), (''method'', JStr ''user.get'')])) 0 new_writer [123, 125]
          (no_message\<lparr>m_id := Some (JNum ''7''), m_method := ''user.get''\<rparr>)\<rparr>) =
    ServeHTTP2 (demo_ext2 (JObj [(''id'', JNum ''7''), (''method'', JStr ''user.get'')])) s 0 [[], ''user'', ''user.get''] new_writer demo_request2"
proof -
  let ?msg = "no_message\<lparr>m_id := Some (JNum ''7''), m_method := ''user.get''\<rparr>"
  let ?f = "(demo_func 2)\<lparr>fi_name := ''user.get'', fi_is_type := True\<rparr>"
  have lower: "MethodNameProvider ''user'' = ''user''" "MethodNameProvider ''Get'' = ''get''" by code_simp+
  have tag: "tag_name (strings_TrimSpace '' name:user,x:1 '') = ''user''" "strings_TrimSpace '' name:user,x:1 '' \<noteq> ''-''" by code_simp+
  have args: "bus_args ('' name:user,x:1 '', True) demo_bus = [ArgValue (VPointer demo_bean), ArgName ''user'']"
    "\<not> bus_skipped ('' name:user,x:1 '', True) demo_bus"
    using tag by (simp_all add: bus_args_def bus_arg_def bus_skipped_def demo_bus_def)
  obtain s where s: "reg_run demo_ops (NewServer demo_types demo_opt) = Some s"
    by (simp add: demo_ops_def args RegisterType_def RegisterFunc_def argsToNameInterface_def register_bean_def demo_bean_def)
  have evs: "all_events demo_ops = [Mid [] [HUser [UNext]], Mid ''user'' [HUser [UData (\<lambda>d. d)]], Claim ''user.get'' ?f,
      Claim ''user.get'' ((demo_func 5)\<lparr>fi_name := ''user.get''\<rparr>)]"
    by (simp add: all_events_def demo_ops_def args type_events_def argsToNameInterface_def type_claims_def func_claim_def demo_bean_def lower Let_def)
      (simp add: demo_func_def)
  have t: "strings_TrimSpace ''user.get'' = ''user.get''" by (simp add: strings_TrimSpace_def is_space_def)
  note reads = demo_reads [OF t, simplified]
  have ok: "mids_ok (all_events demo_ops)" by (auto simp: evs mids_ok_def no_read_def)
  have above: "handlers_above (all_events demo_ops) [[], ''user'', ''user.get''] ''user.get'' = [HUser [UData (\<lambda>d. d)]]"
    by (simp add: handlers_above_def evs strings_HasPrefix_def)
  have adds: "additions {} (all_events demo_ops) [] = [[HUser [UNext]]]" "additions {} (all_events demo_ops) ''user.get'' = [[HCall ?f]]"
    by (simp_all add: evs)
  have m: "strings_TrimSpace (m_method ?msg) = ''user.get''" by (simp add: t)
  from registered_chain [OF s reads m ok, of 0 new_writer "[[], ''user'', ''user.get'']"]
  obtain k where "\<forall>n. rpc_Next (demo_ext2 (JObj [(''id'', JNum ''7''), (''method'', JStr ''user.get'')])) s (k + n)
      ((newRpcContext 0 [[], ''user'', ''user.get''] new_writer demo_request2)\<lparr>r_hid := 1,
        r_handlers := [HReadBody, HUser [UNext], HUser [UData (\<lambda>d. d)], HCall ?f],
        r_data := request_data (demo_ext2 (JObj [(''id'', JNum ''7''), (''method'', JStr ''user.get'')])) 0 new_writer [123, 125] ?msg\<rparr>) =
      ServeHTTP2 (demo_ext2 (JObj [(''id'', JNum ''7''), (''method'', JStr ''user.get'')])) s 0 [[], ''user'', ''user.get''] new_writer demo_request2"
    unfolding above Let_def adds by (auto simp del: One_nat_def)
  from this [rule_format, of 0] s show ?thesis by auto
qed

section \<open>A name that is the first part of another\<close>

text \<open>The groups above a method are meant for middlewares, but a registered function is a group too: a function under the
  name of a type answers every request for the type's methods, and they do not run.\<close>

lemma call_writes: "callFunc E env opt f d = (d', None) \<Longrightarrow> rd_wrote d'"
  by (auto simp: callFunc_def WriteResponse_def ctx_defs Let_def split: if_splits sum.splits prod.splits outcome.splits option.splits)

lemma function_answers_for_type:
  assumes "reads_to E (s2_option s) r body msg" "strings_TrimSpace (m_method msg) = meth" "meth = t @ ''.'' @ m"
    and "map_of (s2_groups s) [] = Some [HReadBody]" "map_of (s2_groups s) meth = Some [HCall g]"
    and "map_of (s2_groups s) t = Some [HCall f]" "t \<noteq> []"
    and "callFunc E (s2_types s) (s2_option s) f (request_data E world w body msg) = (d', None)"
    and "r_data (fst (ServeHTTP2 E s world [t, meth, []] w r)) = d"
  shows "d = d'"
proof -
  let ?o = "[t, meth, []]"
  have "strings_HasPrefix meth (t @ ''.'')" "meth \<noteq> t" by (simp_all add: HasPrefix_iff assms(3))
  then have h: "method_handlers s ?o meth = Some [HCall f, HCall g]"
    using assms(5-7) by (simp add: method_handlers_def)
  obtain k where k: "chain_bound s ?o = Suc (Suc (Suc (Suc k)))"
  proof (rule that)
    have "length (concat (map snd (s2_groups s))) \<noteq> 0" using map_of_SomeD [OF assms(4)] by force
    then show "chain_bound s ?o = Suc (Suc (Suc (Suc (5 * length (concat (map snd (s2_groups s))) - 3))))"
      unfolding chain_bound_def by (cases "length (concat (map snd (s2_groups s)))") simp_all
  qed
  have "rd_wrote d'" "\<not> rd_abort (request_data E world w body msg)" using call_writes [OF assms(8)] by (simp_all add: request_data_def)
  then have "callFunc E (s2_types s) (s2_option s) g d' = (d', None)" by (simp add: callFunc_def)
  then show ?thesis
    using assms(9) \<open>\<not> rd_abort _\<close> unfolding serve_read [OF assms(1,4)] assms(2) h
    by (cases "rd_abort d'") (simp_all add: k assms(8) newRpcContext_def deferred_def Let_def)
qed

end
