(* ===== verification/Spec2Isabelle.thy ===== *)
theory Spec2Isabelle
  imports Prelude Aes Aes_Cbc Rpc_Text Rpc_Message Rpc_Server Rpc_Laws Fifo_Queue Task_Queue Closeable Rpc2 Kv_Store Gorm_Cache Token_Jwt Db_Model Crud Version_Lock Row_Update Iris_Jwt
    Config Lazy_Handles Boot Sha256 Mqtt Web_Handler Web_Server Web_Rpc Captcha_Check Validator Util_Time Util_Data Reflect_Help Process_Control
    Log_Setup Md5 Cache_Names Version_Json Concurrent_Run Web_Debug Http_Client Time_Columns Web_Tokens Environment Ecies Rpc2_Register
begin

text \<open>
  A verification library for \<open>glibs\<close>, a Go library for web services.

  \<^bold>\<open>The program.\<close> A service registers its types with one of two JSON-RPC servers
  (\<open>j2rpc/\<close>, \<open>j2rpc2/\<close>); the HTTP layer (\<open>giris/\<close>, \<open>giris2/\<close>) passes requests on,
  checks the user's token (\<open>jwt/\<close>, \<open>giris/jwt.go\<close>) and encrypts bodies. Handlers reach the
  database through \<open>mdb/\<close>: a handle with options, migration and clean-up, generic operations on
  tables, and a plugin that caches query results in memory or in Redis. \<open>util/\<close> has the task queue
  and the closeable channel that background work goes through, \<open>crypto/\<close> the text encryption,
  \<open>config/\<close> and \<open>boot/\<close> the settings and the start of the process, \<open>cmd/\<close> the
  commands, \<open>gemq/\<close> the connection to a
  message broker and its access control.

  \<^bold>\<open>Theories\<close>, in the order they build on each other; a definition has the name of the Go
  function it translates, with the receiver type or the package in front where the name is
  taken. \<open>PROJECT.json\<close> gives the lines.

  \<^item> \<open>Prelude\<close>: byte strings, the parts of \<open>strings\<close>, \<open>strconv\<close> and \<open>encoding/hex\<close> the code calls,
    64-bit \<open>int\<close> with wrap-around (\<open>wrap64\<close>), results that carry an error, map lemmas.
  \<^item> \<open>Aes\<close>, \<open>Aes_Cbc\<close>: \<open>crypto/aesCBC.go\<close>. The block cipher is written out (FIPS 197, the
    S-box included) and proved invertible, so encryption and decryption evaluate on real keys;
    CBC, padding, hex and raw-URL base64 on top. Round trip and the shape of accepted input.
  \<^item> \<open>Rpc_Text\<close>, \<open>Rpc_Message\<close>, \<open>Rpc_Server\<close>, \<open>Rpc_Laws\<close>: package \<open>j2rpc\<close>. Snake and camel case, body
    encryption, log levels; messages and error codes; argument parsing, registration by
    reflection (the reflected methods are data), the context with its middleware chain, the call
    with panics recovered, the HTTP exchange, the pool of contexts. \<open>Rpc_Laws\<close> has what holds of
    the server as a whole: every request gets its answer, registration and dispatch, order and
    end of the middlewares.
  \<^item> \<open>Rpc2\<close>: package \<open>j2rpc2\<close>: growing handler list with its index, groups, router, server. \<open>Rpc2_Register\<close>: any sequence of
    registrations as the claims of names it makes, and the handlers a request runs afterwards.
  \<^item> \<open>Fifo_Queue\<close>: the interface of the queue type of package \<open>gods\<close>, a locale.
  \<^item> \<open>Task_Queue\<close>: \<open>util/queue.go\<close>, \<open>queue/\<close>: an inductive step relation over the queue, the timer
    loop and the workers; conservation of tasks, limits of worker groups, the retry count.
  \<^item> \<open>Closeable\<close>: \<open>util/closeable.go\<close>: the step relation of senders, forwarding loop and closing;
    no send on a closed channel, values in order.
  \<^item> \<open>Kv_Store\<close>: \<open>mdb/storage.go\<close>, \<open>mdb/storage-redis.go\<close>: the three stores of the cache behind one
    record of operations, with the locale \<open>cache_store\<close> they are interpretations of.
  \<^item> \<open>Gorm_Cache\<close>: \<open>mdb/gm2c.go\<close>: cache keys from statements, the callbacks of query, create,
    update and delete. The cached database refines the database alone for statements the
    plugin handles properly; lemmas beside it show statements it does not.
  \<^item> \<open>Token_Jwt\<close>: \<open>jwt/\<close>: tokens, both stores, login, logout and verification with refresh; a
    session specification that every store implements.
  \<^item> \<open>Iris_Jwt\<close>: \<open>giris/jwt.go\<close>: the older token scheme of the web server: what a token is good for in any run of requests,
    logins and logouts of other users and sweeps.
  \<^item> \<open>Db_Model\<close>: \<open>mdb/db.go\<close>, \<open>mdb/migrate.go\<close>: options, DSN, pool limits, registry of models,
    migration once the lock file is written, deletion of old rows in batches.
  \<^item> \<open>Crud\<close>: \<open>mdb/curd.go\<close>, \<open>mdb/finds.go\<close>: create, delete, update, find, pages (a partition of the rows for an order without ties).
  \<^item> \<open>Version_Lock\<close>: \<open>mdb/version.go\<close>: the version column of creations and updates; of updates made with
    one version at most one is written. gorm's joining of conditions is the locale \<open>where_laws\<close>.
  \<^item> \<open>Row_Update\<close>: an update from the request to the rows, by version and forced: \<open>Crud\<close>, the merge of
    \<open>Util_Data\<close>, the version check and gorm's own columns put together.
  \<^item> \<open>Lazy_Handles\<close>: \<open>mdb/redisv9.go\<close>, the writers of \<open>util/logger.go\<close>, \<open>util/singleton.go\<close>: handles made on first use, each
    caller's look and its making as two steps; the locale \<open>lazy_store\<close> has both maps as instances.
  \<^item> \<open>Config\<close>: \<open>config/config.go\<close>: the two configuration files, the settings read from them and the values set
    by the program, as a refinement of one map. \<open>Boot\<close>: \<open>boot/boot.go\<close>: the order of a start and a stop, options
    from the settings, the count of starts.
  \<^item> \<open>Sha256\<close>, \<open>Mqtt\<close>: \<open>gemq/\<close>: the hash of the clients' passwords written out; access control and, after a \<open>Dial\<close> that connected
    or not, the publisher's step relation.
  \<^item> \<open>Web_Handler\<close>: \<open>giris/handler.go\<close>, \<open>giris2/handler.go\<close>: functions and methods as handlers, and the limit on
    concurrent requests. \<open>Web_Server\<close>: the handlers in front of the routes, the routes and the stopping of both
    servers. \<open>Web_Rpc\<close>: the RPC server of \<open>j2rpc\<close> behind them and behind iris's compression, an argument with
    laws. \<open>Captcha_Check\<close>: \<open>giris/captcha.go\<close>.
  \<^item> \<open>Validator\<close>: \<open>util/validator.go\<close>: regular expressions with a matcher, the four rules as sets of texts, their
    registration. \<open>Util_Time\<close>: \<open>util/time.go\<close>: the calendar, a time as text and back in a zone whose offset
    may change (an argument), the retry loops.
    \<open>Util_Data\<close>: merging of beans, passwords, uploads, slices. \<open>Reflect_Help\<close>: \<open>util/reflect.go\<close> on a heap of objects.
  \<^item> \<open>Process_Control\<close>: \<open>cmd/\<close>, \<open>cmd2/\<close>: start and stop commands on a machine with processes and ports.
    \<open>Environment\<close>: \<open>env/env.go\<close>: the order of the environment files.
  \<^item> \<open>Log_Setup\<close>: \<open>util/logger.go\<close>, \<open>util/logger-interface.go\<close>, \<open>gemq/logger.go\<close>: which lines go where, for both kinds of logger
    (interpretations of the locale \<open>logger\<close>).
  \<^item> \<open>Md5\<close>: MD5 written out, and the ids made with it (\<open>util/uuid.go\<close>, \<open>util/random.go\<close>). \<open>Cache_Names\<close>: the prefix of the query
    cache of a handle is the MD5 of its DSN, so the keys of \<open>Gorm_Cache\<close> tell databases and tables apart.
  \<^item> \<open>Version_Json\<close>, \<open>Time_Columns\<close>: the forms of a version and of a time in JSON and in columns.
  \<^item> \<open>Web_Tokens\<close>: \<open>giris2/jwt.go\<close>, the copy of package \<open>jwt\<close>, shown to do the same as \<open>Token_Jwt\<close>.
  \<^item> \<open>Concurrent_Run\<close>: \<open>util/async.go\<close>: goroutines and a wait group, every interleaving. \<open>Web_Debug\<close>: \<open>giris/pprof.go\<close>: the
    profiler's routes. \<open>Http_Client\<close>: \<open>gresty/resty.go\<close>: the client made on first use. \<open>Ecies\<close>: \<open>crypto/ecies.go\<close>.

  \<^bold>\<open>How code outside the repository appears.\<close> AES, base64, hex, the string functions and map
  and slice semantics are Go's standard library and are written out, and so are MD5, SHA-256, paths, the calendar
  and the layout of times. Redis, freecache,
  ccache, gorm, the SQL server, reflection, JSON of user types, the clock and random sources are arguments:
  records of functions (\<open>rpc_ext\<close>, \<open>gc_ext\<close>, \<open>iris_ext\<close>, ...) whose documented laws are the assumptions of
  locales (\<open>redis_hash\<close>, \<open>ccache_laws\<close>, \<open>token_store\<close>, ...). Every locale is interpreted on the
  model's own definitions or on a concrete provider, and every property that assumes laws
  has a witness at a concrete provider.

  \<^bold>\<open>Bounds.\<close> The middleware chains of both servers run with a bound. \<open>Context_Do_enough\<close>
  and \<open>rpc2_chain_enough\<close> show that the bound the model uses gives the result of every
  larger one: each call of the chain moves the index forward. The retry loop with a limit of its own
  and the loops that wait for another process may run for ever; they are partial functions, and
  \<open>retries_return\<close> and \<open>daemon_replaced\<close> say when they return. All other loops are structural recursion
  or carry a measure. Step relations have no bound: their properties hold in every
  reachable state of any length.

  \<^bold>\<open>Not modelled.\<close> The format of log lines, the handlers of the profiler, captcha pictures and the flags of the
  commands: pure input and output. Locks inside single operations: operations of a mutex-protected structure are
  taken as atomic, except in the task queue, the closeable channel, the handles made on first
  use and the concurrent run, whose interleavings are the subject. Thin wrappers of a single third-party call (cron, scheduler, templates,
  dependency injection, what \<open>resty\<close> does with its settings) and the rounding of floating-point numbers: without the package's
  code there is nothing to state about them. Copies of a file in another package (\<open>giris2/captcha.go\<close>, \<open>giris2/pprof.go\<close>,
  \<open>cmd2/cmd-functions.go\<close>, \<open>j2rpc/reflect.go\<close>) are not written out again where nothing differs. The manifest lists each with its
  reason.
\<close>

end
